(* ===== verification/Prelude.thy ===== *)
theory Prelude
  imports Main "HOL-Library.AList"
begin

text \<open>
  Shared vocabulary of the development: Go strings and byte slices, instants, the error
  values of the program, and the generic lemmas on lists, association lists and maps that
  the component theories use.

  A Go \<^verbatim>\<open>string\<close> and a Go \<^verbatim>\<open>[]byte\<close> are both sequences of bytes. They are modelled
  by HOL's \<open>string\<close>, a list of \<open>char\<close>, where one \<open>char\<close> is one byte, so
  \<open>length\<close> is Go's \<^verbatim>\<open>len\<close>. Where the program works on runes, the UTF-8 encoding is
  written out (theory GoStrings).
\<close>

named_theorems io_reads \<open>programs that read the world and change nothing on disk\<close>
named_theorems fs_simps \<open>effects of the file system calls on the views of the world\<close>

subsection \<open>Instants\<close>

text \<open>
  \<^verbatim>\<open>time.Time\<close> as the number of nanoseconds since Go's zero time (1 January of year 1,
  UTC). The location is dropped: every instant the program stores or compares is converted
  with \<^verbatim>\<open>UTC()\<close> first, or compared as an instant.
\<close>

type_synonym time = int
type_synonym bytes = string

definition isZero :: "time \<Rightarrow> bool" where
  "isZero t \<longleftrightarrow> t = 0"

text \<open>\<^verbatim>\<open>t.Truncate(time.Microsecond)\<close>: down to a multiple of 1000 nanoseconds.\<close>

definition truncate_us :: "time \<Rightarrow> time" where
  "truncate_us t = t - t mod 1000"

lemma truncate_us_idem [simp]: "truncate_us (truncate_us t) = truncate_us t"
  by (simp add: truncate_us_def mod_diff_left_eq [symmetric])

lemma truncate_us_bounds: "truncate_us t \<le> t" "t - truncate_us t < 1000"
  by (simp_all add: truncate_us_def)

subsection \<open>Errors\<close>

text \<open>
  \<^verbatim>\<open>ErrorCode\<close> and \<^verbatim>\<open>AppError\<close> of storage.go. A formatted message is kept as its format
  and its string arguments (positions and lengths are left out), so that every branch of the
  code reports something of its own.
\<close>

datatype ErrorCode =
    ErrValidation
  | ErrPermission
  | ErrNotFound
  | ErrConflict
  | ErrIntegrity
  | ErrCapacity
  | ErrRateLimit

text \<open>The operating system errors the program distinguishes, and one for every other.\<close>

datatype os_error = ENOENT | EEXIST | EISDIR | EWOULDBLOCK | EIO

datatype go_error =
    AppError ErrorCode string "string list"
  | OsError os_error
  | GoError string "string list"
  | Wrapped string "string list" go_error
  | Panic string \<comment> \<open>a run-time panic, which unwinds the call\<close>

definition appErr :: "ErrorCode \<Rightarrow> string \<Rightarrow> string list \<Rightarrow> go_error" where
  "appErr code fmt args = AppError code fmt args"

text \<open>\<^verbatim>\<open>errors.Is(err, os.ErrNotExist)\<close>; a \<open>%w\<close>-wrapped error is looked through.\<close>

fun isNotExist :: "go_error \<Rightarrow> bool" where
  "isNotExist (OsError e) \<longleftrightarrow> e = ENOENT"
| "isNotExist (Wrapped fmt args e) \<longleftrightarrow> isNotExist e"
| "isNotExist _ \<longleftrightarrow> False"

text \<open>\<^verbatim>\<open>errors.As(err, &appErr)\<close>: the application error inside, if there is one.\<close>

fun asAppError :: "go_error \<Rightarrow> (ErrorCode \<times> string \<times> string list) option" where
  "asAppError (AppError c f as) = Some (c, f, as)"
| "asAppError (Wrapped fmt args e) = asAppError e"
| "asAppError _ = None"

definition is_code :: "ErrorCode \<Rightarrow> go_error \<Rightarrow> bool" where
  "is_code c e \<longleftrightarrow> (case asAppError e of None \<Rightarrow> False | Some (c', _) \<Rightarrow> c' = c)"

lemma is_code_appErr [simp]: "is_code c (appErr c' f as) \<longleftrightarrow> c' = c"
  by (simp add: is_code_def appErr_def)

lemma isNotExist_appErr [simp]: "\<not> isNotExist (appErr c f as)"
  by (simp add: appErr_def)

subsection \<open>Results\<close>

definition bindE :: "'e + 'a \<Rightarrow> ('a \<Rightarrow> 'e + 'b) \<Rightarrow> 'e + 'b" where
  "bindE r f = (case r of Inl e \<Rightarrow> Inl e | Inr x \<Rightarrow> f x)"

lemma bindE_simps [simp]: "bindE (Inl e) f = Inl e" "bindE (Inr x) f = f x"
  by (simp_all add: bindE_def)

lemma bindE_Inr_iff: "bindE r f = Inr y \<longleftrightarrow> (\<exists>x. r = Inr x \<and> f x = Inr y)"
  by (cases r) auto

text \<open>A Go loop that stops at the first error and collects one result per element.\<close>

fun mapE :: "('a \<Rightarrow> 'e + 'b) \<Rightarrow> 'a list \<Rightarrow> 'e + 'b list" where
  "mapE f [] = Inr []"
| "mapE f (x # xs) =
     bindE (f x) (\<lambda>y. bindE (mapE f xs) (\<lambda>ys. Inr (y # ys)))"

lemma mapE_Inr_length: "mapE f xs = Inr ys \<Longrightarrow> length ys = length xs"
  by (induction xs arbitrary: ys) (auto simp: bindE_Inr_iff)

lemma mapE_Inr_nth: "mapE f xs = Inr ys \<Longrightarrow> i < length xs \<Longrightarrow> f (xs ! i) = Inr (ys ! i)"
proof (induction xs arbitrary: ys i)
  case Nil
  then show ?case by simp
next
  case (Cons x xs)
  then show ?case by (cases i) (auto simp: bindE_Inr_iff)
qed

lemma mapE_all_Inr: "(\<And>x. x \<in> set xs \<Longrightarrow> f x = Inr (g x)) \<Longrightarrow> mapE f xs = Inr (map g xs)"
  by (induction xs) auto

subsection \<open>Lists\<close>

lemma distinct_snoc: "distinct (xs @ [x]) \<longleftrightarrow> distinct xs \<and> x \<notin> set xs"
  by simp

lemma take_Suc_length_append: "take (Suc (length xs)) (xs @ y # ys) = xs @ [y]"
  by simp

lemma last_conv_nth_eq: "xs \<noteq> [] \<Longrightarrow> xs ! (length xs - Suc 0) = last xs"
  by (simp add: last_conv_nth)

lemma sublist_take_drop: "drop a (take b xs) = take (b - a) (drop a xs)"
  by (simp add: drop_take)

subsection \<open>Positions of a list, as a finite map\<close>

text \<open>
  \<^verbatim>\<open>historyIndex\<close> maps a hash to its position. The map built from a list, with the position
  of every element; on a distinct list it is the inverse of \<open>!\<close>.
\<close>

definition index_of :: "'a list \<Rightarrow> 'a \<Rightarrow> nat option" where
  "index_of xs = map_of (zip xs [0..<length xs])"

lemma index_of_Nil [simp]: "index_of [] = Map.empty"
  by (simp add: index_of_def)

lemma index_of_snoc_fresh:
  "x \<notin> set xs \<Longrightarrow> index_of (xs @ [x]) = (index_of xs)(x \<mapsto> length xs)"
proof -
  assume x: "x \<notin> set xs"
  have none: "map_of (zip xs [0..<length xs]) x = None"
    using x by (simp add: map_of_zip_is_None)
  have "zip (xs @ [x]) [0..<length (xs @ [x])] = zip xs [0..<length xs] @ [(x, length xs)]"
    by simp
  then have "index_of (xs @ [x]) = [x \<mapsto> length xs] ++ index_of xs"
    by (simp only: index_of_def map_of_append) simp
  moreover have "index_of xs x = None"
    using none by (simp only: index_of_def)
  ultimately show ?thesis
    by (auto simp: map_add_def fun_eq_iff simp del: map_of_zip_is_None split: option.splits)
qed

lemma index_of_Some_iff:
  assumes "distinct xs"
  shows "index_of xs x = Some i \<longleftrightarrow> i < length xs \<and> xs ! i = x"
proof -
  have d: "distinct (map fst (zip xs [0..<length xs]))"
    using assms by simp
  have "index_of xs x = Some i \<longleftrightarrow> (x, i) \<in> set (zip xs [0..<length xs])"
    unfolding index_of_def using d by (rule map_of_eq_Some_iff)
  also have "\<dots> \<longleftrightarrow> i < length xs \<and> xs ! i = x"
    by (auto simp: in_set_zip)
  finally show ?thesis .
qed

lemma index_of_None_iff: "index_of xs x = None \<longleftrightarrow> x \<notin> set xs"
proof -
  have "dom (index_of xs) = set xs"
    by (simp add: index_of_def)
  then show ?thesis by auto
qed

lemma index_of_nth: "distinct xs \<Longrightarrow> i < length xs \<Longrightarrow> index_of xs (xs ! i) = Some i"
  by (simp add: index_of_Some_iff)

subsection \<open>Association lists\<close>

lemma map_of_update [simp]: "map_of (AList.update k v al) = (map_of al)(k \<mapsto> v)"
  by (rule update_conv')

lemma map_of_delete [simp]: "map_of (AList.delete k al) = (map_of al)(k := None)"
  by (rule delete_conv')

lemma map_of_filter_key:
  "map_of (filter (\<lambda>(k, v). P k) al) k = (if P k then map_of al k else None)"
  by (induction al) auto

end
