(* ===== verification/GoStrings.thy ===== *)
theory GoStrings
  imports Prelude
begin

text \<open>
  The functions of Go's standard library on strings that the program calls
  (\<^verbatim>\<open>strings\<close>, \<^verbatim>\<open>encoding/hex\<close>, \<^verbatim>\<open>encoding/base64\<close>, the UTF-8 rules), as
  executable functions on byte lists, with the laws the components use: trimming is
  idempotent, hexadecimal and base64 decoding invert encoding.
\<close>

subsection \<open>Package strings\<close>

definition hasPrefix :: "string \<Rightarrow> string \<Rightarrow> bool" where
  "hasPrefix s p \<longleftrightarrow> take (length p) s = p"

definition hasSuffix :: "string \<Rightarrow> string \<Rightarrow> bool" where
  "hasSuffix s p \<longleftrightarrow> length p \<le> length s \<and> drop (length s - length p) s = p"

definition trimPrefix :: "string \<Rightarrow> string \<Rightarrow> string" where
  "trimPrefix s p = (if hasPrefix s p then drop (length p) s else s)"

definition trimSuffix :: "string \<Rightarrow> string \<Rightarrow> string" where
  "trimSuffix s p = (if hasSuffix s p then take (length s - length p) s else s)"

fun containsStr :: "string \<Rightarrow> string \<Rightarrow> bool" where
  "containsStr [] sub \<longleftrightarrow> sub = []"
| "containsStr (c # s) sub \<longleftrightarrow> hasPrefix (c # s) sub \<or> containsStr s sub"

definition containsAny :: "string \<Rightarrow> string \<Rightarrow> bool" where
  "containsAny s cs \<longleftrightarrow> list_ex (\<lambda>c. c \<in> set cs) s"

definition countChar :: "string \<Rightarrow> char \<Rightarrow> nat" where
  "countChar s c = length (filter (\<lambda>x. x = c) s)"

text \<open>\<^verbatim>\<open>strings.Cut(s, sep)\<close> for a separator of one byte: before, after, found.\<close>

definition cutAt :: "char \<Rightarrow> string \<Rightarrow> string \<times> string \<times> bool" where
  "cutAt c s =
     (if c \<in> set s then (takeWhile (\<lambda>x. x \<noteq> c) s, tl (dropWhile (\<lambda>x. x \<noteq> c) s), True)
      else (s, [], False))"

lemma hasPrefix_append [simp]: "hasPrefix (p @ s) p"
  by (simp add: hasPrefix_def)

lemma hasPrefix_iff: "hasPrefix s p \<longleftrightarrow> (\<exists>t. s = p @ t)"
  unfolding hasPrefix_def by (metis append_eq_conv_conj append_take_drop_id)

lemma hasSuffix_append [simp]: "hasSuffix (s @ p) p"
  by (simp add: hasSuffix_def)

lemma hasSuffix_iff: "hasSuffix s p \<longleftrightarrow> (\<exists>t. s = t @ p)"
  unfolding hasSuffix_def
  by (metis add_diff_cancel_right' append_eq_conv_conj append_take_drop_id le_add2 length_append)

lemma trimPrefix_append [simp]: "trimPrefix (p @ s) p = s"
  by (simp add: trimPrefix_def)

lemma trimSuffix_append [simp]: "trimSuffix (s @ p) p = s"
  by (simp add: trimSuffix_def)

lemma trimPrefix_inj:
  "hasPrefix s p \<Longrightarrow> hasPrefix t p \<Longrightarrow> trimPrefix s p = trimPrefix t p \<Longrightarrow> s = t"
  by (auto simp: hasPrefix_iff)

lemma cutAt_found:
  assumes "c \<notin> set a"
  shows "cutAt c (a @ c # b) = (a, b, True)"
proof -
  have "takeWhile (\<lambda>x. x \<noteq> c) (a @ c # b) = a" "dropWhile (\<lambda>x. x \<noteq> c) (a @ c # b) = c # b"
    using assms by (induction a) auto
  then show ?thesis by (simp add: cutAt_def)
qed

lemma cutAt_True: "cutAt c s = (a, b, True) \<Longrightarrow> s = a @ c # b \<and> c \<notin> set a"
proof -
  assume h: "cutAt c s = (a, b, True)"
  then have "c \<in> set s" by (auto simp: cutAt_def split: if_splits)
  then obtain u v where s: "s = u @ c # v" "c \<notin> set u"
    by (metis split_list_first)
  with h show ?thesis by (simp add: cutAt_found)
qed

subsection \<open>TrimSpace\<close>

text \<open>
  \<^verbatim>\<open>strings.TrimSpace\<close> removes leading and trailing runes for which
  \<^verbatim>\<open>unicode.IsSpace\<close> holds. The UTF-8 encodings of these runes are listed. No encoding is a
  proper prefix or suffix of another, and each starts with a byte that starts a rune, so
  decoding a rune at either end of the string finds exactly these byte sequences.
\<close>

definition space_runes :: "string list" where
  "space_runes =
     [[CHR 0x09], [CHR 0x0A], [CHR 0x0B], [CHR 0x0C], [CHR 0x0D], [CHR 0x20],
      [CHR 0xC2, CHR 0x85], [CHR 0xC2, CHR 0xA0], [CHR 0xE1, CHR 0x9A, CHR 0x80],
      [CHR 0xE2, CHR 0x80, CHR 0x80], [CHR 0xE2, CHR 0x80, CHR 0x81],
      [CHR 0xE2, CHR 0x80, CHR 0x82], [CHR 0xE2, CHR 0x80, CHR 0x83],
      [CHR 0xE2, CHR 0x80, CHR 0x84], [CHR 0xE2, CHR 0x80, CHR 0x85],
      [CHR 0xE2, CHR 0x80, CHR 0x86], [CHR 0xE2, CHR 0x80, CHR 0x87],
      [CHR 0xE2, CHR 0x80, CHR 0x88], [CHR 0xE2, CHR 0x80, CHR 0x89],
      [CHR 0xE2, CHR 0x80, CHR 0x8A], [CHR 0xE2, CHR 0x80, CHR 0xA8],
      [CHR 0xE2, CHR 0x80, CHR 0xA9], [CHR 0xE2, CHR 0x80, CHR 0xAF],
      [CHR 0xE2, CHR 0x81, CHR 0x9F], [CHR 0xE3, CHR 0x80, CHR 0x80]]"

text \<open>Strip one of the given words from the front, as long as there is one.\<close>

fun strip_words :: "string list \<Rightarrow> string \<Rightarrow> string" where
  "strip_words ws [] = []"
| "strip_words ws (c # s) =
     (case find (\<lambda>w. w \<noteq> [] \<and> hasPrefix (c # s) w) ws of
        None \<Rightarrow> c # s
      | Some w \<Rightarrow> strip_words ws (drop (length w - 1) s))"

definition trimLeft :: "string \<Rightarrow> string" where
  "trimLeft s = strip_words space_runes s"

definition trimRight :: "string \<Rightarrow> string" where
  "trimRight s = rev (strip_words (map rev space_runes) (rev s))"

definition trimSpace :: "string \<Rightarrow> string" where
  "trimSpace s = trimRight (trimLeft s)"

definition starts_with_word :: "string list \<Rightarrow> string \<Rightarrow> bool" where
  "starts_with_word ws s \<longleftrightarrow> (\<exists>w \<in> set ws. w \<noteq> [] \<and> hasPrefix s w)"

lemma strip_words_result: "\<not> starts_with_word ws (strip_words ws s)"
  by (induction ws s rule: strip_words.induct)
    (auto simp: starts_with_word_def hasPrefix_def find_None_iff split: option.splits)

lemma strip_words_id: "\<not> starts_with_word ws s \<Longrightarrow> strip_words ws s = s"
  by (cases s) (auto simp: starts_with_word_def find_None_iff find_Some_iff split: option.splits)

lemma strip_words_suffix: "\<exists>t. s = t @ strip_words ws s"
proof (induction ws s rule: strip_words.induct)
  case (1 ws)
  show ?case by simp
next
  case (2 ws c s)
  show ?case
  proof (cases "find (\<lambda>w. w \<noteq> [] \<and> hasPrefix (c # s) w) ws")
    case None
    then show ?thesis by simp
  next
    case (Some w)
    with 2 obtain t where t: "drop (length w - 1) s = t @ strip_words ws (drop (length w - 1) s)"
      by blast
    let ?r = "strip_words ws (drop (length w - 1) s)"
    have "c # s = (c # take (length w - 1) s) @ drop (length w - 1) s" by simp
    then have "c # s = ((c # take (length w - 1) s) @ t) @ ?r"
      using t by (metis append.assoc)
    moreover have "strip_words ws (c # s) = ?r"
      using Some by simp
    ultimately show ?thesis by metis
  qed
qed

lemma starts_with_word_append:
  "starts_with_word ws s \<Longrightarrow> starts_with_word ws (s @ t)"
  by (auto simp: starts_with_word_def hasPrefix_iff)

lemma trimRight_prefix: "\<exists>t. s = trimRight s @ t"
proof -
  obtain t where "rev s = t @ strip_words (map rev space_runes) (rev s)"
    using strip_words_suffix by blast
  then have "s = trimRight s @ rev t"
    unfolding trimRight_def by (metis rev_append rev_rev_ident)
  then show ?thesis by blast
qed

lemma trimRight_id:
  "\<not> starts_with_word (map rev space_runes) (rev s) \<Longrightarrow> trimRight s = s"
  by (simp add: trimRight_def strip_words_id)

lemma trimLeft_id: "\<not> starts_with_word space_runes s \<Longrightarrow> trimLeft s = s"
  by (simp add: trimLeft_def strip_words_id)

lemma trimSpace_ends:
  shows "\<not> starts_with_word space_runes (trimSpace s)"
    and "\<not> starts_with_word (map rev space_runes) (rev (trimSpace s))"
proof -
  obtain t where t: "trimLeft s = trimSpace s @ t"
    unfolding trimSpace_def using trimRight_prefix by blast
  show "\<not> starts_with_word space_runes (trimSpace s)"
    using strip_words_result [of space_runes s] starts_with_word_append [of _ "trimSpace s" t]
    by (auto simp: t [symmetric] trimLeft_def)
  show "\<not> starts_with_word (map rev space_runes) (rev (trimSpace s))"
    by (simp add: trimSpace_def trimRight_def strip_words_result)
qed

lemma trimSpace_id:
  assumes "\<not> starts_with_word space_runes s"
    and "\<not> starts_with_word (map rev space_runes) (rev s)"
  shows "trimSpace s = s"
  using assms by (simp add: trimSpace_def trimLeft_id trimRight_id)

lemma trimSpace_idem [simp]: "trimSpace (trimSpace s) = trimSpace s"
  by (rule trimSpace_id) (rule trimSpace_ends)+

lemma trimSpace_Nil [simp]: "trimSpace [] = []"
  by (simp add: trimSpace_def trimLeft_def trimRight_def)

text \<open>
  Text that ends in a printable ASCII byte and starts with one is kept; a newline behind it
  is removed. This is the shape of every ref file the program writes.
\<close>

definition printable :: "char \<Rightarrow> bool" where
  "printable c \<longleftrightarrow> 33 \<le> (of_char c :: nat) \<and> (of_char c :: nat) < 127"

lemma space_runes_not_printable:
  "list_all (\<lambda>w. w \<noteq> [] \<and> \<not> printable (hd w) \<and> \<not> printable (last w)) space_runes"
  by (simp add: space_runes_def printable_def)

lemma not_starts_with_word_printable:
  assumes "list_all (\<lambda>w. w \<noteq> [] \<and> \<not> printable (hd w)) ws" and "printable c"
  shows "\<not> starts_with_word ws (c # s)"
proof
  assume "starts_with_word ws (c # s)"
  then obtain w t where w: "w \<in> set ws" "c # s = w @ t" and ne: "w \<noteq> []"
    by (auto simp: starts_with_word_def hasPrefix_iff)
  have "hd (c # s) = hd (w @ t)" using w(2) by simp
  with ne have "hd w = c" by simp
  moreover have "\<not> printable (hd w)" using assms(1) w(1) by (auto simp: list_all_iff)
  ultimately show False using assms(2) by simp
qed

lemma space_runes_front: "list_all (\<lambda>w. w \<noteq> [] \<and> \<not> printable (hd w)) space_runes"
  using space_runes_not_printable by (auto simp: list_all_iff)

lemma space_runes_back: "list_all (\<lambda>w. w \<noteq> [] \<and> \<not> printable (hd w)) (map rev space_runes)"
  using space_runes_not_printable by (auto simp: list_all_iff hd_rev)

lemma trimSpace_printable:
  assumes "s \<noteq> []" and "list_all printable s"
  shows "trimSpace s = s"
proof (rule trimSpace_id)
  show "\<not> starts_with_word space_runes s"
    using assms not_starts_with_word_printable [OF space_runes_front]
    by (cases s) auto
  show "\<not> starts_with_word (map rev space_runes) (rev s)"
    using assms not_starts_with_word_printable [OF space_runes_back]
    by (cases s rule: rev_cases) auto
qed

lemma trimRight_newline: "trimRight (s @ [CHR 0x0A]) = trimRight s"
proof -
  have "find (\<lambda>w. w \<noteq> [] \<and> hasPrefix (CHR 0x0A # rev s) w) (map rev space_runes) = Some [CHR 0x0A]"
    by (simp add: space_runes_def hasPrefix_def)
  then show ?thesis by (simp add: trimRight_def)
qed

lemma trimSpace_newline:
  assumes "s \<noteq> []" and "list_all printable s"
  shows "trimSpace (s @ [CHR 0x0A]) = s"
proof -
  have "\<not> starts_with_word space_runes (s @ [CHR 0x0A])"
    using assms not_starts_with_word_printable [OF space_runes_front]
    by (cases s) auto
  then have "trimSpace (s @ [CHR 0x0A]) = trimRight (s @ [CHR 0x0A])"
    by (simp add: trimSpace_def trimLeft_id)
  also have "\<dots> = trimRight s"
    by (rule trimRight_newline)
  also have "\<dots> = s"
    using assms not_starts_with_word_printable [OF space_runes_back]
    by (cases s rule: rev_cases) (auto intro!: trimRight_id)
  finally show ?thesis .
qed

end
