(* ===== verification/GoEncoding.thy ===== *)
theory GoEncoding
  imports GoStrings
begin

text \<open>
  \<^verbatim>\<open>encoding/hex\<close>, \<^verbatim>\<open>encoding/base64\<close> (\<^verbatim>\<open>StdEncoding\<close> and
  \<^verbatim>\<open>RawURLEncoding\<close>), the UTF-8 validity rules, ASCII case folding and \<^verbatim>\<open>strconv.Quote\<close> on
  byte lists, and the round trips of the two encodings.
\<close>

abbreviation byte :: "char \<Rightarrow> nat" where
  "byte c \<equiv> of_char c"

lemma byte_less [simp]: "byte c < 256"
proof -
  have "byte c \<in> range (of_char :: char \<Rightarrow> nat)" by simp
  then show ?thesis unfolding range_nat_of_char by simp
qed

lemma byte_div_16 [simp]: "byte c div 16 < 16"
  using byte_less [of c] by linarith

subsection \<open>encoding/hex\<close>

definition hex_digit :: "nat \<Rightarrow> char" where
  "hex_digit n = (if n < 10 then char_of (48 + n) else char_of (87 + n))"

definition hex_value :: "char \<Rightarrow> nat option" where
  "hex_value c =
     (let n = byte c in
      if 48 \<le> n \<and> n \<le> 57 then Some (n - 48)
      else if 97 \<le> n \<and> n \<le> 102 then Some (n - 87)
      else if 65 \<le> n \<and> n \<le> 70 then Some (n - 55)
      else None)"

definition hex_encode :: "bytes \<Rightarrow> string" where
  "hex_encode bs = concat (map (\<lambda>b. [hex_digit (byte b div 16), hex_digit (byte b mod 16)]) bs)"

text \<open>\<^verbatim>\<open>hex.DecodeString\<close>: \<open>None\<close> on a byte that is no digit or an odd length.\<close>

fun hex_decode :: "string \<Rightarrow> bytes option" where
  "hex_decode [] = Some []"
| "hex_decode [c] = None"
| "hex_decode (a # b # s) =
     (case (hex_value a, hex_value b) of
        (Some x, Some y) \<Rightarrow> map_option ((#) (char_of (16 * x + y))) (hex_decode s)
      | _ \<Rightarrow> None)"

lemma hex_value_digit [simp]: "n < 16 \<Longrightarrow> hex_value (hex_digit n) = Some n"
  by (auto simp: hex_value_def hex_digit_def Let_def)

lemma hex_digit_printable: "n < 16 \<Longrightarrow> printable (hex_digit n)"
  by (auto simp: printable_def hex_digit_def)

lemma hex_value_less: "hex_value c = Some n \<Longrightarrow> n < 16"
  by (auto simp: hex_value_def Let_def split: if_splits)

lemma length_hex_encode [simp]: "length (hex_encode bs) = 2 * length bs"
  by (induction bs) (simp_all add: hex_encode_def)

lemma hex_encode_printable: "list_all printable (hex_encode bs)"
  by (induction bs) (simp_all add: hex_encode_def hex_digit_printable)

lemma hex_decode_encode [simp]: "hex_decode (hex_encode bs) = Some bs"
  by (induction bs) (simp_all add: hex_encode_def)

lemma hex_encode_inj: "hex_encode a = hex_encode b \<longleftrightarrow> a = b"
  by (metis hex_decode_encode option.inject)

lemma hex_decode_length: "hex_decode s = Some bs \<Longrightarrow> length s = 2 * length bs"
  by (induction s arbitrary: bs rule: hex_decode.induct) (auto split: option.splits)

subsection \<open>Case folding\<close>

definition lower_byte :: "char \<Rightarrow> char" where
  "lower_byte c = (if 65 \<le> byte c \<and> byte c \<le> 90 then char_of (byte c + 32) else c)"

text \<open>
  \<^verbatim>\<open>strings.EqualFold\<close>. Outside ASCII two runes fold into ASCII: U+212A into \<open>k\<close> and
  U+017F into \<open>s\<close>. The program folds against \<^verbatim>\<open>Bearer\<close>, against hexadecimal digests
  and, after \<^verbatim>\<open>mime.ParseMediaType\<close> has rejected every byte outside ASCII, against
  \<^verbatim>\<open>application/json\<close>: there the byte-wise comparison below is the same.
\<close>

definition equalFold :: "string \<Rightarrow> string \<Rightarrow> bool" where
  "equalFold s t \<longleftrightarrow> map lower_byte s = map lower_byte t"

text \<open>
  \<^verbatim>\<open>strings.ToLower\<close>. The program compares its result with ASCII words. Two runes outside
  ASCII have an ASCII lower case: U+0130 (\<open>i\<close>) and U+212A (\<open>k\<close>); every other one
  stays outside ASCII, so it is left as it is.
\<close>

fun toLower :: "string \<Rightarrow> string" where
  "toLower [] = []"
| "toLower (c # s) =
     (if hasPrefix (c # s) [CHR 0xC4, CHR 0xB0] then CHR ''i'' # toLower (drop 1 s)
      else if hasPrefix (c # s) [CHR 0xE2, CHR 0x84, CHR 0xAA] then CHR ''k'' # toLower (drop 2 s)
      else lower_byte c # toLower s)"

lemma toLower_ascii: "list_all (\<lambda>c. byte c < 128) s \<Longrightarrow> toLower s = map lower_byte s"
  by (induction s rule: toLower.induct) (auto simp: hasPrefix_def)

lemma equalFold_refl [simp]: "equalFold s s"
  by (simp add: equalFold_def)

lemma hex_value_lower [simp]: "hex_value (lower_byte c) = hex_value c"
  by (auto simp: hex_value_def lower_byte_def Let_def)

lemma hex_decode_lower: "hex_decode (map lower_byte s) = hex_decode s"
  by (induction s rule: hex_decode.induct) (simp_all split: option.splits)

lemma hex_value_lower_byte:
  "hex_value a = Some n \<Longrightarrow> byte (lower_byte a) = (if n < 10 then 48 + n else 87 + n)"
  by (auto simp: hex_value_def lower_byte_def Let_def split: if_splits)

lemma hex_value_eq_lower:
  assumes "hex_value a = Some n" and "hex_value b = Some n"
  shows "lower_byte a = lower_byte b"
proof -
  have "byte (lower_byte a) = byte (lower_byte b)"
    using assms by (simp only: hex_value_lower_byte)
  then show ?thesis by simp
qed

lemma hex_pair_inj:
  assumes "x < 16" "y < 16" "x' < 16" "y' < 16"
    and "(char_of (16 * x' + y') :: char) = char_of (16 * x + y)"
  shows "x' = (x :: nat) \<and> y' = y"
proof -
  have "byte (char_of (16 * x' + y')) = byte (char_of (16 * x + y))"
    using assms(5) by (simp only:)
  with assms(1-4) have e: "16 * x' + y' = 16 * x + y" by simp
  then have "(16 * x' + y') div 16 = (16 * x + y) div 16" by (simp only:)
  with assms(2,4) have "x' = x" by simp
  with e show ?thesis by simp
qed

lemma hex_decode_Cons:
  "hex_decode s = Some (c # bs) \<longleftrightarrow>
     (\<exists>a b t x y. s = a # b # t \<and> hex_value a = Some x \<and> hex_value b = Some y
        \<and> hex_decode t = Some bs \<and> c = char_of (16 * x + y))"
  by (cases s rule: hex_decode.cases) (auto split: option.splits)

lemma hex_decode_Nil: "hex_decode s = Some [] \<longleftrightarrow> s = []"
  by (cases s rule: hex_decode.cases) (auto split: option.splits)

lemma hex_decode_eq_lower:
  "hex_decode s = Some bs \<Longrightarrow> hex_decode t = Some bs \<Longrightarrow> map lower_byte s = map lower_byte t"
proof (induction bs arbitrary: s t)
  case Nil
  then show ?case by (simp add: hex_decode_Nil)
next
  case (Cons c bs)
  from Cons.prems(1) obtain a b s' x y where
      s: "s = a # b # s'" "hex_value a = Some x" "hex_value b = Some y" "hex_decode s' = Some bs"
    and c1: "c = char_of (16 * x + y)"
    unfolding hex_decode_Cons by blast
  from Cons.prems(2) obtain a' b' t' x' y' where
      t: "t = a' # b' # t'" "hex_value a' = Some x'" "hex_value b' = Some y'"
        "hex_decode t' = Some bs"
    and c2: "c = char_of (16 * x' + y')"
    unfolding hex_decode_Cons by blast
  have "x' = x \<and> y' = y"
    using s t c1 c2 by (intro hex_pair_inj) (auto dest: hex_value_less)
  with s t have "lower_byte a = lower_byte a'" "lower_byte b = lower_byte b'"
    by (auto intro: hex_value_eq_lower)
  with Cons.IH [OF s(4) t(4)] s(1) t(1) show ?case by simp
qed

text \<open>Two digests decode to the same bytes exactly when they are equal up to case.\<close>

lemma hex_decode_equalFold:
  "hex_decode s = Some bs \<Longrightarrow> equalFold s t \<longleftrightarrow> hex_decode t = Some bs"
  unfolding equalFold_def using hex_decode_eq_lower by (metis hex_decode_lower)

subsection \<open>encoding/base64\<close>

definition b64_std :: string where
  "b64_std = ''ABCDEFGHIJKLMNOPQRSTUVWXYZabcdefghijklmnopqrstuvwxyz0123456789+/''"

definition b64_url :: string where
  "b64_url = ''ABCDEFGHIJKLMNOPQRSTUVWXYZabcdefghijklmnopqrstuvwxyz0123456789-_''"

definition b64_digit :: "nat \<Rightarrow> char" where
  "b64_digit n = b64_std ! n"

definition b64_value :: "char \<Rightarrow> nat option" where
  "b64_value c = map_of (zip b64_std [0..<64]) c"

fun b64_encode :: "bytes \<Rightarrow> string" where
  "b64_encode [] = []"
| "b64_encode [a] =
     [b64_digit (byte a div 4), b64_digit (byte a mod 4 * 16), CHR ''='', CHR ''='']"
| "b64_encode [a, b] =
     [b64_digit (byte a div 4), b64_digit (byte a mod 4 * 16 + byte b div 16),
      b64_digit (byte b mod 16 * 4), CHR ''='']"
| "b64_encode (a # b # c # s) =
     b64_digit (byte a div 4) # b64_digit (byte a mod 4 * 16 + byte b div 16)
     # b64_digit (byte b mod 16 * 4 + byte c div 64) # b64_digit (byte c mod 64)
     # b64_encode s"

text \<open>One quantum of four digits after the other; padding ends the text.\<close>

fun b64_quanta :: "string \<Rightarrow> bytes option" where
  "b64_quanta [] = Some []"
| "b64_quanta (a # b # c # d # s) =
     (case (b64_value a, b64_value b) of
        (Some x, Some y) \<Rightarrow>
          if c = CHR ''='' then
            (if d = CHR ''='' \<and> s = [] then Some [char_of (x * 4 + y div 16)] else None)
          else (case b64_value c of
             None \<Rightarrow> None
           | Some z \<Rightarrow>
               if d = CHR ''='' then
                 (if s = [] then Some [char_of (x * 4 + y div 16), char_of (y mod 16 * 16 + z div 4)]
                  else None)
               else (case b64_value d of
                  None \<Rightarrow> None
                | Some u \<Rightarrow> map_option
                    (\<lambda>r. char_of (x * 4 + y div 16) # char_of (y mod 16 * 16 + z div 4)
                         # char_of (z mod 4 * 64 + u) # r) (b64_quanta s)))
      | _ \<Rightarrow> None)"
| "b64_quanta _ = None"

text \<open>
  \<^verbatim>\<open>base64.StdEncoding.DecodeString\<close>: line breaks are skipped everywhere, the bits behind
  the last byte are not checked.
\<close>

definition b64_decode :: "string \<Rightarrow> bytes option" where
  "b64_decode s = b64_quanta (filter (\<lambda>c. c \<noteq> CHR 0x0A \<and> c \<noteq> CHR 0x0D) s)"

definition b64_raw_url_encode :: "bytes \<Rightarrow> string" where
  "b64_raw_url_encode bs =
     map (\<lambda>c. if c = CHR ''+'' then CHR ''-'' else if c = CHR ''/'' then CHR ''_'' else c)
       (filter (\<lambda>c. c \<noteq> CHR ''='') (b64_encode bs))"

lemma b64_digit_facts:
  "list_all (\<lambda>n. b64_value (b64_digit n) = Some n \<and> printable (b64_digit n)
     \<and> b64_digit n \<noteq> CHR ''='' \<and> b64_digit n \<noteq> CHR 0x0A \<and> b64_digit n \<noteq> CHR 0x0D) [0..<64]"
  by code_simp

lemma b64_digit_value [simp]: "n < 64 \<Longrightarrow> b64_value (b64_digit n) = Some n"
  and b64_digit_printable: "n < 64 \<Longrightarrow> printable (b64_digit n)"
  and b64_digit_not_pad [simp]: "n < 64 \<Longrightarrow> b64_digit n \<noteq> CHR ''=''"
  and b64_digit_not_break: "n < 64 \<Longrightarrow> b64_digit n \<noteq> CHR 0x0A \<and> b64_digit n \<noteq> CHR 0x0D"
  using b64_digit_facts by (auto simp: list_all_iff)

lemma b64_ranges [simp]:
  "byte a div 4 < 64" "byte a mod 4 * 16 < 64" "byte a mod 4 * 16 + byte b div 16 < 64"
  "byte b mod 16 * 4 < 64" "byte b mod 16 * 4 + byte c div 64 < 64" "byte c mod 64 < 64"
  using byte_less [of a] byte_less [of b] byte_less [of c] by linarith+

lemma b64_encode_printable: "list_all printable (b64_encode bs)"
  by (induction bs rule: b64_encode.induct) (simp_all add: b64_digit_printable printable_def [of "CHR ''=''"])

lemma b64_encode_no_break:
  "list_all (\<lambda>c. c \<noteq> CHR 0x0A \<and> c \<noteq> CHR 0x0D) (b64_encode bs)"
  by (induction bs rule: b64_encode.induct) (simp_all add: b64_digit_not_break)

lemma b64_bytes:
  "(char_of (byte a div 4 * 4 + byte a mod 4 * 16 div 16) :: char) = a"
  "(char_of (byte a div 4 * 4 + (byte a mod 4 * 16 + byte b div 16) div 16) :: char) = a"
  "(char_of ((byte a mod 4 * 16 + byte b div 16) mod 16 * 16 + byte b mod 16 * 4 div 4) :: char) = b"
  "(char_of ((byte a mod 4 * 16 + byte b div 16) mod 16 * 16
      + (byte b mod 16 * 4 + byte c div 64) div 4) :: char) = b"
  "(char_of ((byte b mod 16 * 4 + byte c div 64) mod 4 * 64 + byte c mod 64) :: char) = c"
proof -
  have b16: "byte b div 16 < 16" and c64: "byte c div 64 < 4"
    using byte_less [of b] byte_less [of c] by linarith+
  show "(char_of (byte a div 4 * 4 + byte a mod 4 * 16 div 16) :: char) = a"
    by simp
  have "(byte a mod 4 * 16 + byte b div 16) div 16 = byte a mod 4"
    using b16 by simp
  then show "(char_of (byte a div 4 * 4 + (byte a mod 4 * 16 + byte b div 16) div 16) :: char) = a"
    by (simp only: div_mult_mod_eq char_of_char)
  have m: "(byte a mod 4 * 16 + byte b div 16) mod 16 = byte b div 16"
    using b16 by simp
  show "(char_of ((byte a mod 4 * 16 + byte b div 16) mod 16 * 16 + byte b mod 16 * 4 div 4) :: char) = b"
    unfolding m by simp
  have "(byte b mod 16 * 4 + byte c div 64) div 4 = byte b mod 16"
    using c64 by simp
  then show "(char_of ((byte a mod 4 * 16 + byte b div 16) mod 16 * 16
      + (byte b mod 16 * 4 + byte c div 64) div 4) :: char) = b"
    unfolding m by (simp only: div_mult_mod_eq char_of_char)
  have "(byte b mod 16 * 4 + byte c div 64) mod 4 = byte c div 64"
    using c64 by simp
  then show "(char_of ((byte b mod 16 * 4 + byte c div 64) mod 4 * 64 + byte c mod 64) :: char) = c"
    by (simp only: div_mult_mod_eq char_of_char)
qed

lemma b64_quanta_encode: "b64_quanta (b64_encode bs) = Some bs"
proof (induction bs rule: b64_encode.induct)
  case 1
  show ?case by simp
next
  case (2 a)
  show ?case using b64_bytes(1) [of a] by simp
next
  case (3 a b)
  show ?case using b64_bytes(2,3) [of a b] by simp
next
  case (4 a b c s)
  then show ?case using b64_bytes(2) [of a b] b64_bytes(4) [of a b c] b64_bytes(5) [of b c]
    by simp
qed

lemma b64_decode_encode [simp]: "b64_decode (b64_encode bs) = Some bs"
proof -
  have "filter (\<lambda>c. c \<noteq> CHR 0x0A \<and> c \<noteq> CHR 0x0D) (b64_encode bs) = b64_encode bs"
    using b64_encode_no_break [of bs] by (simp add: filter_id_conv list_all_iff)
  then show ?thesis by (simp add: b64_decode_def b64_quanta_encode)
qed

lemma b64_encode_inj: "b64_encode a = b64_encode b \<longleftrightarrow> a = b"
  by (metis b64_decode_encode option.inject)

subsection \<open>UTF-8\<close>

definition cont_byte :: "char \<Rightarrow> bool" where
  "cont_byte c \<longleftrightarrow> 0x80 \<le> byte c \<and> byte c \<le> 0xBF"

text \<open>\<^verbatim>\<open>utf8.ValidString\<close>: no overlong form, no surrogate, nothing above U+10FFFF.\<close>

fun utf8_valid :: "string \<Rightarrow> bool" where
  "utf8_valid [] = True"
| "utf8_valid (a # s) =
     (let n = byte a in
      if n < 0x80 then utf8_valid s
      else if 0xC2 \<le> n \<and> n \<le> 0xDF then
        (case s of b # s' \<Rightarrow> cont_byte b \<and> utf8_valid s' | _ \<Rightarrow> False)
      else if 0xE0 \<le> n \<and> n \<le> 0xEF then
        (case s of b # c # s' \<Rightarrow>
           cont_byte b \<and> cont_byte c \<and> (n = 0xE0 \<longrightarrow> 0xA0 \<le> byte b)
           \<and> (n = 0xED \<longrightarrow> byte b \<le> 0x9F) \<and> utf8_valid s'
         | _ \<Rightarrow> False)
      else if 0xF0 \<le> n \<and> n \<le> 0xF4 then
        (case s of b # c # d # s' \<Rightarrow>
           cont_byte b \<and> cont_byte c \<and> cont_byte d \<and> (n = 0xF0 \<longrightarrow> 0x90 \<le> byte b)
           \<and> (n = 0xF4 \<longrightarrow> byte b \<le> 0x8F) \<and> utf8_valid s'
         | _ \<Rightarrow> False)
      else False)"

lemma utf8_valid_ascii: "list_all (\<lambda>c. byte c < 128) s \<Longrightarrow> utf8_valid s"
  by (induction s) (auto simp: Let_def)

lemma utf8_valid_printable: "list_all printable s \<Longrightarrow> utf8_valid s"
  by (rule utf8_valid_ascii) (auto simp: list_all_iff printable_def)

end
