(* ===== verification/FileSys.thy ===== *)
theory FileSys
  imports GoEncoding
begin

text \<open>
  The operating system as the program sees it: directories, files, their contents, the
  clock, the random source and the environment, with the calls of package \<^verbatim>\<open>os\<close> that the
  program makes, and the two file-writing procedures of storage.go built from them.

  Three things are made explicit. (1) Every call can fail: the world carries a list of
  faults, one entry per call, and a theorem quantified over worlds holds for every pattern
  of failures. A crash after \<open>k\<close> calls is the pattern in which every later call fails
  without effect. (2) What a process reads is the live state; what survives a crash is
  something else: a directory entry may be any value it had since its directory was last
  synced, and the contents of a file are only certain once the file was synced
  (\<open>crash_ents\<close>, \<open>after_crash\<close>, \<open>crash\<close>). (3) A failed write may leave a part of the
  data behind.
\<close>

subsection \<open>The world\<close>

text \<open>A path is the list of its components, relative to an arbitrary root.\<close>

type_synonym path = "string list"

text \<open>
  The path a string names: its components, with a leading \<^verbatim>\<open>/\<close> kept and empty and \<^verbatim>\<open>.\<close>
  components dropped, as \<^verbatim>\<open>filepath\<close> does.
\<close>

fun splitOn :: "char \<Rightarrow> string \<Rightarrow> string list" where
  "splitOn c [] = [[]]"
| "splitOn c (x # xs) =
     (if x = c then [] # splitOn c xs
      else case splitOn c xs of [] \<Rightarrow> [[x]] | y # ys \<Rightarrow> (x # y) # ys)"

definition toPath :: "string \<Rightarrow> path" where
  "toPath s = (if hasPrefix s ''/'' then [''/''] else [])
     @ filter (\<lambda>c. c \<noteq> [] \<and> c \<noteq> ''.'') (splitOn (CHR ''/'') s)"

record inode =
  idata :: bytes
  isynced :: bool
  imode :: nat

record world =
  dirs :: "path list"
  ents :: "(path \<times> nat) list" \<comment> \<open>live directory entries of files\<close>
  dents :: "(path \<times> nat) list" \<comment> \<open>entries as of the last sync of their directory\<close>
  dlog :: "(path \<times> nat option) list" \<comment> \<open>every change of an entry since then\<close>
  inodes :: "nat \<Rightarrow> inode"
  faults :: "nat option list" \<comment> \<open>what the next calls do: \<open>None\<close> is run, \<open>Some k\<close> is fail\<close>
  wall :: time
  entropy :: "nat \<Rightarrow> char"
  drawn :: nat
  environ :: "string \<rightharpoonup> string"
  flocks :: "(path \<times> nat) list" \<comment> \<open>advisory locks: file and holding descriptor\<close>
  next_fd :: nat \<comment> \<open>descriptors are numbered in the order they are opened\<close>

type_synonym 'a io = "world \<Rightarrow> (go_error + 'a) \<times> world"
type_synonym handle = "path \<times> nat"

definition io_ret :: "'a \<Rightarrow> 'a io" where
  "io_ret x = (\<lambda>w. (Inr x, w))"

definition io_fail :: "go_error \<Rightarrow> 'a io" where
  "io_fail e = (\<lambda>w. (Inl e, w))"

definition io_lift :: "go_error + 'a \<Rightarrow> 'a io" where
  "io_lift r = (\<lambda>w. (r, w))"

text \<open>\<^verbatim>\<open>x, err := m(); if err != nil { return err }; f(x)\<close>\<close>

definition io_bind :: "'a io \<Rightarrow> ('a \<Rightarrow> 'b io) \<Rightarrow> 'b io" where
  "io_bind m f = (\<lambda>w. case m w of (Inl e, w') \<Rightarrow> (Inl e, w') | (Inr x, w') \<Rightarrow> f x w')"

text \<open>\<^verbatim>\<open>x, err := m()\<close> where the code goes on with the error as a value.\<close>

definition io_try :: "'a io \<Rightarrow> (go_error + 'a) io" where
  "io_try m = (\<lambda>w. case m w of (r, w') \<Rightarrow> (Inr r, w'))"

text \<open>\<^verbatim>\<open>defer d()\<close> around \<open>m\<close>: \<open>d\<close> runs on every path, its result is dropped.\<close>

definition io_defer :: "'a io \<Rightarrow> unit io \<Rightarrow> 'a io" where
  "io_defer m d = (\<lambda>w. case m w of (r, w') \<Rightarrow> (r, snd (d w')))"

text \<open>\<^verbatim>\<open>if err := m(); err != nil { d(); return err }\<close>\<close>

definition io_onerr :: "'a io \<Rightarrow> unit io \<Rightarrow> 'a io" where
  "io_onerr m d = (\<lambda>w. case m w of (Inl e, w') \<Rightarrow> (Inl e, snd (d w')) | (Inr x, w') \<Rightarrow> (Inr x, w'))"

lemma io_bind_Inr_iff:
  "io_bind m f w = (Inr y, w') \<longleftrightarrow> (\<exists>x w1. m w = (Inr x, w1) \<and> f x w1 = (Inr y, w'))"
  by (cases "m w" rule: prod.exhaust, cases "fst (m w)") (auto simp: io_bind_def split: sum.splits)

lemma io_bind_Inl_iff:
  "io_bind m f w = (Inl e, w') \<longleftrightarrow>
     m w = (Inl e, w') \<or> (\<exists>x w1. m w = (Inr x, w1) \<and> f x w1 = (Inl e, w'))"
  by (cases "m w" rule: prod.exhaust, cases "fst (m w)") (auto simp: io_bind_def split: sum.splits)

lemma io_simps [simp]:
  "io_ret x w = (Inr x, w)" "io_fail e w = (Inl e, w)" "io_lift r w = (r, w)"
  by (simp_all add: io_ret_def io_fail_def io_lift_def)

lemma io_defer_iff: "io_defer m d w = (r, w') \<longleftrightarrow> (\<exists>w1. m w = (r, w1) \<and> w' = snd (d w1))"
  by (cases "m w") (auto simp: io_defer_def)

lemma io_onerr_Inr_iff: "io_onerr m d w = (Inr x, w') \<longleftrightarrow> m w = (Inr x, w')"
  by (cases "m w" rule: prod.exhaust, cases "fst (m w)") (auto simp: io_onerr_def split: sum.splits)

lemma io_onerr_Inl_iff:
  "io_onerr m d w = (Inl e, w') \<longleftrightarrow> (\<exists>w1. m w = (Inl e, w1) \<and> w' = snd (d w1))"
  by (cases "m w" rule: prod.exhaust, cases "fst (m w)") (auto simp: io_onerr_def split: sum.splits)

lemmas io_iffs = io_bind_Inr_iff io_bind_Inl_iff io_defer_iff io_onerr_Inr_iff io_onerr_Inl_iff

lemmas io_defs = io_ret_def io_fail_def io_lift_def io_bind_def io_try_def io_defer_def io_onerr_def

text \<open>
  One call of the operating system: it takes one entry of the fault list. An injected failure
  is \<open>EIO\<close>, which stands for every failure the program does not tell apart (a device error,
  a full disk, a missing permission); that a file is missing or in the way follows from the
  state.
\<close>

definition syscall :: "'a io \<Rightarrow> 'a io" where
  "syscall m = (\<lambda>w. case faults w of
       [] \<Rightarrow> m w
     | None # fs \<Rightarrow> m (w\<lparr>faults := fs\<rparr>)
     | Some k # fs \<Rightarrow> (Inl (OsError EIO), w\<lparr>faults := fs\<rparr>))"

subsection \<open>Calls that read\<close>

definition fcontent :: "world \<Rightarrow> path \<Rightarrow> bytes option" where
  "fcontent w p = map_option (\<lambda>i. idata (inodes w i)) (map_of (ents w) p)"

definition readFile :: "path \<Rightarrow> bytes io" where
  "readFile p = syscall (\<lambda>w.
     if p \<in> set (dirs w) then (Inl (OsError EISDIR), w)
     else (case fcontent w p of None \<Rightarrow> (Inl (OsError ENOENT), w) | Some b \<Rightarrow> (Inr b, w)))"

text \<open>\<^verbatim>\<open>os.Stat\<close> and \<^verbatim>\<open>os.Lstat\<close>, where only the error is used.\<close>

definition statFile :: "path \<Rightarrow> unit io" where
  "statFile p = syscall (\<lambda>w.
     if p \<in> set (dirs w) \<or> map_of (ents w) p \<noteq> None then (Inr (), w)
     else (Inl (OsError ENOENT), w))"

definition readClock :: "time io" where
  "readClock = (\<lambda>w. (Inr (wall w), w))"

text \<open>\<^verbatim>\<open>io.ReadFull(rand.Reader, buf)\<close>\<close>

definition readRandom :: "nat \<Rightarrow> bytes io" where
  "readRandom n = syscall (\<lambda>w.
     (Inr (map (entropy w) [drawn w ..< drawn w + n]), w\<lparr>drawn := drawn w + n\<rparr>))"

definition setDir :: "path \<Rightarrow> world \<Rightarrow> world" where
  "setDir p w = w\<lparr>dirs := List.insert p (dirs w)\<rparr>"

text \<open>
  \<^verbatim>\<open>os.MkdirAll\<close> makes every missing directory on the way; a file in the way is an error.
  Permission bits of directories are not tracked, so \<^verbatim>\<open>os.Chmod\<close> on one only may fail.
\<close>

definition mkdirAll :: "path \<Rightarrow> unit io" where
  "mkdirAll p = syscall (\<lambda>w.
     let ps = map (\<lambda>k. take k p) [0..<Suc (length p)] in
     if list_ex (\<lambda>q. map_of (ents w) q \<noteq> None) ps then (Inl (OsError EEXIST), w)
     else (Inr (), fold setDir ps w))"

definition chmodDir :: "path \<Rightarrow> unit io" where
  "chmodDir p = syscall (\<lambda>w.
     if p \<in> set (dirs w) then (Inr (), w) else (Inl (OsError ENOENT), w))"

definition chmodPath :: "path \<Rightarrow> nat \<Rightarrow> unit io" where
  "chmodPath p m = syscall (\<lambda>w. case map_of (ents w) p of
       None \<Rightarrow> (Inl (OsError ENOENT), w)
     | Some i \<Rightarrow> (Inr (), w\<lparr>inodes := (inodes w)(i := (inodes w i)\<lparr>imode := m\<rparr>)\<rparr>))"

definition getenv :: "string \<Rightarrow> string io" where
  "getenv v = (\<lambda>w. (Inr (case environ w v of None \<Rightarrow> [] | Some s \<Rightarrow> s), w))"

subsection \<open>Calls that write\<close>

definition fresh_ino :: "world \<Rightarrow> nat" where
  "fresh_ino w = Suc (foldr max (map snd (ents w) @ map snd (dents w)
     @ concat (map (\<lambda>(p, v). case v of None \<Rightarrow> [] | Some i \<Rightarrow> [i]) (dlog w))) 0)"

text \<open>
  \<^verbatim>\<open>os.CreateTemp(dir, prefix + "*")\<close> chooses a name that does not exist and opens it
  exclusively. The model takes the first name of digits longer than every name in use.
\<close>

definition tmp_suffix :: "world \<Rightarrow> string" where
  "tmp_suffix w =
     replicate (Suc (foldr max (map (\<lambda>(p, i). length (last p)) (ents w)) 0)) (CHR ''0'')"

definition tmp_path :: "world \<Rightarrow> path \<Rightarrow> string \<Rightarrow> path" where
  "tmp_path w d pre = d @ [pre @ tmp_suffix w]"

definition createNamed :: "path \<Rightarrow> (world \<Rightarrow> path) \<Rightarrow> handle io" where
  "createNamed d name = syscall (\<lambda>w.
     if d \<notin> set (dirs w) then (Inl (OsError ENOENT), w)
     else let p = name w; i = fresh_ino w in
       (Inr (p, i), w\<lparr>ents := AList.update p i (ents w), dlog := (p, Some i) # dlog w,
          inodes := (inodes w)(i := \<lparr>idata = [], isynced = False, imode = 0x180\<rparr>)\<rparr>))"

definition createTemp :: "path \<Rightarrow> string \<Rightarrow> handle io" where
  "createTemp d pre = createNamed d (\<lambda>w. tmp_path w d pre)"

text \<open>The same for a pattern with something behind the \<^verbatim>\<open>*\<close>.\<close>

definition tmp_path_suffix :: "world \<Rightarrow> path \<Rightarrow> string \<Rightarrow> string \<Rightarrow> path" where
  "tmp_path_suffix w d pre suf = d @ [pre @ tmp_suffix w @ suf]"

definition createTempSuffix :: "path \<Rightarrow> string \<Rightarrow> string \<Rightarrow> handle io" where
  "createTempSuffix d pre suf = createNamed d (\<lambda>w. tmp_path_suffix w d pre suf)"

definition set_inode :: "nat \<Rightarrow> (inode \<Rightarrow> inode) \<Rightarrow> world \<Rightarrow> world" where
  "set_inode i f w = w\<lparr>inodes := (inodes w)(i := f (inodes w i))\<rparr>"

definition fileChmod :: "handle \<Rightarrow> nat \<Rightarrow> unit io" where
  "fileChmod f m = syscall (\<lambda>w. (Inr (), set_inode (snd f) (imode_update (\<lambda>_. m)) w))"

text \<open>A failed write leaves the number of bytes behind that the fault names.\<close>

definition append_data :: "bytes \<Rightarrow> inode \<Rightarrow> inode" where
  "append_data b n = n\<lparr>idata := idata n @ b, isynced := False\<rparr>"

definition fileWrite :: "handle \<Rightarrow> bytes \<Rightarrow> unit io" where
  "fileWrite f b = (\<lambda>w. case faults w of
       Some k # fs \<Rightarrow>
         (Inl (OsError EIO), set_inode (snd f) (append_data (take k b)) (w\<lparr>faults := fs\<rparr>))
     | fs \<Rightarrow> (Inr (), set_inode (snd f) (append_data b) (w\<lparr>faults := tl fs\<rparr>)))"

definition fileSync :: "handle \<Rightarrow> unit io" where
  "fileSync f = syscall (\<lambda>w. (Inr (), set_inode (snd f) (isynced_update (\<lambda>_. True)) w))"

definition fileClose :: "handle \<Rightarrow> unit io" where
  "fileClose f = syscall (\<lambda>w. (Inr (), w))"

definition osRename :: "path \<Rightarrow> path \<Rightarrow> unit io" where
  "osRename old new = syscall (\<lambda>w.
     case map_of (ents w) old of
       None \<Rightarrow> (Inl (OsError ENOENT), w)
     | Some i \<Rightarrow>
         if new \<in> set (dirs w) then (Inl (OsError EEXIST), w)
         else if butlast new \<notin> set (dirs w) then (Inl (OsError ENOENT), w)
         else (Inr (), w\<lparr>ents := AList.update new i (AList.delete old (ents w)),
                 dlog := (new, Some i) # (old, None) # dlog w\<rparr>))"

definition osLink :: "path \<Rightarrow> path \<Rightarrow> unit io" where
  "osLink old new = syscall (\<lambda>w.
     case map_of (ents w) old of
       None \<Rightarrow> (Inl (OsError ENOENT), w)
     | Some i \<Rightarrow>
         if new \<in> set (dirs w) \<or> map_of (ents w) new \<noteq> None then (Inl (OsError EEXIST), w)
         else if butlast new \<notin> set (dirs w) then (Inl (OsError ENOENT), w)
         else (Inr (), w\<lparr>ents := AList.update new i (ents w),
                 dlog := (new, Some i) # dlog w\<rparr>))"

definition osRemove :: "path \<Rightarrow> unit io" where
  "osRemove p = syscall (\<lambda>w.
     case map_of (ents w) p of
       None \<Rightarrow> (Inl (OsError ENOENT), w)
     | Some i \<Rightarrow> (Inr (), w\<lparr>ents := AList.delete p (ents w), dlog := (p, None) # dlog w\<rparr>))"

text \<open>\<^verbatim>\<open>os.Open\<close> of a directory, and \<^verbatim>\<open>Sync\<close> on it.\<close>

definition openDir :: "path \<Rightarrow> unit io" where
  "openDir d = syscall (\<lambda>w.
     if d \<in> set (dirs w) then (Inr (), w) else (Inl (OsError ENOENT), w))"

definition in_dir :: "path \<Rightarrow> path \<Rightarrow> bool" where
  "in_dir d p \<longleftrightarrow> butlast p = d"

definition fsyncDir :: "path \<Rightarrow> unit io" where
  "fsyncDir d = syscall (\<lambda>w. (Inr (), w\<lparr>
     dents := filter (\<lambda>(p, i). in_dir d p) (ents w) @ filter (\<lambda>(p, i). \<not> in_dir d p) (dents w),
     dlog := filter (\<lambda>(p, v). \<not> in_dir d p) (dlog w)\<rparr>))"

definition closeDir :: "path \<Rightarrow> unit io" where
  "closeDir d = syscall (\<lambda>w. (Inr (), w))"

subsection \<open>The procedures of storage.go\<close>

definition syncDir :: "path \<Rightarrow> unit io" where
  "syncDir d = io_bind (openDir d) (\<lambda>_. io_defer (fsyncDir d) (closeDir d))"

text \<open>The steps on the temporary file that both procedures share.\<close>

definition fillTemp :: "handle \<Rightarrow> bytes \<Rightarrow> nat \<Rightarrow> unit io" where
  "fillTemp tmp data mode =
     io_bind (io_onerr (fileChmod tmp mode) (fileClose tmp)) (\<lambda>_.
     io_bind (io_onerr (fileWrite tmp data) (fileClose tmp)) (\<lambda>_.
     io_bind (io_onerr (fileSync tmp) (fileClose tmp)) (\<lambda>_.
     fileClose tmp)))"

text \<open>
  \<^verbatim>\<open>atomicWriteFile\<close>, and the same steps with another name pattern: catalog.go and auth.go
  write their files this way too.
\<close>

definition replaceFile :: "string \<Rightarrow> path \<Rightarrow> bytes \<Rightarrow> nat \<Rightarrow> unit io" where
  "replaceFile pre p data mode =
     io_bind (createTemp (butlast p) pre) (\<lambda>tmp.
     io_defer
       (io_bind (fillTemp tmp data mode) (\<lambda>_.
        io_bind (osRename (fst tmp) p) (\<lambda>_.
        syncDir (butlast p))))
       (osRemove (fst tmp)))"

definition atomicWriteFile :: "path \<Rightarrow> bytes \<Rightarrow> nat \<Rightarrow> unit io" where
  "atomicWriteFile = replaceFile ''.jaybase-write-''"

definition atomicCreateFile :: "path \<Rightarrow> bytes \<Rightarrow> nat \<Rightarrow> unit io" where
  "atomicCreateFile p data mode =
     io_bind (createTemp (butlast p) ''.jaybase-node-'') (\<lambda>tmp.
     io_defer
       (io_bind (fillTemp tmp data mode) (\<lambda>_.
        io_bind (osLink (fst tmp) p) (\<lambda>_.
        syncDir (butlast p))))
       (osRemove (fst tmp)))"

end
