(* ===== verification/FileSysLaws.thy ===== *)
theory FileSysLaws
  imports FileSys
begin

text \<open>
  What the file-writing procedures guarantee under every pattern of failures: a crash or an
  error leaves the old contents or the new contents at the target, never a mixture; a
  reported success is durable; no other path changes. The contract is stated as a locale,
  \<open>atomic_replace\<close>, whose clients are the root ref, the named refs, the credential file
  and the catalog file.
\<close>

subsection \<open>What a crash may leave\<close>

definition crash_ents :: "world \<Rightarrow> path \<Rightarrow> nat option set" where
  "crash_ents w p = {map_of (ents w) p, map_of (dents w) p} \<union> {v. (p, v) \<in> set (dlog w)}"

definition settled :: "world \<Rightarrow> nat \<Rightarrow> bytes \<Rightarrow> bool" where
  "settled w i b \<longleftrightarrow> isynced (inodes w i) \<and> idata (inodes w i) = b"

text \<open>
  \<open>after_crash w p C\<close>: whatever instant the machine stops at, with the calls done so far,
  the file found at \<open>p\<close> after a restart satisfies \<open>C\<close> (\<open>None\<close>: no such file).
\<close>

definition after_crash :: "world \<Rightarrow> path \<Rightarrow> (bytes option \<Rightarrow> bool) \<Rightarrow> bool" where
  "after_crash w p C \<longleftrightarrow> (\<forall>v \<in> crash_ents w p.
     case v of None \<Rightarrow> C None
     | Some i \<Rightarrow> isynced (inodes w i) \<and> C (Some (idata (inodes w i))))"

text \<open>The restart itself: the worlds a machine may come up with.\<close>

definition crash :: "world \<Rightarrow> world \<Rightarrow> bool" where
  "crash w w' \<longleftrightarrow>
     (\<forall>p. map_of (ents w') p \<in> crash_ents w p)
     \<and> (\<forall>i. isynced (inodes w i) \<longrightarrow> idata (inodes w' i) = idata (inodes w i) \<and> isynced (inodes w' i))
     \<and> dents w' = ents w' \<and> dlog w' = [] \<and> dirs w' = dirs w \<and> flocks w' = []"

lemma after_crash_None: "after_crash w p C \<Longrightarrow> None \<in> crash_ents w p \<Longrightarrow> C None"
  unfolding after_crash_def by force

lemma after_crash_Some:
  "after_crash w p C \<Longrightarrow> Some i \<in> crash_ents w p \<Longrightarrow>
     isynced (inodes w i) \<and> C (Some (idata (inodes w i)))"
  unfolding after_crash_def by force

lemma after_crashI:
  "(None \<in> crash_ents w p \<Longrightarrow> C None) \<Longrightarrow>
   (\<And>i. Some i \<in> crash_ents w p \<Longrightarrow> isynced (inodes w i) \<and> C (Some (idata (inodes w i))))
   \<Longrightarrow> after_crash w p C"
  unfolding after_crash_def by (auto split: option.split)

lemma crash_ents_after: "crash w w' \<Longrightarrow> crash_ents w' p = {map_of (ents w') p}"
  by (simp add: crash_def crash_ents_def)

lemma after_crash_restart:
  assumes "after_crash w p C" and "crash w w'"
  shows "after_crash w' p C"
proof (rule after_crashI)
  have e: "map_of (ents w') p \<in> crash_ents w p"
    using assms(2) by (simp add: crash_def)
  show "None \<in> crash_ents w' p \<Longrightarrow> C None"
    using assms e by (simp add: crash_ents_after after_crash_None)
  fix i assume "Some i \<in> crash_ents w' p"
  then have "Some i \<in> crash_ents w p"
    using assms(2) e by (simp add: crash_ents_after)
  with assms show "isynced (inodes w' i) \<and> C (Some (idata (inodes w' i)))"
    by (auto simp: crash_def dest: after_crash_Some)
qed

lemma after_crash_mono: "after_crash w p C \<Longrightarrow> (\<And>c. C c \<Longrightarrow> D c) \<Longrightarrow> after_crash w p D"
  by (auto simp: after_crash_def split: option.splits)

lemma after_crash_conj:
  "after_crash w p C \<Longrightarrow> after_crash w p D \<Longrightarrow> after_crash w p (\<lambda>c. C c \<and> D c)"
  by (auto simp: after_crash_def split: option.splits)

lemma after_crash_live: "after_crash w p C \<Longrightarrow> C (fcontent w p)"
  by (cases "map_of (ents w) p")
    (auto simp: crash_ents_def fcontent_def dest: after_crash_None after_crash_Some)

lemma after_crash_restart_live: "after_crash w p C \<Longrightarrow> crash w w' \<Longrightarrow> C (fcontent w' p)"
  by (rule after_crash_live [OF after_crash_restart])

text \<open>A file that is on disk for certain, with these contents.\<close>

abbreviation durable :: "world \<Rightarrow> path \<Rightarrow> bytes \<Rightarrow> bool" where
  "durable w p b \<equiv> after_crash w p (\<lambda>c. c = Some b)"

lemma durable_live: "durable w p b \<Longrightarrow> fcontent w p = Some b"
  by (drule after_crash_live)

subsection \<open>Frames\<close>

definition same_env :: "world \<Rightarrow> world \<Rightarrow> bool" where
  "same_env w w' \<longleftrightarrow> dirs w' = dirs w \<and> wall w' = wall w \<and> entropy w' = entropy w
     \<and> drawn w' = drawn w \<and> environ w' = environ w \<and> flocks w' = flocks w
     \<and> next_fd w' = next_fd w"

definition keeps :: "path \<Rightarrow> world \<Rightarrow> world \<Rightarrow> bool" where
  "keeps q w w' \<longleftrightarrow> map_of (ents w') q = map_of (ents w) q
     \<and> crash_ents w' q \<subseteq> crash_ents w q
     \<and> (\<forall>i. Some i \<in> crash_ents w' q \<longrightarrow> inodes w' i = inodes w i)"

lemma same_env_refl [simp]: "same_env w w"
  by (simp add: same_env_def)

lemma same_env_trans: "same_env w w' \<Longrightarrow> same_env w' w'' \<Longrightarrow> same_env w w''"
  by (simp add: same_env_def)

lemma keeps_refl [simp]: "keeps q w w"
  by (simp add: keeps_def)

lemma keeps_trans: "keeps q w w' \<Longrightarrow> keeps q w' w'' \<Longrightarrow> keeps q w w''"
  unfolding keeps_def by (metis subset_iff)

lemma keeps_fcontent: "keeps q w w' \<Longrightarrow> fcontent w' q = fcontent w q"
  by (cases "map_of (ents w) q") (auto simp: keeps_def fcontent_def crash_ents_def)

lemma keeps_after_crash: "keeps q w w' \<Longrightarrow> after_crash w q C \<Longrightarrow> after_crash w' q C"
  by (rule after_crashI) (auto simp: keeps_def dest: after_crash_None after_crash_Some)

subsection \<open>Program logic\<close>

text \<open>
  \<open>hoare P m Q E\<close>: from a world in \<open>P\<close>, under any fault list, \<open>m\<close> ends with a result
  in \<open>Q\<close> or with an error in \<open>E\<close>.
\<close>

definition hoare :: "(world \<Rightarrow> bool) \<Rightarrow> 'a io \<Rightarrow> ('a \<Rightarrow> world \<Rightarrow> bool) \<Rightarrow> (world \<Rightarrow> bool) \<Rightarrow> bool" where
  "hoare P m Q E \<longleftrightarrow> (\<forall>w. P w \<longrightarrow> (case m w of (Inl e, w') \<Rightarrow> E w' | (Inr x, w') \<Rightarrow> Q x w'))"

lemma hoareD: "hoare P m Q E \<Longrightarrow> P w \<Longrightarrow> m w = (Inr x, w') \<Longrightarrow> Q x w'"
  and hoareD_err: "hoare P m Q E \<Longrightarrow> P w \<Longrightarrow> m w = (Inl e, w') \<Longrightarrow> E w'"
  unfolding hoare_def by fastforce+

lemma hoareI:
  "(\<And>w x w'. P w \<Longrightarrow> m w = (Inr x, w') \<Longrightarrow> Q x w') \<Longrightarrow>
   (\<And>w e w'. P w \<Longrightarrow> m w = (Inl e, w') \<Longrightarrow> E w') \<Longrightarrow> hoare P m Q E"
  unfolding hoare_def by (simp split: prod.split sum.split)

lemma hoare_bind:
  assumes "hoare P m R E" and "\<And>x. hoare (R x) (f x) Q E"
  shows "hoare P (io_bind m f) Q E"
  by (rule hoareI)
    (auto simp: io_iffs intro: hoareD_err [OF assms(1)] hoareD [OF assms(2)] hoareD_err [OF assms(2)]
       dest: hoareD [OF assms(1)])

lemma hoare_post: "hoare P d (\<lambda>_. Q) Q \<Longrightarrow> P w \<Longrightarrow> Q (snd (d w))"
  unfolding hoare_def by (cases "d w" rule: prod.exhaust, cases "fst (d w)") fastforce+

lemma hoare_onerr:
  assumes "hoare P m Q R" and "hoare R d (\<lambda>_. E) E"
  shows "hoare P (io_onerr m d) Q E"
  by (rule hoareI)
    (auto simp: io_iffs intro: hoareD [OF assms(1)] hoare_post [OF assms(2)] hoareD_err [OF assms(1)])

lemma hoare_defer:
  assumes "hoare P m R S" and "\<And>x. hoare (R x) d (\<lambda>_. Q x) (Q x)" and "hoare S d (\<lambda>_. E) E"
  shows "hoare P (io_defer m d) Q E"
  by (rule hoareI)
    (auto simp: io_iffs intro: hoare_post [OF assms(2)] hoare_post [OF assms(3)]
       hoareD [OF assms(1)] hoareD_err [OF assms(1)])

lemma hoare_weaken:
  assumes "hoare P m Q E" and "\<And>w. P' w \<Longrightarrow> P w" and "\<And>x w. Q x w \<Longrightarrow> Q' x w"
    and "\<And>w. E w \<Longrightarrow> E' w"
  shows "hoare P' m Q' E'"
  by (rule hoareI) (auto intro: assms(2-4) hoareD [OF assms(1)] hoareD_err [OF assms(1)])

text \<open>Assertions that do not look at the fault list.\<close>

definition fault_free :: "(world \<Rightarrow> bool) \<Rightarrow> bool" where
  "fault_free P \<longleftrightarrow> (\<forall>w fs. P (w\<lparr>faults := fs\<rparr>) = P w)"

lemma hoare_syscall:
  assumes "fault_free P" and "fault_free E" and "hoare P m Q E" and "\<And>w. P w \<Longrightarrow> E w"
  shows "hoare P (syscall m) Q E"
  unfolding hoare_def
proof (intro allI impI)
  fix w assume P: "P w"
  have P': "P (w\<lparr>faults := fs\<rparr>)" and E': "E (w\<lparr>faults := fs\<rparr>)" for fs
    using P assms(1,2,4) by (auto simp: fault_free_def)
  show "case syscall m w of (Inl e, w') \<Rightarrow> E w' | (Inr x, w') \<Rightarrow> Q x w'"
    using assms(3) P P' E'
    by (auto simp: syscall_def hoare_def split: list.splits option.splits)
qed

lemma fs_views_faults [simp]:
  "crash_ents (w\<lparr>faults := fs\<rparr>) q = crash_ents w q"
  "settled (w\<lparr>faults := fs\<rparr>) i b = settled w i b"
  "fcontent (w\<lparr>faults := fs\<rparr>) q = fcontent w q"
  "same_env w0 (w\<lparr>faults := fs\<rparr>) = same_env w0 w"
  by (simp_all add: crash_ents_def settled_def fcontent_def same_env_def)

lemma fs_views_faults2 [simp]:
  "after_crash (w\<lparr>faults := fs\<rparr>) q C = after_crash w q C"
  "keeps q w0 (w\<lparr>faults := fs\<rparr>) = keeps q w0 w"
  by (simp_all add: after_crash_def keeps_def cong: option.case_cong)

subsection \<open>Fresh names and inodes\<close>

lemma foldr_max_ge: "x \<in> set xs \<Longrightarrow> (x :: nat) \<le> foldr max xs 0"
  by (induction xs) auto

lemma fresh_ino_unused: "Some (fresh_ino w) \<notin> crash_ents w q"
proof
  let ?ns = "map snd (ents w) @ map snd (dents w)
     @ concat (map (\<lambda>(p, v). case v of None \<Rightarrow> [] | Some i \<Rightarrow> [i]) (dlog w))"
  assume "Some (fresh_ino w) \<in> crash_ents w q"
  then consider "map_of (ents w) q = Some (fresh_ino w)" | "map_of (dents w) q = Some (fresh_ino w)"
    | "(q, Some (fresh_ino w)) \<in> set (dlog w)"
    by (auto simp: crash_ents_def)
  then have "fresh_ino w \<in> set ?ns"
  proof cases
    case 1
    then show ?thesis by (force dest: map_of_SomeD)
  next
    case 2
    then show ?thesis by (force dest: map_of_SomeD)
  next
    case 3
    then have "\<exists>x \<in> set (dlog w). fresh_ino w \<in> set (case x of (p, v) \<Rightarrow> case v of None \<Rightarrow> [] | Some i \<Rightarrow> [i])"
      by (intro bexI [of _ "(q, Some (fresh_ino w))"]) auto
    then show ?thesis by auto
  qed
  then have "fresh_ino w \<le> foldr max ?ns 0" by (rule foldr_max_ge)
  then show False by (simp add: fresh_ino_def)
qed

lemma tmp_path_fresh: "map_of (ents w) (tmp_path w d pre) = None"
proof (rule ccontr)
  let ?ns = "map (\<lambda>(p, i). length (last p)) (ents w)"
  assume "map_of (ents w) (tmp_path w d pre) \<noteq> None"
  then obtain i where "(tmp_path w d pre, i) \<in> set (ents w)"
    by (auto dest: map_of_SomeD)
  then have "length (last (tmp_path w d pre)) \<in> set ?ns" by force
  then have "length (last (tmp_path w d pre)) \<le> foldr max ?ns 0" by (rule foldr_max_ge)
  then show False by (simp add: tmp_path_def tmp_suffix_def)
qed

lemma tmp_path_parts [simp]:
  "last (tmp_path w d pre) = pre @ tmp_suffix w" "butlast (tmp_path w d pre) = d"
  by (simp_all add: tmp_path_def)

text \<open>A name that does not start like a temporary one is not a temporary one.\<close>

lemma not_tmp_path: "\<not> hasPrefix (last q) pre \<Longrightarrow> q \<noteq> tmp_path w d pre"
  by (auto simp: tmp_path_def)

subsection \<open>The phases of a file replacement\<close>

text \<open>Nothing happened yet but calls that consumed entries of the fault list.\<close>

definition at_start :: "world \<Rightarrow> world \<Rightarrow> bool" where
  "at_start w0 w \<longleftrightarrow> w\<lparr>faults := []\<rparr> = w0\<lparr>faults := []\<rparr>"

text \<open>A temporary file \<open>t\<close> with inode \<open>i\<close> exists that no other name reaches.\<close>

definition in_temp :: "world \<Rightarrow> path \<Rightarrow> nat \<Rightarrow> (inode \<Rightarrow> bool) \<Rightarrow> world \<Rightarrow> bool" where
  "in_temp w0 t i G w \<longleftrightarrow> same_env w0 w \<and> map_of (ents w) t = Some i \<and> G (inodes w i)
     \<and> (\<forall>q. q \<noteq> t \<longrightarrow> keeps q w0 w \<and> Some i \<notin> crash_ents w q)"

text \<open>The finished temporary file has been given the name \<open>p\<close>.\<close>

definition placed :: "world \<Rightarrow> path \<Rightarrow> path \<Rightarrow> nat \<Rightarrow> bytes \<Rightarrow> world \<Rightarrow> bool" where
  "placed w0 t p i b w \<longleftrightarrow> same_env w0 w \<and> map_of (ents w) p = Some i \<and> settled w i b
     \<and> crash_ents w p \<subseteq> insert (Some i) (crash_ents w0 p)
     \<and> (\<forall>j. Some j \<in> crash_ents w p \<longrightarrow> j \<noteq> i \<longrightarrow> inodes w j = inodes w0 j)
     \<and> (\<forall>q. q \<noteq> t \<longrightarrow> q \<noteq> p \<longrightarrow> keeps q w0 w)"

definition placed_synced :: "world \<Rightarrow> path \<Rightarrow> path \<Rightarrow> nat \<Rightarrow> bytes \<Rightarrow> world \<Rightarrow> bool" where
  "placed_synced w0 t p i b w \<longleftrightarrow> placed w0 t p i b w \<and> crash_ents w p = {Some i}"

definition untouched :: "world \<Rightarrow> path \<Rightarrow> world \<Rightarrow> bool" where
  "untouched w0 t w \<longleftrightarrow> same_env w0 w \<and> (\<forall>q. q \<noteq> t \<longrightarrow> keeps q w0 w)"

lemma phases_fault_free [simp]:
  "fault_free (at_start w0)" "fault_free (in_temp w0 t i G)" "fault_free (placed w0 t p i b)"
  "fault_free (placed_synced w0 t p i b)" "fault_free (untouched w0 t)"
  by (auto simp: fault_free_def at_start_def in_temp_def placed_def placed_synced_def untouched_def)

lemma at_startE:
  assumes "at_start w0 w"
  obtains fs where "w = w0\<lparr>faults := fs\<rparr>"
proof
  have "w = (w\<lparr>faults := []\<rparr>)\<lparr>faults := faults w\<rparr>" by simp
  also have "\<dots> = w0\<lparr>faults := faults w\<rparr>" using assms by (simp add: at_start_def)
  finally show "w = w0\<lparr>faults := faults w\<rparr>" .
qed

lemma at_start_refl [simp]: "at_start w w"
  by (simp add: at_start_def)

lemma untouched_start: "at_start w0 w \<Longrightarrow> untouched w0 t w"
  by (auto simp: untouched_def elim: at_startE)

lemma untouched_in_temp: "in_temp w0 t i G w \<Longrightarrow> untouched w0 t w"
  by (simp add: in_temp_def untouched_def)

lemma same_env_updates [simp]:
  "same_env w0 (w\<lparr>ents := a, dlog := b\<rparr>) = same_env w0 w"
  "same_env w0 (w\<lparr>ents := a, dlog := b, inodes := c\<rparr>) = same_env w0 w"
  "same_env w0 (w\<lparr>dents := a, dlog := b\<rparr>) = same_env w0 w"
  "same_env w0 (set_inode i f w) = same_env w0 w"
  by (simp_all add: same_env_def set_inode_def)

lemma crash_ents_set_inode [simp]: "crash_ents (set_inode i f w) q = crash_ents w q"
  by (simp add: crash_ents_def set_inode_def)

lemma set_inode_simps [simp]:
  "ents (set_inode i f w) = ents w" "inodes (set_inode i f w) i = f (inodes w i)"
  "j \<noteq> i \<Longrightarrow> inodes (set_inode i f w) j = inodes w j"
  by (simp_all add: set_inode_def)

lemma crash_ents_ents_inodes:
  "crash_ents (w\<lparr>ents := a, dlog := b, inodes := c\<rparr>) q = crash_ents (w\<lparr>ents := a, dlog := b\<rparr>) q"
  by (simp add: crash_ents_def)

lemma crash_ents_add:
  "q \<noteq> p \<Longrightarrow> crash_ents (w\<lparr>ents := AList.update p i (ents w), dlog := (p, Some i) # dlog w\<rparr>) q
     = crash_ents w q"
  "crash_ents (w\<lparr>ents := AList.update p i (ents w), dlog := (p, Some i) # dlog w\<rparr>) p
     \<subseteq> insert (Some i) (crash_ents w p)"
  by (auto simp: crash_ents_def)

lemma crash_ents_rename:
  "q \<noteq> p \<Longrightarrow> q \<noteq> t \<Longrightarrow> crash_ents (w\<lparr>ents := AList.update p i (AList.delete t (ents w)),
       dlog := (p, Some i) # (t, None) # dlog w\<rparr>) q = crash_ents w q"
  "p \<noteq> t \<Longrightarrow> crash_ents (w\<lparr>ents := AList.update p i (AList.delete t (ents w)),
       dlog := (p, Some i) # (t, None) # dlog w\<rparr>) p \<subseteq> insert (Some i) (crash_ents w p)"
  by (auto simp: crash_ents_def)

lemma crash_ents_remove:
  "q \<noteq> t \<Longrightarrow> crash_ents (w\<lparr>ents := AList.delete t (ents w), dlog := (t, None) # dlog w\<rparr>) q
     = crash_ents w q"
  by (auto simp: crash_ents_def)

lemma in_dir_filters:
  "(map_of (filter (\<lambda>(p, i). \<not> in_dir d p) ys) ++ map_of (filter (\<lambda>(p, i). in_dir d p) xs)) q =
     (if in_dir d q then map_of xs q else map_of ys q)"
  by (auto simp: map_add_def map_of_filter_key [where P = "in_dir d"]
      map_of_filter_key [where P = "\<lambda>p. \<not> in_dir d p"] split: option.splits)

lemma crash_ents_fsync:
  "crash_ents (w\<lparr>dents := filter (\<lambda>(p, i). in_dir d p) (ents w) @ filter (\<lambda>(p, i). \<not> in_dir d p) (dents w),
       dlog := filter (\<lambda>(p, v). \<not> in_dir d p) (dlog w)\<rparr>) q =
     (if in_dir d q then {map_of (ents w) q} else crash_ents w q)"
  unfolding crash_ents_def by (simp add: in_dir_filters)

lemma keeps_set_inode:
  "keeps q w0 w \<Longrightarrow> Some i \<notin> crash_ents w q \<Longrightarrow> keeps q w0 (set_inode i f w)"
  unfolding keeps_def by (auto, metis set_inode_simps(3))

lemma in_temp_set_inode:
  "in_temp w0 t i G w \<Longrightarrow> (\<And>n. G n \<Longrightarrow> H (f n)) \<Longrightarrow> in_temp w0 t i H (set_inode i f w)"
  by (simp add: in_temp_def keeps_set_inode)

lemma hoare_createNamed:
  assumes name: "\<And>w. at_start w0 w \<Longrightarrow> name w = t"
  shows "hoare (at_start w0) (createNamed d name)
     (\<lambda>f w. f = (t, fresh_ino w0) \<and> in_temp w0 t (fresh_ino w0) (\<lambda>n. idata n = []) w)
     (at_start w0)"
  unfolding createNamed_def
proof (rule hoare_syscall, simp_all, rule hoareI)
  fix w and f :: handle and w'
  let ?t = t and ?i = "fresh_ino w0"
  assume s: "at_start w0 w" and r: "(if d \<notin> set (dirs w) then (Inl (OsError ENOENT), w)
     else let p = name w; i = fresh_ino w in
       (Inr (p, i), w\<lparr>ents := AList.update p i (ents w), dlog := (p, Some i) # dlog w,
          inodes := (inodes w)(i := \<lparr>idata = [], isynced = False, imode = 0x180\<rparr>)\<rparr>)) = (Inr f, w')"
  obtain fs where w: "w = w0\<lparr>faults := fs\<rparr>" using s by (rule at_startE)
  have tp: "name w = ?t" by (rule name [OF s])
  have ti: "fresh_ino w = ?i" unfolding w by (simp add: fresh_ino_def)
  have f: "f = (?t, ?i)" and w': "w' = w\<lparr>ents := AList.update ?t ?i (ents w),
      dlog := (?t, Some ?i) # dlog w,
      inodes := (inodes w)(?i := \<lparr>idata = [], isynced = False, imode = 0x180\<rparr>)\<rparr>"
    using r by (auto simp: tp ti Let_def split: if_splits)
  have c: "crash_ents w' q = crash_ents w0 q" if "q \<noteq> ?t" for q
    unfolding w' crash_ents_ents_inodes using crash_ents_add(1) [OF that, where w = w] by (simp add: w)
  have k: "keeps q w0 w' \<and> Some ?i \<notin> crash_ents w' q" if q: "q \<noteq> ?t" for q
  proof -
    have u: "Some ?i \<notin> crash_ents w' q" using c [OF q] fresh_ino_unused by simp
    moreover have "map_of (ents w') q = map_of (ents w0) q" using q by (simp add: w' w)
    moreover have "inodes w' j = inodes w0 j" if "Some j \<in> crash_ents w' q" for j
      using that u by (auto simp: w' w)
    ultimately show ?thesis using c [OF q] by (simp add: keeps_def)
  qed
  have "same_env w0 w" by (simp add: w)
  then have "same_env w0 w'" by (simp add: w')
  moreover have "map_of (ents w') ?t = Some ?i" "idata (inodes w' ?i) = []"
    by (simp_all add: w')
  ultimately show "f = (?t, ?i) \<and> in_temp w0 ?t ?i (\<lambda>n. idata n = []) w'"
    using f k by (auto simp: in_temp_def)
next
  fix w e w'
  assume "at_start w0 w" and "(if d \<notin> set (dirs w) then (Inl (OsError ENOENT), w)
     else let p = name w; i = fresh_ino w in
       (Inr (p, i), w\<lparr>ents := AList.update p i (ents w), dlog := (p, Some i) # dlog w,
          inodes := (inodes w)(i := \<lparr>idata = [], isynced = False, imode = 0x180\<rparr>)\<rparr>))
     = (Inl e, w' :: world)"
  then show "at_start w0 w'" by (auto simp: Let_def split: if_splits)
qed

lemma tmp_names_at_start:
  "at_start w0 w \<Longrightarrow> tmp_path w d pre = tmp_path w0 d pre"
  "at_start w0 w \<Longrightarrow> tmp_path_suffix w d pre suf = tmp_path_suffix w0 d pre suf"
  by (auto simp: tmp_path_def tmp_path_suffix_def tmp_suffix_def elim!: at_startE)

lemma hoare_createTemp:
  "hoare (at_start w0) (createTemp d pre)
     (\<lambda>f w. f = (tmp_path w0 d pre, fresh_ino w0)
        \<and> in_temp w0 (tmp_path w0 d pre) (fresh_ino w0) (\<lambda>n. idata n = []) w)
     (at_start w0)"
  unfolding createTemp_def by (rule hoare_createNamed) (rule tmp_names_at_start)

lemma hoare_createTempSuffix:
  "hoare (at_start w0) (createTempSuffix d pre suf)
     (\<lambda>f w. f = (tmp_path_suffix w0 d pre suf, fresh_ino w0)
        \<and> in_temp w0 (tmp_path_suffix w0 d pre suf) (fresh_ino w0) (\<lambda>n. idata n = []) w)
     (at_start w0)"
  unfolding createTempSuffix_def by (rule hoare_createNamed) (rule tmp_names_at_start)

lemma hoare_close_any: "fault_free P \<Longrightarrow> hoare P (fileClose f) (\<lambda>_. P) P"
  unfolding fileClose_def by (rule hoare_syscall) (auto simp: hoare_def)

lemma hoare_chmod:
  "hoare (in_temp w0 t i (\<lambda>n. idata n = b)) (fileChmod (t, i) m)
     (\<lambda>_. in_temp w0 t i (\<lambda>n. idata n = b)) (untouched w0 t)"
  unfolding fileChmod_def
  by (rule hoare_syscall) (auto simp: hoare_def intro: untouched_in_temp in_temp_set_inode)

lemma hoare_sync:
  "hoare (in_temp w0 t i (\<lambda>n. idata n = b)) (fileSync (t, i))
     (\<lambda>_. in_temp w0 t i (\<lambda>n. isynced n \<and> idata n = b)) (untouched w0 t)"
  unfolding fileSync_def
  by (rule hoare_syscall) (auto simp: hoare_def intro: untouched_in_temp elim!: in_temp_set_inode)

lemma hoare_write:
  "hoare (in_temp w0 t i (\<lambda>n. idata n = [])) (fileWrite (t, i) b)
     (\<lambda>_. in_temp w0 t i (\<lambda>n. idata n = b)) (untouched w0 t)"
proof (rule hoareI)
  have ff: "in_temp w0 t i G w \<Longrightarrow> in_temp w0 t i G (w\<lparr>faults := fs\<rparr>)" for w fs G
    using phases_fault_free(2) [of w0 t i G] by (simp add: fault_free_def)
  have ap: "in_temp w0 t i (\<lambda>n. idata n = []) w \<Longrightarrow>
      in_temp w0 t i (\<lambda>n. idata n = x) (set_inode i (append_data x) (w\<lparr>faults := fs\<rparr>))" for w x fs
    by (rule in_temp_set_inode [OF ff]) (auto simp: append_data_def)
  fix w w' and x :: unit and e
  assume P: "in_temp w0 t i (\<lambda>n. idata n = []) w"
  { assume "fileWrite (t, i) b w = (Inr x, w')"
    then have "w' = set_inode i (append_data b) (w\<lparr>faults := tl (faults w)\<rparr>)"
      by (auto simp: fileWrite_def split: list.splits option.splits)
    with ap [OF P] show "in_temp w0 t i (\<lambda>n. idata n = b) w'" by simp }
  { assume "fileWrite (t, i) b w = (Inl e, w')"
    then obtain k where "w' = set_inode i (append_data (take k b)) (w\<lparr>faults := tl (faults w)\<rparr>)"
      by (auto simp: fileWrite_def split: list.splits option.splits)
    with ap [OF P] show "untouched w0 t w'" by (auto intro: untouched_in_temp) }
qed

lemma hoare_fillTemp:
  "hoare (in_temp w0 t i (\<lambda>n. idata n = [])) (fillTemp (t, i) b m)
     (\<lambda>_. in_temp w0 t i (\<lambda>n. isynced n \<and> idata n = b)) (untouched w0 t)"
  unfolding fillTemp_def
  by (rule hoare_bind hoare_onerr hoare_chmod hoare_write hoare_sync
        hoare_close_any [OF phases_fault_free(5)]
        hoare_weaken [OF hoare_close_any [OF phases_fault_free(2)]]
      | assumption | erule untouched_in_temp)+

lemma hoare_remove_untouched: "hoare (untouched w0 t) (osRemove t) (\<lambda>_. untouched w0 t) (untouched w0 t)"
  unfolding osRemove_def
proof (rule hoare_syscall, simp_all, rule hoareI)
  fix w w' and x :: unit
  assume u: "untouched w0 t w"
    and "(case map_of (ents w) t of None \<Rightarrow> (Inl (OsError ENOENT), w)
      | Some i \<Rightarrow> (Inr (), w\<lparr>ents := AList.delete t (ents w), dlog := (t, None) # dlog w\<rparr>)) = (Inr x, w')"
  then have w': "w' = w\<lparr>ents := AList.delete t (ents w), dlog := (t, None) # dlog w\<rparr>"
    by (auto split: option.splits)
  show "untouched w0 t w'"
    using u unfolding untouched_def w' keeps_def by (simp add: crash_ents_remove)
qed (auto split: option.splits)

lemma placed_syncedD: "placed_synced w0 t p i b w \<Longrightarrow> placed w0 t p i b w"
  by (simp add: placed_synced_def)

lemma hoare_remove_placed:
  assumes "t \<noteq> p"
  shows "hoare (placed w0 t p i b) (osRemove t) (\<lambda>_. placed w0 t p i b) (placed w0 t p i b)"
    and "hoare (placed_synced w0 t p i b) (osRemove t) (\<lambda>_. placed_synced w0 t p i b)
      (placed_synced w0 t p i b)"
proof -
  let ?r = "\<lambda>w. (case map_of (ents w) t of None \<Rightarrow> (Inl (OsError ENOENT), w)
      | Some i \<Rightarrow> (Inr (), w\<lparr>ents := AList.delete t (ents w), dlog := (t, None) # dlog w\<rparr>))"
  have p: "placed w0 t p i b (w\<lparr>ents := AList.delete t (ents w), dlog := (t, None) # dlog w\<rparr>)"
      if "placed w0 t p i b w" for w
    using that assms unfolding placed_def keeps_def by (simp add: crash_ents_remove settled_def)
  have p2: "placed_synced w0 t p i b (w\<lparr>ents := AList.delete t (ents w), dlog := (t, None) # dlog w\<rparr>)"
      if "placed_synced w0 t p i b w" for w
    using p [OF placed_syncedD [OF that]] that crash_ents_remove [of p t w] assms
    by (simp add: placed_synced_def)
  have h: "hoare (placed w0 t p i b) ?r (\<lambda>_. placed w0 t p i b) (placed w0 t p i b)"
    by (rule hoareI) (auto split: option.splits intro: p)
  show "hoare (placed w0 t p i b) (osRemove t) (\<lambda>_. placed w0 t p i b) (placed w0 t p i b)"
    unfolding osRemove_def by (rule hoare_syscall) (simp_all add: h)
  have h2: "hoare (placed_synced w0 t p i b) ?r (\<lambda>_. placed_synced w0 t p i b) (placed_synced w0 t p i b)"
    by (rule hoareI) (auto split: option.splits intro: p2)
  show "hoare (placed_synced w0 t p i b) (osRemove t) (\<lambda>_. placed_synced w0 t p i b)
      (placed_synced w0 t p i b)"
    unfolding osRemove_def by (rule hoare_syscall) (simp_all add: h2)
qed

lemma placed_fsync:
  assumes "placed w0 t p i b w"
  shows "placed_synced w0 t p i b (w\<lparr>
     dents := filter (\<lambda>(q, i). in_dir (butlast p) q) (ents w)
       @ filter (\<lambda>(q, i). \<not> in_dir (butlast p) q) (dents w),
     dlog := filter (\<lambda>(q, v). \<not> in_dir (butlast p) q) (dlog w)\<rparr>)"
proof -
  let ?d = "butlast p"
  let ?w = "w\<lparr>dents := filter (\<lambda>(q, i). in_dir ?d q) (ents w)
       @ filter (\<lambda>(q, i). \<not> in_dir ?d q) (dents w),
     dlog := filter (\<lambda>(q, v). \<not> in_dir ?d q) (dlog w)\<rparr>"
  have p: "map_of (ents w) p = Some i" and s: "same_env w0 w" "settled w i b"
    and k: "\<And>q. q \<noteq> t \<Longrightarrow> q \<noteq> p \<Longrightarrow> keeps q w0 w"
    using assms by (auto simp: placed_def)
  have cp: "crash_ents ?w p = {Some i}"
    unfolding crash_ents_fsync using p by (simp add: in_dir_def)
  have sub: "crash_ents ?w q \<subseteq> crash_ents w q" for q
    by (auto simp: crash_ents_fsync crash_ents_def [of w])
  have "keeps q w0 ?w" if "q \<noteq> t" "q \<noteq> p" for q
  proof -
    have "keeps q w ?w" using sub [of q] by (simp add: keeps_def)
    with k [OF that] show ?thesis by (rule keeps_trans)
  qed
  with s p cp show ?thesis by (simp add: placed_synced_def placed_def settled_def)
qed

lemma hoare_syncDir:
  "hoare (placed w0 t p i b) (syncDir (butlast p)) (\<lambda>_. placed_synced w0 t p i b) (placed w0 t p i b)"
  unfolding syncDir_def
proof (rule hoare_bind)
  show "hoare (placed w0 t p i b) (openDir (butlast p)) (\<lambda>_. placed w0 t p i b) (placed w0 t p i b)"
    unfolding openDir_def by (rule hoare_syscall) (auto intro!: hoareI split: if_splits)
  have fs: "hoare (placed w0 t p i b) (fsyncDir (butlast p)) (\<lambda>_. placed_synced w0 t p i b)
      (placed w0 t p i b)"
    unfolding fsyncDir_def
    by (rule hoare_syscall) (auto intro!: hoareI placed_fsync)
  have cl: "fault_free P \<Longrightarrow> hoare P (closeDir (butlast p)) (\<lambda>_. P) P" for P
    unfolding closeDir_def by (rule hoare_syscall) (auto simp: hoare_def)
  show "hoare (placed w0 t p i b) (io_defer (fsyncDir (butlast p)) (closeDir (butlast p)))
      (\<lambda>_. placed_synced w0 t p i b) (placed w0 t p i b)"
    by (rule hoare_defer [OF fs cl cl]) simp_all
qed

lemma placed_give_name:
  assumes t: "in_temp w0 t i (\<lambda>n. isynced n \<and> idata n = b) w" and ne: "p \<noteq> t"
    and e: "map_of (ents w') p = Some i" and n: "inodes w' = inodes w" and v: "same_env w w'"
    and cp: "crash_ents w' p \<subseteq> insert (Some i) (crash_ents w p)"
    and q: "\<And>q. q \<noteq> t \<Longrightarrow> q \<noteq> p \<Longrightarrow>
      crash_ents w' q = crash_ents w q \<and> map_of (ents w') q = map_of (ents w) q"
  shows "placed w0 t p i b w'"
proof -
  have k: "\<And>q. q \<noteq> t \<Longrightarrow> keeps q w0 w" and v0: "same_env w0 w"
    and s: "isynced (inodes w i)" "idata (inodes w i) = b"
    using t by (auto simp: in_temp_def)
  have "crash_ents w' p \<subseteq> insert (Some i) (crash_ents w0 p)"
    using cp k [OF ne] by (auto simp: keeps_def)
  moreover have "inodes w' j = inodes w0 j" if "Some j \<in> crash_ents w' p" "j \<noteq> i" for j
    using that cp k [OF ne] n by (auto simp: keeps_def)
  moreover have "keeps r w0 w'" if "r \<noteq> t" "r \<noteq> p" for r
    using k [OF that(1)] q [OF that] n by (simp add: keeps_def)
  moreover have "same_env w0 w'" using v0 v by (rule same_env_trans)
  ultimately show ?thesis using e s n by (simp add: placed_def settled_def)
qed

lemma hoare_rename:
  assumes "p \<noteq> t"
  shows "hoare (in_temp w0 t i (\<lambda>n. isynced n \<and> idata n = b)) (osRename t p)
     (\<lambda>_. placed w0 t p i b) (untouched w0 t)"
  unfolding osRename_def
proof (rule hoare_syscall, simp_all add: untouched_in_temp, rule hoareI)
  fix w w' and x :: unit
  assume P: "in_temp w0 t i (\<lambda>n. isynced n \<and> idata n = b) w"
    and r: "(case map_of (ents w) t of
       None \<Rightarrow> (Inl (OsError ENOENT), w)
     | Some i \<Rightarrow>
         if p \<in> set (dirs w) then (Inl (OsError EEXIST), w)
         else if butlast p \<notin> set (dirs w) then (Inl (OsError ENOENT), w)
         else (Inr (), w\<lparr>ents := AList.update p i (AList.delete t (ents w)),
                 dlog := (p, Some i) # (t, None) # dlog w\<rparr>)) = (Inr x, w')"
  have "map_of (ents w) t = Some i" using P by (simp add: in_temp_def)
  with r have w': "w' = w\<lparr>ents := AList.update p i (AList.delete t (ents w)),
      dlog := (p, Some i) # (t, None) # dlog w\<rparr>"
    by (auto split: if_splits)
  show "placed w0 t p i b w'"
  proof (rule placed_give_name [OF P assms])
    show "crash_ents w' p \<subseteq> insert (Some i) (crash_ents w p)"
      unfolding w' using assms by (rule crash_ents_rename)
    show "crash_ents w' q = crash_ents w q \<and> map_of (ents w') q = map_of (ents w) q"
      if "q \<noteq> t" "q \<noteq> p" for q
      using that crash_ents_rename(1) [of q p t i w] by (simp add: w')
  qed (simp_all add: w' same_env_def)
qed (auto intro: untouched_in_temp split: option.splits if_splits)

lemma hoare_link:
  assumes "p \<noteq> t"
  shows "hoare (in_temp w0 t i (\<lambda>n. isynced n \<and> idata n = b)) (osLink t p)
     (\<lambda>_ w. placed w0 t p i b w \<and> map_of (ents w0) p = None) (untouched w0 t)"
proof -
  let ?P = "in_temp w0 t i (\<lambda>n. isynced n \<and> idata n = b)"
  let ?m = "\<lambda>w. case map_of (ents w) t of
       None \<Rightarrow> (Inl (OsError ENOENT), w)
     | Some i \<Rightarrow>
         if p \<in> set (dirs w) \<or> map_of (ents w) p \<noteq> None then (Inl (OsError EEXIST), w)
         else if butlast p \<notin> set (dirs w) then (Inl (OsError ENOENT), w)
         else (Inr (), w\<lparr>ents := AList.update p i (ents w), dlog := (p, Some i) # dlog w\<rparr>)"
  have "hoare ?P ?m (\<lambda>_ w. placed w0 t p i b w \<and> map_of (ents w0) p = None) (untouched w0 t)"
  proof (rule hoareI)
    fix w w' and x :: unit
    assume P: "?P w" and r: "?m w = (Inr x, w')"
    have "map_of (ents w) t = Some i" using P by (simp add: in_temp_def)
    with r have w': "w' = w\<lparr>ents := AList.update p i (ents w), dlog := (p, Some i) # dlog w\<rparr>"
      and none: "map_of (ents w) p = None"
      by (auto split: if_splits)
    have "placed w0 t p i b w'"
    proof (rule placed_give_name [OF P assms])
      show "crash_ents w' p \<subseteq> insert (Some i) (crash_ents w p)"
        unfolding w' by (rule crash_ents_add)
      show "crash_ents w' q = crash_ents w q \<and> map_of (ents w') q = map_of (ents w) q"
        if "q \<noteq> t" "q \<noteq> p" for q
        using that crash_ents_add(1) [of q p i w] by (simp add: w')
    qed (simp_all add: w' same_env_def)
    moreover have "map_of (ents w0) p = None"
      using P assms none by (simp add: in_temp_def keeps_def)
    ultimately show "placed w0 t p i b w' \<and> map_of (ents w0) p = None" by simp
  next
    fix w e w'
    assume "?P w" and "?m w = (Inl e, w')"
    then show "untouched w0 t w'"
      by (auto intro: untouched_in_temp split: option.splits if_splits)
  qed
  then show ?thesis
    unfolding osLink_def by (rule hoare_syscall [rotated 2]) (simp_all add: untouched_in_temp)
qed

subsection \<open>The outcome of a replacement\<close>

text \<open>The target has the new contents, for sure (\<open>new_synced\<close>) or at least live.\<close>

definition new_live :: "world \<Rightarrow> path \<Rightarrow> bytes \<Rightarrow> world \<Rightarrow> bool" where
  "new_live w0 p b w \<longleftrightarrow> fcontent w p = Some b
     \<and> (\<forall>C. after_crash w0 p C \<longrightarrow> C (Some b) \<longrightarrow> after_crash w p C)"

lemma placed_new_live: "placed w0 t p i b w \<Longrightarrow> new_live w0 p b w"
proof -
  assume P: "placed w0 t p i b w"
  have "after_crash w p C" if C: "after_crash w0 p C" "C (Some b)" for C
  proof (rule after_crashI)
    show "None \<in> crash_ents w p \<Longrightarrow> C None"
      using P C(1) by (auto simp: placed_def intro: after_crash_None)
    fix j assume j: "Some j \<in> crash_ents w p"
    show "isynced (inodes w j) \<and> C (Some (idata (inodes w j)))"
    proof (cases "j = i")
      case True
      then show ?thesis using P C(2) by (simp add: placed_def settled_def)
    next
      case False
      then have "Some j \<in> crash_ents w0 p" "inodes w j = inodes w0 j"
        using P j by (auto simp: placed_def)
      then show ?thesis using C(1) by (auto dest: after_crash_Some)
    qed
  qed
  then show ?thesis using P by (simp add: new_live_def placed_def settled_def fcontent_def)
qed

lemma placed_synced_durable: "placed_synced w0 t p i b w \<Longrightarrow> durable w p b"
  by (rule after_crashI) (auto simp: placed_synced_def placed_def settled_def)

definition replace_post :: "world \<Rightarrow> path \<Rightarrow> path \<Rightarrow> bytes \<Rightarrow> go_error + unit \<Rightarrow> world \<Rightarrow> bool" where
  "replace_post w0 t p b r w \<longleftrightarrow>
     same_env w0 w \<and> (\<forall>q. q \<noteq> t \<longrightarrow> q \<noteq> p \<longrightarrow> keeps q w0 w)
     \<and> (case r of Inr _ \<Rightarrow> durable w p b | Inl _ \<Rightarrow> keeps p w0 w \<or> new_live w0 p b w)"

lemma replaceFile_post:
  assumes ne: "p \<noteq> tmp_path w (butlast p) pre" and run: "replaceFile pre p b m w = (r, w')"
  shows "replace_post w (tmp_path w (butlast p) pre) p b r w'"
proof -
  let ?t = "tmp_path w (butlast p) pre" and ?i = "fresh_ino w"
  let ?E = "\<lambda>w'. untouched w ?t w' \<or> placed w ?t p ?i b w'"
  have sd: "hoare (placed w ?t p ?i b) (syncDir (butlast p)) (\<lambda>_. placed_synced w ?t p ?i b) ?E"
    by (rule hoare_weaken [OF hoare_syncDir]) auto
  have rn: "hoare (in_temp w ?t ?i (\<lambda>n. isynced n \<and> idata n = b))
      (io_bind (osRename ?t p) (\<lambda>_. syncDir (butlast p))) (\<lambda>_. placed_synced w ?t p ?i b) ?E"
    by (rule hoare_bind [OF hoare_weaken [OF hoare_rename [OF ne]] sd]) auto
  have body: "hoare (in_temp w ?t ?i (\<lambda>n. idata n = []))
      (io_bind (fillTemp (?t, ?i) b m) (\<lambda>_. io_bind (osRename ?t p) (\<lambda>_. syncDir (butlast p))))
      (\<lambda>_. placed_synced w ?t p ?i b) ?E"
    by (rule hoare_bind [OF hoare_weaken [OF hoare_fillTemp] rn]) auto
  have rm: "hoare ?E (osRemove ?t) (\<lambda>_. ?E) ?E"
    using hoare_remove_untouched [of w ?t] hoare_remove_placed(1) [OF ne [symmetric], of w ?i b]
    unfolding hoare_def by (fastforce split: prod.splits sum.splits)
  have "hoare (at_start w) (replaceFile pre p b m) (\<lambda>_. placed_synced w ?t p ?i b) ?E"
    unfolding replaceFile_def
  proof (rule hoare_bind [OF hoare_weaken [OF hoare_createTemp]], assumption, assumption)
    show "\<And>v. at_start w v \<Longrightarrow> ?E v" by (simp add: untouched_start)
    fix f :: handle
    show "hoare (\<lambda>v. f = (?t, ?i) \<and> in_temp w ?t ?i (\<lambda>n. idata n = []) v)
      (io_defer (io_bind (fillTemp f b m) (\<lambda>_. io_bind (osRename (fst f) p) (\<lambda>_. syncDir (butlast p))))
        (osRemove (fst f))) (\<lambda>_. placed_synced w ?t p ?i b) ?E"
    proof (cases "f = (?t, ?i)")
      case True
      have "hoare (in_temp w ?t ?i (\<lambda>n. idata n = []))
        (io_defer (io_bind (fillTemp f b m) (\<lambda>_. io_bind (osRename (fst f) p) (\<lambda>_. syncDir (butlast p))))
          (osRemove (fst f))) (\<lambda>_. placed_synced w ?t p ?i b) ?E"
        using hoare_defer [OF body hoare_remove_placed(2) [OF ne [symmetric]] rm] True by simp
      then show ?thesis by (rule hoare_weaken) auto
    next
      case False
      then show ?thesis by (simp add: hoare_def)
    qed
  qed
  note h = hoareD [OF this at_start_refl] hoareD_err [OF this at_start_refl]
  show ?thesis
  proof (cases r)
    case (Inr x)
    then have "placed_synced w ?t p ?i b w'" using h(1) run by simp
    moreover from this have "durable w' p b" by (rule placed_synced_durable)
    ultimately show ?thesis using Inr
      by (simp add: replace_post_def placed_synced_def placed_def)
  next
    case (Inl e)
    then have "?E w'" using h(2) run by simp
    then show ?thesis using Inl ne placed_new_live [of w ?t p ?i b w']
      by (auto simp: replace_post_def untouched_def placed_def)
  qed
qed

text \<open>
  The creation of a node file: like a replacement, but a file that is already there is never
  written, and then the call fails.
\<close>

definition create_post :: "world \<Rightarrow> path \<Rightarrow> path \<Rightarrow> bytes \<Rightarrow> go_error + unit \<Rightarrow> world \<Rightarrow> bool" where
  "create_post w0 t p b r w \<longleftrightarrow>
     same_env w0 w \<and> (\<forall>q. q \<noteq> t \<longrightarrow> q \<noteq> p \<longrightarrow> keeps q w0 w)
     \<and> (case r of Inr _ \<Rightarrow> map_of (ents w0) p = None \<and> durable w p b
        | Inl _ \<Rightarrow> keeps p w0 w \<or> (map_of (ents w0) p = None \<and> new_live w0 p b w))"

lemma atomicCreateFile_post:
  assumes ne: "p \<noteq> tmp_path w (butlast p) ''.jaybase-node-''"
    and run: "atomicCreateFile p b m w = (r, w')"
  shows "create_post w (tmp_path w (butlast p) ''.jaybase-node-'') p b r w'"
proof -
  let ?t = "tmp_path w (butlast p) ''.jaybase-node-''" and ?i = "fresh_ino w"
  let ?N = "map_of (ents w) p = None"
  let ?E = "\<lambda>w'. untouched w ?t w' \<or> (?N \<and> placed w ?t p ?i b w')"
  let ?Q = "\<lambda>w'. ?N \<and> placed_synced w ?t p ?i b w'"
  have sd: "hoare (\<lambda>w'. placed w ?t p ?i b w' \<and> ?N) (syncDir (butlast p)) (\<lambda>_. ?Q) ?E"
    using hoare_syncDir [of w ?t p ?i b] unfolding hoare_def
    by (cases ?N) (fastforce split: prod.splits sum.splits)+
  have ln: "hoare (in_temp w ?t ?i (\<lambda>n. isynced n \<and> idata n = b))
      (io_bind (osLink ?t p) (\<lambda>_. syncDir (butlast p))) (\<lambda>_. ?Q) ?E"
    by (rule hoare_bind [OF hoare_weaken [OF hoare_link [OF ne]] sd]) auto
  have body: "hoare (in_temp w ?t ?i (\<lambda>n. idata n = []))
      (io_bind (fillTemp (?t, ?i) b m) (\<lambda>_. io_bind (osLink ?t p) (\<lambda>_. syncDir (butlast p))))
      (\<lambda>_. ?Q) ?E"
    by (rule hoare_bind [OF hoare_weaken [OF hoare_fillTemp] ln]) auto
  have rm: "hoare ?E (osRemove ?t) (\<lambda>_. ?E) ?E"
    using hoare_remove_untouched [of w ?t] hoare_remove_placed(1) [OF ne [symmetric], of w ?i b]
    unfolding hoare_def by (fastforce split: prod.splits sum.splits)
  have rmQ: "hoare ?Q (osRemove ?t) (\<lambda>_. ?Q) ?Q"
    using hoare_remove_placed(2) [OF ne [symmetric], of w ?i b]
    unfolding hoare_def by (fastforce split: prod.splits sum.splits)
  have "hoare (at_start w) (atomicCreateFile p b m) (\<lambda>_. ?Q) ?E"
    unfolding atomicCreateFile_def
  proof (rule hoare_bind [OF hoare_weaken [OF hoare_createTemp]], assumption, assumption)
    show "\<And>v. at_start w v \<Longrightarrow> ?E v" by (simp add: untouched_start)
    fix f :: handle
    show "hoare (\<lambda>v. f = (?t, ?i) \<and> in_temp w ?t ?i (\<lambda>n. idata n = []) v)
      (io_defer (io_bind (fillTemp f b m) (\<lambda>_. io_bind (osLink (fst f) p) (\<lambda>_. syncDir (butlast p))))
        (osRemove (fst f))) (\<lambda>_. ?Q) ?E"
    proof (cases "f = (?t, ?i)")
      case True
      have "hoare (in_temp w ?t ?i (\<lambda>n. idata n = []))
        (io_defer (io_bind (fillTemp f b m) (\<lambda>_. io_bind (osLink (fst f) p) (\<lambda>_. syncDir (butlast p))))
          (osRemove (fst f))) (\<lambda>_. ?Q) ?E"
        using hoare_defer [OF body rmQ rm] True by simp
      then show ?thesis by (rule hoare_weaken) auto
    next
      case False
      then show ?thesis by (simp add: hoare_def)
    qed
  qed
  note h = hoareD [OF this at_start_refl] hoareD_err [OF this at_start_refl]
  show ?thesis
  proof (cases r)
    case (Inr x)
    then have Q: "?Q w'" using h(1) run by simp
    then have "durable w' p b" by (blast intro: placed_synced_durable)
    with Q show ?thesis using Inr
      by (simp add: create_post_def placed_synced_def placed_def)
  next
    case (Inl e)
    then have "?E w'" using h(2) run by simp
    then show ?thesis using Inl ne placed_new_live [of w ?t p ?i b w']
      by (auto simp: create_post_def untouched_def placed_def)
  qed
qed

lemma fold_setDir:
  "ents (fold setDir ps w) = ents w" "dents (fold setDir ps w) = dents w"
  "dlog (fold setDir ps w) = dlog w" "inodes (fold setDir ps w) = inodes w"
  "set (dirs (fold setDir ps w)) = set ps \<union> set (dirs w)"
  by (induction ps arbitrary: w) (auto simp: setDir_def)

subsection \<open>Without failures the procedures succeed\<close>

lemma syscall_no_fault: "faults w = [] \<Longrightarrow> syscall m w = m w"
  by (simp add: syscall_def)

lemmas run_simps = syscall_no_fault io_defs createTemp_def createNamed_def fillTemp_def fileChmod_def fileSync_def
  fileClose_def osRename_def osLink_def osRemove_def syncDir_def openDir_def fsyncDir_def
  closeDir_def Let_def set_inode_def

lemma fileWrite_no_fault:
  "faults w = [] \<Longrightarrow> fileWrite f b w = (Inr (), set_inode (snd f) (append_data b) (w\<lparr>faults := []\<rparr>))"
  by (simp add: fileWrite_def)

lemma replaceFile_succeeds:
  assumes "faults w = []" "butlast p \<in> set (dirs w)" "p \<notin> set (dirs w)"
  shows "\<exists>w'. replaceFile pre p b m w = (Inr (), w') \<and> faults w' = []"
  using assms by (simp add: replaceFile_def run_simps fileWrite_no_fault)

lemma atomicCreateFile_succeeds:
  assumes "faults w = []" "butlast p \<in> set (dirs w)" "p \<notin> set (dirs w)"
    and "map_of (ents w) p = None" "p \<noteq> tmp_path w (butlast p) ''.jaybase-node-''"
  shows "\<exists>w'. atomicCreateFile p b m w = (Inr (), w') \<and> faults w' = []"
  using assms by (simp add: atomicCreateFile_def run_simps fileWrite_no_fault)

subsection \<open>Programs that only read\<close>

definition reads :: "'a io \<Rightarrow> bool" where
  "reads m \<longleftrightarrow> (\<forall>w. at_start w (snd (m w)))"

lemma at_start_trans: "at_start a b \<Longrightarrow> at_start b c \<Longrightarrow> at_start a c"
  by (simp add: at_start_def)

lemma reads_run: "reads m \<Longrightarrow> m w = (r, w') \<Longrightarrow> at_start w w'"
  unfolding reads_def by (metis snd_conv)

lemma reads_basic [io_reads]:
  "reads (io_ret x)" "reads (io_fail e)" "reads (io_lift r)" "reads (readFile p)"
  "reads (statFile p)" "reads readClock" "reads (getenv v)"
  by (auto simp: reads_def io_ret_def io_fail_def io_lift_def readFile_def statFile_def
      readClock_def getenv_def syscall_def at_start_def split: list.splits option.splits)

lemma reads_bind [io_reads]: "reads m \<Longrightarrow> (\<And>x. reads (f x)) \<Longrightarrow> reads (io_bind m f)"
  unfolding reads_def io_bind_def
  by (auto split: prod.splits sum.splits) (metis at_start_trans snd_conv)+

lemma reads_try [io_reads]: "reads m \<Longrightarrow> reads (io_try m)"
  unfolding reads_def io_try_def by (auto split: prod.splits) (metis snd_conv)

lemma at_start_views:
  assumes "at_start w w'"
  shows "ents w' = ents w" "dents w' = dents w" "dlog w' = dlog w" "inodes w' = inodes w"
    "dirs w' = dirs w" "wall w' = wall w" "flocks w' = flocks w" "environ w' = environ w"
    "drawn w' = drawn w" "entropy w' = entropy w" "next_fd w' = next_fd w"
  using at_startE [OF assms] by (metis world.select_convs world.surjective world.update_convs(6))+

lemma at_start_fcontent: "at_start w w' \<Longrightarrow> fcontent w' p = fcontent w p"
  by (auto elim: at_startE)

lemma at_start_keeps: "at_start w w' \<Longrightarrow> keeps q w w'"
  by (auto elim: at_startE)

lemma at_start_same_env: "at_start w w' \<Longrightarrow> same_env w w'"
  by (auto elim: at_startE)

lemma readFile_Inr:
  "readFile p w = (Inr b, w') \<Longrightarrow> fcontent w p = Some b \<and> p \<notin> set (dirs w) \<and> at_start w w'"
  by (auto simp: readFile_def syscall_def at_start_def split: list.splits option.splits if_splits)

lemma readFile_no_fault:
  "faults w = [] \<Longrightarrow> p \<notin> set (dirs w) \<Longrightarrow>
   readFile p w = (case fcontent w p of None \<Rightarrow> Inl (OsError ENOENT) | Some b \<Rightarrow> Inr b, w)"
  by (simp add: readFile_def syscall_no_fault split: option.split)

subsection \<open>The contract of an atomic replacement\<close>

text \<open>
  \<open>put p b\<close> replaces the file \<open>p\<close> by \<open>b\<close>, using a scratch name that is none of the
  program's own file names. The clients below only use the laws.
\<close>

locale atomic_replace =
  fixes put :: "path \<Rightarrow> bytes \<Rightarrow> unit io"
    and scratch :: "world \<Rightarrow> path \<Rightarrow> path"
  assumes replaces: "p \<noteq> scratch w p \<Longrightarrow> put p b w = (r, w') \<Longrightarrow>
      replace_post w (scratch w p) p b r w'"
    and succeeds: "faults w = [] \<Longrightarrow> butlast p \<in> set (dirs w) \<Longrightarrow> p \<notin> set (dirs w) \<Longrightarrow>
      \<exists>w'. put p b w = (Inr (), w') \<and> faults w' = []"
begin

lemma put_durable:
  "p \<noteq> scratch w p \<Longrightarrow> put p b w = (Inr u, w') \<Longrightarrow> durable w' p b"
  by (drule (1) replaces) (simp add: replace_post_def)

lemma put_frame:
  "p \<noteq> scratch w p \<Longrightarrow> put p b w = (r, w') \<Longrightarrow> q \<noteq> p \<Longrightarrow> q \<noteq> scratch w p \<Longrightarrow> keeps q w w'"
  by (drule (1) replaces) (simp add: replace_post_def)

lemma put_env: "p \<noteq> scratch w p \<Longrightarrow> put p b w = (r, w') \<Longrightarrow> same_env w w'"
  by (drule (1) replaces) (simp add: replace_post_def)

lemma put_old_or_new:
  assumes "p \<noteq> scratch w p" and "put p b w = (r, w')"
  shows "fcontent w' p = fcontent w p \<or> fcontent w' p = Some b"
  using replaces [OF assms]
  by (auto simp: replace_post_def new_live_def dest: keeps_fcontent durable_live split: sum.splits)

lemma put_crash_safe:
  assumes "p \<noteq> scratch w p" and "put p b w = (r, w')" and "after_crash w p C" and "C (Some b)"
  shows "after_crash w' p C"
  using replaces [OF assms(1,2)] assms(3,4)
  by (auto simp: replace_post_def new_live_def dest: keeps_after_crash after_crash_mono split: sum.splits)

lemma put_crash_old_or_new:
  assumes "p \<noteq> scratch w p" and "put p b w = (r, w')" and "after_crash w p (\<lambda>c. c = a)"
    and "crash w' v"
  shows "fcontent v p = a \<or> fcontent v p = Some b"
proof -
  have "after_crash w p (\<lambda>c. c = a \<or> c = Some b)"
    using assms(3) by (rule after_crash_mono) simp
  then have "after_crash w' p (\<lambda>c. c = a \<or> c = Some b)"
    by (rule put_crash_safe [OF assms(1,2)]) simp
  then show ?thesis using assms(4) by (rule after_crash_restart_live)
qed

end

definition tmp_of :: "string \<Rightarrow> world \<Rightarrow> path \<Rightarrow> path" where
  "tmp_of pre w p = tmp_path w (butlast p) pre"

lemma atomic_replace_replaceFile: "atomic_replace (\<lambda>p b. replaceFile pre p b m) (tmp_of pre)"
  by unfold_locales (auto simp: tmp_of_def intro: replaceFile_post replaceFile_succeeds)

interpretation wf: atomic_replace "\<lambda>p b. atomicWriteFile p b 0x180" "tmp_of ''.jaybase-write-''"
  unfolding atomicWriteFile_def by (rule atomic_replace_replaceFile)

end
