(* ===== verification/Node.thy ===== *)
theory Node
  imports FileSysLaws
begin

text \<open>
  The event of the store (storage.go: \<^verbatim>\<open>Node\<close>, \<^verbatim>\<open>nodeContent\<close>, \<^verbatim>\<open>EncryptedPayload\<close>),
  its content address, the sealing of payloads, and reading a node file back.

  SHA-256, AES-GCM and the JSON codec of Go's library are the parameter \<open>golib\<close> of the
  model. What the program relies on is stated in \<open>golib_ok\<close>.
\<close>

subsection \<open>Data\<close>

record EncryptedPayload =
  Algorithm :: string
  Nonce :: string
  Ciphertext :: string

record nodeContent =
  nSchema :: int
  nType :: string
  nEntityID :: string
  nParents :: "string list"
  nPayload :: bytes \<comment> \<open>\<^verbatim>\<open>json.RawMessage\<close>; empty when omitted\<close>
  nSealedPayload :: "EncryptedPayload option"
  nActor :: string
  nRole :: string
  nCommand :: string
  nCreatedAt :: time
  nRequestID :: string
  nRequestHash :: string

record Node = nodeContent +
  nHash :: string

text \<open>
  \<^verbatim>\<open>AppendOptions.Payload\<close> is any Go value; only \<^verbatim>\<open>json.Marshal\<close> looks at it. Raw JSON goes
  through the codec, any other value is given by what \<^verbatim>\<open>json.Marshal\<close> makes of it.
\<close>

datatype payload_arg = RawMessage bytes | GoValue "bytes option"

record AppendOptions =
  oType :: string
  oEntityID :: string
  oCommand :: string
  oPayload :: payload_arg
  oCreatedAt :: time
  oRequestID :: string
  oRequestHash :: string

record Context =
  ctxActor :: string
  ctxRole :: string

subsection \<open>The library interface\<close>

record golib =
  sha256 :: "bytes \<Rightarrow> bytes"
  gcm_seal :: "bytes \<Rightarrow> bytes \<Rightarrow> bytes \<Rightarrow> bytes" \<comment> \<open>key, nonce, plaintext\<close>
  gcm_open :: "bytes \<Rightarrow> bytes \<Rightarrow> bytes \<Rightarrow> bytes option"
  json_content :: "nodeContent \<Rightarrow> bytes option" \<comment> \<open>\<^verbatim>\<open>json.Marshal\<close>\<close>
  json_node :: "Node \<Rightarrow> bytes option" \<comment> \<open>\<^verbatim>\<open>json.MarshalIndent\<close>\<close>
  json_parse_node :: "bytes \<Rightarrow> Node option" \<comment> \<open>\<^verbatim>\<open>json.Unmarshal\<close>\<close>
  json_raw :: "bytes \<Rightarrow> bytes option" \<comment> \<open>\<^verbatim>\<open>json.Marshal\<close> of a \<^verbatim>\<open>RawMessage\<close>\<close>

definition content_of :: "Node \<Rightarrow> nodeContent" where
  "content_of n = nodeContent.truncate n"

text \<open>
  A node the codec keeps as it is: valid UTF-8 everywhere (the encoder replaces other bytes)
  and no plaintext payload (the encoder may reformat it).
\<close>

definition utf8_payload :: "EncryptedPayload \<Rightarrow> bool" where
  "utf8_payload e \<longleftrightarrow> utf8_valid (Algorithm e) \<and> utf8_valid (Nonce e) \<and> utf8_valid (Ciphertext e)"

definition clean_content :: "nodeContent \<Rightarrow> bool" where
  "clean_content c \<longleftrightarrow> nPayload c = []
     \<and> list_all utf8_valid [nType c, nEntityID c, nActor c, nRole c, nCommand c, nRequestID c,
          nRequestHash c]
     \<and> list_all utf8_valid (nParents c)
     \<and> (case nSealedPayload c of None \<Rightarrow> True | Some e \<Rightarrow> utf8_payload e)"

definition clean_node :: "Node \<Rightarrow> bool" where
  "clean_node n \<longleftrightarrow> clean_content (content_of n) \<and> utf8_valid (nHash n)"

definition newline :: string where
  "newline = [CHR 0x0A]"

text \<open>
  Documented behaviour of the library: a SHA-256 sum has 32 bytes; AES-GCM opens what it
  sealed, and nothing else under the same key and nonce; decoding an indented encoding
  followed by a newline gives the value back; distinct contents have distinct encodings.
\<close>

definition golib_ok :: "golib \<Rightarrow> bool" where
  "golib_ok L \<longleftrightarrow>
     (\<forall>b. length (sha256 L b) = 32)
     \<and> (\<forall>k n p. gcm_open L k n (gcm_seal L k n p) = Some p)
     \<and> (\<forall>k n c p. gcm_open L k n c = Some p \<longrightarrow> c = gcm_seal L k n p)
     \<and> (\<forall>n b. clean_node n \<longrightarrow> json_node L n = Some b \<longrightarrow> json_parse_node L (b @ newline) = Some n)
     \<and> (\<forall>c c' b. clean_content c \<longrightarrow> clean_content c' \<longrightarrow> json_content L c = Some b \<longrightarrow>
          json_content L c' = Some b \<longrightarrow> c = c')"

lemma golib_okD:
  assumes "golib_ok L"
  shows "length (sha256 L b) = 32"
    and "gcm_open L k n (gcm_seal L k n p) = Some p"
    and "gcm_open L k n c = Some p \<Longrightarrow> c = gcm_seal L k n p"
    and "clean_node m \<Longrightarrow> json_node L m = Some b \<Longrightarrow> json_parse_node L (b @ newline) = Some m"
    and "clean_content x \<Longrightarrow> clean_content y \<Longrightarrow> json_content L x = Some b \<Longrightarrow>
      json_content L y = Some b \<Longrightarrow> x = y"
  using assms unfolding golib_ok_def by blast+

definition json_marshal :: "golib \<Rightarrow> payload_arg \<Rightarrow> bytes option" where
  "json_marshal L p = (case p of RawMessage b \<Rightarrow> json_raw L b | GoValue r \<Rightarrow> r)"

definition json_error :: go_error where
  "json_error = GoError ''json: unsupported value'' []"

subsection \<open>Content addresses\<close>

definition schemaVersion :: int where
  "schemaVersion = 1"

definition sha_prefix :: string where
  "sha_prefix = ''sha256:''"

definition hash_bytes :: "golib \<Rightarrow> bytes \<Rightarrow> string" where
  "hash_bytes L b = sha_prefix @ hex_encode (sha256 L b)"

definition validateHash :: "string \<Rightarrow> go_error + unit" where
  "validateHash hash =
     (if length hash \<noteq> length sha_prefix + 32 * 2 \<or> \<not> hasPrefix hash sha_prefix
      then Inl (appErr ErrValidation ''invalid SHA-256 node hash'' [])
      else case hex_decode (trimPrefix hash sha_prefix) of
          None \<Rightarrow> Inl (appErr ErrValidation ''invalid SHA-256 node hash'' [])
        | Some decoded \<Rightarrow>
            if length decoded \<noteq> 32
            then Inl (appErr ErrValidation ''invalid SHA-256 node hash'' [])
            else Inr ())"

definition valid_hash :: "string \<Rightarrow> bool" where
  "valid_hash h \<longleftrightarrow> validateHash h = Inr ()"

text \<open>Every hash the store computes passes \<^verbatim>\<open>validateHash\<close>.\<close>

lemma valid_hash_hash_bytes: "length (sha256 L b) = 32 \<Longrightarrow> valid_hash (hash_bytes L b)"
  by (simp add: valid_hash_def validateHash_def hash_bytes_def)

lemma valid_hash_iff:
  "valid_hash h \<longleftrightarrow> (\<exists>t d. h = sha_prefix @ t \<and> length t = 64 \<and> hex_decode t = Some d)"
proof
  assume "valid_hash h"
  then have p: "hasPrefix h sha_prefix" and l: "length h = length sha_prefix + 64"
    and d: "hex_decode (trimPrefix h sha_prefix) \<noteq> None"
    by (auto simp: valid_hash_def validateHash_def split: if_splits option.splits)
  from p obtain t where "h = sha_prefix @ t" by (auto simp: hasPrefix_iff)
  with l d show "\<exists>t d. h = sha_prefix @ t \<and> length t = 64 \<and> hex_decode t = Some d" by auto
next
  assume "\<exists>t d. h = sha_prefix @ t \<and> length t = 64 \<and> hex_decode t = Some d"
  then obtain t d where "h = sha_prefix @ t" "length t = 64" "hex_decode t = Some d" by blast
  moreover from this have "length d = 32" using hex_decode_length by fastforce
  ultimately show "valid_hash h" by (simp add: valid_hash_def validateHash_def)
qed

lemma valid_hash_Nil [simp]: "\<not> valid_hash []"
  by (simp add: valid_hash_iff sha_prefix_def)

lemma validateHash_cases:
  "validateHash h = (if valid_hash h then Inr ()
     else Inl (appErr ErrValidation ''invalid SHA-256 node hash'' []))"
  unfolding valid_hash_def by (simp add: validateHash_def split: option.split)

lemma hex_decode_printable: "hex_decode t = Some d \<Longrightarrow> list_all printable t"
  by (induction t arbitrary: d rule: hex_decode.induct)
    (auto simp: printable_def hex_value_def Let_def split: option.splits if_splits)

lemma valid_hash_printable: "valid_hash h \<Longrightarrow> list_all printable h"
  by (auto simp: valid_hash_iff sha_prefix_def printable_def dest: hex_decode_printable)

definition NodePath :: "path \<Rightarrow> string \<Rightarrow> path" where
  "NodePath dir hash = dir @ [''objects'', ''nodes'', trimPrefix hash sha_prefix @ ''.json'']"

lemma NodePath_inj: "valid_hash a \<Longrightarrow> valid_hash b \<Longrightarrow> NodePath d a = NodePath d b \<longleftrightarrow> a = b"
  by (auto simp: NodePath_def valid_hash_iff)

lemma butlast_NodePath [simp]: "butlast (NodePath d h) = d @ [''objects'', ''nodes'']"
  by (simp add: NodePath_def butlast_append)

lemma NodePath_not_tmp:
  assumes "valid_hash h"
  shows "NodePath d h \<noteq> tmp_path w e (CHR ''.'' # pre)"
proof -
  obtain t where "h = sha_prefix @ t" and l: "length t = 64" and p: "list_all printable t"
    and v: "hex_decode t \<noteq> None"
    using assms by (auto simp: valid_hash_iff dest: hex_decode_printable)
  then have "last (NodePath d h) = t @ ''.json''" by (simp add: NodePath_def)
  moreover have "hd t \<noteq> CHR ''.''" "t \<noteq> []"
    using v l by (cases t rule: hex_decode.cases; auto simp: hex_value_def split: option.splits)+
  ultimately have "last (NodePath d h) \<noteq> last (tmp_path w e (CHR ''.'' # pre))"
    by (cases t) auto
  then show ?thesis by metis
qed

subsection \<open>Integrity of one node\<close>

definition verifyNode :: "golib \<Rightarrow> Node \<Rightarrow> go_error + unit" where
  "verifyNode L node =
     (case json_content L (content_of node) of
        None \<Rightarrow> Inl json_error
      | Some contentBytes \<Rightarrow>
          if hash_bytes L contentBytes \<noteq> nHash node
          then Inl (appErr ErrIntegrity ''node integrity check failed for %s'' [nHash node])
          else Inr ())"

definition parseNode :: "golib \<Rightarrow> string \<Rightarrow> bytes \<Rightarrow> go_error + Node" where
  "parseNode L hash b =
     (case json_parse_node L b of
        None \<Rightarrow> Inl (appErr ErrIntegrity ''node %s is not valid JSON: %v'' [hash])
      | Some node \<Rightarrow>
          if nHash node \<noteq> hash
          then Inl (appErr ErrIntegrity ''node address %s contains node %s'' [hash, nHash node])
          else bindE (verifyNode L node) (\<lambda>_. Inr node))"

definition readNode :: "golib \<Rightarrow> path \<Rightarrow> string \<Rightarrow> Node io" where
  "readNode L dir hash =
     io_bind (io_lift (validateHash hash)) (\<lambda>_.
     io_bind (readFile (NodePath dir hash)) (\<lambda>b.
     io_lift (parseNode L hash b)))"

definition replayMetadata :: "Node \<Rightarrow> Node" where
  "replayMetadata node =
     node\<lparr>nPayload := [], nSealedPayload := None, nRequestHash := []\<rparr>"

text \<open>The node a live file holds, without the calls that read it.\<close>

definition node_at :: "golib \<Rightarrow> path \<Rightarrow> world \<Rightarrow> string \<Rightarrow> Node \<Rightarrow> bool" where
  "node_at L dir w hash node \<longleftrightarrow> valid_hash hash \<and> NodePath dir hash \<notin> set (dirs w)
     \<and> (\<exists>b. fcontent w (NodePath dir hash) = Some b \<and> parseNode L hash b = Inr node)"

lemma parseNode_Inr:
  "parseNode L h b = Inr n \<longleftrightarrow> json_parse_node L b = Some n \<and> nHash n = h
     \<and> (\<exists>c. json_content L (content_of n) = Some c \<and> hash_bytes L c = h)"
  by (auto simp: parseNode_def verifyNode_def bindE_def split: option.splits if_splits sum.splits)

lemma reads_readNode [io_reads]: "reads (readNode L dir h)"
  unfolding readNode_def by (intro io_reads)

lemma readNode_Inr:
  "readNode L dir h w = (Inr n, w') \<Longrightarrow> node_at L dir w h n \<and> at_start w w'"
  unfolding readNode_def node_at_def
  by (auto simp: io_iffs validateHash_cases dest!: readFile_Inr split: if_splits)

lemma readNode_no_fault:
  "faults w = [] \<Longrightarrow> node_at L dir w h n \<Longrightarrow> readNode L dir h w = (Inr n, w)"
  unfolding readNode_def node_at_def
  by (auto simp: io_bind_def validateHash_cases readFile_no_fault)

lemma node_at_unique: "node_at L dir w h n \<Longrightarrow> node_at L dir w h m \<Longrightarrow> n = m"
  by (auto simp: node_at_def)

lemma node_at_hash: "node_at L dir w h n \<Longrightarrow> nHash n = h \<and> valid_hash h"
  by (auto simp: node_at_def parseNode_Inr)

lemma replayMetadata_simps [simp]:
  "nHash (replayMetadata n) = nHash n" "nParents (replayMetadata n) = nParents n"
  "nRequestID (replayMetadata n) = nRequestID n" "nType (replayMetadata n) = nType n"
  "replayMetadata (replayMetadata n) = replayMetadata n"
  by (simp_all add: replayMetadata_def)

subsection \<open>Sealed payloads\<close>

definition gcm_algorithm :: string where
  "gcm_algorithm = ''AES-256-GCM''"

definition nonceSize :: nat where
  "nonceSize = 12"

text \<open>\<^verbatim>\<open>aes.NewCipher\<close> takes keys of 16, 24 or 32 bytes.\<close>

definition aes_key :: "bytes \<Rightarrow> bool" where
  "aes_key key \<longleftrightarrow> length key \<in> {16, 24, 32}"

definition key_size_error :: go_error where
  "key_size_error = GoError ''crypto/aes: invalid key size'' []"

definition encryptPayload :: "golib \<Rightarrow> bytes \<Rightarrow> bytes \<Rightarrow> EncryptedPayload io" where
  "encryptPayload L key plaintext =
     (if \<not> aes_key key then io_fail key_size_error
      else io_bind (readRandom nonceSize) (\<lambda>nonce. io_ret
        \<lparr>Algorithm = gcm_algorithm, Nonce = b64_encode nonce,
         Ciphertext = b64_encode (gcm_seal L key nonce plaintext)\<rparr>))"

definition decryptPayload :: "golib \<Rightarrow> bytes \<Rightarrow> EncryptedPayload \<Rightarrow> go_error + bytes" where
  "decryptPayload L key e =
     (if Algorithm e \<noteq> gcm_algorithm
      then Inl (appErr ErrIntegrity ''unsupported payload encryption algorithm %q'' [Algorithm e])
      else case b64_decode (Nonce e) of
          None \<Rightarrow> Inl (appErr ErrIntegrity ''encrypted payload nonce is not valid base64'' [])
        | Some nonce \<Rightarrow>
      (case b64_decode (Ciphertext e) of
          None \<Rightarrow> Inl (appErr ErrIntegrity ''encrypted payload ciphertext is not valid base64'' [])
        | Some ciphertext \<Rightarrow>
      if \<not> aes_key key then Inl key_size_error
      else if length nonce \<noteq> nonceSize
      then Inl (appErr ErrIntegrity ''invalid encrypted payload nonce length'' [])
      else case gcm_open L key nonce ciphertext of
          None \<Rightarrow> Inl (appErr ErrIntegrity ''encrypted payload authentication failed'' [])
        | Some plaintext \<Rightarrow> Inr plaintext))"

definition nodePayload :: "golib \<Rightarrow> bytes \<Rightarrow> Node \<Rightarrow> go_error + bytes" where
  "nodePayload L key node =
     (case nSealedPayload node of
        Some e \<Rightarrow> decryptPayload L key e
      | None \<Rightarrow>
          if length (nPayload node) > 0 then Inr (nPayload node)
          else Inl (appErr ErrIntegrity ''node %s has no payload'' [nHash node]))"

definition bad_key_error :: go_error where
  "bad_key_error = appErr ErrValidation
     ''JAYBASE_DATA_KEY, INFOBASE_DATA_KEY, or store key must be 32 bytes encoded as base64 or hex'' []"

definition decode_hex_key :: "string \<Rightarrow> go_error + bytes" where
  "decode_hex_key raw =
     (case hex_decode raw of
        Some key \<Rightarrow> if length key = 32 then Inr key else Inl bad_key_error
      | None \<Rightarrow> Inl bad_key_error)"

text \<open>Base64 is tried first, then hexadecimal; both must give 32 bytes.\<close>

definition decodeKey :: "string \<Rightarrow> go_error + bytes" where
  "decodeKey raw =
     (case b64_decode raw of
        Some key \<Rightarrow> if length key = 32 then Inr key else decode_hex_key raw
      | None \<Rightarrow> decode_hex_key raw)"

end
