(* ===== verification/StoreLock.thy ===== *)
theory StoreLock
  imports FileSysLaws
begin

text \<open>
  The writer lock of a store directory (lock_unix.go): an advisory \<^verbatim>\<open>flock\<close> on
  \<^verbatim>\<open>.writer.lock\<close>. The operating system keeps at most one holder per file and drops the
  lock when the descriptor is closed or the process ends (\<open>crash\<close> clears every lock).
\<close>

subsection \<open>The calls on the lock file\<close>

definition lockPath :: "path \<Rightarrow> path" where
  "lockPath dir = dir @ [''.writer.lock'']"

text \<open>\<^verbatim>\<open>os.OpenFile(path, O_CREATE|O_RDWR, 0o600)\<close>: the file handle and a new descriptor.\<close>

definition openLockFile :: "path \<Rightarrow> (handle \<times> nat) io" where
  "openLockFile p = syscall (\<lambda>w.
     if p \<in> set (dirs w) then (Inl (OsError EISDIR), w)
     else if butlast p \<notin> set (dirs w) then (Inl (OsError ENOENT), w)
     else case map_of (ents w) p of
         Some i \<Rightarrow> (Inr ((p, i), next_fd w), w\<lparr>next_fd := Suc (next_fd w)\<rparr>)
       | None \<Rightarrow> let i = fresh_ino w in
           (Inr ((p, i), next_fd w), w\<lparr>ents := AList.update p i (ents w),
              dlog := (p, Some i) # dlog w,
              inodes := (inodes w)(i := \<lparr>idata = [], isynced = False, imode = 0x180\<rparr>),
              next_fd := Suc (next_fd w)\<rparr>))"

text \<open>\<^verbatim>\<open>syscall.Flock(fd, LOCK_EX|LOCK_NB)\<close>\<close>

definition flockEx :: "path \<Rightarrow> nat \<Rightarrow> unit io" where
  "flockEx p fd = syscall (\<lambda>w. case map_of (flocks w) p of
       Some h \<Rightarrow> if h = fd then (Inr (), w) else (Inl (OsError EWOULDBLOCK), w)
     | None \<Rightarrow> (Inr (), w\<lparr>flocks := AList.update p fd (flocks w)\<rparr>))"

definition release :: "path \<Rightarrow> nat \<Rightarrow> world \<Rightarrow> world" where
  "release p fd w = (if map_of (flocks w) p = Some fd
     then w\<lparr>flocks := AList.delete p (flocks w)\<rparr> else w)"

definition flockUn :: "path \<Rightarrow> nat \<Rightarrow> unit io" where
  "flockUn p fd = syscall (\<lambda>w. (Inr (), release p fd w))"

text \<open>Closing the last descriptor of an open file drops its lock.\<close>

definition closeFd :: "path \<Rightarrow> nat \<Rightarrow> unit io" where
  "closeFd p fd = syscall (\<lambda>w. (Inr (), release p fd w))"

definition fileTruncate :: "handle \<Rightarrow> unit io" where
  "fileTruncate f = syscall (\<lambda>w.
     (Inr (), set_inode (snd f) (\<lambda>n. n\<lparr>idata := [], isynced := False\<rparr>) w))"

subsection \<open>acquireStoreLock and Close\<close>

text \<open>\<^verbatim>\<open>storeLock\<close>: the open file, \<open>None\<close> once closed.\<close>

record storeLock =
  lfile :: "(handle \<times> nat) option"

definition lock_conflict :: go_error where
  "lock_conflict =
     appErr ErrConflict ''store is already open by another process or Store instance'' []"

text \<open>\<open>pid\<close> is the text of the process identity written into the file.\<close>

definition acquireStoreLock :: "string \<Rightarrow> path \<Rightarrow> storeLock io" where
  "acquireStoreLock pid dir =
     io_bind (openLockFile (lockPath dir)) (\<lambda>x.
     io_bind (io_try (flockEx (lockPath dir) (snd x))) (\<lambda>r.
       case r of
         Inl e \<Rightarrow> io_defer
           (io_fail (if e = OsError EWOULDBLOCK then lock_conflict else e))
           (closeFd (lockPath dir) (snd x))
       | Inr _ \<Rightarrow>
           io_bind (io_onerr (fileTruncate (fst x)) (closeFd (lockPath dir) (snd x))) (\<lambda>_.
           io_bind (io_onerr (fileWrite (fst x) (pid @ [CHR 0x0A])) (closeFd (lockPath dir) (snd x))) (\<lambda>_.
           io_bind (io_onerr (fileSync (fst x)) (closeFd (lockPath dir) (snd x))) (\<lambda>_.
           io_ret \<lparr>lfile = Some x\<rparr>)))))"

text \<open>The close error is reported only when unlocking succeeded; the file is gone either way.\<close>

definition closeStoreLock :: "storeLock \<Rightarrow> ((go_error + unit) \<times> storeLock) io" where
  "closeStoreLock l =
     (case lfile l of
        None \<Rightarrow> io_ret (Inr (), l)
      | Some (f, fd) \<Rightarrow>
          io_bind (io_try (flockUn (fst f) fd)) (\<lambda>unlockErr.
          io_bind (io_try (closeFd (fst f) fd)) (\<lambda>closeErr.
          io_ret (case unlockErr of Inl e \<Rightarrow> Inl e | Inr _ \<Rightarrow> closeErr, l\<lparr>lfile := None\<rparr>))))"

subsection \<open>One lock holder per store\<close>

definition wf_locks :: "world \<Rightarrow> bool" where
  "wf_locks w \<longleftrightarrow> (\<forall>q h. map_of (flocks w) q = Some h \<longrightarrow> h < next_fd w)"

text \<open>
  \<open>locks_kept w0 w\<close>: every lock held in \<open>w0\<close> by a descriptor opened before is held by
  the same descriptor in \<open>w\<close>.
\<close>

definition locks_kept :: "world \<Rightarrow> world \<Rightarrow> bool" where
  "locks_kept w0 w \<longleftrightarrow> next_fd w0 \<le> next_fd w \<and> (wf_locks w0 \<longrightarrow> wf_locks w) \<and>
     (\<forall>q h. map_of (flocks w0) q = Some h \<longrightarrow> h < next_fd w0 \<longrightarrow> map_of (flocks w) q = Some h)"

definition lock_open :: "world \<Rightarrow> path \<Rightarrow> handle \<times> nat \<Rightarrow> world \<Rightarrow> bool" where
  "lock_open w0 p x w \<longleftrightarrow> locks_kept w0 w \<and> fst (fst x) = p
     \<and> next_fd w0 \<le> snd x \<and> snd x < next_fd w"

definition lock_held :: "world \<Rightarrow> path \<Rightarrow> handle \<times> nat \<Rightarrow> world \<Rightarrow> bool" where
  "lock_held w0 p x w \<longleftrightarrow> lock_open w0 p x w \<and> map_of (flocks w0) p \<noteq> Some (snd x)
     \<and> map_of (flocks w) p = Some (snd x)"

lemma lock_phases_fault_free [simp]:
  "fault_free (locks_kept w0)" "fault_free (lock_open w0 p x)" "fault_free (lock_held w0 p x)"
  by (auto simp: fault_free_def locks_kept_def lock_open_def lock_held_def wf_locks_def)

lemma locks_kept_refl [simp]: "locks_kept w w"
  by (simp add: locks_kept_def)

lemma lock_set_inode [simp]:
  "flocks (set_inode i f w) = flocks w" "next_fd (set_inode i f w) = next_fd w"
  by (simp_all add: set_inode_def)

lemma lock_phases_set_inode [simp]:
  "lock_open w0 p x (set_inode i f w) = lock_open w0 p x w"
  "lock_held w0 p x (set_inode i f w) = lock_held w0 p x w"
  by (simp_all add: lock_open_def lock_held_def locks_kept_def wf_locks_def)

lemma hoare_openLockFile:
  "hoare (locks_kept w0) (openLockFile p) (lock_open w0 p) (locks_kept w0)"
  unfolding openLockFile_def
  by (rule hoare_syscall)
    (auto intro!: hoareI simp: lock_open_def locks_kept_def wf_locks_def Let_def less_SucI
       split: if_splits option.splits)

lemma hoare_flockEx:
  "hoare (lock_open w0 p x) (flockEx p (snd x)) (\<lambda>_ w. lock_open w0 p x w \<and> map_of (flocks w) p = Some (snd x))
     (lock_open w0 p x)"
  unfolding flockEx_def
  by (rule hoare_syscall)
    (auto intro!: hoareI simp: lock_open_def locks_kept_def wf_locks_def split: if_splits option.splits)

lemma flocks_release:
  "map_of (flocks (release p fd w)) q =
     (if q = p \<and> map_of (flocks w) p = Some fd then None else map_of (flocks w) q)"
  "next_fd (release p fd w) = next_fd w"
  by (auto simp: release_def)

lemma locks_kept_release: "lock_open w0 p x w \<Longrightarrow> locks_kept w0 (release q (snd x) w)"
  unfolding locks_kept_def lock_open_def wf_locks_def flocks_release by auto

lemma hoare_closeFd: "hoare (lock_open w0 p x) (closeFd q (snd x)) (\<lambda>_. locks_kept w0) (locks_kept w0)"
  unfolding closeFd_def
  by (rule hoare_syscall) (auto intro!: hoareI locks_kept_release simp: lock_open_def)

lemma hoare_lock_write:
  assumes "fault_free P" and "\<And>i f w. P (set_inode i f w) = P w"
  shows "hoare P (fileWrite h b) (\<lambda>_. P) P"
proof -
  have "P (w\<lparr>faults := fs\<rparr>) = P w" for w fs
    using assms(1) by (auto simp: fault_free_def)
  then show ?thesis
    by (intro hoareI) (auto simp: fileWrite_def assms(2) split: list.splits option.splits)
qed

lemma hoare_inode_call:
  assumes "fault_free P" and "\<And>i f w. P (set_inode i f w) = P w"
  shows "hoare P (syscall (\<lambda>w. (Inr (), set_inode i g w))) (\<lambda>_. P) P"
  by (rule hoare_syscall [OF assms(1,1)]) (auto simp: hoare_def assms(2))

lemma hoare_acquireStoreLock:
  "hoare (locks_kept w0) (acquireStoreLock pid dir)
     (\<lambda>l w. \<exists>x. lfile l = Some x \<and> lock_open w0 (lockPath dir) x w
        \<and> map_of (flocks w) (lockPath dir) = Some (snd x))
     (locks_kept w0)"
proof -
  let ?p = "lockPath dir"
  have fill: "hoare (\<lambda>w. lock_open w0 ?p x w \<and> map_of (flocks w) ?p = Some (snd x))
      (io_bind (io_onerr (fileTruncate (fst x)) (closeFd ?p (snd x))) (\<lambda>_.
       io_bind (io_onerr (fileWrite (fst x) b) (closeFd ?p (snd x))) (\<lambda>_.
       io_bind (io_onerr (fileSync (fst x)) (closeFd ?p (snd x))) (\<lambda>_.
       io_ret \<lparr>lfile = Some x\<rparr>))))
      (\<lambda>l w. \<exists>x. lfile l = Some x \<and> lock_open w0 ?p x w \<and> map_of (flocks w) ?p = Some (snd x))
      (locks_kept w0)" (is "hoare (?P x) _ ?Q ?E") for x b
  proof -
    have ff: "fault_free (?P x)"
      using lock_phases_fault_free(2) [of w0 ?p x] by (auto simp: fault_free_def)
    have si: "?P x (set_inode i f w) = ?P x w" for i f w by simp
    have cl: "hoare (?P x) (closeFd ?p (snd x)) (\<lambda>_. ?E) ?E"
      by (rule hoare_weaken [OF hoare_closeFd [of w0 ?p x]]) auto
    have rt: "hoare (?P x) (io_ret \<lparr>lfile = Some x\<rparr>) ?Q ?E"
      by (cases x) (auto simp: hoare_def)
    show ?thesis
      unfolding fileTruncate_def fileSync_def
      by (rule hoare_bind [OF hoare_onerr [OF hoare_inode_call [OF ff si] cl]],
          rule hoare_bind [OF hoare_onerr [OF hoare_lock_write [OF ff si] cl]],
          rule hoare_bind [OF hoare_onerr [OF hoare_inode_call [OF ff si] cl]],
          rule rt)
  qed
  have att: "hoare (lock_open w0 ?p x) (io_try (flockEx ?p (snd x)))
      (\<lambda>r w. lock_open w0 ?p x w \<and> (r = Inr () \<longrightarrow> map_of (flocks w) ?p = Some (snd x)))
      (locks_kept w0)" for x
    using hoare_flockEx [of w0 ?p x] unfolding hoare_def io_try_def
    by (fastforce split: prod.splits sum.splits)
  have lose: "hoare (lock_open w0 ?p x) (io_defer (io_fail e) (closeFd ?p (snd x))) Q (locks_kept w0)"
    for x e and Q :: "storeLock \<Rightarrow> world \<Rightarrow> bool"
    by (rule hoare_defer [where R = "\<lambda>_ _. False", OF _ _ hoare_closeFd]) (auto simp: hoare_def)
  show ?thesis
    unfolding acquireStoreLock_def
  proof (rule hoare_bind [OF hoare_openLockFile], rule hoare_bind [OF att])
    fix x and r :: "go_error + unit"
    let ?Q = "\<lambda>l w. \<exists>x. lfile l = Some x \<and> lock_open w0 ?p x w \<and> map_of (flocks w) ?p = Some (snd x)"
    show "hoare (\<lambda>w. lock_open w0 ?p x w \<and> (r = Inr () \<longrightarrow> map_of (flocks w) ?p = Some (snd x)))
      (case r of
         Inl e \<Rightarrow> io_defer
           (io_fail (if e = OsError EWOULDBLOCK then lock_conflict else e))
           (closeFd ?p (snd x))
       | Inr _ \<Rightarrow>
           io_bind (io_onerr (fileTruncate (fst x)) (closeFd ?p (snd x))) (\<lambda>_.
           io_bind (io_onerr (fileWrite (fst x) (pid @ [CHR 0x0A])) (closeFd ?p (snd x))) (\<lambda>_.
           io_bind (io_onerr (fileSync (fst x)) (closeFd ?p (snd x))) (\<lambda>_.
           io_ret \<lparr>lfile = Some x\<rparr>)))) ?Q (locks_kept w0)"
    proof (cases r)
      case (Inl e)
      show ?thesis unfolding Inl sum.case by (rule hoare_weaken [OF lose]) auto
    next
      case (Inr u)
      show ?thesis unfolding Inr using fill [of x "pid @ [CHR 0x0A]"] by simp
    qed
  qed
qed

lemma acquire_gets_lock:
  assumes "wf_locks w" and "acquireStoreLock pid dir w = (Inr l, w')"
  obtains f fd where "lfile l = Some (f, fd)" "fst f = lockPath dir"
    "map_of (flocks w) (lockPath dir) = None" "map_of (flocks w') (lockPath dir) = Some fd"
    "next_fd w \<le> fd" "fd < next_fd w'"
proof -
  from hoareD [OF hoare_acquireStoreLock locks_kept_refl assms(2)] obtain x where
      x: "lfile l = Some x" "lock_open w (lockPath dir) x w'"
        "map_of (flocks w') (lockPath dir) = Some (snd x)"
    by blast
  have "map_of (flocks w) (lockPath dir) = None"
  proof (rule ccontr)
    assume "map_of (flocks w) (lockPath dir) \<noteq> None"
    then obtain h where h: "map_of (flocks w) (lockPath dir) = Some h" by auto
    with assms(1) have "h < next_fd w" by (auto simp: wf_locks_def)
    with h x(2) have "map_of (flocks w') (lockPath dir) = Some h"
      by (auto simp: lock_open_def locks_kept_def)
    with x(2,3) \<open>h < next_fd w\<close> show False by (simp add: lock_open_def)
  qed
  with x show thesis
    by (intro that [of "fst x" "snd x"]) (auto simp: lock_open_def)
qed

lemma acquire_keeps_locks: "acquireStoreLock pid dir w = (r, w') \<Longrightarrow> locks_kept w w'"
  using hoareD [OF hoare_acquireStoreLock locks_kept_refl, of pid dir w]
    hoareD_err [OF hoare_acquireStoreLock locks_kept_refl, of pid dir w]
  by (cases r) (auto simp: lock_open_def)

text \<open>While the lock is held, opening fails, with the conflict error unless a call failed.\<close>

lemma acquire_refused:
  assumes "wf_locks w" and "map_of (flocks w) (lockPath dir) = Some h"
  shows "\<exists>e w'. acquireStoreLock pid dir w = (Inl e, w')"
proof (cases "acquireStoreLock pid dir w")
  case (Pair r w')
  show ?thesis
  proof (cases r)
    case (Inl e)
    then show ?thesis using Pair by blast
  next
    case (Inr l)
    then have "acquireStoreLock pid dir w = (Inr l, w')" using Pair by simp
    then show ?thesis using assms by (elim acquire_gets_lock [OF assms(1)]) simp
  qed
qed

lemma acquire_refused_conflict:
  assumes "wf_locks w" and "map_of (flocks w) (lockPath dir) = Some h" and "faults w = []"
    and "dir \<in> set (dirs w)" and "lockPath dir \<notin> set (dirs w)"
  shows "\<exists>w'. acquireStoreLock pid dir w = (Inl lock_conflict, w')"
proof -
  have "h \<noteq> next_fd w" using assms(1,2) by (auto simp: wf_locks_def)
  moreover have "butlast (lockPath dir) = dir" by (simp add: lockPath_def)
  ultimately show ?thesis
    using assms(2-5)
    by (simp add: acquireStoreLock_def io_defs openLockFile_def flockEx_def closeFd_def
        syscall_no_fault Let_def split: option.split)
qed

subsection \<open>Processes sharing a host\<close>

text \<open>
  The processes of a host that open and close stores, in any order, with any failures. A
  process is a number; \<open>locked\<close> gives the directory and the lock each one has open. A
  process that ends loses its descriptors, a machine that stops loses every process.
\<close>

record host =
  hworld :: world
  locked :: "nat \<Rightarrow> (path \<times> handle \<times> nat) option"

inductive host_step :: "host \<Rightarrow> host \<Rightarrow> bool" where
  acquire: "locked s p = None \<Longrightarrow> acquireStoreLock pid dir (hworld s) = (Inr l, w') \<Longrightarrow>
     lfile l = Some (f, fd) \<Longrightarrow>
     host_step s (s\<lparr>hworld := w', locked := (locked s)(p := Some (dir, f, fd))\<rparr>)"
| refused: "acquireStoreLock pid dir (hworld s) = (Inl e, w') \<Longrightarrow> host_step s (s\<lparr>hworld := w'\<rparr>)"
| unlock: "locked s p = Some (dir, f, fd) \<Longrightarrow>
     closeStoreLock \<lparr>lfile = Some (f, fd)\<rparr> (hworld s) = (r, w') \<Longrightarrow>
     host_step s (s\<lparr>hworld := w', locked := (locked s)(p := None)\<rparr>)"
| exit: "locked s p = Some (dir, f, fd) \<Longrightarrow>
     host_step s (s\<lparr>hworld := release (lockPath dir) fd (hworld s), locked := (locked s)(p := None)\<rparr>)"
| reboot: "crash (hworld s) w' \<Longrightarrow> next_fd (hworld s) \<le> next_fd w' \<Longrightarrow>
     host_step s (s\<lparr>hworld := w', locked := (\<lambda>_. None)\<rparr>)"

inductive host_reachable :: "host \<Rightarrow> bool" where
  start: "flocks (hworld s) = [] \<Longrightarrow> locked s = (\<lambda>_. None) \<Longrightarrow> host_reachable s"
| step: "host_reachable s \<Longrightarrow> host_step s t \<Longrightarrow> host_reachable t"

definition host_inv :: "host \<Rightarrow> bool" where
  "host_inv s \<longleftrightarrow> wf_locks (hworld s) \<and>
     (\<forall>p dir f fd. locked s p = Some (dir, f, fd) \<longrightarrow>
        fst f = lockPath dir \<and> map_of (flocks (hworld s)) (lockPath dir) = Some fd) \<and>
     (\<forall>p q dir f fd dir' f' fd'. locked s p = Some (dir, f, fd) \<longrightarrow>
        locked s q = Some (dir', f', fd') \<longrightarrow> fd = fd' \<longrightarrow> p = q)"

text \<open>What closing a lock does, whatever fails: at most its own lock goes.\<close>

definition unlocks :: "path \<Rightarrow> nat \<Rightarrow> world \<Rightarrow> world \<Rightarrow> bool" where
  "unlocks p fd w w' \<longleftrightarrow> next_fd w' = next_fd w \<and>
     (\<forall>q. map_of (flocks w') q = map_of (flocks w) q
        \<or> q = p \<and> map_of (flocks w) q = Some fd \<and> map_of (flocks w') q = None)"

lemma unlocks_release: "unlocks p fd w v \<Longrightarrow> unlocks p fd w (release p fd v)"
  unfolding unlocks_def release_def by (auto split: if_splits) (metis option.distinct(1))+

lemma unlocks_refl [simp]: "unlocks p fd w w"
  by (simp add: unlocks_def)

lemma hoare_unlocks:
  "hoare (unlocks p fd w) (flockUn p fd) (\<lambda>_. unlocks p fd w) (unlocks p fd w)"
  "hoare (unlocks p fd w) (closeFd p fd) (\<lambda>_. unlocks p fd w) (unlocks p fd w)"
  unfolding flockUn_def closeFd_def
  by (rule hoare_syscall; auto intro!: hoareI unlocks_release simp: fault_free_def unlocks_def)+

lemma closeStoreLock_unlocks:
  assumes "closeStoreLock \<lparr>lfile = Some (f, fd)\<rparr> w = (r, w')"
  shows "unlocks (fst f) fd w w'"
proof -
  let ?U = "unlocks (fst f) fd w"
  have t: "hoare ?U (io_try m) (\<lambda>_. ?U) ?U" if "hoare ?U m (\<lambda>_. ?U) ?U" for m :: "unit io"
    using that unfolding hoare_def io_try_def by (fastforce split: prod.splits sum.splits)
  have "hoare ?U (closeStoreLock \<lparr>lfile = Some (f, fd)\<rparr>) (\<lambda>_. ?U) ?U"
    unfolding closeStoreLock_def storeLock.simps option.case prod.case
    by (rule hoare_bind [OF t [OF hoare_unlocks(1)]], rule hoare_bind [OF t [OF hoare_unlocks(2)]])
      (simp add: hoare_def)
  from hoareD [OF this unlocks_refl] hoareD_err [OF this unlocks_refl] assms
  show ?thesis by (cases r) auto
qed

lemma host_inv_unlocks:
  assumes inv: "host_inv s" and p: "locked s p = Some (dir, f, fd)"
    and u: "unlocks (lockPath dir) fd (hworld s) w'"
  shows "host_inv (s\<lparr>hworld := w', locked := (locked s)(p := None)\<rparr>)"
proof -
  have wf: "wf_locks w'"
    using inv u unfolding host_inv_def unlocks_def wf_locks_def by (metis option.distinct(1))
  have held: "fst f' = lockPath d \<and> map_of (flocks w') (lockPath d) = Some fd'"
    if q: "locked s q = Some (d, f', fd')" and ne: "q \<noteq> p" for q d f' fd'
  proof -
    have "fd' \<noteq> fd" using inv p q ne unfolding host_inv_def by blast
    moreover have "fst f' = lockPath d" "map_of (flocks (hworld s)) (lockPath d) = Some fd'"
      using inv q unfolding host_inv_def by blast+
    ultimately show ?thesis using u unfolding unlocks_def by (metis option.inject)
  qed
  have uniq: "q = q'" if "locked s q = Some (d, f1, fd1)" "locked s q' = Some (d', f2, fd1)"
    for q q' d f1 fd1 d' f2
    using that inv unfolding host_inv_def by blast
  show ?thesis unfolding host_inv_def using wf held uniq by (auto split: if_splits)
qed

lemma host_inv_step: "host_step s t \<Longrightarrow> host_inv s \<Longrightarrow> host_inv t"
proof (induction rule: host_step.induct)
  case (acquire s p pid dir l w' f fd)
  have wf: "wf_locks (hworld s)" using acquire.prems by (simp add: host_inv_def)
  have k: "locks_kept (hworld s) w'" by (rule acquire_keeps_locks [OF acquire.hyps(2)])
  from acquire_gets_lock [OF wf acquire.hyps(2)] acquire.hyps(3)
  have l: "fst f = lockPath dir" "map_of (flocks w') (lockPath dir) = Some fd" "next_fd (hworld s) \<le> fd"
    by auto
  have old: "h < next_fd (hworld s) \<and> map_of (flocks w') q = Some h"
    if "map_of (flocks (hworld s)) q = Some h" for q h
    using that wf k by (auto simp: wf_locks_def locks_kept_def)
  have held: "fst f' = lockPath d \<and> map_of (flocks w') (lockPath d) = Some fd' \<and> fd' < fd"
    if "locked s q = Some (d, f', fd')" for q d f' fd'
    using that acquire.prems old l(3) unfolding host_inv_def by (metis less_le_trans)
  then have nofd: "locked s q \<noteq> Some (d, f', fd)" for q d f' by blast
  have wf': "wf_locks w'" using k wf by (simp add: locks_kept_def)
  have uniq: "q = q'" if "locked s q = Some (d, f1, fd1)" "locked s q' = Some (d', f2, fd1)"
    for q q' d f1 fd1 d' f2
    using that acquire.prems unfolding host_inv_def by blast
  show ?case
    unfolding host_inv_def using held l(1,2) wf' uniq nofd by (auto split: if_splits)
next
  case (refused pid dir s e w')
  have wf: "wf_locks (hworld s)" using refused.prems by (simp add: host_inv_def)
  have k: "locks_kept (hworld s) w'" by (rule acquire_keeps_locks [OF refused.hyps])
  have "map_of (flocks w') q = Some h" if "map_of (flocks (hworld s)) q = Some h" for q h
    using that wf k by (auto simp: wf_locks_def locks_kept_def)
  moreover have "wf_locks w'" using k wf by (simp add: locks_kept_def)
  moreover have "fst f = lockPath d \<and> map_of (flocks w') (lockPath d) = Some fd"
    if "locked s q = Some (d, f, fd)" for q d f fd
    using that refused.prems calculation(1) unfolding host_inv_def by blast
  moreover have "q = q'" if "locked s q = Some (d, f, fd)" "locked s q' = Some (d', f', fd)"
    for q q' d f fd d' f'
    using that refused.prems unfolding host_inv_def by blast
  ultimately show ?case unfolding host_inv_def by simp
next
  case (unlock s p dir f fd r w')
  have u: "unlocks (lockPath dir) fd (hworld s) w'"
  proof -
    have "fst f = lockPath dir" using unlock.prems unlock.hyps(1) unfolding host_inv_def by blast
    then show ?thesis using closeStoreLock_unlocks [OF unlock.hyps(2)] by simp
  qed
  show ?case by (rule host_inv_unlocks [OF unlock.prems unlock.hyps(1) u])
next
  case (exit s p dir f fd)
  have u: "unlocks (lockPath dir) fd (hworld s) (release (lockPath dir) fd (hworld s))"
    by (rule unlocks_release) simp
  show ?case by (rule host_inv_unlocks [OF exit.prems exit.hyps u])
next
  case (reboot s w')
  then show ?case by (auto simp: host_inv_def wf_locks_def crash_def)
qed

lemma host_reachable_inv: "host_reachable s \<Longrightarrow> host_inv s"
proof (induction rule: host_reachable.induct)
  case (start s)
  then show ?case by (simp add: host_inv_def wf_locks_def)
next
  case (step s t)
  then show ?case by (blast intro: host_inv_step)
qed

end
