(* ===== verification/FileSysFrames.thy ===== *)
theory FileSysFrames
  imports StoreLock
begin

text \<open>
  Frame laws that opening a store needs: the directories it makes, the lock file it rewrites
  in place, and the inodes a file replacement brings into use.
\<close>

subsection \<open>Contents that stay\<close>

text \<open>The file \<open>q\<close> has the same live contents, and every promise about a crash still holds.\<close>

definition same_content :: "path \<Rightarrow> world \<Rightarrow> world \<Rightarrow> bool" where
  "same_content q w w' \<longleftrightarrow> fcontent w' q = fcontent w q
     \<and> (\<forall>C. after_crash w q C \<longrightarrow> after_crash w' q C)"

lemma same_content_refl [simp]: "same_content q w w"
  by (simp add: same_content_def)

lemma same_content_trans: "same_content q a b \<Longrightarrow> same_content q b c \<Longrightarrow> same_content q a c"
  by (simp add: same_content_def)

lemma keeps_same_content: "keeps q w w' \<Longrightarrow> same_content q w w'"
  by (simp add: same_content_def keeps_fcontent keeps_after_crash)

text \<open>Views that decide contents: entries, logs, and the data and sync flag of inodes.\<close>

lemma same_contentI:
  assumes "ents w' = ents w" "dents w' = dents w" "dlog w' = dlog w"
    and "\<And>i. idata (inodes w' i) = idata (inodes w i) \<and> isynced (inodes w' i) = isynced (inodes w i)"
  shows "same_content q w w'"
proof -
  have "crash_ents w' q = crash_ents w q" using assms(1-3) by (simp add: crash_ents_def)
  then show ?thesis
    using assms(1,4) by (auto simp: same_content_def fcontent_def after_crash_def split: option.splits)
qed

lemma mkdirAll_views:
  assumes "mkdirAll d w = (r, w')"
  shows "ents w' = ents w" "dents w' = dents w" "dlog w' = dlog w" "inodes w' = inodes w"
    "set (dirs w') \<subseteq> set (dirs w) \<union> {take k d | k. True}"
  using assms
  by (auto simp: mkdirAll_def syscall_def Let_def fold_setDir simp del: upt_Suc
      split: list.splits option.splits if_splits)

lemma mkdirAll_keeps: "mkdirAll d w = (r, w') \<Longrightarrow> keeps q w w'"
  using mkdirAll_views [of d w r w'] by (simp add: keeps_def crash_ents_def)

subsection \<open>Inodes in use\<close>

text \<open>\<open>only_new i w0 w\<close>: the only inode some name may have gained is \<open>i\<close>.\<close>

definition only_new :: "nat \<Rightarrow> world \<Rightarrow> world \<Rightarrow> bool" where
  "only_new i w0 w \<longleftrightarrow> (\<forall>q j. Some j \<in> crash_ents w q \<longrightarrow> Some j \<in> crash_ents w0 q \<or> j = i)"

definition temp_ino :: "nat \<Rightarrow> path \<Rightarrow> world \<Rightarrow> world \<Rightarrow> bool" where
  "temp_ino i t w0 w \<longleftrightarrow> only_new i w0 w \<and> (map_of (ents w) t = None \<or> map_of (ents w) t = Some i)"

lemma temp_ino_fault_free [simp]: "fault_free (temp_ino i t w0)"
  by (simp add: fault_free_def temp_ino_def only_new_def)

lemma hoare_pure_call:
  assumes "fault_free P" and "\<And>w x w'. P w \<Longrightarrow> m w = (Inr x, w') \<Longrightarrow> P w'"
    and "\<And>w e w'. P w \<Longrightarrow> m w = (Inl e, w') \<Longrightarrow> P w'"
  shows "hoare P (syscall m) (\<lambda>_. P) P"
  by (rule hoare_syscall [OF assms(1,1)]) (auto intro!: hoareI intro: assms(2,3))

lemma temp_ino_set_inode [simp]: "temp_ino i t w0 (set_inode j f w) = temp_ino i t w0 w"
  by (simp add: temp_ino_def only_new_def)

lemma hoare_temp_ino_calls:
  "hoare (temp_ino i t w0) (fileChmod f m) (\<lambda>_. temp_ino i t w0) (temp_ino i t w0)"
  "hoare (temp_ino i t w0) (fileWrite f b) (\<lambda>_. temp_ino i t w0) (temp_ino i t w0)"
  "hoare (temp_ino i t w0) (fileSync f) (\<lambda>_. temp_ino i t w0) (temp_ino i t w0)"
  "hoare (temp_ino i t w0) (fileClose f) (\<lambda>_. temp_ino i t w0) (temp_ino i t w0)"
  "hoare (temp_ino i t w0) (openDir d) (\<lambda>_. temp_ino i t w0) (temp_ino i t w0)"
  "hoare (temp_ino i t w0) (closeDir d) (\<lambda>_. temp_ino i t w0) (temp_ino i t w0)"
  unfolding fileChmod_def fileSync_def fileClose_def openDir_def closeDir_def
  by (rule hoare_pure_call hoare_lock_write; auto split: if_splits)+

lemma temp_ino_fsync:
  "temp_ino i t w0 w \<Longrightarrow> temp_ino i t w0 (w\<lparr>
     dents := filter (\<lambda>(p, i). in_dir d p) (ents w) @ filter (\<lambda>(p, i). \<not> in_dir d p) (dents w),
     dlog := filter (\<lambda>(p, v). \<not> in_dir d p) (dlog w)\<rparr>)"
  unfolding temp_ino_def only_new_def crash_ents_fsync
  by (auto simp: crash_ents_def [of w] split: if_splits)

lemma temp_ino_rename:
  assumes "temp_ino i t w0 w" "map_of (ents w) t = Some j" "p \<noteq> t"
  shows "temp_ino i t w0 (w\<lparr>ents := AList.update p j (AList.delete t (ents w)),
      dlog := (p, Some j) # (t, None) # dlog w\<rparr>)"
proof -
  have j: "j = i" using assms(1,2) by (auto simp: temp_ino_def)
  show ?thesis
    using assms(1,3) unfolding temp_ino_def only_new_def j
    by (auto simp: crash_ents_def split: if_splits)
qed

lemma temp_ino_link:
  assumes "temp_ino i t w0 w" "map_of (ents w) t = Some j" "p \<noteq> t"
  shows "temp_ino i t w0 (w\<lparr>ents := AList.update p j (ents w), dlog := (p, Some j) # dlog w\<rparr>)"
proof -
  have j: "j = i" using assms(1,2) by (auto simp: temp_ino_def)
  show ?thesis
    using assms(1,3) unfolding temp_ino_def only_new_def j
    by (auto simp: crash_ents_def split: if_splits)
qed

lemma temp_ino_remove:
  assumes "temp_ino i t w0 w"
  shows "temp_ino i t w0 (w\<lparr>ents := AList.delete t (ents w), dlog := (t, None) # dlog w\<rparr>)"
  using assms unfolding temp_ino_def only_new_def
  by (auto simp: crash_ents_def split: if_splits)

lemma hoare_temp_ino_names:
  assumes "p \<noteq> t"
  shows "hoare (temp_ino i t w0) (osRename t p) (\<lambda>_. temp_ino i t w0) (temp_ino i t w0)"
    and "hoare (temp_ino i t w0) (osLink t p) (\<lambda>_. temp_ino i t w0) (temp_ino i t w0)"
    and "hoare (temp_ino i t w0) (osRemove t) (\<lambda>_. temp_ino i t w0) (temp_ino i t w0)"
    and "hoare (temp_ino i t w0) (fsyncDir d) (\<lambda>_. temp_ino i t w0) (temp_ino i t w0)"
  unfolding osRename_def osLink_def osRemove_def fsyncDir_def
  by (rule hoare_pure_call;
      auto intro: temp_ino_rename [OF _ _ assms] temp_ino_link [OF _ _ assms] temp_ino_remove
        temp_ino_fsync split: option.splits if_splits)+

lemma hoare_createTemp_ino:
  "hoare (at_start w0) (createTemp d pre)
     (\<lambda>f w. f = (tmp_path w0 d pre, fresh_ino w0) \<and> temp_ino (fresh_ino w0) (tmp_path w0 d pre) w0 w)
     (only_new (fresh_ino w0) w0)"
proof (rule hoareI)
  let ?t = "tmp_path w0 d pre" and ?i = "fresh_ino w0"
  fix w f w' assume s: "at_start w0 w" and r: "createTemp d pre w = (Inr f, w')"
  from hoareD [OF hoare_createTemp s r]
  have f: "f = (?t, ?i)" and it: "in_temp w0 ?t ?i (\<lambda>n. idata n = []) w'" by auto
  have c: "crash_ents w' ?t \<subseteq> insert (Some ?i) (crash_ents w0 ?t)"
    using s r unfolding createTemp_def createNamed_def
    by (elim at_startE)
      (auto simp: syscall_def Let_def crash_ents_def tmp_path_def tmp_suffix_def fresh_ino_def
        split: list.splits option.splits if_splits)
  have "only_new ?i w0 w'"
    unfolding only_new_def
  proof (intro allI impI)
    fix q j assume "Some j \<in> crash_ents w' q"
    then show "Some j \<in> crash_ents w0 q \<or> j = ?i"
      using c it by (cases "q = ?t") (auto simp: in_temp_def keeps_def)
  qed
  with f it show "f = (?t, ?i) \<and> temp_ino ?i ?t w0 w'" by (simp add: temp_ino_def in_temp_def)
next
  fix w e w' assume s: "at_start w0 w" and r: "createTemp d pre w = (Inl e, w')"
  have "at_start w0 w'" using hoareD_err [OF hoare_createTemp s r] .
  then show "only_new (fresh_ino w0) w0 w'" by (auto simp: only_new_def elim!: at_startE)
qed

lemma hoare_temp_body:
  assumes "p \<noteq> t"
  shows "hoare (temp_ino i t w0) (io_bind (fillTemp f b m) (\<lambda>_. io_bind (osRename t p) (\<lambda>_. syncDir d)))
      (\<lambda>_. temp_ino i t w0) (temp_ino i t w0)"
    and "hoare (temp_ino i t w0) (io_bind (fillTemp f b m) (\<lambda>_. io_bind (osLink t p) (\<lambda>_. syncDir d)))
      (\<lambda>_. temp_ino i t w0) (temp_ino i t w0)"
  unfolding fillTemp_def syncDir_def
  by (rule hoare_bind hoare_onerr hoare_defer hoare_temp_ino_calls hoare_temp_ino_names [OF assms])+

lemma replaceFile_only_new:
  assumes ne: "p \<noteq> tmp_path w (butlast p) pre" and run: "replaceFile pre p b m w = (r, w')"
  shows "only_new (fresh_ino w) w w'"
proof -
  let ?t = "tmp_path w (butlast p) pre" and ?i = "fresh_ino w"
  have "hoare (at_start w) (replaceFile pre p b m) (\<lambda>_. only_new ?i w) (only_new ?i w)"
    unfolding replaceFile_def
  proof (rule hoare_bind [OF hoare_createTemp_ino])
    fix f :: handle
    let ?d = "io_defer (io_bind (fillTemp f b m) (\<lambda>_. io_bind (osRename (fst f) p) (\<lambda>_. syncDir (butlast p))))
        (osRemove (fst f))"
    have "hoare (temp_ino ?i ?t w) ?d (\<lambda>_. temp_ino ?i ?t w) (temp_ino ?i ?t w)" if "f = (?t, ?i)"
      unfolding that fst_conv
      by (rule hoare_defer hoare_temp_body [OF ne] hoare_temp_ino_names [OF ne])+
    then show "hoare (\<lambda>v. f = (?t, ?i) \<and> temp_ino ?i ?t w v) ?d (\<lambda>_. only_new ?i w) (only_new ?i w)"
      unfolding hoare_def temp_ino_def [of ?i ?t w] by (fastforce split: prod.splits sum.splits)
  qed
  from hoareD [OF this at_start_refl] hoareD_err [OF this at_start_refl] run
  show ?thesis by (cases r) auto
qed

lemma atomicCreateFile_only_new:
  assumes ne: "p \<noteq> tmp_path w (butlast p) ''.jaybase-node-''"
    and run: "atomicCreateFile p b m w = (r, w')"
  shows "only_new (fresh_ino w) w w'"
proof -
  let ?t = "tmp_path w (butlast p) ''.jaybase-node-''" and ?i = "fresh_ino w"
  have "hoare (at_start w) (atomicCreateFile p b m) (\<lambda>_. only_new ?i w) (only_new ?i w)"
    unfolding atomicCreateFile_def
  proof (rule hoare_bind [OF hoare_createTemp_ino])
    fix f :: handle
    let ?d = "io_defer (io_bind (fillTemp f b m) (\<lambda>_. io_bind (osLink (fst f) p) (\<lambda>_. syncDir (butlast p))))
        (osRemove (fst f))"
    have "hoare (temp_ino ?i ?t w) ?d (\<lambda>_. temp_ino ?i ?t w) (temp_ino ?i ?t w)" if "f = (?t, ?i)"
      unfolding that fst_conv
      by (rule hoare_defer hoare_temp_body [OF ne] hoare_temp_ino_names [OF ne])+
    then show "hoare (\<lambda>v. f = (?t, ?i) \<and> temp_ino ?i ?t w v) ?d (\<lambda>_. only_new ?i w) (only_new ?i w)"
      unfolding hoare_def temp_ino_def [of ?i ?t w] by (fastforce split: prod.splits sum.splits)
  qed
  from hoareD [OF this at_start_refl] hoareD_err [OF this at_start_refl] run
  show ?thesis by (cases r) auto
qed

end
