(* ===== verification/Store.thy ===== *)
theory Store
  imports Node FileSysFrames
begin

text \<open>
  The store object (storage.go): its in-memory indexes, opening a directory, walking the
  chain of nodes from a root, and closing.
\<close>

subsection \<open>State\<close>

record requestRecord =
  rrHash :: string
  rrRequestHash :: string

text \<open>
  \<^verbatim>\<open>Store\<close>. The mutex is not a field: every method runs as one step under it (the one
  exception, payload reads after the lock is released, is modelled as two steps). \<open>snow\<close>
  maps the wall clock to the store's clock (\<^verbatim>\<open>SetClock\<close>).
\<close>

record Store =
  sdir :: path
  snow :: "time \<Rightarrow> time"
  skey :: bytes
  slock :: "storeLock option"
  history :: "string list"
  metadata :: "Node list"
  historyIndex :: "string \<rightharpoonup> nat"
  requestIndex :: "string \<rightharpoonup> requestRecord"

definition rootPath :: "path \<Rightarrow> path" where
  "rootPath dir = dir @ [''refs'', ''root'']"

definition indexedRoot :: "Store \<Rightarrow> string" where
  "indexedRoot s = (if length (history s) = 0 then [] else history s ! (length (history s) - 1))"

definition storeNow :: "Store \<Rightarrow> time io" where
  "storeNow s = io_bind readClock (\<lambda>t. io_ret (snow s t))"

text \<open>\<^verbatim>\<open>SetClock(nil)\<close> restores the wall clock.\<close>

definition SetClock :: "(time \<Rightarrow> time) option \<Rightarrow> Store \<Rightarrow> Store" where
  "SetClock now s = (case now of None \<Rightarrow> s\<lparr>snow := (\<lambda>t. t)\<rparr> | Some f \<Rightarrow> s\<lparr>snow := f\<rparr>)"

subsection \<open>The root ref\<close>

text \<open>A missing root file is the empty root; any other read error is returned.\<close>

definition currentRoot :: "path \<Rightarrow> string io" where
  "currentRoot dir =
     io_bind (io_try (readFile (rootPath dir))) (\<lambda>r.
       case r of
         Inl e \<Rightarrow> if isNotExist e then io_ret [] else io_fail e
       | Inr b \<Rightarrow> io_ret (trimSpace b))"

definition CurrentRoot :: "Store \<Rightarrow> string io" where
  "CurrentRoot s = currentRoot (sdir s)"

subsection \<open>Walking the chain\<close>

text \<open>
  The loop of \<^verbatim>\<open>nodesFromRoot\<close>: \<open>seen\<close> holds the roots visited, \<open>reversed\<close> the nodes read
  so far, newest first. It stops because every turn reads a node file that no earlier turn
  read, and there are finitely many files.
\<close>

definition unread :: "path \<Rightarrow> string list \<Rightarrow> world \<Rightarrow> nat" where
  "unread dir seen w = card (dom (map_of (ents w)) - NodePath dir ` {h \<in> set seen. valid_hash h})"

lemma unread_less:
  assumes "readNode L dir root w = (Inr node, w')" and "root \<notin> set seen"
  shows "unread dir (root # seen) w' < unread dir seen w"
proof -
  let ?V = "{h \<in> set seen. valid_hash h}"
  have n: "node_at L dir w root node" and w': "at_start w w'"
    using readNode_Inr [OF assms(1)] by auto
  have v: "valid_hash root" using node_at_hash [OF n] by simp
  have d: "NodePath dir root \<in> dom (map_of (ents w))"
    using n by (auto simp: node_at_def fcontent_def)
  have nv: "NodePath dir root \<notin> NodePath dir ` ?V"
    using v assms(2) by (auto simp: NodePath_inj)
  have s: "{h \<in> set (root # seen). valid_hash h} = insert root ?V" using v by auto
  have "dom (map_of (ents w')) - NodePath dir ` insert root ?V
      \<subset> dom (map_of (ents w)) - NodePath dir ` ?V"
    using d nv at_start_views(1) [OF w'] by auto
  then show ?thesis
    unfolding unread_def s by (rule psubset_card_mono [rotated]) (simp add: finite_dom_map_of)
qed

function walk :: "golib \<Rightarrow> path \<Rightarrow> string \<Rightarrow> string list \<Rightarrow> Node list \<Rightarrow> Node list io" where
  "walk L dir root seen reversed w =
     (if root = [] then (Inr reversed, w)
      else if root \<in> set seen
      then (Inl (appErr ErrIntegrity ''cycle detected while walking DAG at %s'' [root]), w)
      else case readNode L dir root w of
          (Inl e, w') \<Rightarrow> (Inl e, w')
        | (Inr node, w') \<Rightarrow>
            if length (nParents node) = 0 then (Inr (reversed @ [node]), w')
            else if length (nParents node) > 1
            then (Inl (appErr ErrIntegrity ''merge roots are not supported in phase 1'' []), w')
            else walk L dir (nParents node ! 0) (root # seen) (reversed @ [node]) w')"
  by pat_completeness auto
termination
  by (relation "measure (\<lambda>(L, dir, root, seen, reversed, w). unread dir seen w)")
    (auto dest!: sym [where s = "(_, _)"] intro: unread_less)

declare walk.simps [simp del]

definition nodesFromRoot :: "golib \<Rightarrow> path \<Rightarrow> string \<Rightarrow> Node list io" where
  "nodesFromRoot L dir root =
     (if root = [] then io_ret []
      else io_bind (walk L dir root [] []) (\<lambda>reversed. io_ret (rev reversed)))"

definition NodesFromRoot :: "golib \<Rightarrow> Store \<Rightarrow> string \<Rightarrow> Node list io" where
  "NodesFromRoot L s root = nodesFromRoot L (sdir s) root"

subsection \<open>Indexes\<close>

text \<open>One turn of the loop of \<^verbatim>\<open>rebuildIndexes\<close>; the position is the number of entries so far.\<close>

definition indexNode :: "Store \<Rightarrow> Node \<Rightarrow> go_error + Store" where
  "indexNode s node =
     (let s1 = s\<lparr>history := history s @ [nHash node],
                 metadata := metadata s @ [replayMetadata node],
                 historyIndex := (historyIndex s)(nHash node \<mapsto> length (history s))\<rparr> in
      if nRequestID node = [] then Inr s1
      else case requestIndex s1 (nRequestID node) of
          Some existing \<Rightarrow> Inl (appErr ErrIntegrity ''duplicate request ID %s in nodes %s and %s''
             [nRequestID node, rrHash existing, nHash node])
        | None \<Rightarrow> Inr (s1\<lparr>requestIndex := (requestIndex s1)(nRequestID node \<mapsto>
             \<lparr>rrHash = nHash node, rrRequestHash = nRequestHash node\<rparr>)\<rparr>))"

fun indexNodes :: "Store \<Rightarrow> Node list \<Rightarrow> go_error + Store" where
  "indexNodes s [] = Inr s"
| "indexNodes s (n # ns) = bindE (indexNode s n) (\<lambda>s'. indexNodes s' ns)"

definition clear_indexes :: "Store \<Rightarrow> Store" where
  "clear_indexes s = s\<lparr>history := [], metadata := [], historyIndex := Map.empty,
     requestIndex := Map.empty\<rparr>"

definition rebuildIndexes :: "golib \<Rightarrow> Store \<Rightarrow> Store io" where
  "rebuildIndexes L s =
     io_bind (currentRoot (sdir s)) (\<lambda>root.
     io_bind (nodesFromRoot L (sdir s) root) (\<lambda>nodes.
     io_lift (indexNodes (clear_indexes s) nodes)))"

subsection \<open>Opening and closing\<close>

definition keyPath :: "path \<Rightarrow> path" where
  "keyPath dir = dir @ [''keys'', ''data.key'']"

definition loadOrCreateKey :: "path \<Rightarrow> bytes io" where
  "loadOrCreateKey dir =
     io_bind (getenv ''JAYBASE_DATA_KEY'') (\<lambda>raw.
     if raw \<noteq> [] then io_lift (decodeKey raw) else
     io_bind (getenv ''INFOBASE_DATA_KEY'') (\<lambda>raw.
     if raw \<noteq> [] then io_lift (decodeKey raw) else
     io_bind (io_try (readFile (keyPath dir))) (\<lambda>r.
       case r of
         Inl e \<Rightarrow>
           if isNotExist e then
             io_bind (readRandom 32) (\<lambda>key.
             io_bind (atomicWriteFile (keyPath dir) (b64_encode key @ newline) 0x180) (\<lambda>_.
             io_ret key))
           else io_fail e
       | Inr b \<Rightarrow>
           io_bind (chmodPath (keyPath dir) 0x180) (\<lambda>_.
           io_lift (decodeKey (trimSpace b))))))"

definition explicitKey :: "string \<Rightarrow> bytes io" where
  "explicitKey encodedKey =
     (if trimSpace encodedKey = []
      then io_fail (appErr ErrValidation ''an explicit data key is required'' [])
      else io_lift (decodeKey (trimSpace encodedKey)))"

text \<open>The head must decrypt with the key given.\<close>

definition checkHead :: "golib \<Rightarrow> Store \<Rightarrow> unit io" where
  "checkHead L s =
     (if length (history s) > 0 then
        io_bind (readNode L (sdir s) (history s ! (length (history s) - 1))) (\<lambda>head.
          case nodePayload L (skey s) head of
            Inl e \<Rightarrow> io_fail (appErr ErrIntegrity ''data key cannot decrypt the current head: %v'' [])
          | Inr _ \<Rightarrow> io_ret ())
      else io_ret ())"

definition makeDirs :: "path \<Rightarrow> unit io" where
  "makeDirs dir =
     io_bind (mkdirAll (dir @ [''objects'', ''nodes''])) (\<lambda>_.
     io_bind (chmodDir (dir @ [''objects'', ''nodes''])) (\<lambda>_.
     io_bind (mkdirAll (dir @ [''refs'', ''named''])) (\<lambda>_.
     io_bind (chmodDir (dir @ [''refs'', ''named''])) (\<lambda>_.
     io_bind (mkdirAll (dir @ [''keys''])) (\<lambda>_.
     io_bind (chmodDir (dir @ [''keys''])) (\<lambda>_.
     chmodDir dir))))))"

text \<open>After the lock is taken every error path closes it again (\<^verbatim>\<open>defer\<close>, \<^verbatim>\<open>opened\<close>).\<close>

definition openLocked :: "golib \<Rightarrow> path \<Rightarrow> bytes io \<Rightarrow> storeLock \<Rightarrow> Store io" where
  "openLocked L dir getKey lock =
     io_onerr
       (io_bind getKey (\<lambda>key.
        io_bind (rebuildIndexes L \<lparr>sdir = dir, snow = (\<lambda>t. t), skey = key, slock = Some lock,
            history = [], metadata = [], historyIndex = Map.empty, requestIndex = Map.empty\<rparr>) (\<lambda>s.
        io_bind (checkHead L s) (\<lambda>_.
        io_ret s))))
       (io_bind (closeStoreLock lock) (\<lambda>_. io_ret ()))"

definition openStore :: "golib \<Rightarrow> string \<Rightarrow> path \<Rightarrow> string \<Rightarrow> bool \<Rightarrow> Store io" where
  "openStore L pid dir0 encodedKey requireExplicitKey =
     (let dir = (if dir0 = [] then [''.jaybase''] else dir0) in
      io_bind (makeDirs dir) (\<lambda>_.
      io_bind (acquireStoreLock pid dir) (\<lambda>lock.
      openLocked L dir
        (if requireExplicitKey then explicitKey encodedKey else loadOrCreateKey dir) lock)))"

definition OpenStore :: "golib \<Rightarrow> string \<Rightarrow> path \<Rightarrow> Store io" where
  "OpenStore L pid dir = openStore L pid dir [] False"

definition OpenStoreWithDataKey :: "golib \<Rightarrow> string \<Rightarrow> path \<Rightarrow> string \<Rightarrow> Store io" where
  "OpenStoreWithDataKey L pid dir encodedKey = openStore L pid dir encodedKey True"

text \<open>\<^verbatim>\<open>Close\<close>: the lock field is cleared whatever the unlock reports; twice is harmless.\<close>

definition CloseStore :: "Store \<Rightarrow> ((go_error + unit) \<times> Store) io" where
  "CloseStore s =
     (case slock s of
        None \<Rightarrow> io_ret (Inr (), s)
      | Some l \<Rightarrow> io_bind (closeStoreLock l) (\<lambda>(err, l'). io_ret (err, s\<lparr>slock := None\<rparr>)))"

end
