(* ===== verification/StoreAppend.thy ===== *)
theory StoreAppend
  imports Store
begin

text \<open>
  Appending an event (storage.go: \<^verbatim>\<open>append\<close>, \<^verbatim>\<open>Append\<close>, \<^verbatim>\<open>AppendAt\<close>,
  \<^verbatim>\<open>AppendIdempotent\<close>). The method is split where its effects change character:
  \<open>prepareNode\<close> checks the request and builds the node, reading the disk only;
  \<open>publishNode\<close> creates the node file; \<open>append\<close> then replaces the root ref and updates the
  indexes. On an error the caller keeps the store object it had.
\<close>

definition index_mismatch :: go_error where
  "index_mismatch =
     appErr ErrIntegrity ''current root does not match the in-memory history index'' []"

definition trimOptions :: "AppendOptions \<Rightarrow> AppendOptions" where
  "trimOptions opts = opts\<lparr>oType := trimSpace (oType opts),
     oEntityID := trimSpace (oEntityID opts), oCommand := trimSpace (oCommand opts)\<rparr>"

definition mkContent :: "Context \<Rightarrow> AppendOptions \<Rightarrow> string \<Rightarrow> EncryptedPayload \<Rightarrow> time \<Rightarrow> nodeContent" where
  "mkContent ctx opts root sealed created =
     \<lparr>nSchema = schemaVersion, nType = oType opts, nEntityID = oEntityID opts,
      nParents = (if root \<noteq> [] then [root] else []), nPayload = [],
      nSealedPayload = Some sealed, nActor = ctxActor ctx, nRole = ctxRole ctx,
      nCommand = oCommand opts, nCreatedAt = created, nRequestID = oRequestID opts,
      nRequestHash = oRequestHash opts\<rparr>"

definition mkNode :: "nodeContent \<Rightarrow> string \<Rightarrow> Node" where
  "mkNode content hash =
     \<lparr>nSchema = nSchema content, nType = nType content, nEntityID = nEntityID content,
      nParents = nParents content, nPayload = nPayload content,
      nSealedPayload = nSealedPayload content, nActor = nActor content, nRole = nRole content,
      nCommand = nCommand content, nCreatedAt = nCreatedAt content,
      nRequestID = nRequestID content, nRequestHash = nRequestHash content, nHash = hash\<rparr>"

text \<open>The lines of \<^verbatim>\<open>append\<close> up to the node value: checks, sealing, content address.\<close>

definition prepareNode ::
    "golib \<Rightarrow> Store \<Rightarrow> Context \<Rightarrow> AppendOptions \<Rightarrow> string option \<Rightarrow> Node io" where
  "prepareNode L s ctx opts0 expectedRoot =
     (let opts = trimOptions opts0 in
      if oType opts = []
      then io_fail (appErr ErrValidation ''node type is required'' [])
      else io_bind (currentRoot (sdir s)) (\<lambda>root.
        if root \<noteq> indexedRoot s then io_fail index_mismatch
        else if expectedRoot \<noteq> None \<and> root \<noteq> the expectedRoot
        then io_fail (appErr ErrConflict ''root changed: expected %q, current %q''
               [the expectedRoot, root])
        else case json_marshal L (oPayload opts) of
            None \<Rightarrow> io_fail json_error
          | Some raw \<Rightarrow>
              io_bind (encryptPayload L (skey s) raw) (\<lambda>sealed.
              io_bind (if isZero (oCreatedAt opts) then storeNow s
                       else io_ret (oCreatedAt opts)) (\<lambda>created.
              let content = mkContent ctx opts root sealed (truncate_us created) in
              case json_content L content of
                None \<Rightarrow> io_fail json_error
              | Some contentBytes \<Rightarrow> io_ret (mkNode content (hash_bytes L contentBytes))))))"

text \<open>A node file that exists is left alone; one that does not is created.\<close>

definition publishNode :: "golib \<Rightarrow> Store \<Rightarrow> Node \<Rightarrow> unit io" where
  "publishNode L s node =
     io_bind (io_try (statFile (NodePath (sdir s) (nHash node)))) (\<lambda>st.
       case st of
         Inr _ \<Rightarrow> io_ret ()
       | Inl e \<Rightarrow>
           if isNotExist e then
             (case json_node L node of
                None \<Rightarrow> io_fail json_error
              | Some nodeBytes \<Rightarrow>
                  atomicCreateFile (NodePath (sdir s) (nHash node)) (nodeBytes @ newline) 0x180)
           else io_fail e)"

definition recordNode :: "Store \<Rightarrow> Node \<Rightarrow> Store" where
  "recordNode s node =
     (let s1 = s\<lparr>historyIndex := (historyIndex s)(nHash node \<mapsto> length (history s)),
                 history := history s @ [nHash node],
                 metadata := metadata s @ [replayMetadata node]\<rparr> in
      if nRequestID node \<noteq> [] then
        s1\<lparr>requestIndex := (requestIndex s1)(nRequestID node \<mapsto>
             \<lparr>rrHash = nHash node, rrRequestHash = nRequestHash node\<rparr>)\<rparr>
      else s1)"

definition append :: "golib \<Rightarrow> Store \<Rightarrow> Context \<Rightarrow> AppendOptions \<Rightarrow> string option
    \<Rightarrow> (string \<times> Store) io" where
  "append L s ctx opts expectedRoot =
     io_bind (prepareNode L s ctx opts expectedRoot) (\<lambda>node.
     io_bind (publishNode L s node) (\<lambda>_.
     io_bind (atomicWriteFile (rootPath (sdir s)) (nHash node @ newline) 0x180) (\<lambda>_.
     io_ret (nHash node, recordNode s node))))"

definition Append :: "golib \<Rightarrow> Store \<Rightarrow> Context \<Rightarrow> AppendOptions \<Rightarrow> (string \<times> Store) io" where
  "Append L s ctx opts = append L s ctx opts None"

definition AppendAt ::
    "golib \<Rightarrow> Store \<Rightarrow> Context \<Rightarrow> AppendOptions \<Rightarrow> string \<Rightarrow> (string \<times> Store) io" where
  "AppendAt L s ctx opts expectedRoot = append L s ctx opts (Some expectedRoot)"

text \<open>The result is the hash, whether it is a replay, and the store.\<close>

definition AppendIdempotent ::
    "golib \<Rightarrow> Store \<Rightarrow> Context \<Rightarrow> AppendOptions \<Rightarrow> string \<Rightarrow> string \<Rightarrow> string
     \<Rightarrow> (string \<times> bool \<times> Store) io" where
  "AppendIdempotent L s ctx opts expectedRoot requestID0 requestHash0 =
     (let requestID = trimSpace requestID0; requestHash = trimSpace requestHash0 in
      if requestID = [] \<or> requestHash = []
      then io_fail (appErr ErrValidation ''request ID and request hash are required'' [])
      else case requestIndex s requestID of
          Some record \<Rightarrow>
            if rrRequestHash record \<noteq> requestHash
            then io_fail (appErr ErrConflict ''request ID was already used for different content'' [])
            else io_ret (rrHash record, True, s)
        | None \<Rightarrow>
            io_bind (append L s ctx (opts\<lparr>oRequestID := requestID, oRequestHash := requestHash\<rparr>)
                (Some expectedRoot)) (\<lambda>(hash, s').
            io_ret (hash, False, s')))"

subsection \<open>Calls that leave the disk as it is\<close>

text \<open>\<open>quiet w w'\<close>: the same files, directories and crash outcomes.\<close>

definition quiet :: "world \<Rightarrow> world \<Rightarrow> bool" where
  "quiet w w' \<longleftrightarrow> ents w' = ents w \<and> dents w' = dents w \<and> dlog w' = dlog w
     \<and> inodes w' = inodes w \<and> dirs w' = dirs w"

lemma quiet_refl [simp]: "quiet w w"
  by (simp add: quiet_def)

lemma quiet_trans: "quiet a b \<Longrightarrow> quiet b c \<Longrightarrow> quiet a c"
  by (simp add: quiet_def)

lemma at_start_quiet: "at_start w w' \<Longrightarrow> quiet w w'"
  by (auto simp: quiet_def at_start_views)

lemma quiet_keeps: "quiet w w' \<Longrightarrow> keeps q w w'"
  by (simp add: quiet_def keeps_def crash_ents_def)

lemma quiet_fcontent: "quiet w w' \<Longrightarrow> fcontent w' q = fcontent w q"
  by (rule keeps_fcontent [OF quiet_keeps])

lemma quiet_readRandom: "readRandom n w = (r, w') \<Longrightarrow> quiet w w'"
  by (auto simp: readRandom_def syscall_def quiet_def split: list.splits option.splits)

lemma readRandom_length: "readRandom n w = (Inr b, w') \<Longrightarrow> length b = n"
  by (auto simp: readRandom_def syscall_def split: list.splits option.splits)

lemma quiet_encryptPayload: "encryptPayload L k p w = (r, w') \<Longrightarrow> quiet w w'"
  by (cases r) (auto simp: encryptPayload_def io_iffs intro: quiet_readRandom split: if_splits)

lemma encryptPayload_Inr:
  assumes "encryptPayload L k p w = (Inr e, w')"
  obtains nonce where "aes_key k" "length nonce = nonceSize"
    "e = \<lparr>Algorithm = gcm_algorithm, Nonce = b64_encode nonce,
          Ciphertext = b64_encode (gcm_seal L k nonce p)\<rparr>"
  using assms by (auto simp: encryptPayload_def io_iffs dest: readRandom_length split: if_splits)

subsection \<open>The current root\<close>

definition rootval :: "bytes option \<Rightarrow> string" where
  "rootval c = (case c of None \<Rightarrow> [] | Some b \<Rightarrow> trimSpace b)"

lemma reads_currentRoot [io_reads]: "reads (currentRoot dir)"
  unfolding currentRoot_def by (intro io_reads) (auto intro: io_reads split: sum.split)

lemma readFile_Inl:
  "readFile p w = (Inl e, w') \<Longrightarrow> isNotExist e \<Longrightarrow> fcontent w p = None"
  by (auto simp: readFile_def syscall_def split: list.splits option.splits if_splits)

lemma currentRoot_no_fault:
  "faults w = [] \<Longrightarrow> rootPath dir \<notin> set (dirs w) \<Longrightarrow>
   currentRoot dir w = (Inr (rootval (fcontent w (rootPath dir))), w)"
  by (simp add: currentRoot_def io_defs readFile_no_fault rootval_def split: option.split)

end
