(* ===== verification/StoreChain.thy ===== *)
theory StoreChain
  imports StoreAppend
begin

text \<open>
  What the disk of a store holds: a chain of nodes, each addressed by its content and naming
  its predecessor. The walk of \<^verbatim>\<open>nodesFromRoot\<close> is characterised here: it returns exactly
  such a chain, and it finds every chain that is there.
\<close>

subsection \<open>Chains of nodes\<close>

text \<open>The root that names the last node of a list.\<close>

definition tip :: "Node list \<Rightarrow> string" where
  "tip ns = (if ns = [] then [] else nHash (last ns))"

lemma tip_simps [simp]: "tip [] = []" "tip (ns @ [n]) = nHash n"
  by (simp_all add: tip_def)

text \<open>
  The parents a node may have after the root \<open>p\<close>. A first node has none; a lone empty parent
  ends the walk as well.
\<close>

definition follows :: "string \<Rightarrow> Node \<Rightarrow> bool" where
  "follows p n \<longleftrightarrow> (if p = [] then nParents n = [] \<or> nParents n = [[]] else nParents n = [p])"

fun linked :: "string \<Rightarrow> Node list \<Rightarrow> bool" where
  "linked p [] \<longleftrightarrow> True"
| "linked p (n # ns) \<longleftrightarrow> follows p n \<and> nHash n \<noteq> [] \<and> linked (nHash n) ns"

definition chain :: "Node list \<Rightarrow> bool" where
  "chain ns \<longleftrightarrow> linked [] ns \<and> distinct (map nHash ns)"

lemma linked_append: "linked p (as @ bs) \<longleftrightarrow> linked p as \<and> linked (if as = [] then p else tip as) bs"
  by (induction as arbitrary: p) (auto simp: tip_def)

lemma linked_snoc [simp]:
  "linked p (ns @ [n]) \<longleftrightarrow>
     linked p ns \<and> follows (if ns = [] then p else tip ns) n \<and> nHash n \<noteq> []"
  by (simp add: linked_append)

lemma chain_Nil [simp]: "chain []"
  by (simp add: chain_def)

lemma chain_snoc:
  "chain (ns @ [n]) \<longleftrightarrow>
     chain ns \<and> follows (tip ns) n \<and> nHash n \<noteq> [] \<and> nHash n \<notin> nHash ` set ns"
  by (auto simp: chain_def)

lemma chain_take: "chain ns \<Longrightarrow> chain (take k ns)"
  using linked_append [of "[]" "take k ns" "drop k ns"]
  by (simp add: chain_def take_map [symmetric])

lemma linked_nonempty: "linked p ns \<Longrightarrow> n \<in> set ns \<Longrightarrow> nHash n \<noteq> []"
  by (induction ns arbitrary: p) auto

lemma chain_nonempty: "chain ns \<Longrightarrow> n \<in> set ns \<Longrightarrow> nHash n \<noteq> []"
  by (auto simp: chain_def dest: linked_nonempty)

lemma tip_Nil_iff: "chain ns \<Longrightarrow> tip ns = [] \<longleftrightarrow> ns = []"
  by (simp add: tip_def chain_nonempty)

lemma tip_take_inj:
  assumes "chain ns" "i \<le> length ns" "j \<le> length ns" "tip (take i ns) = tip (take j ns)"
  shows "i = j"
proof (cases "i = 0 \<or> j = 0")
  case True
  then show ?thesis
    using assms tip_Nil_iff [OF chain_take [OF assms(1)]] by (metis length_take min.absorb2
        list.size(3) take_0 tip_simps(1))
next
  case False
  have last: "tip (take m ns) = map nHash ns ! (m - 1)" if "m \<noteq> 0" "m \<le> length ns" for m
    using that by (cases m) (auto simp: tip_def take_Suc_conv_app_nth)
  have "map nHash ns ! (i - 1) = map nHash ns ! (j - 1)"
    using False assms last by simp
  moreover have "distinct (map nHash ns)" using assms(1) by (simp add: chain_def)
  ultimately have "i - 1 = j - 1"
    using False assms(2,3) by (subst (asm) nth_eq_iff_index_eq) auto
  then show ?thesis using False by arith
qed

subsection \<open>The walk\<close>

lemma walk_Inr:
  "walk L dir root seen acc w = (Inr out, w') \<Longrightarrow>
   \<exists>ns. out = acc @ rev ns \<and> linked [] ns \<and> tip ns = root \<and> distinct (map nHash ns)
     \<and> nHash ` set ns \<inter> set seen = {} \<and> (\<forall>n \<in> set ns. node_at L dir w (nHash n) n) \<and> at_start w w'"
proof (induction L dir root seen acc w arbitrary: out w' rule: walk.induct)
  case (1 L dir root seen acc w)
  show ?case
  proof (cases "root = []")
    case True
    with "1.prems" show ?thesis
      by (intro exI [of _ "[]"]) (auto simp: walk.simps [of L dir "[]"])
  next
    case ne: False
    then have seen: "root \<notin> set seen" using "1.prems" by (auto simp: walk.simps [of L dir root])
    obtain node w1 where rd: "readNode L dir root w = (Inr node, w1)"
      using "1.prems" ne seen
      by (auto simp: walk.simps [of L dir root] split: prod.splits sum.splits)
    have n: "node_at L dir w root node" and w1: "at_start w w1" and h: "nHash node = root"
      using readNode_Inr [OF rd] node_at_hash by auto
    show ?thesis
    proof (cases "nParents node = []")
      case True
      then have "out = acc @ [node]" "w' = w1"
        using "1.prems" ne seen rd by (auto simp: walk.simps [of L dir root])
      then show ?thesis
        using n h ne seen w1 True by (intro exI [of _ "[node]"]) (simp add: follows_def tip_def)
    next
      case False
      then obtain p where p: "nParents node = [p]"
        using "1.prems" ne seen rd
        by (cases "nParents node") (auto simp: walk.simps [of L dir root] split: if_splits)
      then have rec: "walk L dir p (root # seen) (acc @ [node]) w1 = (Inr out, w')"
        using "1.prems" ne seen rd by (simp add: walk.simps [of L dir root])
      obtain ms where ms: "out = (acc @ [node]) @ rev ms" "linked [] ms" "tip ms = p"
          "distinct (map nHash ms)" "nHash ` set ms \<inter> set (root # seen) = {}"
          "\<forall>m \<in> set ms. node_at L dir w1 (nHash m) m" "at_start w1 w'"
        using "1.IH" [OF ne seen rd [symmetric] refl, of out w'] False p rec by auto
      have at: "node_at L dir w a m = node_at L dir w1 a m" for a m
        using w1 by (simp add: node_at_def at_start_fcontent at_start_views)
      have "p \<noteq> [] \<Longrightarrow> ms \<noteq> []" using ms(3) by auto
      moreover have "p = [] \<Longrightarrow> ms = []"
        using ms(2,3) linked_nonempty [of "[]" ms "last ms"] by (auto simp: tip_def split: if_splits)
      ultimately have "follows (if ms = [] then [] else tip ms) node"
        using p ms(3) by (auto simp: follows_def)
      then show ?thesis
        using ms n h ne seen w1 at_start_trans
        by (intro exI [of _ "ms @ [node]"]) (auto simp: at)
    qed
  qed
qed

lemma walk_no_fault:
  "linked [] ns \<Longrightarrow> distinct (map nHash ns) \<Longrightarrow> nHash ` set ns \<inter> set seen = {} \<Longrightarrow>
   (\<And>n. n \<in> set ns \<Longrightarrow> node_at L dir w (nHash n) n) \<Longrightarrow> faults w = [] \<Longrightarrow>
   walk L dir (tip ns) seen acc w = (Inr (acc @ rev ns), w)"
proof (induction ns arbitrary: seen acc rule: rev_induct)
  case Nil
  then show ?case by (simp add: walk.simps [of L dir "[]"])
next
  case (snoc n ns)
  have rd: "readNode L dir (nHash n) w = (Inr n, w)"
    using snoc.prems by (intro readNode_no_fault) auto
  have rec: "walk L dir (tip ns) (nHash n # seen) (acc @ [n]) w = (Inr ((acc @ [n]) @ rev ns), w)"
    using snoc.prems by (intro snoc.IH) auto
  have nh: "nHash n \<noteq> []" "nHash n \<notin> set seen" using snoc.prems by auto
  show ?case
  proof (cases "nParents n = []")
    case True
    then have "ns = []"
      using snoc.prems(1) linked_nonempty [of "[]" ns "last ns"]
      by (auto simp: follows_def tip_def split: if_splits)
    then show ?thesis using rd nh True by (simp add: walk.simps [of L dir "nHash n"] tip_def)
  next
    case False
    then have "nParents n = [tip ns]"
      using snoc.prems(1) by (auto simp: follows_def split: if_splits)
    then show ?thesis using rd nh rec by (simp add: walk.simps [of L dir "nHash n"])
  qed
qed

lemma nodesFromRoot_Inr:
  assumes "nodesFromRoot L dir root w = (Inr ns, w')"
  shows "chain ns \<and> tip ns = root \<and> (\<forall>n \<in> set ns. node_at L dir w (nHash n) n) \<and> at_start w w'"
proof (cases "root = []")
  case True
  with assms show ?thesis by (simp add: nodesFromRoot_def)
next
  case False
  then obtain out where "walk L dir root [] [] w = (Inr out, w')" and o: "ns = rev out"
    using assms by (auto simp: nodesFromRoot_def io_iffs)
  from walk_Inr [OF this(1)] o show ?thesis by (auto simp: chain_def)
qed

lemma nodesFromRoot_no_fault:
  assumes "chain ns" "\<And>n. n \<in> set ns \<Longrightarrow> node_at L dir w (nHash n) n" "faults w = []"
  shows "nodesFromRoot L dir (tip ns) w = (Inr ns, w)"
proof -
  have "walk L dir (tip ns) [] [] w = (Inr ([] @ rev ns), w)"
    using assms by (intro walk_no_fault) (auto simp: chain_def)
  then show ?thesis by (simp add: nodesFromRoot_def io_defs tip_Nil_iff [OF assms(1)])
qed

text \<open>The error branches read and change nothing either.\<close>

lemma walk_reads: "at_start w (snd (walk L dir root seen acc w))"
proof (induction L dir root seen acc w rule: walk.induct)
  case (1 L dir root seen acc w)
  obtain r w1 where rd: "readNode L dir root w = (r, w1)" by (cases "readNode L dir root w")
  have w1: "at_start w w1" using reads_run [OF reads_readNode rd] .
  show ?case
    using "1.IH" [OF _ _ rd [symmetric]] rd w1
    by (subst walk.simps) (auto intro: at_start_trans split: sum.splits)
qed

lemma reads_nodesFromRoot [io_reads]: "reads (nodesFromRoot L dir root)"
  unfolding nodesFromRoot_def
  by (auto intro!: io_reads simp: reads_def [of "walk L dir root [] []"] walk_reads)

subsection \<open>Nodes that are on disk for certain\<close>

definition stored :: "golib \<Rightarrow> path \<Rightarrow> world \<Rightarrow> Node \<Rightarrow> bool" where
  "stored L dir w n \<longleftrightarrow> valid_hash (nHash n) \<and> NodePath dir (nHash n) \<notin> set (dirs w)
     \<and> after_crash w (NodePath dir (nHash n)) (\<lambda>c. \<exists>b. c = Some b \<and> parseNode L (nHash n) b = Inr n)"

lemma stored_node_at: "stored L dir w n \<Longrightarrow> node_at L dir w (nHash n) n"
  unfolding stored_def node_at_def by (auto dest: after_crash_live)

lemma stored_kept:
  "stored L dir w n \<Longrightarrow> keeps (NodePath dir (nHash n)) w w' \<Longrightarrow> dirs w' = dirs w \<Longrightarrow> stored L dir w' n"
  unfolding stored_def by (auto intro: keeps_after_crash)

lemma stored_restart: "stored L dir w n \<Longrightarrow> crash w w' \<Longrightarrow> stored L dir w' n"
  unfolding stored_def by (auto intro: after_crash_restart simp: crash_def)

lemma stored_entry: "stored L dir w n \<Longrightarrow> map_of (ents w) (NodePath dir (nHash n)) \<noteq> None"
  by (auto simp: node_at_def fcontent_def dest!: stored_node_at)

end
