(* ===== verification/StoreInv.thy ===== *)
theory StoreInv
  imports StoreChain
begin

text \<open>
  The invariant of a store: what its indexes say, what its disk holds, and how the two may
  differ after a failed write. Appending keeps it under every pattern of failures.
\<close>

subsection \<open>The indexes of a list of nodes\<close>

definition index_free :: "Store \<Rightarrow> string \<Rightarrow> bool" where
  "index_free s rid \<longleftrightarrow> rid = [] \<or> requestIndex s rid = None"

lemma indexNode_eq:
  "indexNode s n = (if index_free s (nRequestID n) then Inr (recordNode s n)
     else Inl (appErr ErrIntegrity ''duplicate request ID %s in nodes %s and %s''
       [nRequestID n, rrHash (the (requestIndex s (nRequestID n))), nHash n]))"
  by (auto simp: indexNode_def recordNode_def index_free_def Let_def split: option.splits)

lemma indexNodes_append:
  "indexNodes s (as @ bs) = bindE (indexNodes s as) (\<lambda>s'. indexNodes s' bs)"
  by (induction as arbitrary: s) (auto simp: bindE_def split: sum.splits)

definition indexed :: "Store \<Rightarrow> Node list \<Rightarrow> bool" where
  "indexed s ns \<longleftrightarrow> indexNodes (clear_indexes s) ns = Inr s"

lemma recordNode_fields [simp]:
  "sdir (recordNode s n) = sdir s" "skey (recordNode s n) = skey s"
  "history (recordNode s n) = history s @ [nHash n]"
  "metadata (recordNode s n) = metadata s @ [replayMetadata n]"
  "historyIndex (recordNode s n) = (historyIndex s)(nHash n \<mapsto> length (history s))"
  "clear_indexes (recordNode s n) = clear_indexes s"
  "requestIndex (recordNode s n) = (if nRequestID n = [] then requestIndex s
     else (requestIndex s)(nRequestID n \<mapsto>
       \<lparr>rrHash = nHash n, rrRequestHash = nRequestHash n\<rparr>))"
  by (simp_all add: recordNode_def Let_def clear_indexes_def)

lemma clear_indexes_idem [simp]: "clear_indexes (clear_indexes s) = clear_indexes s"
  by (simp add: clear_indexes_def)

lemma indexNodes_clear: "indexNodes s ns = Inr s' \<Longrightarrow> clear_indexes s' = clear_indexes s"
  by (induction ns arbitrary: s) (auto simp: bindE_Inr_iff indexNode_eq split: if_splits)

lemma indexNodes_indexed: "indexNodes (clear_indexes s) ns = Inr s' \<Longrightarrow> indexed s' ns"
  unfolding indexed_def using indexNodes_clear by fastforce

lemma indexed_snoc: "indexed s ns \<Longrightarrow> index_free s (nRequestID n) \<Longrightarrow> indexed (recordNode s n) (ns @ [n])"
  by (simp add: indexed_def indexNodes_append indexNode_eq)

lemma indexed_snocE:
  assumes "indexed s' (ns @ [n])"
  obtains s where "indexed s ns" "index_free s (nRequestID n)" "s' = recordNode s n"
proof -
  obtain s where s: "indexNodes (clear_indexes s') ns = Inr s" and i: "indexNode s n = Inr s'"
    using assms by (auto simp: indexed_def indexNodes_append bindE_Inr_iff)
  then show thesis
    using indexNodes_indexed [OF s] that by (auto simp: indexNode_eq split: if_splits)
qed

lemma indexed_history: "indexed s ns \<Longrightarrow> history s = map nHash ns"
proof (induction ns arbitrary: s rule: rev_induct)
  case Nil
  then have "history (clear_indexes s) = history s" by (simp add: indexed_def)
  then show ?case by (simp add: clear_indexes_def)
next
  case (snoc n ns)
  then show ?case by (auto elim!: indexed_snocE)
qed

lemma indexed_metadata: "indexed s ns \<Longrightarrow> metadata s = map replayMetadata ns"
proof (induction ns arbitrary: s rule: rev_induct)
  case Nil
  then have "metadata (clear_indexes s) = metadata s" by (simp add: indexed_def)
  then show ?case by (simp add: clear_indexes_def)
next
  case (snoc n ns)
  then show ?case by (auto elim!: indexed_snocE)
qed

lemma indexed_requests:
  "indexed s ns \<Longrightarrow> requestIndex s rid = Some r \<longleftrightarrow>
     (\<exists>n \<in> set ns. nRequestID n = rid \<and> rid \<noteq> []
        \<and> r = \<lparr>rrHash = nHash n, rrRequestHash = nRequestHash n\<rparr>)"
proof (induction ns arbitrary: s rid r rule: rev_induct)
  case Nil
  then have "requestIndex (clear_indexes s) = requestIndex s" by (simp add: indexed_def)
  then show ?case by (simp add: clear_indexes_def fun_eq_iff)
next
  case (snoc n ns)
  then obtain s0 where s0: "indexed s0 ns" "index_free s0 (nRequestID n)" "s = recordNode s0 n"
    by (auto elim: indexed_snocE)
  have none: "nRequestID m \<noteq> nRequestID n" if "m \<in> set ns" "nRequestID n \<noteq> []" for m
  proof
    assume "nRequestID m = nRequestID n"
    then have "requestIndex s0 (nRequestID n) =
        Some \<lparr>rrHash = nHash m, rrRequestHash = nRequestHash m\<rparr>"
      using snoc.IH [OF s0(1), of "nRequestID n"
          "\<lparr>rrHash = nHash m, rrRequestHash = nRequestHash m\<rparr>"] that by auto
    then show False using s0(2) that(2) by (simp add: index_free_def)
  qed
  show ?case
    using snoc.IH [OF s0(1)] none by (auto simp: s0(3))
qed

lemma indexed_historyIndex:
  "indexed s ns \<Longrightarrow> distinct (map nHash ns) \<Longrightarrow> historyIndex s = index_of (map nHash ns)"
proof (induction ns arbitrary: s rule: rev_induct)
  case Nil
  then have "historyIndex (clear_indexes s) = historyIndex s" by (simp add: indexed_def)
  then show ?case by (simp add: clear_indexes_def)
next
  case (snoc n ns)
  then obtain s0 where s0: "indexed s0 ns" "s = recordNode s0 n"
    by (auto elim: indexed_snocE)
  have fresh: "nHash n \<notin> set (map nHash ns)" using snoc.prems by auto
  show ?case
    using index_of_snoc_fresh [OF fresh] snoc.IH [OF s0(1)] snoc.prems(2)
      indexed_history [OF s0(1)]
    by (simp add: s0(2))
qed

lemmas indexed_views = indexed_history indexed_metadata indexed_requests indexed_historyIndex

lemma indexed_root: "indexed s ns \<Longrightarrow> indexedRoot s = tip ns"
  by (simp add: indexedRoot_def tip_def indexed_history last_conv_nth)

lemma indexed_same:
  assumes "indexed s ns" "indexed t ns" "chain ns"
  shows "history s = history t" "metadata s = metadata t" "historyIndex s = historyIndex t"
    "requestIndex s = requestIndex t"
proof -
  have d: "distinct (map nHash ns)" using assms(3) by (simp add: chain_def)
  show "history s = history t" "metadata s = metadata t"
    using assms by (simp_all add: indexed_history indexed_metadata)
  show "historyIndex s = historyIndex t"
    using indexed_historyIndex [OF assms(1) d] indexed_historyIndex [OF assms(2) d] by simp
  have "requestIndex s rid = Some r \<longleftrightarrow> requestIndex t rid = Some r" for rid r
    unfolding indexed_requests [OF assms(1)] indexed_requests [OF assms(2)] by (rule refl)
  then have "requestIndex s rid = requestIndex t rid" for rid
    by (metis not_None_eq)
  then show "requestIndex s = requestIndex t" by (rule ext)
qed

text \<open>Lists that can be indexed: no request id appears twice.\<close>

definition unique_requests :: "Node list \<Rightarrow> bool" where
  "unique_requests ns \<longleftrightarrow> distinct (filter (\<lambda>r. r \<noteq> []) (map nRequestID ns))"

lemma unique_requests_snoc:
  "unique_requests (ns @ [n]) \<longleftrightarrow>
     unique_requests ns \<and> (nRequestID n = [] \<or> nRequestID n \<notin> nRequestID ` set ns)"
  by (auto simp: unique_requests_def)

lemma unique_requests_take: "unique_requests ns \<Longrightarrow> unique_requests (take k ns)"
  unfolding unique_requests_def
  by (metis append_take_drop_id distinct_append filter_append map_append)

lemma index_free_iff:
  "indexed s ns \<Longrightarrow> index_free s rid \<longleftrightarrow> rid = [] \<or> rid \<notin> nRequestID ` set ns"
proof -
  assume i: "indexed s ns"
  have "requestIndex s rid \<noteq> None \<longleftrightarrow> rid \<noteq> [] \<and> rid \<in> nRequestID ` set ns"
    using indexed_requests [OF i, of rid] by blast
  then show ?thesis by (auto simp: index_free_def)
qed

lemma indexed_unique: "indexed s ns \<Longrightarrow> unique_requests ns"
proof (induction ns arbitrary: s rule: rev_induct)
  case Nil
  then show ?case by (simp add: unique_requests_def)
next
  case (snoc n ns)
  then show ?case
    by (auto elim!: indexed_snocE simp: unique_requests_snoc index_free_iff)
qed

lemma indexNodes_succeeds: "unique_requests ns \<Longrightarrow> \<exists>s'. indexNodes (clear_indexes s) ns = Inr s'"
proof (induction ns rule: rev_induct)
  case Nil
  then show ?case by simp
next
  case (snoc n ns)
  then obtain s' where s': "indexNodes (clear_indexes s) ns = Inr s'"
    by (auto simp: unique_requests_snoc)
  have "index_free s' (nRequestID n)"
    using snoc.prems index_free_iff [OF indexNodes_indexed [OF s']]
    by (auto simp: unique_requests_snoc)
  then show ?case using s' by (simp add: indexNodes_append indexNode_eq)
qed

text \<open>A list with a repeated request id cannot be indexed: such a store does not open.\<close>

lemma indexNodes_duplicate:
  assumes "indexed s ns" and "\<not> index_free s (nRequestID n)"
  shows "\<exists>e. indexNodes (clear_indexes s) (ns @ [n]) = Inl e \<and> is_code ErrIntegrity e"
  using assms by (auto simp: indexed_def indexNodes_append indexNode_eq)

subsection \<open>The disk\<close>

text \<open>Names that are not those of temporary files.\<close>

definition app_path :: "path \<Rightarrow> bool" where
  "app_path q \<longleftrightarrow> q = [] \<or> \<not> hasPrefix (last q) ''.jaybase-''"

lemma app_path_not_tmp: "app_path q \<Longrightarrow> q \<noteq> tmp_path w d (''.jaybase-'' @ pre)"
  using tmp_path_parts(1) [of w d "''.jaybase-'' @ pre"]
  by (auto simp del: append.simps simp: app_path_def tmp_path_def)

lemma app_path_rootPath [simp]: "app_path (rootPath dir)"
  by (simp add: app_path_def rootPath_def hasPrefix_def)

lemma app_path_NodePath [simp]: "valid_hash h \<Longrightarrow> app_path (NodePath d h)"
proof -
  assume "valid_hash h"
  then obtain t where h: "h = sha_prefix @ t" "length t = 64" "hex_decode t \<noteq> None"
    by (auto simp: valid_hash_iff)
  then obtain c t' where "t = c # t'" by (cases t) auto
  moreover have "c \<noteq> CHR ''.''"
    using h(3) calculation by (cases t') (auto simp: hex_value_def split: option.splits)
  ultimately show ?thesis by (simp add: app_path_def NodePath_def h(1) hasPrefix_def)
qed

lemma NodePath_not_root [simp]: "NodePath d h \<noteq> rootPath d" "rootPath d \<noteq> NodePath d h"
  by (simp_all add: NodePath_def rootPath_def)

definition settled_on :: "string \<Rightarrow> bytes option \<Rightarrow> bool" where
  "settled_on r c \<longleftrightarrow> rootval c = r"

text \<open>
  The directory \<open>dir\<close> holds the chain \<open>ns\<close>: every node is on disk for certain, the root
  file names the last one, and after a crash it names one from position \<open>k\<close> on. So the
  first \<open>k\<close> nodes are never lost.
\<close>

definition disk_inv :: "golib \<Rightarrow> path \<Rightarrow> world \<Rightarrow> Node list \<Rightarrow> nat \<Rightarrow> bool" where
  "disk_inv L dir w ns k \<longleftrightarrow>
     chain ns \<and> unique_requests ns \<and> (\<forall>n \<in> set ns. stored L dir w n)
     \<and> k \<le> length ns \<and> rootPath dir \<notin> set (dirs w)
     \<and> rootval (fcontent w (rootPath dir)) = tip ns
     \<and> after_crash w (rootPath dir) (\<lambda>c. \<exists>j. k \<le> j \<and> j \<le> length ns \<and> rootval c = tip (take j ns))"

lemma disk_inv_facts:
  assumes "disk_inv L dir w ns k"
  shows "chain ns" "unique_requests ns" "n \<in> set ns \<Longrightarrow> stored L dir w n"
    "rootval (fcontent w (rootPath dir)) = tip ns" "k \<le> length ns" "rootPath dir \<notin> set (dirs w)"
  using assms by (auto simp: disk_inv_def)

lemma disk_inv_kept:
  assumes "disk_inv L dir w ns k" and "dirs w' = dirs w"
    and "\<And>n. n \<in> set ns \<Longrightarrow> keeps (NodePath dir (nHash n)) w w'" and "keeps (rootPath dir) w w'"
  shows "disk_inv L dir w' ns k"
  using assms keeps_after_crash [OF assms(4)] keeps_fcontent [OF assms(4)] stored_kept
  unfolding disk_inv_def by auto

lemma disk_inv_at_start: "disk_inv L dir w ns k \<Longrightarrow> at_start w w' \<Longrightarrow> disk_inv L dir w' ns k"
  by (rule disk_inv_kept) (auto simp: at_start_views intro: at_start_keeps)

lemma disk_inv_quiet: "disk_inv L dir w ns k \<Longrightarrow> quiet w w' \<Longrightarrow> disk_inv L dir w' ns k"
  by (rule disk_inv_kept) (auto simp: quiet_def intro: quiet_keeps)

lemma disk_inv_less: "disk_inv L dir w ns k \<Longrightarrow> j \<le> k \<Longrightarrow> disk_inv L dir w ns j"
  unfolding disk_inv_def
  by (elim conjE, intro conjI, simp_all) (erule after_crash_mono, meson order_trans)

text \<open>A crash leaves a prefix of the chain, no shorter than \<open>k\<close>, and the disk settled.\<close>

lemma disk_inv_crash:
  assumes "disk_inv L dir w ns k" and "crash w w'"
  shows "\<exists>j. k \<le> j \<and> j \<le> length ns \<and> disk_inv L dir w' (take j ns) j"
proof -
  have "\<exists>j. k \<le> j \<and> j \<le> length ns \<and> rootval (fcontent w' (rootPath dir)) = tip (take j ns)"
    using assms by (auto simp: disk_inv_def dest: after_crash_restart_live)
  then obtain j where j: "k \<le> j" "j \<le> length ns"
      "rootval (fcontent w' (rootPath dir)) = tip (take j ns)" by blast
  have syn: "\<And>i. Some i \<in> crash_ents w' (rootPath dir) \<Longrightarrow> isynced (inodes w' i)"
    using assms after_crash_restart after_crash_Some unfolding disk_inv_def by blast
  have "after_crash w' (rootPath dir) (\<lambda>c. rootval c = tip (take j ns))"
    using j(3) syn crash_ents_after [OF assms(2)]
    by (intro after_crashI) (auto simp: fcontent_def dest: sym)
  then have "after_crash w' (rootPath dir)
      (\<lambda>c. \<exists>i. j \<le> i \<and> i \<le> length (take j ns) \<and> rootval c = tip (take i (take j ns)))"
    by (rule after_crash_mono) (use j in \<open>auto intro!: exI [of _ j]\<close>)
  moreover have "rootPath dir \<notin> set (dirs w')" using assms by (simp add: disk_inv_def crash_def)
  moreover have "stored L dir w' n" if "n \<in> set (take j ns)" for n
    using in_set_takeD [OF that] disk_inv_facts(3) [OF assms(1)] stored_restart assms(2) by blast
  ultimately have "disk_inv L dir w' (take j ns) j"
    using assms(1) j chain_take unique_requests_take by (auto simp: disk_inv_def)
  with j show ?thesis by blast
qed

subsection \<open>Rebuilding the indexes\<close>

lemma currentRoot_Inr:
  "currentRoot dir w = (Inr r, w') \<Longrightarrow> r = rootval (fcontent w (rootPath dir)) \<and> at_start w w'"
proof -
  assume r: "currentRoot dir w = (Inr r, w')"
  obtain x w1 where x: "readFile (rootPath dir) w = (x, w1)" by (cases "readFile (rootPath dir) w")
  show ?thesis
    using r x reads_run [OF reads_currentRoot r]
    by (cases x) (auto simp: currentRoot_def io_defs rootval_def dest: readFile_Inr readFile_Inl
        split: if_splits)
qed

text \<open>Two chains of nodes on one disk that end alike are equal.\<close>

lemma chain_unique:
  "chain ns \<Longrightarrow> chain ms \<Longrightarrow> tip ns = tip ms \<Longrightarrow>
   (\<And>n. n \<in> set ns \<Longrightarrow> node_at L dir w (nHash n) n) \<Longrightarrow>
   (\<And>n. n \<in> set ms \<Longrightarrow> node_at L dir w (nHash n) n) \<Longrightarrow> ns = ms"
proof (induction ns arbitrary: ms rule: rev_induct)
  case Nil
  then show ?case using tip_Nil_iff [of ms] by auto
next
  case (snoc n ns)
  have "ms \<noteq> []" using snoc.prems(1,3) by (auto simp: chain_snoc)
  then obtain m ms' where ms: "ms = ms' @ [m]" by (metis rev_exhaust)
  have "node_at L dir w (nHash n) m"
    using snoc.prems(3) snoc.prems(5) [of m] by (simp add: ms)
  then have nm: "n = m" using snoc.prems(4) [of n] node_at_unique by auto
  have c: "chain ns" "chain ms'" "follows (tip ns) n" "follows (tip ms') n"
    using snoc.prems(1,2) by (auto simp: ms nm chain_snoc)
  have "tip ns = tip ms'" using c(3,4) by (auto simp: follows_def split: if_splits)
  then have "ns = ms'" using c snoc.prems by (intro snoc.IH) (auto simp: ms)
  then show ?case by (simp add: ms nm)
qed

lemma rebuildIndexes_Inr:
  assumes "disk_inv L (sdir s) w ns k" and "rebuildIndexes L s w = (Inr s', w')"
  shows "indexed s' ns \<and> clear_indexes s' = clear_indexes s \<and> at_start w w'"
proof -
  obtain r w1 ms where r: "currentRoot (sdir s) w = (Inr r, w1)"
    and ms: "nodesFromRoot L (sdir s) r w1 = (Inr ms, w')"
    and ix: "indexNodes (clear_indexes s) ms = Inr s'"
    using assms(2) by (auto simp: rebuildIndexes_def io_iffs)
  have w1: "at_start w w1" and rv: "r = tip ns"
    using currentRoot_Inr [OF r] assms(1) by (auto simp: disk_inv_def)
  have at: "node_at L (sdir s) w1 (nHash n) n" if "n \<in> set ns" for n
    using that disk_inv_at_start [OF assms(1) w1] stored_node_at by (auto simp: disk_inv_def)
  have "ns = ms"
    using nodesFromRoot_Inr [OF ms] at rv disk_inv_facts(1) [OF assms(1)]
    by (intro chain_unique [where L = L and dir = "sdir s" and w = w1]) auto
  then show ?thesis
    using indexNodes_indexed [OF ix] indexNodes_clear [OF ix] nodesFromRoot_Inr [OF ms] w1
      at_start_trans by auto
qed

lemma rebuildIndexes_no_fault:
  assumes "disk_inv L (sdir s) w ns k" and "faults w = []"
  shows "\<exists>s'. rebuildIndexes L s w = (Inr s', w)"
proof -
  have r: "currentRoot (sdir s) w = (Inr (tip ns), w)"
    using currentRoot_no_fault [OF assms(2)] assms(1) by (simp add: disk_inv_def)
  have "nodesFromRoot L (sdir s) (tip ns) w = (Inr ns, w)"
    using assms stored_node_at by (intro nodesFromRoot_no_fault) (auto simp: disk_inv_def)
  then show ?thesis
    using r indexNodes_succeeds [of ns s] assms(1)
    by (auto simp: rebuildIndexes_def io_defs disk_inv_def)
qed

end
