(* ===== verification/AppendCorrect.thy ===== *)
theory AppendCorrect
  imports StoreInv
begin

text \<open>
  Appending keeps the invariant of the store under every pattern of failures, and what it
  reports is what happened.
\<close>

subsection \<open>The invariant of an open store\<close>

text \<open>
  The indexes cover the first \<open>m\<close> nodes of the chain on disk. They cover all of it, unless
  the last write of the root failed after its rename: then the store refuses to go on.
\<close>

definition store_inv :: "golib \<Rightarrow> Store \<Rightarrow> world \<Rightarrow> Node list \<Rightarrow> nat \<Rightarrow> nat \<Rightarrow> bool" where
  "store_inv L s w ns m k \<longleftrightarrow>
     disk_inv L (sdir s) w ns k \<and> indexed s (take m ns) \<and> k \<le> m \<and> m \<le> length ns"

lemma store_inv_root:
  "store_inv L s w ns m k \<Longrightarrow>
     rootval (fcontent w (rootPath (sdir s))) = indexedRoot s \<longleftrightarrow> m = length ns"
proof -
  assume i: "store_inv L s w ns m k"
  then have r: "indexedRoot s = tip (take m ns)" by (simp add: store_inv_def indexed_root)
  have f: "rootval (fcontent w (rootPath (sdir s))) = tip ns"
    using i by (simp add: store_inv_def disk_inv_def)
  have "chain ns" "m \<le> length ns" using i by (auto simp: store_inv_def disk_inv_def)
  then have "tip (take m ns) = tip (take (length ns) ns) \<Longrightarrow> m = length ns"
    by (rule tip_take_inj) simp_all
  then show ?thesis unfolding r f by (metis order_refl take_all_iff)
qed

lemma store_inv_quiet: "store_inv L s w ns m k \<Longrightarrow> quiet w w' \<Longrightarrow> store_inv L s w' ns m k"
  by (auto simp: store_inv_def intro: disk_inv_quiet)

lemma store_inv_at_start: "store_inv L s w ns m k \<Longrightarrow> at_start w w' \<Longrightarrow> store_inv L s w' ns m k"
  by (rule store_inv_quiet) (auto intro: at_start_quiet)

subsection \<open>The node an append makes\<close>

definition clean_request :: "Context \<Rightarrow> AppendOptions \<Rightarrow> bool" where
  "clean_request ctx opts \<longleftrightarrow> list_all utf8_valid
     [trimSpace (oType opts), trimSpace (oEntityID opts), trimSpace (oCommand opts),
      ctxActor ctx, ctxRole ctx, oRequestID opts, oRequestHash opts]"

definition event_of ::
    "golib \<Rightarrow> bytes \<Rightarrow> Context \<Rightarrow> AppendOptions \<Rightarrow> string \<Rightarrow> Node \<Rightarrow> bool" where
  "event_of L key ctx opts root n \<longleftrightarrow> (\<exists>raw sealed created cb.
     json_marshal L (oPayload opts) = Some raw
     \<and> decryptPayload L key sealed = Inr raw \<and> utf8_payload sealed
     \<and> truncate_us created = created
     \<and> (\<not> isZero (oCreatedAt opts) \<longrightarrow> created = truncate_us (oCreatedAt opts))
     \<and> json_content L (mkContent ctx (trimOptions opts) root sealed created) = Some cb
     \<and> n = mkNode (mkContent ctx (trimOptions opts) root sealed created) (hash_bytes L cb))"

lemma mkNode_simps [simp]:
  "content_of (mkNode c h) = c" "nHash (mkNode c h) = h"
  "nParents (mkNode c h) = nParents c" "nRequestID (mkNode c h) = nRequestID c"
  "nRequestHash (mkNode c h) = nRequestHash c"
  by (simp_all add: mkNode_def content_of_def nodeContent.truncate_def)

lemma quiet_storeNow: "storeNow s w = (r, w') \<Longrightarrow> quiet w w'"
  by (auto simp: storeNow_def readClock_def io_defs)

lemma decrypt_sealed:
  assumes "golib_ok L" "aes_key k" "length nonce = nonceSize"
  shows "decryptPayload L k \<lparr>Algorithm = gcm_algorithm, Nonce = b64_encode nonce,
      Ciphertext = b64_encode (gcm_seal L k nonce p)\<rparr> = Inr p"
  using assms by (simp add: decryptPayload_def golib_okD(2))

lemma sealed_utf8:
  "utf8_payload \<lparr>Algorithm = gcm_algorithm, Nonce = b64_encode a, Ciphertext = b64_encode b\<rparr>"
proof -
  have "utf8_valid gcm_algorithm" by (simp add: gcm_algorithm_def utf8_valid_printable printable_def)
  then show ?thesis by (simp add: utf8_payload_def utf8_valid_printable b64_encode_printable)
qed

lemma prepareNode_Inr:
  assumes ok: "golib_ok L" and r: "prepareNode L s ctx opts er w = (Inr n, w')"
  shows "trimSpace (oType opts) \<noteq> [] \<and> rootval (fcontent w (rootPath (sdir s))) = indexedRoot s
     \<and> (\<forall>e. er = Some e \<longrightarrow> e = indexedRoot s)
     \<and> event_of L (skey s) ctx opts (indexedRoot s) n \<and> quiet w w'"
proof -
  let ?o = "trimOptions opts"
  obtain root w1 raw sealed w2 created w3 cb where
    c: "currentRoot (sdir s) w = (Inr root, w1)" "root = indexedRoot s"
      "\<And>e. er = Some e \<Longrightarrow> root = e" "trimSpace (oType opts) \<noteq> []"
    and p: "json_marshal L (oPayload ?o) = Some raw" "encryptPayload L (skey s) raw w1 = (Inr sealed, w2)"
    and t: "(if isZero (oCreatedAt ?o) then storeNow s else io_ret (oCreatedAt ?o)) w2 = (Inr created, w3)"
    and n: "json_content L (mkContent ctx ?o root sealed (truncate_us created)) = Some cb"
      "n = mkNode (mkContent ctx ?o root sealed (truncate_us created)) (hash_bytes L cb)" "w' = w3"
    using r by (auto simp: prepareNode_def Let_def io_iffs trimOptions_def split: if_splits option.splits)
  have "quiet w2 w3" using t quiet_storeNow by (auto split: if_splits)
  moreover have "quiet w w1" using currentRoot_Inr [OF c(1)] at_start_quiet by blast
  ultimately have q: "quiet w w'"
    using quiet_encryptPayload [OF p(2)] quiet_trans n(3) by blast
  obtain nonce where a: "aes_key (skey s)" "length nonce = nonceSize"
      "sealed = \<lparr>Algorithm = gcm_algorithm, Nonce = b64_encode nonce,
          Ciphertext = b64_encode (gcm_seal L (skey s) nonce raw)\<rparr>"
    using p(2) by (rule encryptPayload_Inr)
  have "\<not> isZero (oCreatedAt opts) \<Longrightarrow> truncate_us created = truncate_us (oCreatedAt opts)"
    using t by (auto simp: trimOptions_def)
  moreover have "json_marshal L (oPayload opts) = Some raw" using p(1) by (simp add: trimOptions_def)
  ultimately have "event_of L (skey s) ctx opts root n"
    using n a decrypt_sealed [OF ok a(1,2)] sealed_utf8 truncate_us_idem
    unfolding event_of_def by blast
  then show ?thesis using c q currentRoot_Inr [OF c(1)] by auto
qed

lemma prepareNode_quiet: "prepareNode L s ctx opts er w = (r, w') \<Longrightarrow> quiet w w'"
proof -
  assume r: "prepareNode L s ctx opts er w = (r, w')"
  have c: "at_start w w1" if "currentRoot (sdir s) w = (x, w1)" for x w1
    using that by (rule reads_run [OF reads_currentRoot])
  show ?thesis
    using r c
    by (cases r)
      (auto simp: prepareNode_def Let_def io_iffs split: if_splits option.splits
        intro: at_start_quiet quiet_trans quiet_encryptPayload
        dest!: c quiet_encryptPayload quiet_storeNow at_start_quiet)
qed

lemma event_of_fields:
  assumes "event_of L key ctx opts root n"
  shows "nType n = trimSpace (oType opts)" "nEntityID n = trimSpace (oEntityID opts)"
    "nCommand n = trimSpace (oCommand opts)" "nActor n = ctxActor ctx" "nRole n = ctxRole ctx"
    "nParents n = (if root = [] then [] else [root])" "nRequestID n = oRequestID opts"
    "nRequestHash n = oRequestHash opts" "nSchema n = schemaVersion" "nPayload n = []"
    "follows root n"
  using assms
  by (auto simp: event_of_def mkNode_def mkContent_def trimOptions_def follows_def)

lemma event_of_hash:
  assumes "golib_ok L" "event_of L key ctx opts root n"
  shows "valid_hash (nHash n)" "\<exists>cb. json_content L (content_of n) = Some cb \<and> nHash n = hash_bytes L cb"
  using assms by (auto simp: event_of_def intro!: valid_hash_hash_bytes golib_okD(1))

lemma event_of_clean:
  assumes "event_of L key ctx opts root n" "clean_request ctx opts"
    and "root = [] \<or> valid_hash root" and "golib_ok L"
  shows "clean_node n"
proof -
  have r: "utf8_valid root"
    using assms(3) by (auto intro: utf8_valid_printable valid_hash_printable)
  have h: "utf8_valid (nHash n)"
    using event_of_hash(1) [OF assms(4,1)] by (auto intro: utf8_valid_printable valid_hash_printable)
  show ?thesis
    using assms(1,2) r h
    by (auto simp: event_of_def clean_node_def clean_content_def mkContent_def trimOptions_def
        clean_request_def)
qed

lemma event_of_parses:
  assumes "golib_ok L" "event_of L key ctx opts root n" "clean_node n" "json_node L n = Some b"
  shows "parseNode L (nHash n) (b @ newline) = Inr n"
  using assms event_of_hash(2) golib_okD(4) by (fastforce simp: parseNode_Inr)

subsection \<open>Publishing the node\<close>

text \<open>Only temporary names and the new node's own file are touched.\<close>

lemma publishNode_post:
  assumes run: "publishNode L s n w = (r, w')" and h: "valid_hash (nHash n)"
    and fresh: "map_of (ents w) (NodePath (sdir s) (nHash n)) = None"
  shows "dirs w' = dirs w"
    and "app_path q \<Longrightarrow> q \<noteq> NodePath (sdir s) (nHash n) \<Longrightarrow> keeps q w w'"
    and "r = Inr u \<Longrightarrow> NodePath (sdir s) (nHash n) \<notin> set (dirs w) \<Longrightarrow>
      \<exists>b. json_node L n = Some b \<and> durable w' (NodePath (sdir s) (nHash n)) (b @ newline)"
proof -
  let ?p = "NodePath (sdir s) (nHash n)"
  obtain st w1 where st: "statFile ?p w = (st, w1)" by (cases "statFile ?p w")
  have w1: "at_start w w1" using reads_run [OF reads_basic(5) st] .
  have sted: "\<exists>e. st = Inl e" if "?p \<notin> set (dirs w)"
    using st that fresh by (auto simp: statFile_def syscall_def split: list.splits option.splits)
  consider (skip) "w' = w1" "\<And>e. st = Inl e \<Longrightarrow> \<exists>e. r = Inl e"
    | (make) b where "json_node L n = Some b" "atomicCreateFile ?p (b @ newline) 0x180 w1 = (r, w')"
    using run st by (auto simp: publishNode_def io_defs split: sum.splits if_splits option.splits)
  then have "dirs w' = dirs w \<and> (app_path q \<longrightarrow> q \<noteq> ?p \<longrightarrow> keeps q w w')
    \<and> (r = Inr u \<longrightarrow> ?p \<notin> set (dirs w) \<longrightarrow>
        (\<exists>b. json_node L n = Some b \<and> durable w' ?p (b @ newline)))"
  proof cases
    case skip
    then show ?thesis
      using at_start_views(5) [OF w1] at_start_keeps [OF w1] sted by auto
  next
    case make
    let ?t = "tmp_path w1 (butlast ?p) ''.jaybase-node-''"
    have ne: "?p \<noteq> ?t" using NodePath_not_tmp [OF h] by blast
    note post = atomicCreateFile_post [OF ne make(2)]
    have "dirs w' = dirs w"
      using post at_start_views(5) [OF w1] by (simp add: create_post_def same_env_def)
    moreover have "keeps q w w'" if "app_path q" "q \<noteq> ?p"
    proof -
      have "q \<noteq> ?t" using app_path_not_tmp [OF that(1), of w1 "butlast ?p" "''node-''"] by simp
      then have "keeps q w1 w'" using post that(2) by (simp add: create_post_def)
      then show ?thesis using at_start_keeps [OF w1] keeps_trans by blast
    qed
    moreover have "\<exists>b. json_node L n = Some b \<and> durable w' ?p (b @ newline)" if "r = Inr u"
      using post make(1) that by (auto simp: create_post_def)
    ultimately show ?thesis by blast
  qed
  then show "dirs w' = dirs w"
    and "app_path q \<Longrightarrow> q \<noteq> ?p \<Longrightarrow> keeps q w w'"
    and "r = Inr u \<Longrightarrow> ?p \<notin> set (dirs w) \<Longrightarrow>
      \<exists>b. json_node L n = Some b \<and> durable w' ?p (b @ newline)"
    by blast+
qed

subsection \<open>Moving the root\<close>

lemma rootval_newline: "valid_hash h \<Longrightarrow> rootval (Some (h @ newline)) = h"
  using trimSpace_newline [of h] valid_hash_printable [of h]
  by (cases "h = []") (simp_all add: rootval_def newline_def)

text \<open>
  The file replacement on the root ref, read through its contract: a success makes the whole
  chain durable; a failure leaves the old chain or the extended one, with the old bound.
\<close>

lemma move_root:
  assumes inv: "disk_inv L dir w ns k" and n: "stored L dir w n" "follows (tip ns) n"
    and new: "nHash n \<notin> nHash ` set ns" "nRequestID n = [] \<or> nRequestID n \<notin> nRequestID ` set ns"
    and run: "atomicWriteFile (rootPath dir) (nHash n @ newline) 0x180 w = (r, w')"
  shows "r = Inr u \<Longrightarrow> disk_inv L dir w' (ns @ [n]) (Suc (length ns))"
    and "disk_inv L dir w' ns k \<or> disk_inv L dir w' (ns @ [n]) k"
proof -
  let ?p = "rootPath dir" and ?b = "nHash n @ newline"
  have h: "valid_hash (nHash n)" using n(1) by (simp add: stored_def)
  have rv: "rootval (Some ?b) = nHash n" using h by (rule rootval_newline)
  have ap: "app_path q \<Longrightarrow> q \<noteq> tmp_of ''.jaybase-write-'' w ?p" for q
    using app_path_not_tmp [of q w "butlast ?p" "''write-''"] by (simp add: tmp_of_def)
  have ne: "?p \<noteq> tmp_of ''.jaybase-write-'' w ?p" by (rule ap) simp
  have d: "dirs w' = dirs w" using wf.put_env [OF ne run] by (simp add: same_env_def)
  have frame: "keeps (NodePath dir (nHash m)) w w'" if "stored L dir w m" for m
    using that ap by (intro wf.put_frame [OF ne run]) (auto simp: stored_def)
  have ns: "\<And>m. m \<in> set ns \<Longrightarrow> stored L dir w m" using inv by (simp add: disk_inv_def)
  have st: "\<forall>m \<in> set (ns @ [n]). stored L dir w' m"
    using ns n(1) frame d by (auto intro: stored_kept)
  have ch: "chain (ns @ [n])" "unique_requests (ns @ [n])" "rootPath dir \<notin> set (dirs w')"
    using inv n(2) new h d valid_hash_Nil
    by (auto simp: disk_inv_def chain_snoc unique_requests_snoc)
  have ext: "disk_inv L dir w' (ns @ [n]) j"
    if "fcontent w' ?p = Some ?b" "j \<le> Suc (length ns)"
      "after_crash w' ?p (\<lambda>c. rootval c = nHash n
         \<or> (\<exists>i. j \<le> i \<and> i \<le> length ns \<and> rootval c = tip (take i ns)))" for j
  proof -
    have "after_crash w' ?p (\<lambda>c. \<exists>i. j \<le> i \<and> i \<le> length (ns @ [n])
        \<and> rootval c = tip (take i (ns @ [n])))"
      using that(3)
    proof (rule after_crash_mono, elim disjE exE conjE)
      fix c assume "rootval c = nHash n"
      then show "\<exists>i. j \<le> i \<and> i \<le> length (ns @ [n]) \<and> rootval c = tip (take i (ns @ [n]))"
        using that(2) by (intro exI [of _ "Suc (length ns)"]) simp
    next
      fix c i assume "j \<le> i" "i \<le> length ns" "rootval c = tip (take i ns)"
      then show "\<exists>i. j \<le> i \<and> i \<le> length (ns @ [n]) \<and> rootval c = tip (take i (ns @ [n]))"
        by (intro exI [of _ i]) simp
    qed
    then show ?thesis using st ch that rv by (simp add: disk_inv_def)
  qed
  show "disk_inv L dir w' (ns @ [n]) (Suc (length ns))" if "r = Inr u"
  proof (rule ext)
    have du: "durable w' ?p ?b" using wf.put_durable [OF ne] run that by simp
    then show "fcontent w' ?p = Some ?b" by (rule durable_live)
    show "after_crash w' ?p (\<lambda>c. rootval c = nHash n
         \<or> (\<exists>i. Suc (length ns) \<le> i \<and> i \<le> length ns \<and> rootval c = tip (take i ns)))"
      using du by (rule after_crash_mono) (simp add: rv)
  qed simp
  show "disk_inv L dir w' ns k \<or> disk_inv L dir w' (ns @ [n]) k"
    using wf.replaces [OF ne run]
  proof (cases "fcontent w' ?p = Some ?b")
    case True
    have "after_crash w ?p (\<lambda>c. rootval c = nHash n
         \<or> (\<exists>i. k \<le> i \<and> i \<le> length ns \<and> rootval c = tip (take i ns)))"
      using inv by (auto simp: disk_inv_def elim: after_crash_mono)
    then have "after_crash w' ?p (\<lambda>c. rootval c = nHash n
         \<or> (\<exists>i. k \<le> i \<and> i \<le> length ns \<and> rootval c = tip (take i ns)))"
      by (rule wf.put_crash_safe [OF ne run]) (simp add: rv)
    moreover have "k \<le> Suc (length ns)" using inv by (simp add: disk_inv_def)
    ultimately show ?thesis using ext [OF True] by blast
  next
    case False
    then have "keeps ?p w w'"
      using wf.replaces [OF ne run]
      by (auto simp: replace_post_def new_live_def dest: durable_live split: sum.splits)
    then have "disk_inv L dir w' ns k"
      using ns frame d by (intro disk_inv_kept [OF inv]) auto
    then show ?thesis by simp
  qed
qed

subsection \<open>Appending\<close>

text \<open>No file has the address the new node will get (SHA-256 gave it to nothing else).\<close>

definition fresh_address ::
    "golib \<Rightarrow> Store \<Rightarrow> Context \<Rightarrow> AppendOptions \<Rightarrow> string option \<Rightarrow> world \<Rightarrow> bool" where
  "fresh_address L s ctx opts er w =
     (case fst (prepareNode L s ctx opts er w) of
        Inl e \<Rightarrow> True
      | Inr n \<Rightarrow> NodePath (sdir s) (nHash n) \<notin> set (dirs w)
          \<and> map_of (ents w) (NodePath (sdir s) (nHash n)) = None)"

lemma tip_valid: "disk_inv L dir w ns k \<Longrightarrow> tip ns = [] \<or> valid_hash (tip ns)"
  by (cases "ns = []") (auto simp: tip_def disk_inv_def stored_def)

text \<open>The state once the node has been prepared and its file published.\<close>

lemma publish_keeps_inv:
  assumes ok: "golib_ok L" and inv: "store_inv L s w ns m k" and cr: "clean_request ctx opts"
    and ev: "event_of L (skey s) ctx opts (indexedRoot s) n" and m: "m = length ns"
    and np: "NodePath (sdir s) (nHash n) \<notin> set (dirs w)"
      "map_of (ents w) (NodePath (sdir s) (nHash n)) = None"
    and run: "publishNode L s n w = (r, w')"
  shows "disk_inv L (sdir s) w' ns k" and "r = Inr u \<Longrightarrow> stored L (sdir s) w' n"
    and "nHash n \<notin> nHash ` set ns"
proof -
  have d: "disk_inv L (sdir s) w ns k" using inv by (simp add: store_inv_def)
  have h: "valid_hash (nHash n)" using event_of_hash(1) [OF ok ev] .
  note post = publishNode_post [OF run h np(2)]
  have ne: "NodePath (sdir s) (nHash x) \<noteq> NodePath (sdir s) (nHash n)" if "x \<in> set ns" for x
    using disk_inv_facts(3) [OF d that] np(2) stored_entry by metis
  show "nHash n \<notin> nHash ` set ns" using ne by force
  show "disk_inv L (sdir s) w' ns k"
    using d
  proof (rule disk_inv_kept)
    show "dirs w' = dirs w" by (rule post(1))
    show "keeps (rootPath (sdir s)) w w'" by (rule post(2)) simp_all
    fix x assume x: "x \<in> set ns"
    have "app_path (NodePath (sdir s) (nHash x))"
      using disk_inv_facts(3) [OF d x] by (simp add: stored_def)
    then show "keeps (NodePath (sdir s) (nHash x)) w w'" using ne [OF x] by (rule post(2))
  qed
  show "stored L (sdir s) w' n" if r: "r = Inr u"
  proof -
    obtain b where b: "json_node L n = Some b" "durable w' (NodePath (sdir s) (nHash n)) (b @ newline)"
      using post(3) [OF r np(1)] by blast
    have "indexedRoot s = tip ns" using inv m by (simp add: store_inv_def indexed_root)
    then have "clean_node n"
      using event_of_clean [OF ev cr] tip_valid [OF d] ok by simp
    then have "parseNode L (nHash n) (b @ newline) = Inr n"
      using event_of_parses [OF ok ev] b(1) by blast
    with b(2) h np(1) post(1) show ?thesis
      unfolding stored_def by (auto elim: after_crash_mono)
  qed
qed

lemma append_correct:
  assumes ok: "golib_ok L" and inv: "store_inv L s w ns m k" and cr: "clean_request ctx opts"
    and fr: "fresh_address L s ctx opts er w" and ix: "index_free s (oRequestID opts)"
    and run: "append L s ctx opts er w = (r, w')"
  shows "case r of
      Inr (h, s') \<Rightarrow> \<exists>n. event_of L (skey s) ctx opts (tip ns) n \<and> h = nHash n \<and> s' = recordNode s n
        \<and> m = length ns \<and> trimSpace (oType opts) \<noteq> [] \<and> (\<forall>e. er = Some e \<longrightarrow> e = tip ns)
        \<and> store_inv L s' w' (ns @ [n]) (Suc m) (Suc m)
    | Inl e \<Rightarrow> store_inv L s w' ns m k
        \<or> (\<exists>n. event_of L (skey s) ctx opts (tip ns) n \<and> m = length ns
              \<and> store_inv L s w' (ns @ [n]) m k)"
proof -
  obtain pr w1 where pr: "prepareNode L s ctx opts er w = (pr, w1)"
    by (cases "prepareNode L s ctx opts er w")
  have q: "quiet w w1" using pr by (rule prepareNode_quiet)
  show ?thesis
  proof (cases pr)
    case (Inl e)
    then have "r = Inl e" "w' = w1" using run pr by (simp_all add: append_def io_bind_def)
    then show ?thesis using store_inv_quiet [OF inv q] by simp
  next
    case (Inr n)
    have ev: "event_of L (skey s) ctx opts (indexedRoot s) n"
      and rt: "rootval (fcontent w (rootPath (sdir s))) = indexedRoot s"
      and ty: "trimSpace (oType opts) \<noteq> []" and ex: "\<forall>e. er = Some e \<longrightarrow> e = indexedRoot s"
      using prepareNode_Inr [OF ok] pr Inr by blast+
    have m: "m = length ns" using store_inv_root [OF inv] rt by simp
    have t: "indexedRoot s = tip ns" using inv m by (simp add: store_inv_def indexed_root)
    have inv1: "store_inv L s w1 ns m k" using store_inv_quiet [OF inv q] .
    have np: "NodePath (sdir s) (nHash n) \<notin> set (dirs w1)"
        "map_of (ents w1) (NodePath (sdir s) (nHash n)) = None"
      using fr pr Inr q by (auto simp: fresh_address_def quiet_def)
    obtain pb w2 where pb: "publishNode L s n w1 = (pb, w2)" by (cases "publishNode L s n w1")
    note pub = publish_keeps_inv [OF ok inv1 cr ev m np pb]
    show ?thesis
    proof (cases pb)
      case (Inl e)
      then have "r = Inl e" "w' = w2" using run pr Inr pb \<open>pr = Inr n\<close> by (simp_all add: append_def io_bind_def)
      then show ?thesis using pub(1) inv by (simp add: store_inv_def)
    next
      case pbr: (Inr u)
      obtain pw w3 where pw: "atomicWriteFile (rootPath (sdir s)) (nHash n @ newline) 0x180 w2 = (pw, w3)"
        by (cases "atomicWriteFile (rootPath (sdir s)) (nHash n @ newline) 0x180 w2")
      have rid: "nRequestID n = [] \<or> nRequestID n \<notin> nRequestID ` set ns"
        and ixn: "index_free s (nRequestID n)"
        using ix index_free_iff [of s ns "nRequestID n"] inv m event_of_fields(7) [OF ev]
        by (auto simp: store_inv_def)
      have fo: "follows (tip ns) n" using event_of_fields(11) [OF ev] t by simp
      note mv = move_root [OF pub(1) pub(2) [OF pbr] fo pub(3) rid pw]
      have w': "w' = w3" and r: "r = (case pw of Inl e \<Rightarrow> Inl e | Inr _ \<Rightarrow> Inr (nHash n, recordNode s n))"
        using run pr Inr pb pbr pw by (simp_all add: append_def io_bind_def split: sum.splits)
      have idx: "indexed s ns" "indexed (recordNode s n) (ns @ [n])"
        using inv m ixn by (auto simp: store_inv_def intro: indexed_snoc)
      show ?thesis
      proof (cases pw)
        case (Inl e)
        then show ?thesis using mv(2) ev t m idx inv by (auto simp: r w' store_inv_def)
      next
        case (Inr v)
        then show ?thesis using mv(1) [OF Inr] ev t m idx ty ex by (auto simp: r w' store_inv_def)
      qed
    qed
  qed
qed

end
