(* ===== verification/StoreOpen.thy ===== *)
theory StoreOpen
  imports AppendCorrect
begin

text \<open>
  Opening and closing a store keeps what is on its disk, and a store that opens has indexed
  exactly the chain found there.
\<close>

subsection \<open>The lock file is no other file\<close>

definition lock_alone :: "path \<Rightarrow> world \<Rightarrow> bool" where
  "lock_alone dir w \<longleftrightarrow> (\<forall>i q. Some i \<in> crash_ents w (lockPath dir) \<longrightarrow> q \<noteq> lockPath dir \<longrightarrow>
     Some i \<notin> crash_ents w q)"

lemma crash_ents_quiet: "quiet w w' \<Longrightarrow> crash_ents w' q = crash_ents w q"
  by (simp add: quiet_def crash_ents_def)

lemma lock_alone_quiet: "quiet w w' \<Longrightarrow> lock_alone dir w \<Longrightarrow> lock_alone dir w'"
  unfolding lock_alone_def using crash_ents_quiet [of w w'] by simp

lemma lock_alone_only_new:
  assumes "lock_alone dir w" "only_new (fresh_ino w) w w'" "keeps (lockPath dir) w w'"
  shows "lock_alone dir w'"
  unfolding lock_alone_def
proof (intro allI impI)
  fix i q assume i: "Some i \<in> crash_ents w' (lockPath dir)" and q: "q \<noteq> lockPath dir"
  have e: "Some i \<in> crash_ents w (lockPath dir)" using i assms(3) by (auto simp: keeps_def)
  then have "i \<noteq> fresh_ino w" using fresh_ino_unused by metis
  moreover have "Some i \<notin> crash_ents w q" using assms(1) e q by (simp add: lock_alone_def)
  ultimately show "Some i \<notin> crash_ents w' q" using assms(2) by (auto simp: only_new_def)
qed

lemma lock_alone_crash:
  assumes "lock_alone dir w" "crash w w'"
  shows "lock_alone dir w'"
proof -
  have "crash_ents w' q \<subseteq> crash_ents w q" for q
    using assms(2) crash_ents_after [OF assms(2)] by (simp add: crash_def)
  with assms(1) show ?thesis unfolding lock_alone_def by blast
qed

text \<open>Only the lock file changes, and it stays no other file.\<close>

definition lock_frame :: "path \<Rightarrow> world \<Rightarrow> world \<Rightarrow> bool" where
  "lock_frame dir w0 w \<longleftrightarrow> dirs w = dirs w0 \<and> environ w = environ w0 \<and> lock_alone dir w
     \<and> (\<forall>q. q \<noteq> lockPath dir \<longrightarrow> keeps q w0 w)"

definition lock_file :: "path \<Rightarrow> world \<Rightarrow> handle \<times> nat \<Rightarrow> world \<Rightarrow> bool" where
  "lock_file dir w0 x w \<longleftrightarrow> lock_frame dir w0 w \<and> map_of (ents w) (lockPath dir) = Some (snd (fst x))"

lemma lock_frame_fault_free [simp]: "fault_free (lock_frame dir w0)" "fault_free (lock_file dir w0 x)"
  by (simp_all add: fault_free_def lock_frame_def lock_file_def lock_alone_def)

lemma lock_frame_views:
  "quiet w w' \<Longrightarrow> environ w' = environ w \<Longrightarrow> lock_frame dir w0 w \<Longrightarrow> lock_frame dir w0 w'"
proof -
  assume q: "quiet w w'" and e: "environ w' = environ w" and l: "lock_frame dir w0 w"
  have "keeps p w0 w'" if "p \<noteq> lockPath dir" for p
    using l quiet_keeps [OF q, of p] that keeps_trans unfolding lock_frame_def by blast
  moreover have "lock_alone dir w'" using l q lock_alone_quiet by (auto simp: lock_frame_def)
  ultimately show ?thesis using l e q by (simp add: lock_frame_def quiet_def)
qed

lemma lock_file_views:
  "quiet w w' \<Longrightarrow> environ w' = environ w \<Longrightarrow> lock_file dir w0 x w \<Longrightarrow> lock_file dir w0 x w'"
  unfolding lock_file_def using lock_frame_views [of w w'] by (simp add: quiet_def)

lemma quiet_flocks:
  "quiet w (release p fd w)" "environ (release p fd w) = environ w"
  "quiet w (w\<lparr>flocks := fl\<rparr>)" "quiet w (w\<lparr>next_fd := n\<rparr>)"
  by (simp_all add: quiet_def release_def)

lemma lock_file_set_inode:
  assumes "lock_file dir w0 x w"
  shows "lock_file dir w0 x (set_inode (snd (fst x)) f w)"
proof -
  let ?i = "snd (fst x)"
  have "Some ?i \<in> crash_ents w (lockPath dir)"
    using assms by (simp add: lock_file_def crash_ents_def)
  then have "Some ?i \<notin> crash_ents w q" if "q \<noteq> lockPath dir" for q
    using assms that by (auto simp: lock_file_def lock_frame_def lock_alone_def)
  then show ?thesis
    using assms by (simp add: lock_file_def lock_frame_def lock_alone_def keeps_set_inode)
      (simp add: set_inode_def)
qed

lemma lock_frame_make:
  assumes "lock_frame dir w0 w" "map_of (ents w) (lockPath dir) = None"
  shows "lock_frame dir w0 (w\<lparr>ents := AList.update (lockPath dir) (fresh_ino w) (ents w),
      dlog := (lockPath dir, Some (fresh_ino w)) # dlog w,
      inodes := (inodes w)(fresh_ino w := n)\<rparr>)" (is "lock_frame dir w0 ?w")
proof -
  let ?p = "lockPath dir" and ?i = "fresh_ino w"
  have c: "crash_ents ?w q = crash_ents w q" if "q \<noteq> ?p" for q
    using that by (simp add: crash_ents_def)
  have cp: "crash_ents ?w ?p \<subseteq> insert (Some ?i) (crash_ents w ?p)"
    by (auto simp: crash_ents_def)
  have "keeps q w ?w" if "q \<noteq> ?p" for q
    using c [OF that] that fresh_ino_unused [of w q] by (auto simp: keeps_def)
  moreover have "lock_alone dir ?w"
    unfolding lock_alone_def
  proof (intro allI impI)
    fix i q assume i: "Some i \<in> crash_ents ?w ?p" and q: "q \<noteq> ?p"
    show "Some i \<notin> crash_ents ?w q"
      unfolding c [OF q]
      using i cp q assms(1) fresh_ino_unused [of w q]
      by (auto simp: lock_frame_def lock_alone_def)
  qed
  ultimately show ?thesis using assms(1) unfolding lock_frame_def by (auto intro: keeps_trans)
qed

lemma hoare_lock_calls:
  "hoare (lock_frame dir w0) (openLockFile (lockPath dir)) (lock_file dir w0) (lock_frame dir w0)"
  "hoare (lock_file dir w0 x) (flockEx (lockPath dir) fd) (\<lambda>_. lock_file dir w0 x) (lock_file dir w0 x)"
  "hoare (lock_file dir w0 x) (closeFd p fd) (\<lambda>_. lock_frame dir w0) (lock_frame dir w0)"
proof -
  show "hoare (lock_frame dir w0) (openLockFile (lockPath dir)) (lock_file dir w0) (lock_frame dir w0)"
    unfolding openLockFile_def
    by (rule hoare_syscall)
      (auto intro!: hoareI lock_frame_make lock_frame_views [OF quiet_flocks(4)]
         simp: lock_file_def Let_def split: if_splits option.splits)
  show "hoare (lock_file dir w0 x) (flockEx (lockPath dir) fd) (\<lambda>_. lock_file dir w0 x) (lock_file dir w0 x)"
    unfolding flockEx_def
    by (rule hoare_pure_call)
      (auto intro: lock_file_views [OF quiet_flocks(3)] split: if_splits option.splits)
  show "hoare (lock_file dir w0 x) (closeFd p fd) (\<lambda>_. lock_frame dir w0) (lock_frame dir w0)"
    unfolding closeFd_def
    by (rule hoare_syscall)
      (auto intro!: hoareI lock_frame_views [OF quiet_flocks(1,2)] simp: lock_file_def)
qed

lemma hoare_lock_fill:
  "hoare (lock_file dir w0 x) (fileTruncate (fst x)) (\<lambda>_. lock_file dir w0 x) (lock_file dir w0 x)"
  "hoare (lock_file dir w0 x) (fileWrite (fst x) b) (\<lambda>_. lock_file dir w0 x) (lock_file dir w0 x)"
  "hoare (lock_file dir w0 x) (fileSync (fst x)) (\<lambda>_. lock_file dir w0 x) (lock_file dir w0 x)"
proof -
  have ff: "lock_file dir w0 x (w\<lparr>faults := fs\<rparr>) = lock_file dir w0 x w" for w fs
    using lock_frame_fault_free(2) [of dir w0 x] by (simp add: fault_free_def)
  show "hoare (lock_file dir w0 x) (fileTruncate (fst x)) (\<lambda>_. lock_file dir w0 x) (lock_file dir w0 x)"
    "hoare (lock_file dir w0 x) (fileSync (fst x)) (\<lambda>_. lock_file dir w0 x) (lock_file dir w0 x)"
    unfolding fileTruncate_def fileSync_def
    by (rule hoare_pure_call; auto intro: lock_file_set_inode)+
  show "hoare (lock_file dir w0 x) (fileWrite (fst x) b) (\<lambda>_. lock_file dir w0 x) (lock_file dir w0 x)"
    by (rule hoareI)
      (auto simp: fileWrite_def ff intro!: lock_file_set_inode split: list.splits option.splits)
qed

lemma hoare_acquire_frame:
  "hoare (lock_frame dir w0) (acquireStoreLock pid dir) (\<lambda>_. lock_frame dir w0) (lock_frame dir w0)"
  unfolding acquireStoreLock_def
proof (rule hoare_bind [OF hoare_lock_calls(1)], rule hoare_bind)
  fix x
  show "hoare (lock_file dir w0 x) (io_try (flockEx (lockPath dir) (snd x))) (\<lambda>_. lock_file dir w0 x)
      (lock_frame dir w0)"
    using hoare_lock_calls(2) [of dir w0 x "snd x"] unfolding hoare_def io_try_def
    by (fastforce split: prod.splits sum.splits)
next
  fix x and r :: "go_error + unit"
  note cl = hoare_lock_calls(3) [of dir w0 x "lockPath dir" "snd x"]
  have lose: "hoare (lock_file dir w0 x) (io_defer (io_fail e) (closeFd (lockPath dir) (snd x)))
      (\<lambda>_. lock_frame dir w0) (lock_frame dir w0)" for e :: go_error 
    by (rule hoare_defer [where R = "\<lambda>_ _. False", OF _ _ cl]) (auto simp: hoare_def)
  have fill: "hoare (lock_file dir w0 x)
      (io_bind (io_onerr (fileTruncate (fst x)) (closeFd (lockPath dir) (snd x))) (\<lambda>_.
       io_bind (io_onerr (fileWrite (fst x) (pid @ [CHR 0x0A])) (closeFd (lockPath dir) (snd x))) (\<lambda>_.
       io_bind (io_onerr (fileSync (fst x)) (closeFd (lockPath dir) (snd x))) (\<lambda>_.
       io_ret \<lparr>lfile = Some x\<rparr>)))) (\<lambda>_. lock_frame dir w0) (lock_frame dir w0)"
    by (rule hoare_bind [OF hoare_onerr [OF hoare_lock_fill(1) cl]],
        rule hoare_bind [OF hoare_onerr [OF hoare_lock_fill(2) cl]],
        rule hoare_bind [OF hoare_onerr [OF hoare_lock_fill(3) cl]])
      (simp add: hoare_def lock_file_def)
  show "hoare (lock_file dir w0 x)
      (case r of
         Inl e \<Rightarrow> io_defer
           (io_fail (if e = OsError EWOULDBLOCK then lock_conflict else e))
           (closeFd (lockPath dir) (snd x))
       | Inr _ \<Rightarrow>
           io_bind (io_onerr (fileTruncate (fst x)) (closeFd (lockPath dir) (snd x))) (\<lambda>_.
           io_bind (io_onerr (fileWrite (fst x) (pid @ [CHR 0x0A])) (closeFd (lockPath dir) (snd x))) (\<lambda>_.
           io_bind (io_onerr (fileSync (fst x)) (closeFd (lockPath dir) (snd x))) (\<lambda>_.
           io_ret \<lparr>lfile = Some x\<rparr>)))) (\<lambda>_. lock_frame dir w0) (lock_frame dir w0)"
    by (cases r) (auto intro: lose fill)
qed

subsection \<open>What opening may change\<close>

definition store_dirs :: "path \<Rightarrow> path set" where
  "store_dirs dir = {take k (dir @ q) | k q.
     q \<in> {[''objects'', ''nodes''], [''refs'', ''named''], [''keys'']}}"

lemma root_not_store_dir: "rootPath dir \<notin> store_dirs dir"
proof
  assume "rootPath dir \<in> store_dirs dir"
  then obtain k q where e: "rootPath dir = take k (dir @ q)"
    and q: "q \<in> {[''objects'', ''nodes''], [''refs'', ''named''], [''keys'']}"
    by (auto simp: store_dirs_def)
  from arg_cong [OF e, of length] q have "k \<ge> length (dir @ q) \<and> length q = 2"
    by (auto simp: rootPath_def min_def split: if_splits)
  with e q show False by (auto simp: rootPath_def)
qed

lemma node_not_store_dir: "NodePath dir h \<notin> store_dirs dir"
proof
  assume "NodePath dir h \<in> store_dirs dir"
  then obtain k q where e: "NodePath dir h = take k (dir @ q)" and q: "length q \<le> 2"
    by (auto simp: store_dirs_def)
  from arg_cong [OF e, of length] q show False by (auto simp: NodePath_def)
qed

definition open_frame :: "path \<Rightarrow> world \<Rightarrow> world \<Rightarrow> bool" where
  "open_frame dir w w' \<longleftrightarrow> lock_alone dir w' \<and> set (dirs w') \<subseteq> set (dirs w) \<union> store_dirs dir
     \<and> (\<forall>q. app_path q \<longrightarrow> q \<noteq> lockPath dir \<longrightarrow> q \<noteq> keyPath dir \<longrightarrow> same_content q w w')"

lemma open_frame_refl: "lock_alone dir w \<Longrightarrow> open_frame dir w w"
  by (simp add: open_frame_def)

lemma open_frame_trans: "open_frame dir a b \<Longrightarrow> open_frame dir b c \<Longrightarrow> open_frame dir a c"
  unfolding open_frame_def by (auto intro: same_content_trans)

definition opens :: "path \<Rightarrow> 'a io \<Rightarrow> bool" where
  "opens dir m \<longleftrightarrow> (\<forall>w. lock_alone dir w \<longrightarrow> open_frame dir w (snd (m w)))"

named_theorems open_intros \<open>programs that respect the frame of an opening\<close>

lemma opensI: "(\<And>w r w'. lock_alone dir w \<Longrightarrow> m w = (r, w') \<Longrightarrow> open_frame dir w w') \<Longrightarrow> opens dir m"
  unfolding opens_def by (metis prod.collapse)

lemma opensD: "opens dir m \<Longrightarrow> lock_alone dir w \<Longrightarrow> m w = (r, w') \<Longrightarrow> open_frame dir w w'"
  unfolding opens_def by (metis snd_conv)

lemma opens_bind [open_intros]:
  assumes "opens dir m" and "\<And>x. opens dir (f x)"
  shows "opens dir (io_bind m f)"
proof (rule opensI)
  fix w r w' assume l: "lock_alone dir w" and r: "io_bind m f w = (r, w')"
  obtain x w1 where x: "m w = (x, w1)" by (cases "m w")
  have o: "open_frame dir w w1" using assms(1) l x by (rule opensD)
  then have l1: "lock_alone dir w1" by (simp add: open_frame_def)
  show "open_frame dir w w'"
    using r x o opensD [OF assms(2) l1] by (cases x) (auto simp: io_bind_def intro: open_frame_trans)
qed

lemma opens_onerr [open_intros]:
  assumes "opens dir m" and "opens dir d"
  shows "opens dir (io_onerr m d)"
proof (rule opensI)
  fix w r w' assume l: "lock_alone dir w" and r: "io_onerr m d w = (r, w')"
  obtain x w1 where x: "m w = (x, w1)" by (cases "m w")
  have o: "open_frame dir w w1" using assms(1) l x by (rule opensD)
  then have l1: "lock_alone dir w1" by (simp add: open_frame_def)
  obtain y w2 where y: "d w1 = (y, w2)" by (cases "d w1")
  have "open_frame dir w w2" using o opensD [OF assms(2) l1 y] by (rule open_frame_trans)
  then show "open_frame dir w w'"
    using r x y o by (cases x) (auto simp: io_onerr_def)
qed

lemma quiet_open_frame: "quiet w w' \<Longrightarrow> lock_alone dir w \<Longrightarrow> open_frame dir w w'"
  using lock_alone_quiet [of w w' dir] keeps_same_content quiet_keeps
  unfolding open_frame_def by (auto simp: quiet_def)

lemma opens_quiet: "(\<And>w r w'. m w = (r, w') \<Longrightarrow> quiet w w') \<Longrightarrow> opens dir m"
  by (rule opensI) (auto intro: quiet_open_frame)

lemma opens_reads: "reads m \<Longrightarrow> opens dir m"
  by (rule opens_quiet) (blast dest: reads_run intro: at_start_quiet)

lemma opens_acquire [open_intros]: "opens dir (acquireStoreLock pid dir)"
proof (rule opensI)
  fix w r w' assume l: "lock_alone dir w" and r: "acquireStoreLock pid dir w = (r, w')"
  have "lock_frame dir w w" using l by (simp add: lock_frame_def)
  then have "lock_frame dir w w'"
    using r hoareD [OF hoare_acquire_frame] hoareD_err [OF hoare_acquire_frame] by (cases r) blast+
  then show "open_frame dir w w'"
    by (auto simp: lock_frame_def open_frame_def intro: keeps_same_content)
qed

lemma quiet_closeStoreLock:
  assumes "closeStoreLock l w = (r, w')"
  shows "quiet w w'"
proof -
  have s: "quiet w w1" if "syscall (\<lambda>w. (Inr (), release p fd w)) w = (x, w1)" for w p fd x w1
    using that by (auto simp: syscall_def release_def quiet_def split: list.splits option.splits if_splits)
  have t: "quiet w w1" if "io_try (syscall (\<lambda>w. (Inr (), release p fd w))) w = (x, w1)" for w p fd x w1
    using that by (auto simp: io_try_def split: prod.splits dest: s)
  show ?thesis
    using assms t by (cases r)
      (auto simp: closeStoreLock_def flockUn_def closeFd_def io_iffs split: option.splits prod.splits
        dest!: t intro: quiet_trans)
qed

lemma opens_close [open_intros]: "opens dir (closeStoreLock l)"
  by (rule opens_quiet) (rule quiet_closeStoreLock)

lemma opens_ret [open_intros]: "opens dir (io_ret x)" "opens dir (io_fail e)" "opens dir (io_lift r)"
  by (auto intro!: opens_reads io_reads)

lemma open_frame_views:
  assumes "ents w' = ents w" "dents w' = dents w" "dlog w' = dlog w" "inodes w' = inodes w"
    and "set (dirs w') \<subseteq> set (dirs w) \<union> store_dirs dir" "lock_alone dir w"
  shows "open_frame dir w w'"
  using assms same_contentI [of w' w]
  by (simp add: open_frame_def lock_alone_def crash_ents_def)

lemma opens_mkdirAll [open_intros]:
  assumes "q \<in> {[''objects'', ''nodes''], [''refs'', ''named''], [''keys'']}"
  shows "opens dir (mkdirAll (dir @ q))"
proof (rule opensI)
  fix w r w' assume l: "lock_alone dir w" and r: "mkdirAll (dir @ q) w = (r, w')"
  have sub: "take k (dir @ q) \<in> store_dirs dir" for k
    unfolding store_dirs_def using assms by blast
  show "open_frame dir w w'"
    using r l sub
    by (intro open_frame_views)
      (auto simp: mkdirAll_def syscall_def Let_def fold_setDir simp del: upt_Suc
        split: list.splits option.splits if_splits)
qed

lemma opens_chmodDir [open_intros]: "opens dir (chmodDir d)"
  by (rule opens_quiet)
    (auto simp: chmodDir_def syscall_def quiet_def split: list.splits option.splits if_splits)

lemma opens_makeDirs [open_intros]: "opens dir (makeDirs dir)"
  unfolding makeDirs_def by (intro open_intros) simp_all

lemma keyPath_names: "app_path (keyPath dir)" "app_path (lockPath dir)" "keyPath dir \<noteq> lockPath dir"
  by (simp_all add: app_path_def keyPath_def lockPath_def hasPrefix_def)

lemma replace_open_frame:
  assumes l: "lock_alone dir w" and p: "app_path p" "p \<noteq> lockPath dir"
    and run: "atomicWriteFile p b 0x180 w = (r, w')"
  shows "lock_alone dir w'" and "app_path q \<Longrightarrow> q \<noteq> p \<Longrightarrow> keeps q w w'" and "dirs w' = dirs w"
proof -
  have ap: "app_path x \<Longrightarrow> x \<noteq> tmp_of ''.jaybase-write-'' w p" for x
    using app_path_not_tmp [of x w "butlast p" "''write-''"] by (simp add: tmp_of_def)
  show k: "app_path q \<Longrightarrow> q \<noteq> p \<Longrightarrow> keeps q w w'" for q
    using wf.put_frame [OF ap [OF p(1)] run] ap by blast
  show "dirs w' = dirs w" using wf.put_env [OF ap [OF p(1)] run] by (simp add: same_env_def)
  have "only_new (fresh_ino w) w w'"
    using run ap [OF p(1)] unfolding atomicWriteFile_def tmp_of_def by (intro replaceFile_only_new)
  then show "lock_alone dir w'"
    using l k [of "lockPath dir"] p(2) keyPath_names(2) by (auto intro: lock_alone_only_new)
qed

lemma opens_writeKey [open_intros]: "opens dir (atomicWriteFile (keyPath dir) b 0x180)"
proof (rule opensI)
  fix w r w' assume l: "lock_alone dir w" and r: "atomicWriteFile (keyPath dir) b 0x180 w = (r, w')"
  note f = replace_open_frame [OF l keyPath_names(1,3) r]
  show "open_frame dir w w'"
    using f(1,3) f(2) keeps_same_content by (auto simp: open_frame_def)
qed

lemma opens_chmodKey [open_intros]: "opens dir (chmodPath p m)"
proof (rule opensI)
  fix w r w' assume l: "lock_alone dir w" and r: "chmodPath p m w = (r, w')"
  have v: "ents w' = ents w" "dents w' = dents w" "dlog w' = dlog w" "dirs w' = dirs w"
    "\<And>i. idata (inodes w' i) = idata (inodes w i) \<and> isynced (inodes w' i) = isynced (inodes w i)"
    using r by (auto simp: chmodPath_def syscall_def split: list.splits option.splits if_splits)
  then show "open_frame dir w w'"
    using l same_contentI [OF v(1-3,5)]
    by (simp add: open_frame_def lock_alone_def crash_ents_def)
qed

lemma opens_readRandom [open_intros]: "opens dir (readRandom n)"
  by (rule opens_quiet) (rule quiet_readRandom)

lemma opens_loadOrCreateKey [open_intros]: "opens dir (loadOrCreateKey dir)"
  unfolding loadOrCreateKey_def
  by (intro open_intros opens_reads [OF reads_basic(7)] opens_reads [OF reads_try [OF reads_basic(4)]])
    (auto intro!: open_intros opens_reads [OF reads_basic(7)]
       opens_reads [OF reads_try [OF reads_basic(4)]] split: sum.split)

lemma opens_explicitKey [open_intros]: "opens dir (explicitKey k)"
  unfolding explicitKey_def by (auto intro: open_intros)

lemma reads_rebuildIndexes: "reads (rebuildIndexes L s)"
  unfolding rebuildIndexes_def by (intro io_reads)

lemma reads_checkHead: "reads (checkHead L s)"
  unfolding checkHead_def by (auto intro!: io_reads split: sum.split)

lemma opens_openLocked [open_intros]: "opens dir getKey \<Longrightarrow> opens dir (openLocked L dir getKey lock)"
  unfolding openLocked_def
  by (intro open_intros opens_reads [OF reads_rebuildIndexes] opens_reads [OF reads_checkHead])

lemma opens_openStore: "dir \<noteq> [] \<Longrightarrow> opens dir (openStore L pid dir key explicit)"
  unfolding openStore_def Let_def by (auto intro!: open_intros)

subsection \<open>Opening\<close>

lemma disk_inv_open_frame:
  assumes inv: "disk_inv L dir w ns k" and f: "open_frame dir w w'"
  shows "disk_inv L dir w' ns k"
proof -
  have r: "same_content (rootPath dir) w w'"
    using f by (simp add: open_frame_def rootPath_def lockPath_def keyPath_def app_path_def hasPrefix_def)
  have n: "stored L dir w' n" if "n \<in> set ns" for n
  proof -
    have s: "stored L dir w n" using disk_inv_facts(3) [OF inv that] .
    have "NodePath dir (nHash n) \<noteq> lockPath dir" "NodePath dir (nHash n) \<noteq> keyPath dir"
      by (simp_all add: NodePath_def lockPath_def keyPath_def)
    moreover have "app_path (NodePath dir (nHash n))" using s by (simp add: stored_def)
    ultimately have "same_content (NodePath dir (nHash n)) w w'"
      using f unfolding open_frame_def by blast
    then show ?thesis
      using s f node_not_store_dir unfolding stored_def open_frame_def same_content_def by blast
  qed
  have "rootPath dir \<notin> set (dirs w')"
    using inv f root_not_store_dir unfolding disk_inv_def open_frame_def by blast
  then show ?thesis
    using inv n r unfolding disk_inv_def same_content_def by auto
qed

lemma openStore_inv:
  assumes inv: "disk_inv L dir w ns k" and l: "lock_alone dir w" and ne: "dir \<noteq> []"
    and run: "openStore L pid dir key explicit w = (r, w')"
  shows "lock_alone dir w'" and "disk_inv L dir w' ns k"
    and "r = Inr s \<Longrightarrow> store_inv L s w' ns (length ns) k \<and> sdir s = dir \<and> slock s \<noteq> None
      \<and> (ns \<noteq> [] \<longrightarrow> (\<exists>p. nodePayload L (skey s) (last ns) = Inr p))"
proof -
  have f: "open_frame dir w w'" using opensD [OF opens_openStore [OF ne] l run] .
  then show "lock_alone dir w'" by (simp add: open_frame_def)
  show d: "disk_inv L dir w' ns k" using disk_inv_open_frame [OF inv f] .
  assume r: "r = Inr s"
  let ?gk = "if explicit then explicitKey key else loadOrCreateKey dir"
  let ?s0 = "\<lambda>key lock. \<lparr>sdir = dir, snow = (\<lambda>t. t), skey = key, slock = Some lock,
      history = [], metadata = [], historyIndex = Map.empty, requestIndex = Map.empty\<rparr>"
  obtain w1 lock w2 key' w3 w4 where
    md: "makeDirs dir w = (Inr (), w1)" and al: "acquireStoreLock pid dir w1 = (Inr lock, w2)"
    and gk: "?gk w2 = (Inr key', w3)" and rb: "rebuildIndexes L (?s0 key' lock) w3 = (Inr s, w4)"
    and ch: "checkHead L s w4 = (Inr (), w')"
    using run ne unfolding r by (auto simp: openStore_def openLocked_def io_iffs)
  have o1: "open_frame dir w w1" using opensD [OF opens_makeDirs l md] .
  then have o2: "open_frame dir w w2"
    using opensD [OF opens_acquire _ al] by (metis open_frame_def open_frame_trans)
  then have l2: "lock_alone dir w2" by (simp add: open_frame_def)
  have "opens dir ?gk" by (simp add: opens_explicitKey opens_loadOrCreateKey)
  then have "open_frame dir w2 w3" using l2 gk by (rule opensD)
  then have "open_frame dir w w3" using o2 open_frame_trans by blast
  then have d3: "disk_inv L dir w3 ns k" using disk_inv_open_frame [OF inv] by blast
  have ix: "indexed s ns" "clear_indexes s = clear_indexes (?s0 key' lock)" "at_start w3 w4"
    using rebuildIndexes_Inr [where s = "?s0 key' lock"] d3 rb by auto
  have sd: "sdir s = dir" "slock s = Some lock"
    using arg_cong [OF ix(2), of sdir] arg_cong [OF ix(2), of slock]
    by (simp_all add: clear_indexes_def)
  have "\<exists>p. nodePayload L (skey s) (last ns) = Inr p" if n: "ns \<noteq> []"
  proof -
    have h: "history s ! (length (history s) - 1) = nHash (last ns)"
      using indexed_root [OF ix(1)] n indexed_history [OF ix(1)] by (simp add: indexedRoot_def tip_def)
    obtain m w5 where "readNode L dir (nHash (last ns)) w4 = (Inr m, w5)"
      and c: "(case nodePayload L (skey s) m of
            Inl e \<Rightarrow> io_fail (appErr ErrIntegrity ''data key cannot decrypt the current head: %v'' [])
          | Inr _ \<Rightarrow> io_ret ()) w5 = (Inr (), w')"
      using ch n h indexed_history [OF ix(1)]
      by (auto simp: checkHead_def io_iffs sd)
    moreover obtain p where p: "nodePayload L (skey s) m = Inr p"
      using c by (cases "nodePayload L (skey s) m") auto
    ultimately have "node_at L dir w4 (nHash (last ns)) m" using readNode_Inr by blast
    moreover have "node_at L dir w4 (nHash (last ns)) (last ns)"
      using disk_inv_facts(3) [OF disk_inv_at_start [OF d3 ix(3)]] n stored_node_at by simp
    ultimately show ?thesis using p node_at_unique by blast
  qed
  then show "store_inv L s w' ns (length ns) k \<and> sdir s = dir \<and> slock s \<noteq> None
      \<and> (ns \<noteq> [] \<longrightarrow> (\<exists>p. nodePayload L (skey s) (last ns) = Inr p))"
    using d ix(1) sd disk_inv_facts(5) [OF d] by (simp add: store_inv_def)
qed

text \<open>The weaker fact: what a chain on disk means for the store that opens, however it got there.\<close>

definition disk_chain :: "golib \<Rightarrow> path \<Rightarrow> world \<Rightarrow> Node list \<Rightarrow> bool" where
  "disk_chain L dir w ns \<longleftrightarrow> chain ns \<and> (\<forall>n \<in> set ns. stored L dir w n) \<and> rootPath dir \<notin> set (dirs w)
     \<and> rootval (fcontent w (rootPath dir)) = tip ns"

lemma disk_inv_chain: "disk_inv L dir w ns k \<Longrightarrow> disk_chain L dir w ns"
  by (simp add: disk_inv_def disk_chain_def)

lemma disk_chain_open_frame:
  assumes inv: "disk_chain L dir w ns" and f: "open_frame dir w w'"
  shows "disk_chain L dir w' ns"
proof -
  have r: "same_content (rootPath dir) w w'"
    using f by (simp add: open_frame_def rootPath_def lockPath_def keyPath_def app_path_def hasPrefix_def)
  have n: "stored L dir w' n" if "n \<in> set ns" for n
  proof -
    have s: "stored L dir w n" using inv that by (simp add: disk_chain_def)
    have "NodePath dir (nHash n) \<noteq> lockPath dir" "NodePath dir (nHash n) \<noteq> keyPath dir"
      by (simp_all add: NodePath_def lockPath_def keyPath_def)
    moreover have "app_path (NodePath dir (nHash n))" using s by (simp add: stored_def)
    ultimately have "same_content (NodePath dir (nHash n)) w w'"
      using f unfolding open_frame_def by blast
    then show ?thesis
      using s f node_not_store_dir unfolding stored_def open_frame_def same_content_def by blast
  qed
  have "rootPath dir \<notin> set (dirs w')"
    using inv f root_not_store_dir unfolding disk_chain_def open_frame_def by blast
  then show ?thesis using inv n r unfolding disk_chain_def same_content_def by auto
qed

lemma rebuildIndexes_chain:
  assumes "disk_chain L (sdir s) w ns" and "rebuildIndexes L s w = (Inr s', w')"
  shows "indexed s' ns \<and> clear_indexes s' = clear_indexes s \<and> at_start w w'"
proof -
  obtain r w1 ms where r: "currentRoot (sdir s) w = (Inr r, w1)"
    and ms: "nodesFromRoot L (sdir s) r w1 = (Inr ms, w')"
    and ix: "indexNodes (clear_indexes s) ms = Inr s'"
    using assms(2) by (auto simp: rebuildIndexes_def io_iffs)
  have w1: "at_start w w1" and rv: "r = tip ns"
    using currentRoot_Inr [OF r] assms(1) by (auto simp: disk_chain_def)
  have at: "node_at L (sdir s) w1 (nHash n) n" if "n \<in> set ns" for n
  proof -
    have "stored L (sdir s) w n" using that assms(1) by (simp add: disk_chain_def)
    then show ?thesis
      using stored_kept [OF _ at_start_keeps [OF w1] at_start_views(5) [OF w1]] stored_node_at by blast
  qed
  have "ns = ms"
    using nodesFromRoot_Inr [OF ms] at rv assms(1)
    by (intro chain_unique [where L = L and dir = "sdir s" and w = w1]) (auto simp: disk_chain_def)
  then show ?thesis
    using indexNodes_indexed [OF ix] indexNodes_clear [OF ix] nodesFromRoot_Inr [OF ms] w1
      at_start_trans by auto
qed

lemma openStore_chain:
  assumes inv: "disk_chain L dir w ns" and l: "lock_alone dir w" and ne: "dir \<noteq> []"
    and run: "openStore L pid dir key explicit w = (Inr s, w')"
  shows "indexed s ns"
proof -
  let ?gk = "if explicit then explicitKey key else loadOrCreateKey dir"
  let ?s0 = "\<lambda>key lock. \<lparr>sdir = dir, snow = (\<lambda>t. t), skey = key, slock = Some lock,
      history = [], metadata = [], historyIndex = Map.empty, requestIndex = Map.empty\<rparr>"
  obtain w1 lock w2 key' w3 w4 where
    md: "makeDirs dir w = (Inr (), w1)" and al: "acquireStoreLock pid dir w1 = (Inr lock, w2)"
    and gk: "?gk w2 = (Inr key', w3)" and rb: "rebuildIndexes L (?s0 key' lock) w3 = (Inr s, w4)"
    using run ne by (auto simp: openStore_def openLocked_def io_iffs)
  have o1: "open_frame dir w w1" using opensD [OF opens_makeDirs l md] .
  then have o2: "open_frame dir w w2"
    using opensD [OF opens_acquire _ al] by (metis open_frame_def open_frame_trans)
  then have l2: "lock_alone dir w2" by (simp add: open_frame_def)
  have "opens dir ?gk" by (simp add: opens_explicitKey opens_loadOrCreateKey)
  then have "open_frame dir w2 w3" using l2 gk by (rule opensD)
  then have "open_frame dir w w3" using o2 open_frame_trans by blast
  then have "disk_chain L dir w3 ns" using disk_chain_open_frame [OF inv] by blast
  then show ?thesis using rebuildIndexes_chain [where s = "?s0 key' lock"] rb by auto
qed

end
