(* ===== verification/StoreRefs.thy ===== *)
theory StoreRefs
  imports StoreOpen
begin

text \<open>
  Named refs (storage.go: \<^verbatim>\<open>validateRefName\<close>, \<^verbatim>\<open>writeNamedRef\<close>, \<^verbatim>\<open>WriteNamedRef\<close>,
  \<^verbatim>\<open>WriteNamedRefAt\<close>, \<^verbatim>\<open>NamedRef\<close>): files under \<^verbatim>\<open>refs/named\<close>, each holding a node hash.
\<close>

subsection \<open>Names\<close>

definition ref_name_error :: go_error where
  "ref_name_error = appErr ErrValidation ''named ref must be a simple file-safe name'' []"

definition validateRefName :: "string \<Rightarrow> go_error + unit" where
  "validateRefName name0 =
     (let name = trimSpace name0 in
      if name = [] \<or> containsStr name ''..'' \<or> containsAny name [CHR 0x2F, CHR 0x5C]
      then Inl ref_name_error else Inr ())"

text \<open>\<^verbatim>\<open>filepath.Join(s.dir, "refs", "named", name)\<close>, which drops a component \<^verbatim>\<open>.\<close>.\<close>

definition namedPath :: "path \<Rightarrow> string \<Rightarrow> path" where
  "namedPath dir name = dir @ [''refs'', ''named''] @ (if name = ''.'' then [] else [name])"

subsection \<open>Operations\<close>

definition writeNamedRef :: "golib \<Rightarrow> Store \<Rightarrow> string \<Rightarrow> string \<Rightarrow> unit io" where
  "writeNamedRef L s name0 root0 =
     (let name = trimSpace name0; root = trimSpace root0 in
      io_bind (io_lift (validateRefName name)) (\<lambda>_.
      if root = [] then io_fail (appErr ErrValidation ''named ref root is required'' [])
      else io_bind (io_try (readNode L (sdir s) root)) (\<lambda>r.
        case r of
          Inl e \<Rightarrow> if isNotExist e
            then io_fail (appErr ErrNotFound ''root %s does not exist'' [root]) else io_fail e
        | Inr _ \<Rightarrow> atomicWriteFile (namedPath (sdir s) name) (root @ newline) 0x180)))"

definition WriteNamedRef :: "golib \<Rightarrow> Store \<Rightarrow> string \<Rightarrow> string \<Rightarrow> unit io" where
  "WriteNamedRef L s name root = writeNamedRef L s name root"

definition WriteNamedRefAt :: "golib \<Rightarrow> Store \<Rightarrow> string \<Rightarrow> string \<Rightarrow> string \<Rightarrow> unit io" where
  "WriteNamedRefAt L s name0 root expectedRoot0 =
     (let name = trimSpace name0 in
      io_bind (io_lift (validateRefName name)) (\<lambda>_.
      io_bind (io_try (readFile (namedPath (sdir s) name))) (\<lambda>r.
      io_bind (case r of
          Inr b \<Rightarrow> io_ret (trimSpace b)
        | Inl e \<Rightarrow> if \<not> isNotExist e then io_fail e else io_ret []) (\<lambda>current.
      let expectedRoot = trimSpace expectedRoot0 in
      if current \<noteq> expectedRoot
      then io_fail (appErr ErrConflict ''named ref %q changed: expected %q, current %q''
             [name, expectedRoot, current])
      else writeNamedRef L s name root))))"

definition NamedRef :: "Store \<Rightarrow> string \<Rightarrow> string io" where
  "NamedRef s name0 =
     (let name = trimSpace name0 in
      io_bind (io_lift (validateRefName name)) (\<lambda>_.
      io_bind (io_try (readFile (namedPath (sdir s) name))) (\<lambda>r.
        case r of
          Inl e \<Rightarrow> if isNotExist e
            then io_fail (appErr ErrNotFound ''named ref %q does not exist'' [name]) else io_fail e
        | Inr b \<Rightarrow> io_ret (trimSpace b))))"

subsection \<open>Where a named ref lives\<close>

lemma containsAny_iff: "containsAny s cs \<longleftrightarrow> (\<exists>c \<in> set cs. c \<in> set s)"
  by (auto simp: containsAny_def list_ex_iff)

text \<open>A name that is accepted is one path component that does not climb.\<close>

lemma validateRefName_Inr:
  assumes "validateRefName name = Inr u"
  shows "trimSpace name \<noteq> []" "trimSpace name \<noteq> ''..''"
    "CHR 0x2F \<notin> set (trimSpace name)" "CHR 0x5C \<notin> set (trimSpace name)"
  using assms
  by (auto simp: validateRefName_def Let_def containsAny_iff hasPrefix_def split: if_splits)

lemma validateRefName_trim [simp]: "validateRefName (trimSpace n) = validateRefName n"
  by (simp add: validateRefName_def)

lemma namedPath_other [simp]:
  "namedPath dir n \<noteq> rootPath dir" "namedPath dir n \<noteq> NodePath dir h" "namedPath dir n \<noteq> lockPath dir"
  "namedPath dir n \<noteq> keyPath dir" "rootPath dir \<noteq> namedPath dir n" "NodePath dir h \<noteq> namedPath dir n"
  "lockPath dir \<noteq> namedPath dir n" "keyPath dir \<noteq> namedPath dir n"
  by (auto simp: namedPath_def rootPath_def NodePath_def lockPath_def keyPath_def)

lemma namedPath_inj: "n \<noteq> ''.'' \<Longrightarrow> namedPath dir n = namedPath dir m \<longleftrightarrow> n = m"
  by (auto simp: namedPath_def)

subsection \<open>What a write does\<close>

text \<open>A name that could be that of a temporary file of the store is set apart.\<close>

definition plain_name :: "string \<Rightarrow> bool" where
  "plain_name name \<longleftrightarrow> trimSpace name \<noteq> ''.'' \<and> \<not> hasPrefix (trimSpace name) ''.jaybase-''"

lemma plain_name_path: "plain_name name \<Longrightarrow> app_path (namedPath dir (trimSpace name))"
  by (simp add: plain_name_def app_path_def namedPath_def)

lemma writeNamedRef_cases:
  assumes "writeNamedRef L s name root w = (r, w')"
  obtains (refused) e where "r = Inl e" "at_start w w'"
  | (written) n w1 where "validateRefName name = Inr ()" "trimSpace root \<noteq> []"
      "node_at L (sdir s) w (trimSpace root) n" "at_start w w1"
      "atomicWriteFile (namedPath (sdir s) (trimSpace name)) (trimSpace root @ newline) 0x180 w1 = (r, w')"
proof -
  obtain rn w1 where rn: "readNode L (sdir s) (trimSpace root) w = (rn, w1)"
    by (cases "readNode L (sdir s) (trimSpace root) w")
  have w1: "at_start w w1" using reads_run [OF reads_readNode rn] .
  show thesis
  proof (cases "validateRefName name = Inr () \<and> trimSpace root \<noteq> []")
    case False
    then have "\<exists>e. r = Inl e" "w' = w"
      using assms by (cases "validateRefName name"; auto simp: writeNamedRef_def Let_def io_defs)+
    then show ?thesis using refused by auto
  next
    case True
    show ?thesis
    proof (cases rn)
      case (Inl e)
      then have "\<exists>e. r = Inl e" "w' = w1"
        using assms True rn by (auto simp: writeNamedRef_def Let_def io_defs split: if_splits)
      then show ?thesis using refused w1 by auto
    next
      case (Inr n)
      then have "atomicWriteFile (namedPath (sdir s) (trimSpace name)) (trimSpace root @ newline) 0x180 w1 = (r, w')"
        using assms True rn by (auto simp: writeNamedRef_def Let_def io_defs)
      moreover have "node_at L (sdir s) w (trimSpace root) n" using readNode_Inr rn Inr by auto
      ultimately show ?thesis using written True w1 by blast
    qed
  qed
qed

text \<open>Every other file keeps its contents; a success is durable.\<close>

lemma writeNamedRef_frame:
  assumes run: "writeNamedRef L s name root w = (r, w')" and pn: "plain_name name"
    and l: "lock_alone (sdir s) w"
  shows "lock_alone (sdir s) w'" and "dirs w' = dirs w"
    and "app_path q \<Longrightarrow> q \<noteq> namedPath (sdir s) (trimSpace name) \<Longrightarrow> keeps q w w'"
    and "r = Inr u \<Longrightarrow> durable w' (namedPath (sdir s) (trimSpace name)) (trimSpace root @ newline)
      \<and> (\<exists>n. node_at L (sdir s) w (trimSpace root) n)"
proof -
  let ?p = "namedPath (sdir s) (trimSpace name)"
  have "lock_alone (sdir s) w' \<and> dirs w' = dirs w
    \<and> (\<forall>q. app_path q \<longrightarrow> q \<noteq> ?p \<longrightarrow> keeps q w w')
    \<and> (\<forall>u. r = Inr u \<longrightarrow> durable w' ?p (trimSpace root @ newline)
         \<and> (\<exists>n. node_at L (sdir s) w (trimSpace root) n))"
    using run
  proof (cases rule: writeNamedRef_cases)
    case (refused e)
    then show ?thesis
      using lock_alone_quiet [OF at_start_quiet l] at_start_keeps at_start_views(5) by auto
  next
    case (written n w1)
    have l1: "lock_alone (sdir s) w1" using lock_alone_quiet [OF at_start_quiet l] written(4) by blast
    have ap: "app_path ?p" using plain_name_path [OF pn] .
    note f = replace_open_frame [OF l1 ap _ written(5)]
    have ne: "?p \<noteq> tmp_of ''.jaybase-write-'' w1 ?p"
      using app_path_not_tmp [OF ap, of w1 "butlast ?p" "''write-''"] by (simp add: tmp_of_def)
    have "keeps q w w'" if "app_path q" "q \<noteq> ?p" for q
      using f(2) that at_start_keeps [OF written(4)] keeps_trans by fastforce
    moreover have "durable w' ?p (trimSpace root @ newline)" if "r = Inr u" for u
      using wf.put_durable [OF ne] written(5) that by blast
    ultimately show ?thesis using f(1,3) written(3) at_start_views(5) [OF written(4)] by auto
  qed
  then show "lock_alone (sdir s) w'" and "dirs w' = dirs w"
    and "app_path q \<Longrightarrow> q \<noteq> ?p \<Longrightarrow> keeps q w w'"
    and "r = Inr u \<Longrightarrow> durable w' ?p (trimSpace root @ newline)
      \<and> (\<exists>n. node_at L (sdir s) w (trimSpace root) n)"
    by blast+
qed

text \<open>The compare step of the compare-and-set.\<close>

definition refValue :: "Store \<Rightarrow> string \<Rightarrow> world \<Rightarrow> string" where
  "refValue s name w = rootval (fcontent w (namedPath (sdir s) (trimSpace name)))"

lemma WriteNamedRefAt_cases:
  assumes "WriteNamedRefAt L s name root expected w = (r, w')"
  obtains (refused) e where "r = Inl e" "at_start w w'"
  | (matched) w1 where "at_start w w1" "refValue s name w = trimSpace expected"
      "writeNamedRef L s name root w1 = (r, w')"
proof -
  let ?p = "namedPath (sdir s) (trimSpace name)"
  obtain rd w1 where rd: "readFile ?p w = (rd, w1)" by (cases "readFile ?p w")
  have w1: "at_start w w1" using reads_run [OF reads_basic(4) rd] .
  have tr: "writeNamedRef L s (trimSpace name) root = writeNamedRef L s name root"
    by (simp add: writeNamedRef_def)
  show thesis
  proof (cases "validateRefName name")
    case (Inl e)
    then have "\<exists>e. r = Inl e" "w' = w"
      using assms by (auto simp: WriteNamedRefAt_def Let_def io_defs dest: sym)
    then show ?thesis using refused by auto
  next
    case (Inr u)
    show ?thesis
    proof (cases rd)
      case (Inl e)
      show ?thesis
      proof (cases "isNotExist e \<and> trimSpace expected = []")
        case True
        then have "writeNamedRef L s name root w1 = (r, w')"
          using assms Inr Inl rd by (simp add: WriteNamedRefAt_def Let_def io_defs tr)
        moreover have "refValue s name w = trimSpace expected"
          using readFile_Inl [of ?p w e w1] rd Inl True by (simp add: refValue_def rootval_def)
        ultimately show ?thesis using matched w1 by blast
      next
        case False
        then have "\<exists>e. r = Inl e" "w' = w1"
          using assms Inr Inl rd
          by (auto simp: WriteNamedRefAt_def Let_def io_defs split: if_splits)
        then show ?thesis using refused w1 by auto
      qed
    next
      case b: (Inr b)
      have v: "refValue s name w = trimSpace b"
        using readFile_Inr [of ?p w b w1] rd b by (simp add: refValue_def rootval_def)
      show ?thesis
      proof (cases "trimSpace b = trimSpace expected")
        case True
        then have "writeNamedRef L s name root w1 = (r, w')"
          using assms Inr b rd by (simp add: WriteNamedRefAt_def Let_def io_defs tr)
        then show ?thesis using matched w1 v True by simp
      next
        case False
        then have "\<exists>e. r = Inl e" "w' = w1"
          using assms Inr b rd by (auto simp: WriteNamedRefAt_def Let_def io_defs)
        then show ?thesis using refused w1 by auto
      qed
    qed
  qed
qed

text \<open>Reading back.\<close>

lemma NamedRef_no_fault:
  assumes "faults w = []" "namedPath (sdir s) (trimSpace name) \<notin> set (dirs w)"
    and "validateRefName name = Inr ()" "fcontent w (namedPath (sdir s) (trimSpace name)) = Some b"
  shows "NamedRef s name w = (Inr (trimSpace b), w)"
  using assms by (simp add: NamedRef_def Let_def io_defs readFile_no_fault)

lemma store_inv_WriteNamedRef:
  assumes inv: "store_inv L s w ns m k" and run: "writeNamedRef L s name root w = (r, w')"
    and pn: "plain_name name" and l: "lock_alone (sdir s) w"
  shows "store_inv L s w' ns m k"
proof -
  note f = writeNamedRef_frame [OF run pn l]
  have "disk_inv L (sdir s) w' ns k"
  proof (rule disk_inv_kept)
    show "disk_inv L (sdir s) w ns k" using inv by (simp add: store_inv_def)
    then show "keeps (NodePath (sdir s) (nHash n)) w w'" if "n \<in> set ns" for n
      using disk_inv_facts(3) that f(3) by (auto simp: stored_def)
    show "keeps (rootPath (sdir s)) w w'" using f(3) by simp
  qed (rule f(2))
  then show ?thesis using inv by (simp add: store_inv_def)
qed

end
