(* ===== verification/StorePages.thy ===== *)
theory StorePages
  imports StoreRefs "HOL-Library.Word"
begin

text \<open>
  Reading a store (storage.go): \<^verbatim>\<open>VerifyHead\<close>, \<^verbatim>\<open>ContainsRoot\<close>, \<^verbatim>\<open>VerifyAll\<close>,
  \<^verbatim>\<open>AuditLog\<close>, the event pages and the payload batches. Every operation first compares the
  root on disk with the indexed one.
\<close>

subsection \<open>Loops with calls\<close>

fun io_mapM :: "('a \<Rightarrow> 'b io) \<Rightarrow> 'a list \<Rightarrow> 'b list io" where
  "io_mapM f [] = io_ret []"
| "io_mapM f (x # xs) = io_bind (f x) (\<lambda>y. io_bind (io_mapM f xs) (\<lambda>ys. io_ret (y # ys)))"

lemma reads_mapM [io_reads]: "(\<And>x. reads (f x)) \<Longrightarrow> reads (io_mapM f xs)"
  by (induction xs) (auto intro: io_reads)

lemma io_mapM_no_fault: "(\<And>x. x \<in> set xs \<Longrightarrow> f x w = (Inr (g x), w)) \<Longrightarrow> io_mapM f xs w = (Inr (map g xs), w)"
  by (induction xs) (auto simp: io_defs)

lemma io_mapM_Inr:
  assumes "\<And>x. reads (f x)"
    and "\<And>x y v v'. x \<in> set xs \<Longrightarrow> at_start w v \<Longrightarrow> f x v = (Inr y, v') \<Longrightarrow> y = g x"
  shows "at_start w v \<Longrightarrow> io_mapM f xs v = (Inr ys, v') \<Longrightarrow> ys = map g xs"
  using assms(2)
proof (induction xs arbitrary: v ys)
  case Nil
  then show ?case by simp
next
  case (Cons x xs)
  then obtain y v1 zs where y: "f x v = (Inr y, v1)" "io_mapM f xs v1 = (Inr zs, v')" "ys = y # zs"
    by (auto simp: io_iffs)
  have "at_start w v1" using Cons.prems(1) reads_run [OF assms(1) y(1)] at_start_trans by blast
  then have "zs = map g xs" using Cons.IH y(2) Cons.prems(3) by (metis list.set_intros(2))
  moreover have "y = g x" using Cons.prems(1,3) y(1) by (metis list.set_intros(1))
  ultimately show ?case using y(3) by simp
qed

subsection \<open>The root check\<close>

definition checkedRoot :: "Store \<Rightarrow> string io" where
  "checkedRoot s = io_bind (currentRoot (sdir s)) (\<lambda>root.
     if root \<noteq> indexedRoot s then io_fail index_mismatch else io_ret root)"

lemma reads_checkedRoot [io_reads]: "reads (checkedRoot s)"
  unfolding checkedRoot_def by (intro reads_bind reads_currentRoot) (auto intro: io_reads)

lemma checkedRoot_Inr:
  assumes "store_inv L s w ns m k" and "checkedRoot s w = (Inr root, w')"
  shows "root = tip ns" "m = length ns" "indexed s ns" "at_start w w'"
proof -
  have r: "root = rootval (fcontent w (rootPath (sdir s)))" "root = indexedRoot s" and a: "at_start w w'"
    using assms(2) currentRoot_Inr by (auto simp: checkedRoot_def io_iffs split: if_splits)
  show m: "m = length ns" using store_inv_root [OF assms(1)] r by simp
  show "root = tip ns" "indexed s ns" using r(1) assms(1) m by (auto simp: store_inv_def disk_inv_def)
  show "at_start w w'" by (rule a)
qed

lemma checkedRoot_no_fault:
  assumes "store_inv L s w ns (length ns) k" and "faults w = []"
  shows "checkedRoot s w = (Inr (tip ns), w)"
proof -
  have "rootPath (sdir s) \<notin> set (dirs w)" "rootval (fcontent w (rootPath (sdir s))) = tip ns"
    and i: "indexedRoot s = tip ns"
    using assms(1) by (auto simp: store_inv_def disk_inv_def indexed_root)
  then have "currentRoot (sdir s) w = (Inr (tip ns), w)"
    using currentRoot_no_fault [OF assms(2)] by simp
  then show ?thesis using i by (simp add: checkedRoot_def io_defs)
qed

subsection \<open>Integrity checks\<close>

text \<open>\<^verbatim>\<open>VerifyHead\<close> of an empty store succeeds without the index check.\<close>

definition VerifyHead :: "golib \<Rightarrow> Store \<Rightarrow> unit io" where
  "VerifyHead L s = io_bind (currentRoot (sdir s)) (\<lambda>root.
     if root = [] then io_ret ()
     else if root \<noteq> indexedRoot s then io_fail index_mismatch
     else io_bind (readNode L (sdir s) root) (\<lambda>_. io_ret ()))"

definition ContainsRoot :: "Store \<Rightarrow> string \<Rightarrow> bool io" where
  "ContainsRoot s root0 =
     (let root = trimSpace root0 in
      if root = [] then io_fail (appErr ErrValidation ''root is required'' [])
      else io_bind (io_lift (validateHash root)) (\<lambda>_.
      io_bind (checkedRoot s) (\<lambda>_.
      io_ret (historyIndex s root \<noteq> None))))"

text \<open>The result of \<^verbatim>\<open>VerifyAll\<close> carries the count reached, with the error if there is one.\<close>

fun verifyLoop :: "golib \<Rightarrow> Store \<Rightarrow> string list \<Rightarrow> nat \<Rightarrow> world \<Rightarrow> (nat \<times> go_error option) \<times> world" where
  "verifyLoop L s [] nodes w = ((nodes, None), w)"
| "verifyLoop L s (hash # hs) nodes w =
     (case readNode L (sdir s) hash w of
        (Inl e, w') \<Rightarrow> ((nodes, Some e), w')
      | (Inr node, w') \<Rightarrow>
          (case nodePayload L (skey s) node of
             Inl e \<Rightarrow> ((nodes, Some e), w')
           | Inr _ \<Rightarrow> verifyLoop L s hs (Suc nodes) w'))"

definition VerifyAll :: "golib \<Rightarrow> Store \<Rightarrow> world \<Rightarrow> (string \<times> nat \<times> go_error option) \<times> world" where
  "VerifyAll L s w =
     (case currentRoot (sdir s) w of
        (Inl e, w') \<Rightarrow> (([], 0, Some e), w')
      | (Inr root, w') \<Rightarrow>
          if root \<noteq> indexedRoot s then (([], 0, Some index_mismatch), w')
          else (case verifyLoop L s (history s) 0 w' of
              ((nodes, err), w'') \<Rightarrow> ((root, nodes, err), w'')))"

definition AuditLog :: "golib \<Rightarrow> Store \<Rightarrow> Node list io" where
  "AuditLog L s = io_bind (checkedRoot s) (\<lambda>_. io_mapM (readNode L (sdir s)) (history s))"

subsection \<open>Pages\<close>

record EventPage =
  epNodes :: "Node list"
  epRoot :: string
  epHasMore :: bool

text \<open>Go's \<^verbatim>\<open>int\<close> has 64 bits here: sums wrap around.\<close>

type_synonym goint = "64 word"

definition go_add :: "int \<Rightarrow> goint \<Rightarrow> int" where
  "go_add a b = sint (word_of_int a + b)"

definition slice_panic :: go_error where
  "slice_panic = Panic ''makeslice: cap out of range''"

text \<open>The target of a page: the root it reports and the position it may not go beyond.\<close>

definition pageTarget :: "Store \<Rightarrow> string \<Rightarrow> string \<Rightarrow> go_error + string \<times> nat" where
  "pageTarget s observedRoot root =
     (if observedRoot \<noteq> [] then
        bindE (validateHash observedRoot) (\<lambda>_.
          case historyIndex s observedRoot of
            None \<Rightarrow> Inl (appErr ErrConflict ''observed root is not in the current history'' [])
          | Some position \<Rightarrow> Inr (observedRoot, position + 1))
      else Inr (root, length (history s)))"

definition pageStart :: "Store \<Rightarrow> string \<Rightarrow> nat \<Rightarrow> go_error + nat" where
  "pageStart s after targetEnd =
     (if after \<noteq> [] then
        (case historyIndex s after of
           None \<Rightarrow> Inl (appErr ErrNotFound ''after root was not found in the current history'' [])
         | Some position \<Rightarrow>
             if position \<ge> targetEnd
             then Inl (appErr ErrConflict ''after cursor is beyond the observed root'' [])
             else Inr (position + 1))
      else Inr 0)"

definition pageEnd :: "nat \<Rightarrow> goint \<Rightarrow> nat \<Rightarrow> int" where
  "pageEnd start limit targetEnd =
     (if go_add (int start) limit > int targetEnd then int targetEnd
      else go_add (int start) limit)"

definition eventPageAt ::
    "golib \<Rightarrow> Store \<Rightarrow> string \<Rightarrow> string \<Rightarrow> goint \<Rightarrow> bool \<Rightarrow> EventPage io" where
  "eventPageAt L s after observedRoot limit metadataOnly =
     (if sint limit < 1
      then io_fail (appErr ErrValidation ''event page limit must be positive'' [])
      else io_bind (checkedRoot s) (\<lambda>root0.
        io_bind (io_lift (pageTarget s observedRoot root0)) (\<lambda>(root, targetEnd).
        io_bind (io_lift (pageStart s after targetEnd)) (\<lambda>start.
        let stop = pageEnd start limit targetEnd in
        if stop < int start then io_fail slice_panic
        else io_bind
          (io_mapM (\<lambda>i. if metadataOnly then io_ret (replayMetadata (metadata s ! i))
                        else readNode L (sdir s) (history s ! i)) [start ..< nat stop]) (\<lambda>nodes.
        io_ret \<lparr>epNodes = nodes, epRoot = root, epHasMore = stop < int targetEnd\<rparr>)))))"

definition storeEventPage :: "golib \<Rightarrow> Store \<Rightarrow> string \<Rightarrow> goint \<Rightarrow> EventPage io" where
  "storeEventPage L s after limit = eventPageAt L s after [] limit False"

definition MetadataEventPageAt :: "golib \<Rightarrow> Store \<Rightarrow> string \<Rightarrow> string \<Rightarrow> goint \<Rightarrow> EventPage io" where
  "MetadataEventPageAt L s after observedRoot limit = eventPageAt L s after observedRoot limit True"

subsection \<open>Payload batches\<close>

record EventPayload =
  evID :: string
  evPayload :: bytes

text \<open>
  The loop of \<^verbatim>\<open>selectPayloadEventIDs\<close>; \<open>seen\<close> holds the ids met before. It runs under the
  store's lock, the reads that follow do not.
\<close>

fun selectLoop :: "Store \<Rightarrow> nat \<Rightarrow> string list \<Rightarrow> string list \<Rightarrow> go_error + string list" where
  "selectLoop s target seen [] = Inr []"
| "selectLoop s target seen (eventID # ids) =
     bindE (validateHash eventID) (\<lambda>_.
     if eventID \<in> set seen
     then Inl (appErr ErrValidation ''duplicate event ID %s'' [eventID])
     else case historyIndex s eventID of
         None \<Rightarrow> Inl (appErr ErrNotFound ''event ID was not found in this store'' [])
       | Some position \<Rightarrow>
           if position > target
           then Inl (appErr ErrConflict ''event ID is beyond the observed root'' [])
           else bindE (selectLoop s target (eventID # seen) ids) (\<lambda>sel. Inr (eventID # sel)))"

definition selectPayloadEventIDs :: "Store \<Rightarrow> string list \<Rightarrow> string \<Rightarrow> string list io" where
  "selectPayloadEventIDs s eventIDs observedRoot =
     io_bind (checkedRoot s) (\<lambda>_.
       case historyIndex s observedRoot of
         None \<Rightarrow> io_fail (appErr ErrConflict ''observed root is not in the current history'' [])
       | Some target \<Rightarrow> io_lift (selectLoop s target [] eventIDs))"

fun payloadLoop ::
    "golib \<Rightarrow> Store \<Rightarrow> (string \<Rightarrow> Node io) \<Rightarrow> int \<Rightarrow> int \<Rightarrow> string list \<Rightarrow> EventPayload list io" where
  "payloadLoop L s reader maxBytes payloadBytes [] = io_ret []"
| "payloadLoop L s reader maxBytes payloadBytes (eventID # ids) =
     io_bind (reader eventID) (\<lambda>node.
     io_bind (io_lift (nodePayload L (skey s) node)) (\<lambda>payload.
     if maxBytes > 0 \<and> int (length payload) > maxBytes - payloadBytes
     then io_fail (appErr ErrCapacity ''payload response exceeds the configured size limit'' [])
     else io_bind (payloadLoop L s reader maxBytes (payloadBytes + int (length payload)) ids)
       (\<lambda>rest. io_ret (\<lparr>evID = eventID, evPayload = payload\<rparr> # rest))))"

text \<open>The reads run in the world \<open>\<rho>\<close> leaves: other callers may act in between.\<close>

definition eventPayloadsWithReader ::
    "golib \<Rightarrow> Store \<Rightarrow> string list \<Rightarrow> string \<Rightarrow> int \<Rightarrow> (string \<Rightarrow> Node io) \<Rightarrow> (world \<Rightarrow> world)
     \<Rightarrow> EventPayload list io" where
  "eventPayloadsWithReader L s eventIDs observedRoot maxBytes reader \<rho> =
     (if length eventIDs = 0
      then io_fail (appErr ErrValidation ''at least one event ID is required'' [])
      else case validateHash observedRoot of
          Inl _ \<Rightarrow> io_fail (appErr ErrValidation ''a valid observed root is required'' [])
        | Inr _ \<Rightarrow>
            io_bind (selectPayloadEventIDs s eventIDs observedRoot) (\<lambda>selected w.
              payloadLoop L s reader maxBytes 0 selected (\<rho> w)))"

definition eventPayloads ::
    "golib \<Rightarrow> Store \<Rightarrow> string list \<Rightarrow> string \<Rightarrow> int \<Rightarrow> (world \<Rightarrow> world) \<Rightarrow> EventPayload list io" where
  "eventPayloads L s eventIDs observedRoot maxBytes \<rho> =
     eventPayloadsWithReader L s eventIDs observedRoot maxBytes (readNode L (sdir s)) \<rho>"

definition EventPayloads ::
    "golib \<Rightarrow> Store \<Rightarrow> string list \<Rightarrow> string \<Rightarrow> (world \<Rightarrow> world) \<Rightarrow> EventPayload list io" where
  "EventPayloads L s eventIDs observedRoot \<rho> = eventPayloads L s eventIDs observedRoot 0 \<rho>"

definition EventPayloadsBounded ::
    "golib \<Rightarrow> Store \<Rightarrow> string list \<Rightarrow> string \<Rightarrow> int \<Rightarrow> (world \<Rightarrow> world) \<Rightarrow> EventPayload list io" where
  "EventPayloadsBounded L s eventIDs observedRoot maxBytes \<rho> =
     (if maxBytes < 1
      then io_fail (appErr ErrValidation ''payload byte limit must be positive'' [])
      else eventPayloads L s eventIDs observedRoot maxBytes \<rho>)"

end
