(* ===== verification/PagesCorrect.thy ===== *)
theory PagesCorrect
  imports StorePages
begin

text \<open>
  What the reading operations return, in terms of the chain on disk: a page is a slice of the
  chain, consecutive pages make up the whole of it, and a payload batch holds the plaintext
  of the events asked for.
\<close>

subsection \<open>Positions\<close>

lemma historyIndex_iff:
  assumes "indexed s ns" "chain ns"
  shows "historyIndex s h = Some i \<longleftrightarrow> i < length ns \<and> nHash (ns ! i) = h"
  using indexed_historyIndex [OF assms(1)] assms(2) index_of_Some_iff [of "map nHash ns" h i]
  by (auto simp: chain_def)

lemma historyIndex_None:
  assumes "indexed s ns" "chain ns"
  shows "historyIndex s h = None \<longleftrightarrow> h \<notin> nHash ` set ns"
  using indexed_historyIndex [OF assms(1)] assms(2) by (auto simp: chain_def index_of_None_iff)

lemma tip_take_Suc: "i < length ns \<Longrightarrow> tip (take (Suc i) ns) = nHash (ns ! i)"
  by (simp add: tip_def take_Suc_conv_app_nth)

lemma pageTarget_Inr:
  assumes "indexed s ns" "chain ns" and "pageTarget s obs (tip ns) = Inr (r, t)"
  shows "t \<le> length ns \<and> r = tip (take t ns) \<and> (if obs = [] then t = length ns else r = obs)"
  using assms(3) historyIndex_iff [OF assms(1,2)] indexed_history [OF assms(1)]
  by (auto simp: pageTarget_def bindE_Inr_iff tip_take_Suc split: if_splits option.splits)

lemma pageStart_Inr:
  assumes "indexed s ns" "chain ns" and "pageStart s after t = Inr b" "t \<le> length ns"
  shows "b \<le> t \<and> tip (take b ns) = after"
  using assms(3,4) historyIndex_iff [OF assms(1,2)]
  by (auto simp: pageStart_def tip_take_Suc split: if_splits option.splits)

lemma pageStart_iff:
  assumes "indexed s ns" "chain ns" "b \<le> t" "t \<le> length ns"
  shows "pageStart s (tip (take b ns)) t = Inr b"
proof (cases b)
  case 0
  then show ?thesis by (simp add: pageStart_def)
next
  case (Suc i)
  then have i: "i < length ns" "tip (take b ns) = nHash (ns ! i)"
    using assms(3,4) by (simp_all add: tip_take_Suc)
  then have "historyIndex s (tip (take b ns)) = Some i" using historyIndex_iff [OF assms(1,2)] by simp
  moreover have "tip (take b ns) \<noteq> []" using i chain_nonempty [OF assms(2)] by simp
  ultimately show ?thesis using Suc assms(3) by (simp add: pageStart_def)
qed

subsection \<open>Sums that wrap around\<close>

lemma go_add_cases:
  assumes "0 \<le> a" "a < 2 ^ 63" "1 \<le> sint b"
  shows "a + sint b < 2 ^ 63 \<Longrightarrow> go_add a b = a + sint b"
    and "a + sint b \<ge> 2 ^ 63 \<Longrightarrow> go_add a b < 0"
proof -
  have b: "sint b < 2 ^ 63" using sint_lt [of b] by simp
  have w: "word_of_int a + b = (word_of_int (a + sint b) :: goint)"
    by simp
  have s: "go_add a b = signed_take_bit 63 (a + sint b)"
    unfolding go_add_def w using signed_of_int [where 'b = 64 and n = "a + sint b" and 'a = int] by simp
  show "a + sint b < 2 ^ 63 \<Longrightarrow> go_add a b = a + sint b"
    unfolding s using assms by (intro signed_take_bit_int_eq_self) auto
  show "a + sint b \<ge> 2 ^ 63 \<Longrightarrow> go_add a b < 0"
  proof -
    assume g: "a + sint b \<ge> 2 ^ 63"
    have "(a + sint b + 2 ^ 63) mod 2 ^ 64 = (a + sint b + 2 ^ 63 - 2 ^ 64) mod 2 ^ 64"
      by (simp only: minus_mod_self2)
    also have "\<dots> = a + sint b + 2 ^ 63 - 2 ^ 64"
      using g assms(2) b by (intro mod_pos_pos_trivial) auto
    finally have "signed_take_bit 63 (a + sint b) = a + sint b - 2 ^ 64"
      by (simp add: signed_take_bit_eq_take_bit_shift take_bit_eq_mod)
    then show ?thesis unfolding s using assms(2) b by simp
  qed
qed

lemma pageEnd_cases:
  assumes "start \<le> t" "t < 2 ^ 63" "1 \<le> sint limit"
  shows "int start + sint limit < 2 ^ 63 \<Longrightarrow>
      pageEnd start limit t = min (int start + sint limit) (int t)"
    and "int start + sint limit \<ge> 2 ^ 63 \<Longrightarrow> pageEnd start limit t < 0"
proof -
  have a: "0 \<le> int start" "int start < 2 ^ 63" using assms by auto
  note c = go_add_cases [OF a assms(3)]
  show "int start + sint limit < 2 ^ 63 \<Longrightarrow>
      pageEnd start limit t = min (int start + sint limit) (int t)"
    using c(1) by (auto simp: pageEnd_def)
  show "int start + sint limit \<ge> 2 ^ 63 \<Longrightarrow> pageEnd start limit t < 0"
    using c(2) by (auto simp: pageEnd_def)
qed

subsection \<open>One page\<close>

definition segment :: "nat \<Rightarrow> nat \<Rightarrow> 'a list \<Rightarrow> 'a list" where
  "segment a b xs = take (b - a) (drop a xs)"

lemma segment_map_nth: "b \<le> length xs \<Longrightarrow> map ((!) xs) [a ..< b] = segment a b xs"
  by (rule nth_equalityI) (auto simp: segment_def)

definition page_view :: "bool \<Rightarrow> Node \<Rightarrow> Node" where
  "page_view metadataOnly n = (if metadataOnly then replayMetadata n else n)"

lemma page_view_simps: "page_view True = replayMetadata" "page_view False = (\<lambda>n. n)"
  by (simp_all add: page_view_def fun_eq_iff)

lemma page_read:
  assumes inv: "store_inv L s w ns (length ns) k" and i: "i < length ns"
  shows "at_start w v \<Longrightarrow>
      (if mo then io_ret (replayMetadata (metadata s ! i)) else readNode L (sdir s) (history s ! i)) v
        = (Inr y, v') \<Longrightarrow> y = page_view mo (ns ! i)"
    and "faults w = [] \<Longrightarrow>
      (if mo then io_ret (replayMetadata (metadata s ! i)) else readNode L (sdir s) (history s ! i)) w
        = (Inr (page_view mo (ns ! i)), w)"
proof -
  have ix: "indexed s ns" using inv by (simp add: store_inv_def)
  have h: "history s ! i = nHash (ns ! i)" "metadata s ! i = replayMetadata (ns ! i)"
    using i by (simp_all add: indexed_history [OF ix] indexed_metadata [OF ix])
  have at: "node_at L (sdir s) v (nHash (ns ! i)) (ns ! i)" if "at_start w v" for v
    using stored_node_at disk_inv_facts(3) store_inv_at_start [OF inv that] i
    by (auto simp: store_inv_def)
  show "y = page_view mo (ns ! i)"
    if "at_start w v" "(if mo then io_ret (replayMetadata (metadata s ! i))
        else readNode L (sdir s) (history s ! i)) v = (Inr y, v')"
    using that(2) at [OF that(1)] readNode_Inr node_at_unique
    by (fastforce simp: h page_view_def split: if_splits)
  show "faults w = [] \<Longrightarrow>
      (if mo then io_ret (replayMetadata (metadata s ! i)) else readNode L (sdir s) (history s ! i)) w
        = (Inr (page_view mo (ns ! i)), w)"
    using readNode_no_fault [OF _ at] by (simp add: h page_view_def)
qed

text \<open>
  Whatever calls fail: a page that is returned is the slice of the chain that starts after the
  cursor, ends at the limit or at the observed root, and tells whether more follows.
\<close>

lemma page_correct:
  assumes inv: "store_inv L s w ns m k" and len: "length ns < 2 ^ 63"
    and run: "eventPageAt L s after obs limit mo w = (Inr pg, w')"
  shows "\<exists>b t. m = length ns \<and> b \<le> t \<and> t \<le> length ns
     \<and> after = tip (take b ns) \<and> epRoot pg = tip (take t ns)
     \<and> (if obs = [] then t = length ns else epRoot pg = obs)
     \<and> epNodes pg = map (page_view mo) (segment b (min t (b + nat (sint limit))) ns)
     \<and> (epHasMore pg \<longleftrightarrow> b + nat (sint limit) < t) \<and> 1 \<le> sint limit \<and> at_start w w'"
proof -
  obtain root0 w1 root t b nodes where l: "1 \<le> sint limit"
    and cr: "checkedRoot s w = (Inr root0, w1)" and pt: "pageTarget s obs root0 = Inr (root, t)"
    and ps: "pageStart s after t = Inr b" and pos: "int b \<le> pageEnd b limit t"
    and mp: "io_mapM (\<lambda>i. if mo then io_ret (replayMetadata (metadata s ! i))
        else readNode L (sdir s) (history s ! i)) [b ..< nat (pageEnd b limit t)] w1 = (Inr nodes, w')"
    and pg: "pg = \<lparr>epNodes = nodes, epRoot = root, epHasMore = pageEnd b limit t < int t\<rparr>"
    using run by (auto simp: eventPageAt_def io_iffs Let_def split: if_splits)
  note c = checkedRoot_Inr [OF inv cr]
  have ch: "chain ns" using inv by (simp add: store_inv_def disk_inv_def)
  have tt: "t \<le> length ns" "root = tip (take t ns)" "if obs = [] then t = length ns else root = obs"
    using pageTarget_Inr [OF c(3) ch] pt c(1) by auto
  have bb: "b \<le> t" "tip (take b ns) = after" using pageStart_Inr [OF c(3) ch ps tt(1)] by auto
  have pe: "pageEnd b limit t = min (int b + sint limit) (int t)"
    using pageEnd_cases [OF bb(1) _ l] pos tt(1) len by (meson le_less_trans not_le of_nat_0_le_iff)
  have bl: "int (b + nat (sint limit)) = int b + sint limit" using l by simp
  have ne: "nat (pageEnd b limit t) = min t (b + nat (sint limit))"
    unfolding pe bl [symmetric] by (metis min.commute nat_int of_nat_min)
  have inv': "store_inv L s w ns (length ns) k" using inv c(2) by simp
  have rd: "reads (if mo then io_ret (replayMetadata (metadata s ! i))
      else readNode L (sdir s) (history s ! i))" for i
    by (cases mo) (simp_all only: if_True if_False reads_basic reads_readNode)
  have "nodes = map (\<lambda>i. page_view mo (ns ! i)) [b ..< nat (pageEnd b limit t)]"
  proof (rule io_mapM_Inr [OF rd _ c(4) mp])
    show "y = page_view mo (ns ! i)"
      if "i \<in> set [b ..< nat (pageEnd b limit t)]" "at_start w v"
        "(if mo then io_ret (replayMetadata (metadata s ! i))
          else readNode L (sdir s) (history s ! i)) v = (Inr y, v')" for i y v v'
      using page_read(1) [OF inv' _ that(2,3)] that(1) tt(1) by (auto simp: ne)
  qed
  also have "\<dots> = map (page_view mo) (segment b (min t (b + nat (sint limit))) ns)"
    using tt(1) segment_map_nth [of "min t (b + nat (sint limit))" ns b]
    by (simp add: ne flip: map_map [unfolded comp_def])
  finally have nodes: "nodes = map (page_view mo) (segment b (min t (b + nat (sint limit))) ns)" .
  have more: "pageEnd b limit t < int t \<longleftrightarrow> b + nat (sint limit) < t"
    unfolding pe using bl by linarith
  have "at_start w1 w'"
    using mp by (rule reads_run [rotated]) (rule reads_mapM, rule rd)
  then have "at_start w w'" using c(4) at_start_trans by blast
  then show ?thesis using c(2) bb tt nodes more l pg by (intro exI [of _ b] exI [of _ t]) auto
qed

definition page_of :: "bool \<Rightarrow> Node list \<Rightarrow> nat \<Rightarrow> nat \<Rightarrow> goint \<Rightarrow> EventPage" where
  "page_of mo ns b t limit =
     \<lparr>epNodes = map (page_view mo) (segment b (min t (b + nat (sint limit))) ns),
      epRoot = tip (take t ns), epHasMore = b + nat (sint limit) < t\<rparr>"

text \<open>When no call fails the page is returned.\<close>

lemma page_no_fault:
  assumes inv: "store_inv L s w ns (length ns) k" and ff: "faults w = []"
    and b: "b \<le> t" and t: "t \<le> length ns" and l: "1 \<le> sint limit" "int b + sint limit < 2 ^ 63"
    and len: "length ns < 2 ^ 63" and obs: "obs = [] \<and> t = length ns \<or> t \<noteq> 0 \<and> obs = tip (take t ns)"
  shows "eventPageAt L s (tip (take b ns)) obs limit mo w = (Inr (page_of mo ns b t limit), w)"
proof -
  have ch: "chain ns" and ix: "indexed s ns" using inv by (simp_all add: store_inv_def disk_inv_def)
  have pt: "pageTarget s obs (tip ns) = Inr (tip (take t ns), t)"
  proof (cases "obs = []")
    case True
    then have "t = length ns" using obs tip_Nil_iff [OF chain_take [OF ch], of t] t by auto
    then show ?thesis using True by (simp add: pageTarget_def indexed_history [OF ix])
  next
    case False
    then obtain i where i: "t = Suc i" "obs = nHash (ns ! i)" "i < length ns"
      using obs t by (cases t) (auto simp: tip_take_Suc)
    have "valid_hash obs"
      using inv i by (auto simp: store_inv_def disk_inv_def stored_def)
    then show ?thesis
      using False i historyIndex_iff [OF ix ch, of obs i]
      by (simp add: pageTarget_def valid_hash_def tip_take_Suc)
  qed
  have ps: "pageStart s (tip (take b ns)) t = Inr b" using pageStart_iff [OF ix ch b t] .
  have pe: "pageEnd b limit t = min (int b + sint limit) (int t)"
    using pageEnd_cases(1) [OF b _ l(1) l(2)] t len by simp
  have bl: "int (b + nat (sint limit)) = int b + sint limit" using l(1) by simp
  have ne: "nat (pageEnd b limit t) = min t (b + nat (sint limit))"
    unfolding pe bl [symmetric] by (metis min.commute nat_int of_nat_min)
  have ge: "\<not> pageEnd b limit t < int b" using pe b l(1) by simp
  have more: "pageEnd b limit t < int t \<longleftrightarrow> b + nat (sint limit) < t" unfolding pe using bl by linarith
  have "io_mapM (\<lambda>i. if mo then io_ret (replayMetadata (metadata s ! i))
      else readNode L (sdir s) (history s ! i)) [b ..< nat (pageEnd b limit t)] w
    = (Inr (map (\<lambda>i. page_view mo (ns ! i)) [b ..< nat (pageEnd b limit t)]), w)"
    using page_read(2) [OF inv _ ff] t by (intro io_mapM_no_fault) (auto simp: ne)
  moreover have "map (\<lambda>i. page_view mo (ns ! i)) [b ..< nat (pageEnd b limit t)]
      = map (page_view mo) (segment b (min t (b + nat (sint limit))) ns)"
    using t segment_map_nth [of "min t (b + nat (sint limit))" ns b]
    by (simp add: ne flip: map_map [unfolded comp_def])
  ultimately show ?thesis
    using l(1) checkedRoot_no_fault [OF inv ff] pt ps ge more
    by (simp add: eventPageAt_def io_bind_def Let_def page_of_def)
qed

text \<open>
  A page bounded by an observed root does not depend on what was appended after that root.
\<close>

lemma page_of_append: "t \<le> length ns \<Longrightarrow> page_of mo (ns @ ms) b t limit = page_of mo ns b t limit"
  by (simp add: page_of_def segment_def min_def) arith

subsection \<open>A whole replay\<close>

text \<open>
  A client reads page after page, each from the state the store is in by then, with the root
  of the first page as the boundary and the last event of a page as the next cursor.
\<close>

fun replay :: "golib \<Rightarrow> (nat \<Rightarrow> Store \<times> world) \<Rightarrow> string \<Rightarrow> goint \<Rightarrow> nat \<Rightarrow> nat \<Rightarrow> string
    \<Rightarrow> go_error + Node list" where
  "replay L env obs limit 0 i after = Inl (GoError ''out of fuel'' [])"
| "replay L env obs limit (Suc fuel) i after =
     bindE (fst (MetadataEventPageAt L (fst (env i)) after obs limit (snd (env i)))) (\<lambda>pg.
       if epHasMore pg
       then bindE (replay L env obs limit fuel (Suc i) (nHash (last (epNodes pg))))
              (\<lambda>rest. Inr (epNodes pg @ rest))
       else Inr (epNodes pg))"

lemma replay_correct_from:
  assumes env: "\<And>j. \<exists>ms k. store_inv L (fst (env j)) (snd (env j)) (ns @ ms) (length (ns @ ms)) k
      \<and> faults (snd (env j)) = [] \<and> length (ns @ ms) < 2 ^ 63"
    and l: "1 \<le> sint limit" "int (length ns) + sint limit < 2 ^ 63" and ne: "ns \<noteq> []"
  shows "b \<le> length ns \<Longrightarrow> length ns - b < fuel \<Longrightarrow>
    replay L env (tip ns) limit fuel i (tip (take b ns)) = Inr (map replayMetadata (drop b ns))"
proof (induction fuel arbitrary: b i)
  case 0
  then show ?case by simp
next
  case (Suc fuel)
  let ?n = "length ns" and ?q = "nat (sint limit)"
  obtain ms k where ms: "store_inv L (fst (env i)) (snd (env i)) (ns @ ms) (length (ns @ ms)) k"
      "faults (snd (env i)) = []" "length (ns @ ms) < 2 ^ 63"
    using env by blast
  have pg: "MetadataEventPageAt L (fst (env i)) (tip (take b ns)) (tip ns) limit (snd (env i))
      = (Inr (page_of True ns b ?n limit), snd (env i))"
    using page_no_fault [OF ms(1,2) Suc.prems(1), where limit = limit and obs = "tip ns" and mo = True]
      Suc.prems(1) l ms(3) ne page_of_append [of ?n ns True ms b limit]
    by (simp add: MetadataEventPageAt_def)
  have pos: "1 \<le> ?q" using l(1) by simp
  show ?case
  proof (cases "b + ?q < ?n")
    case False
    then show ?thesis by (simp add: pg page_of_def segment_def page_view_def min_def)
  next
    case True
    have sl: "segment b (b + ?q) ns \<noteq> []" "last (segment b (b + ?q) ns) = ns ! (b + ?q - 1)"
      using True pos by (simp_all add: segment_def last_conv_nth min_def)
    have e: "Suc (b + ?q - 1) = b + ?q" using pos by simp
    have "nHash (last (epNodes (page_of True ns b ?n limit))) = tip (take (b + ?q) ns)"
      using True sl tip_take_Suc [of "b + ?q - 1" ns, unfolded e]
      by (simp add: page_of_def page_view_def last_map min_def)
    moreover have "replay L env (tip ns) limit fuel (Suc i) (tip (take (b + ?q) ns))
        = Inr (map replayMetadata (drop (b + ?q) ns))"
      using True Suc.prems pos by (intro Suc.IH) auto
    moreover have "map (page_view True) (segment b (b + ?q) ns) @ map replayMetadata (drop (b + ?q) ns)
        = map replayMetadata (drop b ns)"
      using append_take_drop_id [of ?q "drop b ns"]
      by (simp add: segment_def page_view_simps add.commute flip: map_append)
    ultimately show ?thesis
      using True
      by (simp add: pg page_of_def min_def)
  qed
qed

subsection \<open>Verification of the whole store\<close>

text \<open>The key opens every payload.\<close>

definition readable :: "golib \<Rightarrow> bytes \<Rightarrow> Node list \<Rightarrow> bool" where
  "readable L key ns \<longleftrightarrow> (\<forall>n \<in> set ns. case nodePayload L key n of Inl e \<Rightarrow> False | Inr p \<Rightarrow> True)"

lemma readable_iff: "readable L key ns \<longleftrightarrow> (\<forall>n \<in> set ns. \<exists>p. nodePayload L key n = Inr p)"
  unfolding readable_def by (auto split: sum.splits) (metis Inr_not_Inl sum.exhaust)

lemma event_readable: "event_of L key ctx opts root n \<Longrightarrow> \<exists>p. nodePayload L key n = Inr p
    \<and> json_marshal L (oPayload opts) = Some p"
  by (auto simp: event_of_def nodePayload_def mkNode_def mkContent_def)

lemma verifyLoop_no_fault:
  "faults w = [] \<Longrightarrow> (\<And>n. n \<in> set ns \<Longrightarrow> node_at L (sdir s) w (nHash n) n) \<Longrightarrow>
   readable L (skey s) ns \<Longrightarrow> verifyLoop L s (map nHash ns) c w = ((c + length ns, None), w)"
proof (induction ns arbitrary: c)
  case Nil
  then show ?case by simp
next
  case (Cons n ns)
  have "readNode L (sdir s) (nHash n) w = (Inr n, w)"
    using Cons.prems by (intro readNode_no_fault) auto
  moreover obtain p where "nodePayload L (skey s) n = Inr p"
    using Cons.prems(3) by (auto simp: readable_iff)
  ultimately show ?case using Cons by (simp add: readable_iff)
qed

lemma VerifyAll_no_fault:
  assumes "store_inv L s w ns (length ns) k" and "faults w = []" and "readable L (skey s) ns"
  shows "VerifyAll L s w = ((tip ns, length ns, None), w)"
proof -
  have ix: "indexed s ns" and d: "disk_inv L (sdir s) w ns k" using assms(1) by (simp_all add: store_inv_def)
  have "currentRoot (sdir s) w = (Inr (tip ns), w)"
    using currentRoot_no_fault [OF assms(2)] d by (simp add: disk_inv_def)
  moreover have "verifyLoop L s (history s) 0 w = ((0 + length ns, None), w)"
    unfolding indexed_history [OF ix]
    using assms disk_inv_facts(3) [OF d] stored_node_at by (intro verifyLoop_no_fault) auto
  ultimately show ?thesis using indexed_root [OF ix] by (simp add: VerifyAll_def)
qed

lemma verifyLoop_sound:
  "verifyLoop L s hs c w = ((k, None), w') \<Longrightarrow> k = c + length hs \<and> at_start w w'
     \<and> (\<forall>h \<in> set hs. \<exists>n p. node_at L (sdir s) w h n \<and> nodePayload L (skey s) n = Inr p)"
proof (induction hs arbitrary: c w)
  case Nil
  then show ?case by simp
next
  case (Cons h hs)
  then obtain n w1 p where rd: "readNode L (sdir s) h w = (Inr n, w1)"
    and p: "nodePayload L (skey s) n = Inr p" and rec: "verifyLoop L s hs (Suc c) w1 = ((k, None), w')"
    by (auto split: prod.splits sum.splits)
  have n: "node_at L (sdir s) w h n" and w1: "at_start w w1" using readNode_Inr [OF rd] by auto
  have "node_at L (sdir s) w a m = node_at L (sdir s) w1 a m" for a m
    using w1 by (simp add: node_at_def at_start_fcontent at_start_views)
  then show ?case using Cons.IH [OF rec] n p w1 at_start_trans by auto
qed

lemma VerifyAll_sound_raw:
  assumes "VerifyAll L s w = ((root, k, None), w')"
  shows "root = rootval (fcontent w (rootPath (sdir s)))" "root = indexedRoot s"
    "k = length (history s)"
    "\<forall>h \<in> set (history s). \<exists>n p. node_at L (sdir s) w h n \<and> nodePayload L (skey s) n = Inr p"
proof -
  obtain w1 where cr: "currentRoot (sdir s) w = (Inr root, w1)" and r: "root = indexedRoot s"
    and v: "verifyLoop L s (history s) 0 w1 = ((k, None), w')"
    using assms by (auto simp: VerifyAll_def split: prod.splits sum.splits if_splits)
  have w1: "at_start w w1" using currentRoot_Inr [OF cr] by simp
  have "node_at L (sdir s) w a m = node_at L (sdir s) w1 a m" for a m
    using w1 by (simp add: node_at_def at_start_fcontent at_start_views)
  then show "root = rootval (fcontent w (rootPath (sdir s)))" "root = indexedRoot s"
    "k = length (history s)"
    "\<forall>h \<in> set (history s). \<exists>n p. node_at L (sdir s) w h n \<and> nodePayload L (skey s) n = Inr p"
    using currentRoot_Inr [OF cr] r verifyLoop_sound [OF v] by auto
qed

subsection \<open>Payload batches\<close>

lemma selectLoop_Inr:
  "selectLoop s target seen ids = Inr sel \<Longrightarrow>
     sel = ids \<and> distinct ids \<and> set ids \<inter> set seen = {}
     \<and> (\<forall>h \<in> set ids. \<exists>i \<le> target. historyIndex s h = Some i)"
proof (induction ids arbitrary: seen sel)
  case Nil
  then show ?case by simp
next
  case (Cons h ids)
  then obtain i rest where "h \<notin> set seen" "historyIndex s h = Some i" "i \<le> target"
      "selectLoop s target (h # seen) ids = Inr rest" "sel = h # rest"
    by (auto simp: bindE_Inr_iff split: if_splits option.splits)
  with Cons.IH show ?case by fastforce
qed

definition total_bytes :: "EventPayload list \<Rightarrow> int" where
  "total_bytes evs = sum_list (map (\<lambda>e. int (length (evPayload e))) evs)"

lemma payloadLoop_Inr:
  assumes st: "\<And>v h. at_start w v \<Longrightarrow> h \<in> set ids \<Longrightarrow> node_at L (sdir s) v h (f h)"
  shows "at_start w v \<Longrightarrow> 0 \<le> pb \<Longrightarrow> (mb > 0 \<Longrightarrow> pb \<le> mb) \<Longrightarrow>
    payloadLoop L s (readNode L (sdir s)) mb pb ids v = (Inr evs, v') \<Longrightarrow>
    map evID evs = ids \<and> (mb > 0 \<longrightarrow> pb + total_bytes evs \<le> mb)
    \<and> (\<forall>e \<in> set evs. nodePayload L (skey s) (f (evID e)) = Inr (evPayload e)) \<and> at_start w v'"
  using st
proof (induction ids arbitrary: v pb evs)
  case Nil
  then show ?case by (simp add: total_bytes_def)
next
  case (Cons h ids)
  obtain n v1 p rest where rd: "readNode L (sdir s) h v = (Inr n, v1)"
    and p: "nodePayload L (skey s) n = Inr p"
    and sz: "\<not> (mb > 0 \<and> int (length p) > mb - pb)"
    and rec: "payloadLoop L s (readNode L (sdir s)) mb (pb + int (length p)) ids v1 = (Inr rest, v')"
    and evs: "evs = \<lparr>evID = h, evPayload = p\<rparr> # rest"
    using Cons.prems(4) by (auto simp: io_iffs split: if_splits)
  have v1: "at_start w v1"
    using readNode_Inr [OF rd] Cons.prems(1) at_start_trans by blast
  have n: "n = f h"
    using readNode_Inr [OF rd] Cons.prems(5) [OF Cons.prems(1), of h] node_at_unique by auto
  have "map evID rest = ids \<and> (mb > 0 \<longrightarrow> pb + int (length p) + total_bytes rest \<le> mb)
    \<and> (\<forall>e \<in> set rest. nodePayload L (skey s) (f (evID e)) = Inr (evPayload e)) \<and> at_start w v'"
    using Cons.prems(2,3,5) sz by (intro Cons.IH [OF v1 _ _ rec]) auto
  then show ?case using p n evs by (simp add: total_bytes_def add.assoc)
qed

text \<open>
  \<open>\<rho>\<close> is what other callers do between the selection and the reads: any run of the store
  that extends the chain.
\<close>

definition extends :: "golib \<Rightarrow> path \<Rightarrow> Node list \<Rightarrow> world \<Rightarrow> bool" where
  "extends L dir ns w \<longleftrightarrow> (\<forall>n \<in> set ns. stored L dir w n)"

lemma payloads_correct:
  assumes inv: "store_inv L s w ns m k" and rho: "\<And>v. at_start w v \<Longrightarrow> extends L (sdir s) ns (\<rho> v)"
    and mb: "0 \<le> mb" and run: "eventPayloads L s ids obs mb \<rho> w = (Inr evs, w')"
  shows "\<exists>t < length ns. obs = nHash (ns ! t) \<and> m = length ns \<and> map evID evs = ids \<and> distinct ids
     \<and> (mb > 0 \<longrightarrow> total_bytes evs \<le> mb)
     \<and> (\<forall>e \<in> set evs. \<exists>i \<le> t. nHash (ns ! i) = evID e \<and> nodePayload L (skey s) (ns ! i) = Inr (evPayload e))"
proof -
  obtain root w1 t sel where cr: "checkedRoot s w = (Inr root, w1)"
    and t: "historyIndex s obs = Some t" and sel: "selectLoop s t [] ids = Inr sel"
    and pl: "payloadLoop L s (readNode L (sdir s)) mb 0 sel (\<rho> w1) = (Inr evs, w')"
    using run by (auto simp: eventPayloads_def eventPayloadsWithReader_def selectPayloadEventIDs_def
        io_iffs split: if_splits sum.splits option.splits)
  note c = checkedRoot_Inr [OF inv cr]
  have ch: "chain ns" using inv by (simp add: store_inv_def disk_inv_def)
  note hi = historyIndex_iff [OF c(3) ch]
  have s: "sel = ids" "distinct ids" "\<And>h. h \<in> set ids \<Longrightarrow> \<exists>i \<le> t. historyIndex s h = Some i"
    using selectLoop_Inr [OF sel] by auto
  define f where "f h = ns ! the (historyIndex s h)" for h
  have fh: "f h \<in> set ns \<and> nHash (f h) = h \<and> (\<exists>i \<le> t. f h = ns ! i)" if h: "h \<in> set ids" for h
  proof -
    obtain i where i: "i \<le> t" "historyIndex s h = Some i" using s(3) [OF h] by blast
    have "f h = ns ! i" by (simp add: f_def i(2))
    moreover have "i < length ns" "nHash (ns ! i) = h" using hi [of h i] i(2) by simp_all
    ultimately have "f h = ns ! i" "i < length ns" "nHash (ns ! i) = h" by simp_all
    with i(1) show ?thesis by auto
  qed
  have st: "node_at L (sdir s) v h (f h)" if "at_start (\<rho> w1) v" "h \<in> set ids" for v h
  proof -
    have "stored L (sdir s) (\<rho> w1) (f h)"
      using rho [OF c(4)] fh [OF that(2)] by (simp add: extends_def)
    then have "stored L (sdir s) v (f h)"
      using at_start_keeps [OF that(1)] at_start_views(5) [OF that(1)] by (rule stored_kept)
    then show ?thesis using stored_node_at fh [OF that(2)] by metis
  qed
  have r: "map evID evs = ids \<and> (mb > 0 \<longrightarrow> 0 + total_bytes evs \<le> mb)
    \<and> (\<forall>e \<in> set evs. nodePayload L (skey s) (f (evID e)) = Inr (evPayload e)) \<and> at_start (\<rho> w1) w'"
    using pl mb st unfolding s(1) by (intro payloadLoop_Inr) auto
  then have "\<forall>e \<in> set evs. \<exists>i \<le> t. nHash (ns ! i) = evID e
      \<and> nodePayload L (skey s) (ns ! i) = Inr (evPayload e)"
    using fh by (metis image_eqI list.set_map)
  moreover have "t < length ns" "obs = nHash (ns ! t)" using t hi by auto
  ultimately show ?thesis using r c(2) s(2) by auto
qed

end
