(* ===== verification/StoreRun.thy ===== *)
theory StoreRun
  imports PagesCorrect "HOL-Library.Sublist"
begin

text \<open>
  Every run of a store: opening, appending, writing named refs, reading, closing, calls that
  fail and machines that stop, in any order. The invariant of the previous theories holds in
  every state a run reaches, and no acknowledged event is ever lost.
\<close>

subsection \<open>Operations keep the lock file apart\<close>

lemma publishNode_lock_alone:
  assumes l: "lock_alone (sdir s) w" and h: "valid_hash (nHash n)" and run: "publishNode L s n w = (r, w')"
  shows "lock_alone (sdir s) w'"
proof -
  let ?p = "NodePath (sdir s) (nHash n)"
  obtain st w1 where st: "statFile ?p w = (st, w1)" by (cases "statFile ?p w")
  have w1: "at_start w w1" using reads_run [OF reads_basic(5) st] .
  have l1: "lock_alone (sdir s) w1" using lock_alone_quiet [OF at_start_quiet [OF w1] l] .
  consider (skip) "w' = w1" | (make) b where "atomicCreateFile ?p (b @ newline) 0x180 w1 = (r, w')"
    using run st by (auto simp: publishNode_def io_defs split: sum.splits if_splits option.splits)
  then show ?thesis
  proof cases
    case skip
    then show ?thesis using l1 by simp
  next
    case make
    let ?t = "tmp_path w1 (butlast ?p) ''.jaybase-node-''"
    have ne: "?p \<noteq> ?t" using NodePath_not_tmp [OF h] by blast
    have "lockPath (sdir s) \<noteq> ?t"
      using app_path_not_tmp [OF keyPath_names(2), of "sdir s" w1 "butlast ?p" "''node-''"] by simp
    moreover have "lockPath (sdir s) \<noteq> ?p" by (simp add: lockPath_def NodePath_def)
    ultimately have "keeps (lockPath (sdir s)) w1 w'"
      using atomicCreateFile_post [OF ne make] unfolding create_post_def by blast
    then show ?thesis by (rule lock_alone_only_new [OF l1 atomicCreateFile_only_new [OF ne make]])
  qed
qed

lemma append_lock_alone:
  assumes ok: "golib_ok L" and l: "lock_alone (sdir s) w" and run: "append L s ctx opts er w = (r, w')"
  shows "lock_alone (sdir s) w'"
proof -
  obtain pr w1 where pr: "prepareNode L s ctx opts er w = (pr, w1)"
    by (cases "prepareNode L s ctx opts er w")
  have l1: "lock_alone (sdir s) w1" using lock_alone_quiet [OF prepareNode_quiet [OF pr] l] .
  show ?thesis
  proof (cases pr)
    case (Inl e)
    then show ?thesis using run pr l1 by (simp add: append_def io_bind_def)
  next
    case (Inr n)
    have h: "valid_hash (nHash n)"
      using prepareNode_Inr [OF ok] pr Inr event_of_hash(1) [OF ok] by blast
    obtain pb w2 where pb: "publishNode L s n w1 = (pb, w2)" by (cases "publishNode L s n w1")
    have l2: "lock_alone (sdir s) w2" using publishNode_lock_alone [OF l1 h pb] .
    obtain pw w3 where pw: "atomicWriteFile (rootPath (sdir s)) (nHash n @ newline) 0x180 w2 = (pw, w3)"
      by (cases "atomicWriteFile (rootPath (sdir s)) (nHash n @ newline) 0x180 w2")
    have "rootPath (sdir s) \<noteq> lockPath (sdir s)" by (simp add: rootPath_def lockPath_def)
    then have l3: "lock_alone (sdir s) w3" using replace_open_frame(1) [OF l2 _ _ pw] by simp
    show ?thesis using run pr Inr pb pw l2 l3
      by (cases pb; cases pw) (auto simp: append_def io_bind_def)
  qed
qed

text \<open>The chain on disk after a successful append, without the condition on request ids.\<close>

lemma append_disk_chain:
  assumes ok: "golib_ok L" and inv: "store_inv L s w ns m k" and cr: "clean_request ctx opts"
    and fr: "fresh_address L s ctx opts er w" and l: "lock_alone (sdir s) w"
    and run: "append L s ctx opts er w = (Inr (h, s'), w')"
  shows "\<exists>n. disk_chain L (sdir s) w' (ns @ [n]) \<and> nRequestID n = oRequestID opts \<and> m = length ns
    \<and> lock_alone (sdir s) w'"
proof -
  obtain n w1 w2 where p: "prepareNode L s ctx opts er w = (Inr n, w1)"
    and b: "publishNode L s n w1 = (Inr (), w2)"
    and r: "atomicWriteFile (rootPath (sdir s)) (nHash n @ newline) 0x180 w2 = (Inr (), w')"
    using run by (auto simp: append_def io_iffs)
  have ev: "event_of L (skey s) ctx opts (indexedRoot s) n"
    and rt: "rootval (fcontent w (rootPath (sdir s))) = indexedRoot s" and q: "quiet w w1"
    using prepareNode_Inr [OF ok p] by blast+
  have m: "m = length ns" using store_inv_root [OF inv] rt by simp
  have inv1: "store_inv L s w1 ns m k" using store_inv_quiet [OF inv q] .
  have np: "NodePath (sdir s) (nHash n) \<notin> set (dirs w1)"
      "map_of (ents w1) (NodePath (sdir s) (nHash n)) = None"
    using fr p q by (auto simp: fresh_address_def quiet_def)
  note pub = publish_keeps_inv [OF ok inv1 cr ev m np b]
  have st: "stored L (sdir s) w2 n" using pub(2) by blast
  have h: "valid_hash (nHash n)" using st by (simp add: stored_def)
  have ap: "app_path x \<Longrightarrow> x \<noteq> tmp_of ''.jaybase-write-'' w2 (rootPath (sdir s))" for x
    using app_path_not_tmp [of x w2 "butlast (rootPath (sdir s))" "''write-''"] by (simp add: tmp_of_def)
  note ne = ap [OF app_path_rootPath]
  have d: "dirs w' = dirs w2" using wf.put_env [OF ne r] by (simp add: same_env_def)
  have k: "stored L (sdir s) w' x" if "stored L (sdir s) w2 x" for x
  proof (rule stored_kept [OF that _ d])
    have "app_path (NodePath (sdir s) (nHash x))" using that by (simp add: stored_def)
    then show "keeps (NodePath (sdir s) (nHash x)) w2 w'" using wf.put_frame [OF ne r _ ap] by simp
  qed
  have "fcontent w' (rootPath (sdir s)) = Some (nHash n @ newline)"
    using durable_live wf.put_durable [OF ne r] by blast
  then have "rootval (fcontent w' (rootPath (sdir s))) = nHash n" using rootval_newline [OF h] by simp
  moreover have "chain (ns @ [n])"
    using pub(1,3) event_of_fields(11) [OF ev] inv m indexed_root [of s ns] h valid_hash_Nil
    by (auto simp: chain_snoc disk_inv_def store_inv_def)
  ultimately have "disk_chain L (sdir s) w' (ns @ [n])"
    using k st pub(1) d by (auto simp: disk_chain_def disk_inv_def)
  then show ?thesis using event_of_fields(7) [OF ev] m append_lock_alone [OF ok l run] by auto
qed

subsection \<open>Runs\<close>

text \<open>
  \<open>smem\<close> is the store object of the process, if one is open; \<open>acked\<close> the hashes of the
  events whose append reported success, oldest first.
\<close>

record sys =
  smem :: "Store option"
  sworld :: world
  acked :: "string list"

text \<open>
  What a request must satisfy: text is UTF-8, and the address of the new node is not in use.
  A plain append gives no request id, or one that is not in use.
\<close>

definition good_append ::
    "golib \<Rightarrow> Store \<Rightarrow> Context \<Rightarrow> AppendOptions \<Rightarrow> string option \<Rightarrow> world \<Rightarrow> bool" where
  "good_append L s ctx opts er w \<longleftrightarrow> clean_request ctx opts \<and> fresh_address L s ctx opts er w
     \<and> index_free s (oRequestID opts)"

definition with_request :: "AppendOptions \<Rightarrow> string \<Rightarrow> string \<Rightarrow> AppendOptions" where
  "with_request opts rid rhash = opts\<lparr>oRequestID := trimSpace rid, oRequestHash := trimSpace rhash\<rparr>"

text \<open>
  The step \<open>read\<close> is any operation that only reads (\<open>reads\<close>: all those of theory StorePages);
  \<open>environment\<close> changes clock, random source, environment variables and pending failures.
\<close>

inductive store_step :: "golib \<Rightarrow> path \<Rightarrow> sys \<Rightarrow> sys \<Rightarrow> bool" for L dir where
  open_ok: "smem x = None \<Longrightarrow> openStore L pid dir key explicit (sworld x) = (Inr s, w') \<Longrightarrow>
     store_step L dir x (x\<lparr>smem := Some s, sworld := w'\<rparr>)"
| open_err: "smem x = None \<Longrightarrow> openStore L pid dir key explicit (sworld x) = (Inl e, w') \<Longrightarrow>
     store_step L dir x (x\<lparr>sworld := w'\<rparr>)"
| append_ok: "smem x = Some s \<Longrightarrow> good_append L s ctx opts er (sworld x) \<Longrightarrow>
     append L s ctx opts er (sworld x) = (Inr (h, s'), w') \<Longrightarrow>
     store_step L dir x (x\<lparr>smem := Some s', sworld := w', acked := acked x @ [h]\<rparr>)"
| append_err: "smem x = Some s \<Longrightarrow> good_append L s ctx opts er (sworld x) \<Longrightarrow>
     append L s ctx opts er (sworld x) = (Inl e, w') \<Longrightarrow>
     store_step L dir x (x\<lparr>sworld := w'\<rparr>)"
| idem_ok: "smem x = Some s \<Longrightarrow> clean_request ctx (with_request opts rid rhash) \<Longrightarrow>
     fresh_address L s ctx (with_request opts rid rhash) (Some er) (sworld x) \<Longrightarrow>
     AppendIdempotent L s ctx opts er rid rhash (sworld x) = (Inr (h, replayed, s'), w') \<Longrightarrow>
     store_step L dir x (x\<lparr>smem := Some s', sworld := w',
       acked := (if replayed then acked x else acked x @ [h])\<rparr>)"
| idem_err: "smem x = Some s \<Longrightarrow> clean_request ctx (with_request opts rid rhash) \<Longrightarrow>
     fresh_address L s ctx (with_request opts rid rhash) (Some er) (sworld x) \<Longrightarrow>
     AppendIdempotent L s ctx opts er rid rhash (sworld x) = (Inl e, w') \<Longrightarrow>
     store_step L dir x (x\<lparr>sworld := w'\<rparr>)"
| write_ref: "smem x = Some s \<Longrightarrow> plain_name name \<Longrightarrow>
     WriteNamedRef L s name root (sworld x) = (r, w') \<Longrightarrow>
     store_step L dir x (x\<lparr>sworld := w'\<rparr>)"
| write_ref_at: "smem x = Some s \<Longrightarrow> plain_name name \<Longrightarrow>
     WriteNamedRefAt L s name root expected (sworld x) = (r, w') \<Longrightarrow>
     store_step L dir x (x\<lparr>sworld := w'\<rparr>)"
| read: "at_start (sworld x) w' \<Longrightarrow> store_step L dir x (x\<lparr>sworld := w'\<rparr>)"
| close: "smem x = Some s \<Longrightarrow> CloseStore s (sworld x) = (r, w') \<Longrightarrow>
     store_step L dir x (x\<lparr>smem := None, sworld := w'\<rparr>)"
| environment: "quiet (sworld x) w' \<Longrightarrow> store_step L dir x (x\<lparr>sworld := w'\<rparr>)"
| crash: "crash (sworld x) w' \<Longrightarrow> store_step L dir x (x\<lparr>smem := None, sworld := w'\<rparr>)"

inductive store_reachable :: "golib \<Rightarrow> path \<Rightarrow> sys \<Rightarrow> bool" for L dir where
  start: "smem x = None \<Longrightarrow> acked x = [] \<Longrightarrow> ents (sworld x) = [] \<Longrightarrow> dents (sworld x) = [] \<Longrightarrow>
     dlog (sworld x) = [] \<Longrightarrow> rootPath dir \<notin> set (dirs (sworld x)) \<Longrightarrow> store_reachable L dir x"
| step: "store_reachable L dir x \<Longrightarrow> store_step L dir x y \<Longrightarrow> store_reachable L dir y"

definition sys_inv :: "golib \<Rightarrow> path \<Rightarrow> sys \<Rightarrow> Node list \<Rightarrow> nat \<Rightarrow> bool" where
  "sys_inv L dir x ns k \<longleftrightarrow> lock_alone dir (sworld x) \<and> disk_inv L dir (sworld x) ns k
     \<and> (\<forall>s. smem x = Some s \<longrightarrow> sdir s = dir \<and> (\<exists>m. store_inv L s (sworld x) ns m k))
     \<and> subseq (acked x) (map nHash (take k ns))"

text \<open>The part of the chain that is certain grows, and what it holds stays.\<close>

definition grows :: "Node list \<Rightarrow> nat \<Rightarrow> Node list \<Rightarrow> nat \<Rightarrow> bool" where
  "grows ns k ns' k' \<longleftrightarrow> k \<le> k' \<and> take k ns' = take k ns"

lemma grows_refl [simp]: "grows ns k ns k"
  by (simp add: grows_def)

lemma grows_trans: "grows a i b j \<Longrightarrow> grows b j c k \<Longrightarrow> grows a i c k"
  unfolding grows_def by (metis min.absorb1 order_trans take_take)

lemma grows_snoc: "k \<le> length ns \<Longrightarrow> k \<le> j \<Longrightarrow> grows ns k (ns @ [n]) j"
  by (simp add: grows_def)

lemma sys_inv_disk_only:
  assumes "sys_inv L dir x ns k" "lock_alone dir w'" "disk_inv L dir w' ns k"
  shows "sys_inv L dir (x\<lparr>smem := None, sworld := w'\<rparr>) ns k"
  using assms by (simp add: sys_inv_def)

lemma sys_inv_same:
  assumes i: "sys_inv L dir x ns k" and l: "lock_alone dir w'" and d: "disk_inv L dir w' ns k"
  shows "sys_inv L dir (x\<lparr>sworld := w'\<rparr>) ns k"
  using assms by (auto simp: sys_inv_def store_inv_def)

lemma sys_inv_quiet:
  assumes i: "sys_inv L dir x ns k" and q: "quiet (sworld x) w'"
  shows "sys_inv L dir (x\<lparr>sworld := w'\<rparr>) ns k"
  using i lock_alone_quiet [OF q] disk_inv_quiet [OF _ q]
  by (intro sys_inv_same [OF i]) (auto simp: sys_inv_def)

lemma sys_inv_ref:
  assumes i: "sys_inv L dir x ns k" and s: "smem x = Some s" and pn: "plain_name name"
    and a: "at_start (sworld x) w1" and run: "writeNamedRef L s name root w1 = (r, w')"
  shows "sys_inv L dir (x\<lparr>sworld := w'\<rparr>) ns k"
proof -
  obtain m where sd: "sdir s = dir" and si: "store_inv L s (sworld x) ns m k"
    using i s by (auto simp: sys_inv_def)
  have l: "lock_alone (sdir s) w1"
    using i sd lock_alone_quiet [OF at_start_quiet [OF a]] by (simp add: sys_inv_def)
  have "store_inv L s w' ns m k"
    using store_inv_WriteNamedRef [OF store_inv_at_start [OF si a] run pn l] .
  then show ?thesis
    using writeNamedRef_frame(1) [OF run pn l] sd
    by (intro sys_inv_same [OF i]) (auto simp: store_inv_def)
qed

text \<open>Appending, as the other rules see it.\<close>

lemma sys_inv_append_ok:
  assumes ok: "golib_ok L" and i: "sys_inv L dir x ns k" and s: "smem x = Some s"
    and g: "good_append L s ctx opts er (sworld x)"
    and run: "append L s ctx opts er (sworld x) = (Inr (h, s'), w')"
  shows "\<exists>n. sys_inv L dir (x\<lparr>smem := Some s', sworld := w', acked := acked x @ [h]\<rparr>)
    (ns @ [n]) (Suc (length ns)) \<and> event_of L (skey s) ctx opts (tip ns) n \<and> h = nHash n
    \<and> k \<le> length ns"
proof -
  obtain m where sd: "sdir s = dir" and si: "store_inv L s (sworld x) ns m k"
    using i s by (auto simp: sys_inv_def)
  obtain n where n: "h = nHash n" "s' = recordNode s n" "m = length ns"
      "store_inv L s' w' (ns @ [n]) (Suc m) (Suc m)" "event_of L (skey s) ctx opts (tip ns) n"
    using append_correct [OF ok si _ _ _ run] g by (auto simp: good_append_def)
  have "lock_alone dir w'" using append_lock_alone [OF ok _ run] i sd by (simp add: sys_inv_def)
  moreover have "subseq (acked x @ [h]) (map nHash (take (Suc (length ns)) (ns @ [n])))"
  proof -
    have "subseq (map nHash (take k ns)) (map nHash ns)"
      by (metis append_take_drop_id map_append subseq_append_iff list_emb_append2 subseq_order.refl
          prefix_imp_subseq prefixI)
    then have "subseq (acked x) (map nHash ns)"
      using i subseq_order.trans by (auto simp: sys_inv_def)
    then show ?thesis using n(1) by (auto intro: list_emb_append_mono)
  qed
  moreover have "disk_inv L dir w' (ns @ [n]) (Suc (length ns))" "sdir s' = dir"
    using n sd by (simp_all add: store_inv_def)
  moreover have "\<exists>m. store_inv L s' w' (ns @ [n]) m (Suc (length ns))" using n by blast
  moreover have "k \<le> length ns" using si by (simp add: store_inv_def)
  ultimately show ?thesis
    using n(1,5) by (intro exI [of _ n]) (simp add: sys_inv_def)
qed

lemma sys_inv_append_err:
  assumes ok: "golib_ok L" and i: "sys_inv L dir x ns k" and s: "smem x = Some s"
    and g: "good_append L s ctx opts er (sworld x)"
    and run: "append L s ctx opts er (sworld x) = (Inl e, w')"
  shows "\<exists>ns'. sys_inv L dir (x\<lparr>sworld := w'\<rparr>) ns' k \<and> grows ns k ns' k"
proof -
  obtain m where sd: "sdir s = dir" and si: "store_inv L s (sworld x) ns m k"
    using i s by (auto simp: sys_inv_def)
  have l: "lock_alone dir w'" using append_lock_alone [OF ok _ run] i sd by (simp add: sys_inv_def)
  have km: "k \<le> length ns" using si by (simp add: store_inv_def)
  have "store_inv L s w' ns m k \<or> (\<exists>n. store_inv L s w' (ns @ [n]) m k)"
    using append_correct [OF ok si _ _ _ run] g by (auto simp: good_append_def)
  then show ?thesis
  proof
    assume "store_inv L s w' ns m k"
    then show ?thesis using l i sd s
      by (intro exI [of _ ns]) (auto simp: sys_inv_def store_inv_def)
  next
    assume "\<exists>n. store_inv L s w' (ns @ [n]) m k"
    then obtain n where "store_inv L s w' (ns @ [n]) m k" by blast
    then show ?thesis using l i sd s km
      by (intro exI [of _ "ns @ [n]"]) (auto simp: sys_inv_def store_inv_def grows_snoc)
  qed
qed

lemma idempotent_cases:
  assumes "AppendIdempotent L s ctx opts er rid rhash w = (r, w')"
  obtains (refused) e where "r = Inl e" "w' = w"
  | (replay) rec where "trimSpace rid \<noteq> []" "requestIndex s (trimSpace rid) = Some rec"
      "rrRequestHash rec = trimSpace rhash" "r = Inr (rrHash rec, True, s)" "w' = w"
  | (fresh) r' where "trimSpace rid \<noteq> []" "trimSpace rhash \<noteq> []" "requestIndex s (trimSpace rid) = None"
      "append L s ctx (with_request opts rid rhash) (Some er) w = (r', w')"
      "r = (case r' of Inl e \<Rightarrow> Inl e | Inr (h, s') \<Rightarrow> Inr (h, False, s'))"
  using assms that
  by (auto simp: AppendIdempotent_def Let_def with_request_def io_bind_def
      split: if_splits option.splits prod.splits sum.splits)

lemma good_append_fresh:
  "clean_request ctx (with_request opts rid rhash) \<Longrightarrow>
   fresh_address L s ctx (with_request opts rid rhash) (Some er) w \<Longrightarrow>
   requestIndex s (trimSpace rid) = None \<Longrightarrow>
   good_append L s ctx (with_request opts rid rhash) (Some er) w"
  by (simp add: good_append_def index_free_def with_request_def)

lemma sys_inv_crash:
  assumes i: "sys_inv L dir x ns k" and c: "crash (sworld x) w'"
  shows "\<exists>j. grows ns k (take j ns) j \<and> sys_inv L dir (x\<lparr>smem := None, sworld := w'\<rparr>) (take j ns) j"
proof -
  have "disk_inv L dir (sworld x) ns k" and l: "lock_alone dir w'"
    using i lock_alone_crash [OF _ c] by (simp_all add: sys_inv_def)
  then obtain j where j: "k \<le> j" "j \<le> length ns" "disk_inv L dir w' (take j ns) j"
    using disk_inv_crash c by blast
  have "take k ns = take k (take j ns)" using j(1) by simp
  then have "subseq (map nHash (take k ns)) (map nHash (take j (take j ns)))"
    using j(1) by (metis (no_types, lifting) append_take_drop_id map_append min.idem
        prefix_imp_subseq prefixI take_take)
  then have "subseq (acked x) (map nHash (take j (take j ns)))"
    using i subseq_order.trans unfolding sys_inv_def by blast
  then show ?thesis using j l by (intro exI [of _ j]) (simp add: sys_inv_def grows_def)
qed

lemma sys_inv_step:
  assumes ok: "golib_ok L" and ne: "dir \<noteq> []"
  shows "store_step L dir x y \<Longrightarrow> sys_inv L dir x ns k \<Longrightarrow> \<exists>ns' k'. sys_inv L dir y ns' k' \<and> grows ns k ns' k'"
proof (induction rule: store_step.induct)
  case (open_ok x pid key explicit s w')
  have d: "disk_inv L dir (sworld x) ns k" "lock_alone dir (sworld x)"
    using open_ok.prems by (simp_all add: sys_inv_def)
  note o = openStore_inv [OF d ne open_ok.hyps(2)]
  have "store_inv L s w' ns (length ns) k" "sdir s = dir" using o(3) by auto
  then show ?case
    using o(1,2) open_ok.prems
    by (intro exI [of _ ns] exI [of _ k]) (auto simp: sys_inv_def)
next
  case (open_err x pid key explicit e w')
  have d: "disk_inv L dir (sworld x) ns k" "lock_alone dir (sworld x)"
    using open_err.prems by (simp_all add: sys_inv_def)
  note o = openStore_inv [OF d ne open_err.hyps(2)]
  show ?case using sys_inv_same [OF open_err.prems o(1,2)] grows_refl by blast
next
  case (append_ok x s ctx opts er h s' w')
  then show ?case
    using sys_inv_append_ok [OF ok append_ok.prems append_ok.hyps] grows_snoc le_SucI by blast
next
  case (append_err x s ctx opts er e w')
  then show ?case using sys_inv_append_err [OF ok] by blast
next
  case (idem_ok x s ctx opts rid rhash er h replayed s' w')
  from idem_ok.hyps(4) show ?case
  proof (cases rule: idempotent_cases)
    case (refused e)
    then show ?thesis by simp
  next
    case (replay rec)
    then have "x\<lparr>smem := Some s', sworld := w', acked := (if replayed then acked x else acked x @ [h])\<rparr> = x"
      using idem_ok.hyps(1) by simp
    then show ?thesis using idem_ok.prems grows_refl by metis
  next
    case (fresh r')
    then obtain s'' where "append L s ctx (with_request opts rid rhash) (Some er) (sworld x) = (Inr (h, s'), w')"
        "\<not> replayed"
      by (auto split: sum.splits)
    then show ?thesis
      using sys_inv_append_ok [OF ok idem_ok.prems idem_ok.hyps(1)
          good_append_fresh [OF idem_ok.hyps(2,3) fresh(3)]] grows_snoc le_SucI by fastforce
  qed
next
  case (idem_err x s ctx opts rid rhash er e w')
  from idem_err.hyps(4) show ?case
  proof (cases rule: idempotent_cases)
    case (refused e)
    then have "x\<lparr>sworld := w'\<rparr> = x" by simp
    then show ?thesis using idem_err.prems grows_refl by metis
  next
    case (replay rec)
    then show ?thesis by simp
  next
    case (fresh r')
    then have "append L s ctx (with_request opts rid rhash) (Some er) (sworld x) = (Inl e, w')"
      by (auto split: sum.splits)
    then show ?thesis
      using sys_inv_append_err [OF ok idem_err.prems idem_err.hyps(1)
          good_append_fresh [OF idem_err.hyps(2,3) fresh(3)]] by blast
  qed
next
  case (write_ref x s name root r w')
  then have "writeNamedRef L s name root (sworld x) = (r, w')" by (simp add: WriteNamedRef_def)
  then show ?case
    using sys_inv_ref [OF write_ref.prems write_ref.hyps(1,2) at_start_refl] grows_refl by blast
next
  case (write_ref_at x s name root expected r w')
  from write_ref_at.hyps(3) show ?case
  proof (cases rule: WriteNamedRefAt_cases)
    case (refused e)
    then show ?thesis using sys_inv_quiet [OF write_ref_at.prems at_start_quiet] grows_refl by blast
  next
    case (matched w1)
    then show ?thesis using sys_inv_ref [OF write_ref_at.prems write_ref_at.hyps(1,2)] grows_refl by blast
  qed
next
  case (read x w')
  then show ?case using sys_inv_quiet at_start_quiet grows_refl by blast
next
  case (close x s r w')
  have "quiet (sworld x) w'"
    using close.hyps(2) quiet_closeStoreLock
    by (cases r) (auto simp: CloseStore_def io_iffs split: option.splits prod.splits)
  then have "sys_inv L dir (x\<lparr>sworld := w'\<rparr>) ns k" using sys_inv_quiet close.prems by blast
  then have "sys_inv L dir (x\<lparr>smem := None, sworld := w'\<rparr>) ns k" by (auto simp: sys_inv_def)
  then show ?case using grows_refl by blast
next
  case (environment x w')
  then show ?case using sys_inv_quiet grows_refl by blast
next
  case (crash x w')
  then show ?case using sys_inv_crash by blast
qed

lemma disk_inv_empty:
  assumes "ents w = []" "dents w = []" "dlog w = []" "rootPath dir \<notin> set (dirs w)"
  shows "disk_inv L dir w [] 0" and "lock_alone dir w"
proof -
  have c: "crash_ents w q = {None}" for q using assms by (simp add: crash_ents_def)
  show "disk_inv L dir w [] 0"
    using assms c
    by (simp add: disk_inv_def unique_requests_def fcontent_def rootval_def after_crash_def)
  show "lock_alone dir w" using c by (simp add: lock_alone_def)
qed

lemma store_reachable_inv:
  assumes ok: "golib_ok L" and ne: "dir \<noteq> []"
  shows "store_reachable L dir x \<Longrightarrow> \<exists>ns k. sys_inv L dir x ns k"
proof (induction rule: store_reachable.induct)
  case (start x)
  then have "sys_inv L dir x [] 0" using disk_inv_empty [of "sworld x" dir] by (simp add: sys_inv_def)
  then show ?case by blast
next
  case (step x y)
  then show ?case using sys_inv_step [OF ok ne] by blast
qed

text \<open>Any number of steps.\<close>

inductive store_steps :: "golib \<Rightarrow> path \<Rightarrow> sys \<Rightarrow> sys \<Rightarrow> bool" for L dir where
  none: "store_steps L dir x x"
| more: "store_steps L dir x y \<Longrightarrow> store_step L dir y z \<Longrightarrow> store_steps L dir x z"

lemma sys_inv_steps:
  assumes ok: "golib_ok L" and ne: "dir \<noteq> []"
  shows "store_steps L dir x y \<Longrightarrow> sys_inv L dir x ns k \<Longrightarrow>
    \<exists>ns' k'. sys_inv L dir y ns' k' \<and> grows ns k ns' k'"
proof (induction rule: store_steps.induct)
  case (none x)
  then show ?case using grows_refl by blast
next
  case (more x y z)
  then obtain ns1 k1 where "sys_inv L dir y ns1 k1" "grows ns k ns1 k1" by blast
  then show ?case using sys_inv_step [OF ok ne more.hyps(2)] grows_trans by blast
qed

lemma steps_reachable: "store_steps L dir x y \<Longrightarrow> store_reachable L dir x \<Longrightarrow> store_reachable L dir y"
  by (induction rule: store_steps.induct) (auto intro: store_reachable.step)

lemma subseq_map_take: "i \<le> j \<Longrightarrow> subseq (map f (take i xs)) (map f (take j xs))"
  by (metis append_take_drop_id map_append min.absorb1 prefixI prefix_imp_subseq take_take)

text \<open>What holds of a store that is open in a reachable state.\<close>

lemma reachable_store:
  assumes "golib_ok L" "dir \<noteq> []" "store_reachable L dir x" "smem x = Some s"
  obtains ns m k where "store_inv L s (sworld x) ns m k" "sdir s = dir" "lock_alone dir (sworld x)"
    "subseq (acked x) (map nHash (take k ns))" "sys_inv L dir x ns k"
  using store_reachable_inv [OF assms(1-3)] assms(4) by (auto simp: sys_inv_def)

end
