(* ===== verification/AllowPolicy.thy ===== *)
theory AllowPolicy
  imports FileSysLaws "HOL-Library.Option_ord"
begin

text \<open>
  Who may write what (server/allow.go, and the roles of server/auth.go): the role ladder, the
  optional capability of a credential with its validation, and the decisions on an append and
  on a named ref.
\<close>

subsection \<open>Roles\<close>

text \<open>\<^verbatim>\<open>Role\<close> is an integer counted from one; \<open>RoleNone\<close> is its zero value.\<close>

datatype Role = RoleNone | RoleReader | RoleWriter | RoleAdmin | RoleOperator

primrec role_num :: "Role \<Rightarrow> nat" where
  "role_num RoleNone = 0"
| "role_num RoleReader = 1"
| "role_num RoleWriter = 2"
| "role_num RoleAdmin = 3"
| "role_num RoleOperator = 4"

lemma role_num_inj: "role_num a = role_num b \<Longrightarrow> a = b"
  by (cases a; cases b) auto

instantiation Role :: linorder
begin

definition less_eq_Role :: "Role \<Rightarrow> Role \<Rightarrow> bool" where
  "a \<le> b \<longleftrightarrow> role_num a \<le> role_num b"

definition less_Role :: "Role \<Rightarrow> Role \<Rightarrow> bool" where
  "a < b \<longleftrightarrow> role_num a < role_num b"

instance
  by standard (auto simp: less_eq_Role_def less_Role_def intro: role_num_inj)

end

definition roleString :: "Role \<Rightarrow> string" where
  "roleString r = (case r of RoleReader \<Rightarrow> ''reader'' | RoleWriter \<Rightarrow> ''writer''
     | RoleAdmin \<Rightarrow> ''admin'' | RoleOperator \<Rightarrow> ''operator'' | RoleNone \<Rightarrow> ''unknown'')"

definition parseRole :: "string \<Rightarrow> go_error + Role" where
  "parseRole raw =
     (let s = toLower (trimSpace raw) in
      if s = ''reader'' then Inr RoleReader
      else if s = ''writer'' then Inr RoleWriter
      else if s = ''admin'' then Inr RoleAdmin
      else if s = ''operator'' then Inr RoleOperator
      else Inl (GoError ''role must be reader, writer, admin, or operator'' []))"

definition roleSatisfies :: "Role \<Rightarrow> Role \<Rightarrow> bool" where
  "roleSatisfies have minimum =
     (if have = RoleAdmin then True
      else if minimum = RoleOperator \<or> have = RoleOperator then have = minimum
      else have \<ge> minimum)"

lemma parseRole_roleString: "r \<noteq> RoleNone \<Longrightarrow> parseRole (roleString r) = Inr r"
  by (cases r)
    (simp_all add: parseRole_def roleString_def Let_def trimSpace_printable printable_def
      toLower_ascii lower_byte_def hasPrefix_def)

subsection \<open>Regular expressions\<close>

text \<open>
  The patterns of the code are anchored sequences of character classes with bounds on the
  number of repetitions. \<open>matches\<close> is what such a sequence means.
\<close>

type_synonym item = "(char \<Rightarrow> bool) \<times> nat \<times> nat"

fun matches :: "item list \<Rightarrow> string \<Rightarrow> bool" where
  "matches [] s = (s = [])"
| "matches ((P, lo, hi) # items) s =
     list_ex (\<lambda>k. k \<le> length s \<and> list_all P (take k s) \<and> matches items (drop k s)) [lo ..< Suc hi]"

definition one :: "(char \<Rightarrow> bool) \<Rightarrow> item" where
  "one P = (P, 1, 1)"

definition upto_n :: "(char \<Rightarrow> bool) \<Rightarrow> nat \<Rightarrow> item" where
  "upto_n P n = (P, 0, n)"

definition in_range :: "char \<Rightarrow> char \<Rightarrow> char \<Rightarrow> bool" where
  "in_range a b c \<longleftrightarrow> byte a \<le> byte c \<and> byte c \<le> byte b"

definition lower_az :: "char \<Rightarrow> bool" where
  "lower_az c \<longleftrightarrow> in_range (CHR ''a'') (CHR ''z'') c"

definition upper_az :: "char \<Rightarrow> bool" where
  "upper_az c \<longleftrightarrow> in_range (CHR ''A'') (CHR ''Z'') c"

definition digit09 :: "char \<Rightarrow> bool" where
  "digit09 c \<longleftrightarrow> in_range (CHR ''0'') (CHR ''9'') c"

text \<open>\<^verbatim>\<open>[a-z0-9_-]\<close>, \<^verbatim>\<open>[a-z0-9]\<close>, \<^verbatim>\<open>[a-z0-9._-]\<close>, \<^verbatim>\<open>[A-Za-z0-9]\<close>, \<^verbatim>\<open>[A-Za-z0-9 ._-]\<close>\<close>

definition ns_char :: "char \<Rightarrow> bool" where
  "ns_char c \<longleftrightarrow> lower_az c \<or> digit09 c \<or> c \<in> {CHR ''_'', CHR ''-''}"

definition alnum_lower :: "char \<Rightarrow> bool" where
  "alnum_lower c \<longleftrightarrow> lower_az c \<or> digit09 c"

definition name_char :: "char \<Rightarrow> bool" where
  "name_char c \<longleftrightarrow> alnum_lower c \<or> c \<in> {CHR ''.'', CHR ''_'', CHR ''-''}"

definition alnum :: "char \<Rightarrow> bool" where
  "alnum c \<longleftrightarrow> upper_az c \<or> lower_az c \<or> digit09 c"

definition command_char :: "char \<Rightarrow> bool" where
  "command_char c \<longleftrightarrow> alnum c \<or> c \<in> {CHR '' '', CHR ''.'', CHR ''_'', CHR ''-''}"

definition exactTypePattern :: "item list" where
  "exactTypePattern = [one lower_az, upto_n ns_char 30, one (\<lambda>c. c = CHR ''.''),
     one alnum_lower, upto_n name_char 63]"

definition wildTypePattern :: "item list" where
  "wildTypePattern = [one lower_az, upto_n ns_char 30, one (\<lambda>c. c = CHR ''.''),
     one (\<lambda>c. c = CHR ''*'')]"

definition commandPattern :: "item list" where
  "commandPattern = [one alnum, upto_n command_char 63]"

lemma matches_one [simp]: "matches (one P # items) s \<longleftrightarrow> (\<exists>c t. s = c # t \<and> P c \<and> matches items t)"
  by (cases s) (auto simp: one_def)

lemma matches_upto:
  "matches (upto_n P n # items) s \<longleftrightarrow>
     (\<exists>a b. s = a @ b \<and> length a \<le> n \<and> list_all P a \<and> matches items b)"
proof -
  have "matches (upto_n P n # items) s \<longleftrightarrow>
      (\<exists>k \<le> n. k \<le> length s \<and> list_all P (take k s) \<and> matches items (drop k s))"
    by (auto simp: upto_n_def list_ex_iff less_Suc_eq_le simp del: upt_Suc)
  also have "\<dots> \<longleftrightarrow> (\<exists>a b. s = a @ b \<and> length a \<le> n \<and> list_all P a \<and> matches items b)"
    by (metis append_eq_conv_conj append_take_drop_id length_take min.absorb2 length_append le_add1)
  finally show ?thesis .
qed

text \<open>What the three patterns accept.\<close>

definition namespace_ok :: "string \<Rightarrow> bool" where
  "namespace_ok s \<longleftrightarrow> s \<noteq> [] \<and> length s \<le> 31 \<and> lower_az (hd s) \<and> list_all ns_char s"

definition type_name_ok :: "string \<Rightarrow> bool" where
  "type_name_ok s \<longleftrightarrow> s \<noteq> [] \<and> length s \<le> 64 \<and> alnum_lower (hd s) \<and> list_all name_char s"

definition command_ok :: "string \<Rightarrow> bool" where
  "command_ok s \<longleftrightarrow> s \<noteq> [] \<and> length s \<le> 64 \<and> alnum (hd s) \<and> list_all command_char s"

lemma char_classes:
  "lower_az c \<Longrightarrow> ns_char c" "alnum_lower c \<Longrightarrow> name_char c" "alnum c \<Longrightarrow> command_char c"
  "ns_char (CHR ''.'') = False" "ns_char (CHR ''*'') = False" "name_char (CHR ''*'') = False"
  by (auto simp: ns_char_def name_char_def command_char_def lower_az_def digit09_def in_range_def
      alnum_lower_def alnum_def)

lemma head_tail_class:
  assumes "\<And>c. P c \<Longrightarrow> Q c"
  shows "(\<exists>c a. s = c # a \<and> P c \<and> length a \<le> n \<and> list_all Q a) \<longleftrightarrow>
    s \<noteq> [] \<and> length s \<le> Suc n \<and> P (hd s) \<and> list_all Q s"
  using assms by (cases s) auto

lemmas head_tails =
  head_tail_class [where P = lower_az and Q = ns_char and n = 30, OF char_classes(1), simplified]
  head_tail_class [where P = alnum_lower and Q = name_char and n = 63, OF char_classes(2), simplified]
  head_tail_class [where P = alnum and Q = command_char and n = 63, OF char_classes(3), simplified]

lemma matches_command: "matches commandPattern s \<longleftrightarrow> command_ok s"
  unfolding command_ok_def head_tails(3) [symmetric]
  by (auto simp: commandPattern_def matches_upto)

lemma matches_exactType:
  "matches exactTypePattern s \<longleftrightarrow>
     (\<exists>a b. s = a @ CHR ''.'' # b \<and> namespace_ok a \<and> type_name_ok b)"
proof -
  have "matches exactTypePattern s \<longleftrightarrow> (\<exists>c a d b. s = c # a @ CHR ''.'' # d # b \<and> lower_az c
      \<and> length a \<le> 30 \<and> list_all ns_char a \<and> alnum_lower d \<and> length b \<le> 63 \<and> list_all name_char b)"
    by (auto simp: exactTypePattern_def matches_upto) blast+
  also have "\<dots> \<longleftrightarrow> (\<exists>a b. s = a @ CHR ''.'' # b \<and> (\<exists>c x. a = c # x \<and> lower_az c \<and> length x \<le> 30 \<and> list_all ns_char x)
      \<and> (\<exists>d y. b = d # y \<and> alnum_lower d \<and> length y \<le> 63 \<and> list_all name_char y))"
    by (auto simp: Cons_eq_append_conv) blast+
  also have "\<dots> \<longleftrightarrow> (\<exists>a b. s = a @ CHR ''.'' # b \<and> namespace_ok a \<and> type_name_ok b)"
    unfolding head_tails namespace_ok_def type_name_ok_def by blast
  finally show ?thesis .
qed

lemma matches_wildType: "matches wildTypePattern s \<longleftrightarrow> (\<exists>a. s = a @ ''.*'' \<and> namespace_ok a)"
proof -
  have "matches wildTypePattern s \<longleftrightarrow> (\<exists>c a. s = c # a @ ''.*'' \<and> lower_az c
      \<and> length a \<le> 30 \<and> list_all ns_char a)"
    by (auto simp: wildTypePattern_def matches_upto)
  also have "\<dots> \<longleftrightarrow> (\<exists>a. s = a @ ''.*'' \<and> (\<exists>c x. a = c # x \<and> lower_az c \<and> length x \<le> 30 \<and> list_all ns_char x))"
    by (auto simp: Cons_eq_append_conv)
  also have "\<dots> \<longleftrightarrow> (\<exists>a. s = a @ ''.*'' \<and> namespace_ok a)"
    unfolding head_tails namespace_ok_def by blast
  finally show ?thesis .
qed

lemma namespace_no_dot: "namespace_ok a \<Longrightarrow> CHR ''.'' \<notin> set a" "namespace_ok a \<Longrightarrow> CHR ''*'' \<notin> set a"
  using char_classes(4,5) by (auto simp: namespace_ok_def list_all_iff)

subsection \<open>Capabilities\<close>

text \<open>
  \<^verbatim>\<open>Allow\<close>. A nil list of commands or refs and an empty one differ: nil does not restrict,
  an empty list allows nothing. A nil list of types and an empty one do not differ.
\<close>

record Allow =
  alTypes :: "string list"
  alCommands :: "string list option"
  alRefs :: "string list option"

definition validateTypePattern :: "string \<Rightarrow> go_error + unit" where
  "validateTypePattern pattern =
     (if matches exactTypePattern pattern \<or> matches wildTypePattern pattern then Inr ()
      else Inl (GoError ''type pattern %q must be namespace.name or namespace.*'' [pattern]))"

definition validateCatalogType :: "string \<Rightarrow> go_error + unit" where
  "validateCatalogType eventType =
     (if \<not> matches exactTypePattern eventType
      then Inl (GoError ''type %q must be namespace.name'' [eventType]) else Inr ())"

definition validateCommand :: "string \<Rightarrow> go_error + unit" where
  "validateCommand command =
     (if \<not> matches commandPattern command
      then Inl (GoError ''command %q must be 1-64 letters, digits, spaces, dots, underscores, or hyphens'' [command])
      else Inr ())"

definition validateRefPattern :: "string \<Rightarrow> go_error + unit" where
  "validateRefPattern pattern =
     (if countChar pattern (CHR ''*'') > 1
         \<or> (containsStr pattern ''*'' \<and> \<not> hasSuffix pattern ''*'')
      then Inl (GoError ''ref pattern %q must be an exact name or a prefix ending in *'' [pattern])
      else let body = trimSuffix pattern ''*'' in
        if body = [] \<or> body = ''.'' \<or> body = ''..'' \<or> containsStr body ''..''
           \<or> containsAny body [CHR 0x2F, CHR 0x5C]
        then Inl (GoError ''ref pattern %q must be a file-safe name'' [pattern])
        else Inr ())"

definition namespaceOf :: "string \<Rightarrow> go_error + string" where
  "namespaceOf pattern =
     (case cutAt (CHR ''.'') pattern of (namespace, _, ok) \<Rightarrow>
        if \<not> ok \<or> namespace = [] \<or> containsStr namespace ''*''
        then Inl (GoError ''type pattern %q must be namespace.name or namespace.*'' [pattern])
        else Inr namespace)"

text \<open>
  The three loops of \<^verbatim>\<open>validateAllow\<close>, each returning the trimmed list. \<open>at\<close> is the message
  prefix, \<open>seen\<close> the patterns met before.
\<close>

fun validateList ::
    "string \<Rightarrow> (string \<Rightarrow> go_error + unit) \<Rightarrow> string list \<Rightarrow> string list \<Rightarrow> go_error + string list" where
  "validateList at check seen [] = Inr []"
| "validateList at check seen (raw # raws) =
     (let pattern = trimSpace raw in
      case check pattern of
        Inl e \<Rightarrow> Inl (Wrapped (at @ ''[%d]: %w'') [] e)
      | Inr _ \<Rightarrow>
          if pattern \<in> set seen then Inl (GoError (at @ ''[%d] duplicates %q'') [pattern])
          else bindE (validateList at check (pattern # seen) raws) (\<lambda>ps. Inr (pattern # ps)))"

text \<open>The type loop also looks at the namespace, after the check for duplicates.\<close>

fun validateTypes ::
    "string list \<Rightarrow> string list \<Rightarrow> string list \<Rightarrow> go_error + (string list \<times> string list)" where
  "validateTypes seen namespaces [] = Inr ([], namespaces)"
| "validateTypes seen namespaces (raw # raws) =
     (let pattern = trimSpace raw in
      case validateTypePattern pattern of
        Inl e \<Rightarrow> Inl (Wrapped ''allow.types[%d]: %w'' [] e)
      | Inr _ \<Rightarrow>
          if pattern \<in> set seen then Inl (GoError ''allow.types[%d] duplicates %q'' [pattern])
          else case namespaceOf pattern of
              Inl e \<Rightarrow> Inl (Wrapped ''allow.types[%d]: %w'' [] e)
            | Inr ns \<Rightarrow>
                bindE (validateTypes (pattern # seen) (List.insert ns namespaces) raws)
                  (\<lambda>(ps, nss). Inr (pattern # ps, nss)))"

definition validateOpt ::
    "string \<Rightarrow> (string \<Rightarrow> go_error + unit) \<Rightarrow> string list option \<Rightarrow> go_error + string list option" where
  "validateOpt at check xs =
     (case xs of None \<Rightarrow> Inr None | Some ps \<Rightarrow> bindE (validateList at check [] ps) (\<lambda>ps'. Inr (Some ps')))"

definition validateAllow :: "Allow option \<Rightarrow> go_error + Allow option" where
  "validateAllow a =
     (case a of
        None \<Rightarrow> Inr None
      | Some allow \<Rightarrow>
          bindE (validateTypes [] [] (alTypes allow)) (\<lambda>(types, namespaces).
          if length namespaces > 1
          then Inl (GoError ''allow.types must stay inside one namespace'' [])
          else if alCommands allow \<noteq> None \<and> length (alTypes allow) = 0
          then Inl (GoError ''allow.commands requires at least one allow.types pattern'' [])
          else bindE (validateOpt ''allow.commands'' validateCommand (alCommands allow)) (\<lambda>commands.
               bindE (validateOpt ''allow.refs'' validateRefPattern (alRefs allow)) (\<lambda>refs.
               Inr (Some \<lparr>alTypes = types, alCommands = commands, alRefs = refs\<rparr>)))))"

definition typeAllowed :: "string \<Rightarrow> string \<Rightarrow> bool" where
  "typeAllowed pattern eventType =
     (if hasSuffix pattern ''.*'' then
        let prefix = trimSuffix pattern ''.*'' @ ''.'' in
        hasPrefix eventType prefix \<and> length eventType > length prefix
      else pattern = eventType)"

definition refAllowed :: "string \<Rightarrow> string \<Rightarrow> bool" where
  "refAllowed pattern name =
     (if hasSuffix pattern ''*'' then
        let prefix = trimSuffix pattern ''*'' in
        hasPrefix name prefix \<and> length name > length prefix
      else pattern = name)"

definition authorizeAppend :: "Allow option \<Rightarrow> string \<Rightarrow> string \<Rightarrow> go_error + unit" where
  "authorizeAppend a eventType command =
     (case a of
        None \<Rightarrow> Inr ()
      | Some allow \<Rightarrow>
          if \<not> list_ex (\<lambda>pattern. typeAllowed pattern eventType) (alTypes allow)
          then Inl (GoError ''credential is not allowed to append type %q'' [eventType])
          else case alCommands allow of
              None \<Rightarrow> Inr ()
            | Some commands \<Rightarrow>
                if command \<in> set commands then Inr ()
                else Inl (GoError ''credential is not allowed to append command %q'' [command]))"

definition authorizeRef :: "Allow option \<Rightarrow> string \<Rightarrow> go_error + unit" where
  "authorizeRef a name =
     (case a of
        None \<Rightarrow> Inr ()
      | Some allow \<Rightarrow>
          (case alRefs allow of
             None \<Rightarrow> Inr ()
           | Some refs \<Rightarrow>
               if list_ex (\<lambda>pattern. refAllowed pattern name) refs then Inr ()
               else Inl (GoError ''credential is not allowed to update ref %q'' [name])))"

subsection \<open>What a validated capability means\<close>

definition valid_pattern :: "string \<Rightarrow> bool" where
  "valid_pattern p \<longleftrightarrow> matches exactTypePattern p \<or> matches wildTypePattern p"

definition namespace :: "string \<Rightarrow> string" where
  "namespace t = fst (cutAt (CHR ''.'') t)"

lemma valid_pattern_split:
  assumes "valid_pattern p"
  obtains a b where "p = a @ CHR ''.'' # b" "namespace_ok a" "namespace p = a"
    "type_name_ok b \<and> \<not> hasSuffix p ''.*'' \<or> b = ''*''"
proof -
  from assms obtain a b where p: "p = a @ CHR ''.'' # b" "namespace_ok a" and b: "type_name_ok b \<or> b = ''*''"
    by (auto simp: valid_pattern_def matches_exactType matches_wildType)
  have "cutAt (CHR ''.'') p = (a, b, True)"
    unfolding p(1) by (rule cutAt_found) (rule namespace_no_dot [OF p(2)])
  then have "namespace p = a" by (simp add: namespace_def)
  moreover have "\<not> hasSuffix p ''.*''" if "type_name_ok b"
  proof
    assume "hasSuffix p ''.*''"
    then have "last p = CHR ''*''" by (auto simp: hasSuffix_iff)
    moreover have "b \<noteq> []" "last b \<in> set b" using that by (auto simp: type_name_ok_def)
    ultimately have "CHR ''*'' \<in> set b" by (simp add: p(1))
    then show False using that char_classes(6) by (auto simp: type_name_ok_def list_all_iff)
  qed
  ultimately show thesis using that p b by blast
qed

text \<open>What a pattern lets through lies in the namespace of the pattern.\<close>

lemma typeAllowed_namespace:
  assumes "valid_pattern p" "typeAllowed p t"
  shows "namespace t = namespace p"
proof -
  obtain a b where p: "p = a @ CHR ''.'' # b" "namespace_ok a" "namespace p = a"
    and b: "type_name_ok b \<and> \<not> hasSuffix p ''.*'' \<or> b = ''*''"
    using assms(1) by (rule valid_pattern_split)
  show ?thesis
  proof (cases "hasSuffix p ''.*''")
    case False
    then show ?thesis using assms(2) by (simp add: typeAllowed_def)
  next
    case True
    then have bs: "b = ''*''" using b by simp
    have "trimSuffix p ''.*'' = a" using trimSuffix_append [of a "''.*''"] by (simp add: p(1) bs)
    then obtain r where "t = a @ CHR ''.'' # r"
      using assms(2) True by (auto simp: typeAllowed_def hasPrefix_iff)
    then have "cutAt (CHR ''.'') t = (a, r, True)"
      using namespace_no_dot(1) [OF p(2)] by (simp add: cutAt_found)
    then show ?thesis using p(3) by (simp add: namespace_def)
  qed
qed

lemma validateList_Inr:
  "validateList at check seen raws = Inr ps \<Longrightarrow>
     ps = map trimSpace raws \<and> distinct ps \<and> set ps \<inter> set seen = {} \<and> (\<forall>p \<in> set ps. check p = Inr ())"
  by (induction at check seen raws arbitrary: ps rule: validateList.induct)
    (fastforce simp: Let_def bindE_Inr_iff split: sum.splits if_splits)+

lemma namespaceOf_valid:
  assumes "valid_pattern p"
  shows "namespaceOf p = Inr (namespace p)"
proof -
  obtain a b where p: "p = a @ CHR ''.'' # b" "namespace_ok a" "namespace p = a"
    using assms by (rule valid_pattern_split)
  have "cutAt (CHR ''.'') p = (a, b, True)"
    unfolding p(1) by (rule cutAt_found) (rule namespace_no_dot [OF p(2)])
  moreover have "\<not> containsStr a ''*''"
  proof
    have c: "containsStr s ''*'' \<longleftrightarrow> CHR ''*'' \<in> set s" for s
      by (induction s) (auto simp: hasPrefix_def)
    assume "containsStr a ''*''"
    then show False using c namespace_no_dot(2) [OF p(2)] by simp
  qed
  moreover have "a \<noteq> []" using p(2) by (simp add: namespace_ok_def)
  ultimately show ?thesis by (simp add: namespaceOf_def p(3))
qed

lemma validateTypes_Inr:
  "validateTypes seen nss raws = Inr (ps, nss') \<Longrightarrow>
     ps = map trimSpace raws \<and> distinct ps \<and> (\<forall>p \<in> set ps. valid_pattern p)
     \<and> set nss' = set nss \<union> namespace ` set ps \<and> (distinct nss \<longrightarrow> distinct nss') \<and> set ps \<inter> set seen = {}"
proof (induction seen nss raws arbitrary: ps nss' rule: validateTypes.induct)
  case (1 seen nss)
  then show ?case by simp
next
  case (2 seen nss raw raws)
  let ?p = "trimSpace raw"
  have v: "valid_pattern ?p"
    using "2.prems" by (auto simp: Let_def validateTypePattern_def valid_pattern_def split: if_splits)
  then have vt: "validateTypePattern ?p = Inr ()"
    by (simp add: validateTypePattern_def valid_pattern_def)
  obtain qs where nd: "?p \<notin> set seen" and ps: "ps = ?p # qs"
    and rec: "validateTypes (?p # seen) (List.insert (namespace ?p) nss) raws = Inr (qs, nss')"
    using "2.prems" vt namespaceOf_valid [OF v]
    by (auto simp: Let_def bindE_Inr_iff split: if_splits)
  note ih = "2.IH" [OF refl vt nd namespaceOf_valid [OF v] rec]
  have "set qs \<inter> set (?p # seen) = {}" using ih by blast
  then have d: "?p \<notin> set qs" "set qs \<inter> set seen = {}" by auto
  have s: "set nss' = set nss \<union> namespace ` set ps" "distinct nss \<longrightarrow> distinct nss'"
    using ih by (simp_all add: ps)
  have "ps = map trimSpace (raw # raws)" using ih by (simp add: ps)
  moreover have "distinct ps" "\<forall>p \<in> set ps. valid_pattern p" "set ps \<inter> set seen = {}"
    using ih d nd v unfolding ps by (simp_all only: distinct.simps list.set) blast+
  ultimately show ?case using s by blast
qed

lemma validateAllow_Inr:
  assumes "validateAllow (Some allow) = Inr (Some a)"
  shows "alTypes a = map trimSpace (alTypes allow)" "\<forall>p \<in> set (alTypes a). valid_pattern p"
    "distinct (alTypes a)" "\<forall>p \<in> set (alTypes a). \<forall>q \<in> set (alTypes a). namespace p = namespace q"
    "alCommands a = map_option (map trimSpace) (alCommands allow)"
    "alRefs a = map_option (map trimSpace) (alRefs allow)"
proof -
  obtain nss where t: "validateTypes [] [] (alTypes allow) = Inr (alTypes a, nss)" "length nss \<le> 1"
    and c: "validateOpt ''allow.commands'' validateCommand (alCommands allow) = Inr (alCommands a)"
    and r: "validateOpt ''allow.refs'' validateRefPattern (alRefs allow) = Inr (alRefs a)"
    using assms by (auto simp: validateAllow_def bindE_Inr_iff split: if_splits)
  note v = validateTypes_Inr [OF t(1)]
  show "alTypes a = map trimSpace (alTypes allow)" "\<forall>p \<in> set (alTypes a). valid_pattern p"
    "distinct (alTypes a)" using v by auto
  have "namespace p \<in> set nss" if "p \<in> set (alTypes a)" for p using v that by auto
  then show "\<forall>p \<in> set (alTypes a). \<forall>q \<in> set (alTypes a). namespace p = namespace q"
    using t(2) by (cases nss) fastforce+
  show "alCommands a = map_option (map trimSpace) (alCommands allow)"
    "alRefs a = map_option (map trimSpace) (alRefs allow)"
    using c r by (auto simp: validateOpt_def bindE_Inr_iff dest!: validateList_Inr split: option.splits)
qed

end
