(* ===== verification/Catalog.thy ===== *)
theory Catalog
  imports FileSysFrames AllowPolicy
begin

text \<open>
  The operator-managed catalog of event types (server/catalog.go): loading and validating the
  file, installing and removing types, turning enforcement on and off, and the decision on an
  append. The JSON codec is the parameter \<open>catlib\<close>.
\<close>

subsection \<open>Data\<close>

record CatalogEntry =
  ceType :: string
  ceCommands :: "string list"

record catalogDocument =
  cdEnforced :: bool
  cdEntries :: "CatalogEntry list"

record Catalog =
  cPath :: string
  cEnforced :: bool
  cEntries :: "CatalogEntry list"

text \<open>
  \<^verbatim>\<open>json.MarshalIndent\<close>; and a strict \<^verbatim>\<open>json.Decoder\<close> on the whole file, which gives the
  first value and whether nothing follows it.
\<close>

record catlib =
  json_catalog :: "catalogDocument \<Rightarrow> bytes option"
  dec_catalog :: "bytes \<Rightarrow> (catalogDocument \<times> bool) option"

definition utf8_document :: "catalogDocument \<Rightarrow> bool" where
  "utf8_document d \<longleftrightarrow> list_all (\<lambda>e. utf8_valid (ceType e) \<and> list_all utf8_valid (ceCommands e)) (cdEntries d)"

definition catlib_ok :: "catlib \<Rightarrow> bool" where
  "catlib_ok C \<longleftrightarrow> (\<forall>d b. utf8_document d \<longrightarrow> json_catalog C d = Some b \<longrightarrow>
     dec_catalog C (b @ [CHR 0x0A]) = Some (d, True))"

definition maxCatalogEntries :: nat where
  "maxCatalogEntries = 256"

definition maxCatalogCommands :: nat where
  "maxCatalogCommands = 32"

subsection \<open>Validation\<close>

text \<open>The loop over the commands of an entry.\<close>

fun normalizeCommands :: "string list \<Rightarrow> string list \<Rightarrow> go_error + string list" where
  "normalizeCommands seen [] = Inr []"
| "normalizeCommands seen (raw # raws) =
     (let command = trimSpace raw in
      bindE (validateCommand command) (\<lambda>_.
      if command \<in> set seen then Inl (GoError ''command %q is duplicated'' [command])
      else bindE (normalizeCommands (command # seen) raws) (\<lambda>cs. Inr (command # cs))))"

definition normalizeEntry :: "CatalogEntry \<Rightarrow> go_error + CatalogEntry" where
  "normalizeEntry entry =
     (let ty = trimSpace (ceType entry) in
      bindE (validateCatalogType ty) (\<lambda>_.
      if length (ceCommands entry) = 0 \<or> length (ceCommands entry) > maxCatalogCommands
      then Inl (GoError ''type %q must list 1-%d commands'' [ty])
      else bindE (normalizeCommands [] (ceCommands entry)) (\<lambda>commands.
           Inr \<lparr>ceType = ty, ceCommands = commands\<rparr>)))"

fun normalizeEntries :: "string list \<Rightarrow> CatalogEntry list \<Rightarrow> go_error + CatalogEntry list" where
  "normalizeEntries seen [] = Inr []"
| "normalizeEntries seen (raw # raws) =
     (case normalizeEntry raw of
        Inl e \<Rightarrow> Inl (Wrapped ''entries[%d]: %w'' [] e)
      | Inr entry \<Rightarrow>
          if ceType entry \<in> set seen then Inl (GoError ''entries[%d] duplicates type %q'' [ceType entry])
          else bindE (normalizeEntries (ceType entry # seen) raws) (\<lambda>es. Inr (entry # es)))"

definition decodeCatalog :: "catlib \<Rightarrow> bytes \<Rightarrow> go_error + catalogDocument" where
  "decodeCatalog C raw =
     (case dec_catalog C raw of
        None \<Rightarrow> Inl (Wrapped ''decode catalog file: %w'' [] (GoError ''json'' []))
      | Some (document, atEOF) \<Rightarrow>
          if \<not> atEOF then Inl (GoError ''catalog file must contain exactly one JSON object'' [])
          else if length (cdEntries document) > maxCatalogEntries
          then Inl (GoError ''catalog has %d entries; the limit is %d'' [])
          else bindE (normalizeEntries [] (cdEntries document)) (\<lambda>es.
               Inr (document\<lparr>cdEntries := es\<rparr>)))"

definition LoadCatalog :: "catlib \<Rightarrow> string \<Rightarrow> Catalog io" where
  "LoadCatalog C path0 =
     (let p = trimSpace path0 in
      if p = [] then io_fail (GoError ''catalog path is required'' [])
      else io_bind (io_try (readFile (toPath p))) (\<lambda>r.
        case r of
          Inl e \<Rightarrow>
            if isNotExist e then io_ret \<lparr>cPath = p, cEnforced = False, cEntries = []\<rparr>
            else io_fail (Wrapped ''read catalog file: %w'' [] e)
        | Inr raw \<Rightarrow>
            io_bind (io_lift (decodeCatalog C raw)) (\<lambda>document.
            io_ret \<lparr>cPath = p, cEnforced = cdEnforced document, cEntries = cdEntries document\<rparr>)))"

subsection \<open>Changing the catalog\<close>

definition catalogTmp :: string where
  "catalogTmp = ''.jaybase-catalog-''"

definition persist :: "catlib \<Rightarrow> Catalog \<Rightarrow> bool \<Rightarrow> CatalogEntry list \<Rightarrow> unit io" where
  "persist C c enforced es =
     (if cPath c = [] then io_fail (GoError ''catalog file is not configured'' [])
      else case json_catalog C \<lparr>cdEnforced = enforced, cdEntries = es\<rparr> of
          None \<Rightarrow> io_fail (GoError ''json: unsupported value'' [])
        | Some contents \<Rightarrow>
            io_bind (mkdirAll (butlast (toPath (cPath c)))) (\<lambda>_.
            replaceFile catalogTmp (toPath (cPath c)) (contents @ [CHR 0x0A]) 0x180))"

text \<open>\<^verbatim>\<open>View\<close>, whose copies make no difference to values.\<close>

definition View :: "Catalog \<Rightarrow> catalogDocument" where
  "View c = \<lparr>cdEnforced = cEnforced c, cdEntries = cEntries c\<rparr>"

text \<open>The loop that replaces the first entry of the same type.\<close>

fun replaceEntry :: "CatalogEntry \<Rightarrow> CatalogEntry list \<Rightarrow> CatalogEntry list \<times> bool" where
  "replaceEntry entry [] = ([], True)"
| "replaceEntry entry (e # es) =
     (if ceType e \<noteq> ceType entry
      then (case replaceEntry entry es of (es', created) \<Rightarrow> (e # es', created))
      else (entry # es, False))"

definition Install :: "catlib \<Rightarrow> Catalog \<Rightarrow> string \<Rightarrow> string list \<Rightarrow> (CatalogEntry \<times> bool \<times> Catalog) io" where
  "Install C c eventType commands =
     io_bind (io_lift (normalizeEntry \<lparr>ceType = eventType, ceCommands = commands\<rparr>)) (\<lambda>entry.
       case replaceEntry entry (cEntries c) of (replaced, created) \<Rightarrow>
         if created \<and> length replaced \<ge> maxCatalogEntries
         then io_fail (GoError ''catalog entry limit is %d'' [])
         else let nxt = (if created then replaced @ [entry] else replaced) in
           io_bind (persist C c True nxt) (\<lambda>_.
           io_ret (entry, created, c\<lparr>cEnforced := True, cEntries := nxt\<rparr>)))"

definition removeCatalogType :: "catlib \<Rightarrow> Catalog \<Rightarrow> string \<Rightarrow> Catalog io" where
  "removeCatalogType C c eventType0 =
     (let eventType = trimSpace eventType0 in
      io_bind (io_lift (validateCatalogType eventType)) (\<lambda>_.
      let nxt = filter (\<lambda>e. ceType e \<noteq> eventType) (cEntries c) in
      if \<not> list_ex (\<lambda>e. ceType e = eventType) (cEntries c)
      then io_fail (GoError ''type %q is not installed'' [eventType])
      else io_bind (persist C c (cEnforced c) nxt) (\<lambda>_. io_ret (c\<lparr>cEntries := nxt\<rparr>))))"

definition SetEnforced :: "catlib \<Rightarrow> Catalog \<Rightarrow> bool \<Rightarrow> Catalog io" where
  "SetEnforced C c enforced =
     io_bind (persist C c enforced (cEntries c)) (\<lambda>_. io_ret (c\<lparr>cEnforced := enforced\<rparr>))"

text \<open>The first entry of the type decides.\<close>

fun authorizeEntries :: "CatalogEntry list \<Rightarrow> string \<Rightarrow> string \<Rightarrow> go_error + unit" where
  "authorizeEntries [] eventType command =
     Inl (GoError ''type %q is not in the installed catalog'' [eventType])"
| "authorizeEntries (e # es) eventType command =
     (if ceType e \<noteq> eventType then authorizeEntries es eventType command
      else if command \<in> set (ceCommands e) then Inr ()
      else Inl (GoError ''command %q is not installed for type %q'' [command, eventType]))"

definition catalogAuthorize :: "Catalog \<Rightarrow> string \<Rightarrow> string \<Rightarrow> go_error + unit" where
  "catalogAuthorize c eventType command =
     (if \<not> cEnforced c then Inr () else authorizeEntries (cEntries c) eventType command)"

subsection \<open>Well-formed catalogs\<close>

definition entry_ok :: "CatalogEntry \<Rightarrow> bool" where
  "entry_ok e \<longleftrightarrow> matches exactTypePattern (ceType e) \<and> trimSpace (ceType e) = ceType e
     \<and> ceCommands e \<noteq> [] \<and> length (ceCommands e) \<le> maxCatalogCommands \<and> distinct (ceCommands e)
     \<and> list_all (\<lambda>c. matches commandPattern c \<and> trimSpace c = c) (ceCommands e)"

definition entries_ok :: "CatalogEntry list \<Rightarrow> bool" where
  "entries_ok es \<longleftrightarrow> length es \<le> maxCatalogEntries \<and> distinct (map ceType es) \<and> list_all entry_ok es"

lemma normalizeCommands_Inr:
  "normalizeCommands seen raws = Inr cs \<Longrightarrow> cs = map trimSpace raws \<and> distinct cs \<and> set cs \<inter> set seen = {}
     \<and> list_all (\<lambda>c. matches commandPattern c \<and> trimSpace c = c) cs"
proof (induction seen raws arbitrary: cs rule: normalizeCommands.induct)
  case (1 seen)
  then show ?case by simp
next
  case (2 seen raw raws)
  let ?c = "trimSpace raw"
  obtain ds where c: "validateCommand ?c = Inr ()" "?c \<notin> set seen"
    and rec: "normalizeCommands (?c # seen) raws = Inr ds" and cs: "cs = ?c # ds"
    using "2.prems" by (auto simp: Let_def bindE_Inr_iff split: if_splits)
  have m: "matches commandPattern ?c" using c(1) by (simp add: validateCommand_def split: if_splits)
  note ih = "2.IH" [OF refl c(2) rec]
  have "set ds \<inter> set (?c # seen) = {}" using ih by blast
  then have "?c \<notin> set ds" "set ds \<inter> set seen = {}" by auto
  moreover have "ds = map trimSpace raws" "distinct ds"
      "list_all (\<lambda>c. matches commandPattern c \<and> trimSpace c = c) ds"
    using ih by blast+
  ultimately show ?case using m c(2) cs by simp
qed

lemma normalizeCommands_id:
  "distinct cs \<Longrightarrow> set cs \<inter> set seen = {} \<Longrightarrow>
   list_all (\<lambda>c. matches commandPattern c \<and> trimSpace c = c) cs \<Longrightarrow> normalizeCommands seen cs = Inr cs"
  by (induction cs arbitrary: seen) (auto simp: Let_def validateCommand_def)

lemma normalizeEntry_Inr: "normalizeEntry e = Inr e' \<Longrightarrow> entry_ok e' \<and> ceType e' = trimSpace (ceType e)
    \<and> ceCommands e' = map trimSpace (ceCommands e)"
  by (auto simp: normalizeEntry_def Let_def bindE_Inr_iff validateCatalogType_def entry_ok_def
      dest!: normalizeCommands_Inr split: if_splits)

lemma normalizeEntry_id: "entry_ok e \<Longrightarrow> normalizeEntry e = Inr e"
  by (simp add: normalizeEntry_def entry_ok_def validateCatalogType_def normalizeCommands_id)

lemma normalizeEntries_Inr:
  "normalizeEntries seen raws = Inr es \<Longrightarrow> distinct (map ceType es) \<and> set (map ceType es) \<inter> set seen = {}
     \<and> list_all entry_ok es \<and> length es = length raws"
proof (induction seen raws arbitrary: es rule: normalizeEntries.induct)
  case (1 seen)
  then show ?case by simp
next
  case (2 seen raw raws)
  obtain e ds where n: "normalizeEntry raw = Inr e" "ceType e \<notin> set seen"
    and rec: "normalizeEntries (ceType e # seen) raws = Inr ds" and es: "es = e # ds"
    using "2.prems" by (auto simp: bindE_Inr_iff split: sum.splits if_splits)
  note ih = "2.IH" [OF n rec]
  have "set (map ceType ds) \<inter> set (ceType e # seen) = {}" using ih by blast
  then have "ceType e \<notin> set (map ceType ds)" "set (map ceType ds) \<inter> set seen = {}" by auto
  then show ?case using ih n normalizeEntry_Inr [OF n(1)] es by simp
qed

lemma normalizeEntries_id:
  "distinct (map ceType es) \<Longrightarrow> set (map ceType es) \<inter> set seen = {} \<Longrightarrow> list_all entry_ok es \<Longrightarrow>
   normalizeEntries seen es = Inr es"
  by (induction es arbitrary: seen) (auto simp: normalizeEntry_id)

lemma decodeCatalog_Inr: "decodeCatalog C raw = Inr d \<Longrightarrow> entries_ok (cdEntries d)"
  by (auto simp: decodeCatalog_def bindE_Inr_iff entries_ok_def dest!: normalizeEntries_Inr
      split: option.splits if_splits)

lemma command_char_printable: "command_char c \<Longrightarrow> c \<noteq> CHR '' '' \<Longrightarrow> printable c"
  by (auto simp: command_char_def alnum_def upper_az_def lower_az_def digit09_def in_range_def
      printable_def)

lemma exactType_utf8: "matches exactTypePattern t \<Longrightarrow> utf8_valid t"
  and command_utf8: "matches commandPattern t \<Longrightarrow> utf8_valid t"
proof -
  have n: "ns_char c \<Longrightarrow> byte c < 128" "name_char c \<Longrightarrow> byte c < 128" "command_char c \<Longrightarrow> byte c < 128" for c
    by (auto simp: ns_char_def name_char_def alnum_lower_def command_char_def alnum_def upper_az_def
        lower_az_def digit09_def in_range_def)
  show "matches exactTypePattern t \<Longrightarrow> utf8_valid t"
    by (rule utf8_valid_ascii)
      (use n in \<open>auto simp: matches_exactType namespace_ok_def type_name_ok_def list_all_iff\<close>)
  show "matches commandPattern t \<Longrightarrow> utf8_valid t"
    by (rule utf8_valid_ascii)
      (use n in \<open>auto simp: matches_command command_ok_def list_all_iff\<close>)
qed

lemma entries_utf8: "list_all entry_ok es \<Longrightarrow> utf8_document \<lparr>cdEnforced = b, cdEntries = es\<rparr>"
  by (auto simp: utf8_document_def list_all_iff entry_ok_def intro: exactType_utf8 command_utf8)

text \<open>What was written can be read back.\<close>

lemma decodeCatalog_written:
  assumes "catlib_ok C" "entries_ok es" "json_catalog C \<lparr>cdEnforced = b, cdEntries = es\<rparr> = Some x"
  shows "decodeCatalog C (x @ [CHR 0x0A]) = Inr \<lparr>cdEnforced = b, cdEntries = es\<rparr>"
proof -
  have "dec_catalog C (x @ [CHR 0x0A]) = Some (\<lparr>cdEnforced = b, cdEntries = es\<rparr>, True)"
    using assms entries_utf8 by (auto simp: catlib_ok_def entries_ok_def)
  then show ?thesis using assms(2) normalizeEntries_id [of es "[]"]
    by (simp add: decodeCatalog_def entries_ok_def)
qed

subsection \<open>The catalog file\<close>

interpretation cf: atomic_replace "\<lambda>p b. replaceFile catalogTmp p b 0x180" "tmp_of catalogTmp"
  by (rule atomic_replace_replaceFile)

text \<open>A usable path: not that of a directory and not the name of a temporary file.\<close>

definition catalog_path_ok :: "string \<Rightarrow> world \<Rightarrow> bool" where
  "catalog_path_ok p w \<longleftrightarrow> p \<noteq> [] \<and> trimSpace p = p \<and> toPath p \<noteq> [] \<and> toPath p \<notin> set (dirs w)
     \<and> \<not> hasPrefix (last (toPath p)) catalogTmp"

lemma persist_cases:
  assumes pk: "catalog_path_ok (cPath c) w" and run: "persist C c b es w = (r, w')"
  shows "toPath (cPath c) \<notin> set (dirs w')"
    and "r = Inr u \<Longrightarrow> \<exists>x. json_catalog C \<lparr>cdEnforced = b, cdEntries = es\<rparr> = Some x
      \<and> durable w' (toPath (cPath c)) (x @ [CHR 0x0A])"
    and "fcontent w' (toPath (cPath c)) = fcontent w (toPath (cPath c))
      \<or> (\<exists>x. json_catalog C \<lparr>cdEnforced = b, cdEntries = es\<rparr> = Some x
            \<and> fcontent w' (toPath (cPath c)) = Some (x @ [CHR 0x0A]))"
    and "q \<noteq> toPath (cPath c) \<Longrightarrow> \<not> hasPrefix (last q) catalogTmp \<Longrightarrow> keeps q w w'"
proof -
  let ?p = "toPath (cPath c)"
  have np: "?p \<notin> {take k (butlast ?p) | k. True}"
  proof
    assume "?p \<in> {take k (butlast ?p) | k. True}"
    then obtain k where "?p = take k (butlast ?p)" by blast
    from arg_cong [OF this, of length] pk show False
      by (cases "toPath (cPath c)") (auto simp: catalog_path_ok_def min_def split: if_splits)
  qed
  have ne: "?p \<noteq> tmp_of catalogTmp v ?p" for v
    using pk not_tmp_path [of ?p catalogTmp v "butlast ?p"] by (simp add: catalog_path_ok_def tmp_of_def)
  consider (none) e where "r = Inl e" "w' = w"
    | (some) x mk w1 where "json_catalog C \<lparr>cdEnforced = b, cdEntries = es\<rparr> = Some x"
        "mkdirAll (butlast ?p) w = (mk, w1)"
        "(case mk of Inl e \<Rightarrow> (Inl e, w1) | Inr _ \<Rightarrow> replaceFile catalogTmp ?p (x @ [CHR 0x0A]) 0x180 w1) = (r, w')"
    using run pk by (cases "mkdirAll (butlast ?p) w")
      (auto simp: persist_def io_bind_def catalog_path_ok_def split: option.splits sum.splits)
  then have "?p \<notin> set (dirs w')
    \<and> (\<forall>u. r = Inr u \<longrightarrow> (\<exists>x. json_catalog C \<lparr>cdEnforced = b, cdEntries = es\<rparr> = Some x
          \<and> durable w' ?p (x @ [CHR 0x0A])))
    \<and> (fcontent w' ?p = fcontent w ?p
        \<or> (\<exists>x. json_catalog C \<lparr>cdEnforced = b, cdEntries = es\<rparr> = Some x
              \<and> fcontent w' ?p = Some (x @ [CHR 0x0A])))
    \<and> (\<forall>q. q \<noteq> ?p \<longrightarrow> \<not> hasPrefix (last q) catalogTmp \<longrightarrow> keeps q w w')"
  proof cases
    case none
    then show ?thesis using pk by (simp add: catalog_path_ok_def)
  next
    case (some x mk w1)
    have d1: "?p \<notin> set (dirs w1)"
      using mkdirAll_views(5) [OF some(2)] pk np unfolding catalog_path_ok_def by blast
    have k1: "keeps q w w1" for q using mkdirAll_keeps [OF some(2)] .
    show ?thesis
    proof (cases mk)
      case (Inl e)
      then show ?thesis using some(3) d1 k1 keeps_fcontent by auto
    next
      case (Inr v)
      then have run2: "replaceFile catalogTmp ?p (x @ [CHR 0x0A]) 0x180 w1 = (r, w')" using some(3) by simp
      have "dirs w' = dirs w1" using cf.put_env [OF ne run2] by (simp add: same_env_def)
      moreover have "keeps q w w'" if "q \<noteq> ?p" "\<not> hasPrefix (last q) catalogTmp" for q
        using cf.put_frame [OF ne run2 that(1)] not_tmp_path [OF that(2)] k1 keeps_trans
        unfolding tmp_of_def by blast
      moreover have "durable w' ?p (x @ [CHR 0x0A])" if "r = Inr u" for u
        using cf.put_durable [OF ne] run2 that by blast
      moreover have "fcontent w' ?p = fcontent w ?p \<or> fcontent w' ?p = Some (x @ [CHR 0x0A])"
        using cf.put_old_or_new [OF ne run2] keeps_fcontent [OF k1] by simp
      ultimately show ?thesis using d1 some(1) by auto
    qed
  qed
  then show "?p \<notin> set (dirs w')"
    and "r = Inr u \<Longrightarrow> \<exists>x. json_catalog C \<lparr>cdEnforced = b, cdEntries = es\<rparr> = Some x
      \<and> durable w' ?p (x @ [CHR 0x0A])"
    and "fcontent w' ?p = fcontent w ?p
      \<or> (\<exists>x. json_catalog C \<lparr>cdEnforced = b, cdEntries = es\<rparr> = Some x
            \<and> fcontent w' ?p = Some (x @ [CHR 0x0A]))"
    and "q \<noteq> ?p \<Longrightarrow> \<not> hasPrefix (last q) catalogTmp \<Longrightarrow> keeps q w w'"
    by blast+
qed

text \<open>The world when the program, or the machine, starts again after \<open>w\<close>.\<close>

definition restarts :: "world \<Rightarrow> world \<Rightarrow> bool" where
  "restarts w v \<longleftrightarrow> faults v = [] \<and> (crash w v \<or> v = w\<lparr>faults := []\<rparr>)"

lemma restarts_durable: "restarts w v \<Longrightarrow> durable w p b \<Longrightarrow> fcontent v p = Some b \<and> dirs v = dirs w"
  using after_crash_restart_live [of w p "\<lambda>c. c = Some b" v] durable_live [of w p b]
  by (auto simp: restarts_def crash_def)

lemma persist_reload:
  assumes ok: "catlib_ok C" "entries_ok es" and pk: "catalog_path_ok (cPath c) w"
    and run: "persist C c b es w = (Inr u, w')" and v: "restarts w' v"
  shows "LoadCatalog C (cPath c) v = (Inr \<lparr>cPath = cPath c, cEnforced = b, cEntries = es\<rparr>, v)"
proof -
  let ?p = "toPath (cPath c)"
  obtain x where x: "json_catalog C \<lparr>cdEnforced = b, cdEntries = es\<rparr> = Some x" "durable w' ?p (x @ [CHR 0x0A])"
    using persist_cases(2) [OF pk run] by blast
  have "fcontent v ?p = Some (x @ [CHR 0x0A])" "?p \<notin> set (dirs v)" "faults v = []"
    using restarts_durable [OF v x(2)] persist_cases(1) [OF pk run] v by (auto simp: restarts_def)
  then have "readFile ?p v = (Inr (x @ [CHR 0x0A]), v)" by (simp add: readFile_no_fault)
  then show ?thesis
    using pk decodeCatalog_written [OF ok x(1)]
    by (simp add: LoadCatalog_def Let_def io_bind_def io_try_def catalog_path_ok_def)
qed

subsection \<open>The operations keep catalogs well-formed\<close>

lemma replaceEntry_spec:
  "replaceEntry entry es = (es', created) \<Longrightarrow>
     (created \<longleftrightarrow> ceType entry \<notin> ceType ` set es) \<and> map ceType es' = map ceType es
     \<and> (created \<longrightarrow> es' = es) \<and> (list_all entry_ok es \<and> entry_ok entry \<longrightarrow> list_all entry_ok es')
     \<and> (\<not> created \<longrightarrow> entry \<in> set es') \<and> (\<forall>e. ceType e \<noteq> ceType entry \<longrightarrow> e \<in> set es' \<longleftrightarrow> e \<in> set es)"
proof (induction entry es arbitrary: es' created rule: replaceEntry.induct)
  case (1 entry)
  then show ?case by simp
next
  case (2 entry e es)
  show ?case
  proof (cases "ceType e = ceType entry")
    case True
    then show ?thesis using "2.prems" by auto
  next
    case False
    then obtain es1 where "replaceEntry entry es = (es1, created)" "es' = e # es1"
      using "2.prems" by (auto split: prod.splits)
    then show ?thesis using "2.IH" [OF False] False by auto
  qed
qed

lemma Install_Inr:
  assumes ok: "entries_ok (cEntries c)" and run: "Install C c t cmds w = (Inr (entry, created, c'), w')"
  shows "entries_ok (cEntries c')" "cPath c' = cPath c" "cEnforced c'"
    "entry = \<lparr>ceType = trimSpace t, ceCommands = map trimSpace cmds\<rparr>" "entry \<in> set (cEntries c')"
    "created \<longleftrightarrow> trimSpace t \<notin> ceType ` set (cEntries c)"
    "ceType e \<noteq> trimSpace t \<Longrightarrow> e \<in> set (cEntries c') \<longleftrightarrow> e \<in> set (cEntries c)"
    "\<exists>u. persist C c True (cEntries c') w = (Inr u, w')"
proof -
  obtain entry1 where n1: "normalizeEntry \<lparr>ceType = t, ceCommands = cmds\<rparr> = Inr entry1"
    using run by (auto simp: Install_def io_iffs)
  obtain rep cr where r1: "replaceEntry entry1 (cEntries c) = (rep, cr)"
    by (cases "replaceEntry entry1 (cEntries c)")
  have n: "normalizeEntry \<lparr>ceType = t, ceCommands = cmds\<rparr> = Inr entry"
    and r: "replaceEntry entry (cEntries c) = (rep, created)"
    and l: "\<not> (created \<and> length rep \<ge> maxCatalogEntries)"
    and c': "c' = c\<lparr>cEnforced := True, cEntries := (if created then rep @ [entry] else rep)\<rparr>"
    and p: "\<exists>u. persist C c True (if created then rep @ [entry] else rep) w = (Inr u, w')"
    using run n1 r1 by (auto simp: Install_def io_iffs Let_def split: if_splits)
  note e = normalizeEntry_Inr [OF n]
  note rs = replaceEntry_spec [OF r]
  show en: "entry = \<lparr>ceType = trimSpace t, ceCommands = map trimSpace cmds\<rparr>"
    using e by (cases entry) simp
  show "cPath c' = cPath c" "cEnforced c'" by (simp_all add: c')
  show "\<exists>u. persist C c True (cEntries c') w = (Inr u, w')" using p by (simp add: c')
  show "entry \<in> set (cEntries c')" using rs by (auto simp: c')
  show "created \<longleftrightarrow> trimSpace t \<notin> ceType ` set (cEntries c)" using rs e by simp
  show "ceType e \<noteq> trimSpace t \<Longrightarrow> e \<in> set (cEntries c') \<longleftrightarrow> e \<in> set (cEntries c)"
    using rs e by (auto simp: c')
  have len: "length rep = length (cEntries c)" using rs by (metis length_map)
  show "entries_ok (cEntries c')"
    using rs e ok l len by (auto simp: c' entries_ok_def)
qed

lemma removeCatalogType_Inr:
  assumes ok: "entries_ok (cEntries c)" and run: "removeCatalogType C c t w = (Inr c', w')"
  shows "entries_ok (cEntries c')" "c' = c\<lparr>cEntries := filter (\<lambda>e. ceType e \<noteq> trimSpace t) (cEntries c)\<rparr>"
    "\<exists>u. persist C c (cEnforced c) (cEntries c') w = (Inr u, w')" "trimSpace t \<in> ceType ` set (cEntries c)"
proof -
  show c': "c' = c\<lparr>cEntries := filter (\<lambda>e. ceType e \<noteq> trimSpace t) (cEntries c)\<rparr>"
    and "\<exists>u. persist C c (cEnforced c) (cEntries c') w = (Inr u, w')" "trimSpace t \<in> ceType ` set (cEntries c)"
    using run by (auto simp: removeCatalogType_def Let_def io_iffs list_ex_iff intro: rev_image_eqI
        split: if_splits)
  have "length (filter (\<lambda>e. ceType e \<noteq> trimSpace t) (cEntries c)) \<le> maxCatalogEntries"
    using ok length_filter_le [of "\<lambda>e. ceType e \<noteq> trimSpace t" "cEntries c"]
    unfolding entries_ok_def by linarith
  then show "entries_ok (cEntries c')"
    using ok by (auto simp: c' entries_ok_def list_all_iff distinct_map_filter)
qed

lemma authorizeEntries_iff:
  "distinct (map ceType es) \<Longrightarrow> authorizeEntries es t cmd = Inr () \<longleftrightarrow>
     (\<exists>e \<in> set es. ceType e = t \<and> cmd \<in> set (ceCommands e))"
  by (induction es t cmd rule: authorizeEntries.induct) (auto simp: rev_image_eqI)

end
