(* ===== verification/Auth.thy ===== *)
theory Auth
  imports Catalog
begin

text \<open>
  Credentials (server/auth.go): loading and validating the auth file, authenticating a bearer
  token, adding and revoking tokens. SHA-256 and the JSON codec are the parameter \<open>authlib\<close>.
\<close>

subsection \<open>Data\<close>

record Principal =
  prID :: string
  prRole :: Role
  prAllow :: "Allow option"

record credentialRecord =
  crID :: string
  crRole :: string
  crSHA256 :: string
  crNotAfter :: "time option"
  crAllow :: "Allow option"

record credential =
  cdPrincipal :: Principal
  cdDigest :: bytes
  cdNotAfter :: "time option"

definition zeroPrincipal :: Principal where
  "zeroPrincipal = \<lparr>prID = [], prRole = RoleNone, prAllow = None\<rparr>"

record authlib =
  au_sha256 :: "bytes \<Rightarrow> bytes"
  json_creds :: "credentialRecord list \<Rightarrow> bytes option"
  dec_creds :: "bytes \<Rightarrow> (credentialRecord list \<times> bool) option"

text \<open>
  The tags \<^verbatim>\<open>omitempty\<close> on the lists of an \<^verbatim>\<open>Allow\<close>: an empty list is not written, so it
  is read back as nil.
\<close>

definition omit_list :: "string list option \<Rightarrow> string list option" where
  "omit_list xs = (if xs = Some [] then None else xs)"

definition omit_allow :: "Allow \<Rightarrow> Allow" where
  "omit_allow a = a\<lparr>alCommands := omit_list (alCommands a), alRefs := omit_list (alRefs a)\<rparr>"

definition written :: "credentialRecord \<Rightarrow> credentialRecord" where
  "written r = r\<lparr>crAllow := map_option omit_allow (crAllow r)\<rparr>"

definition utf8_list :: "string list option \<Rightarrow> bool" where
  "utf8_list xs = (case xs of None \<Rightarrow> True | Some ss \<Rightarrow> list_all utf8_valid ss)"

definition utf8_allow :: "Allow option \<Rightarrow> bool" where
  "utf8_allow a = (case a of None \<Rightarrow> True
     | Some al \<Rightarrow> list_all utf8_valid (alTypes al) \<and> utf8_list (alCommands al) \<and> utf8_list (alRefs al))"

definition utf8_record :: "credentialRecord \<Rightarrow> bool" where
  "utf8_record r \<longleftrightarrow> utf8_valid (crID r) \<and> utf8_valid (crRole r) \<and> utf8_valid (crSHA256 r)
     \<and> utf8_allow (crAllow r)"

text \<open>
  Documented behaviour: sums have 32 bytes; decoding gives valid UTF-8; decoding what was
  encoded gives it back, less what \<^verbatim>\<open>omitempty\<close> drops.
\<close>

definition authlib_ok :: "authlib \<Rightarrow> bool" where
  "authlib_ok A \<longleftrightarrow> (\<forall>b. length (au_sha256 A b) = 32)
     \<and> (\<forall>b rs e. dec_creds A b = Some (rs, e) \<longrightarrow> list_all utf8_record rs)
     \<and> (\<forall>rs b. list_all utf8_record rs \<longrightarrow> json_creds A rs = Some b \<longrightarrow>
          dec_creds A (b @ [CHR 0x0A]) = Some (map written rs, True))"

subsection \<open>Loading\<close>

definition id_char :: "char \<Rightarrow> bool" where
  "id_char c \<longleftrightarrow> alnum c \<or> c \<in> set ''._:@-''"

definition validCredentialID :: "string \<Rightarrow> bool" where
  "validCredentialID i = (if i = [] \<or> length i > 128 then False else list_all id_char i)"

definition id_error :: go_error where
  "id_error = GoError ''credential id must use 1-128 letters, digits, dots, colons, underscores, at signs, or hyphens'' []"

fun loadTokens :: "string list \<Rightarrow> bytes list \<Rightarrow> credentialRecord list \<Rightarrow> go_error + credential list" where
  "loadTokens seen seenDigests [] = Inr []"
| "loadTokens seen seenDigests (r # rs) =
     (let i = trimSpace (crID r) in
      if \<not> validCredentialID i
      then Inl (GoError ''tokens[%d].id must use 1-128 letters, digits, dots, colons, underscores, at signs, or hyphens'' [])
      else if i \<in> set seen then Inl (GoError ''duplicate credential id %q'' [i])
      else case parseRole (crRole r) of
          Inl e \<Rightarrow> Inl (Wrapped ''tokens[%d]: %w'' [] e)
        | Inr role \<Rightarrow>
      (case validateAllow (crAllow r) of
          Inl e \<Rightarrow> Inl (Wrapped ''tokens[%d]: %w'' [] e)
        | Inr allow \<Rightarrow>
      (case hex_decode (trimSpace (crSHA256 r)) of
          None \<Rightarrow> Inl (GoError ''tokens[%d].sha256 must be a 64-character SHA-256 hex digest'' [])
        | Some digest \<Rightarrow>
            if length digest \<noteq> 32
            then Inl (GoError ''tokens[%d].sha256 must be a 64-character SHA-256 hex digest'' [])
            else if digest \<in> set seenDigests
            then Inl (GoError ''tokens[%d] duplicates another token digest'' [])
            else bindE (loadTokens (i # seen) (digest # seenDigests) rs) (\<lambda>cs.
              Inr (\<lparr>cdPrincipal = \<lparr>prID = i, prRole = role, prAllow = allow\<rparr>,
                    cdDigest = digest, cdNotAfter = crNotAfter r\<rparr> # cs)))))"

definition no_token_error :: go_error where
  "no_token_error = GoError ''auth file must contain at least one token'' []"

definition one_object_error :: go_error where
  "one_object_error = GoError ''auth file must contain exactly one JSON object'' []"

definition readAuthFile :: "string \<Rightarrow> bytes io" where
  "readAuthFile path = io_bind (io_try (readFile (toPath path))) (\<lambda>r.
     case r of Inl e \<Rightarrow> io_fail (Wrapped ''read auth file: %w'' [] e) | Inr raw \<Rightarrow> io_ret raw)"

definition LoadAuthenticator :: "authlib \<Rightarrow> string \<Rightarrow> credential list io" where
  "LoadAuthenticator A path =
     io_bind (readAuthFile path) (\<lambda>raw.
       case dec_creds A raw of
         None \<Rightarrow> io_fail (Wrapped ''decode auth file: %w'' [] (GoError ''json'' []))
       | Some (rs, atEOF) \<Rightarrow>
           if length rs = 0 then io_fail no_token_error
           else io_bind (io_lift (loadTokens [] [] rs)) (\<lambda>creds.
             if \<not> atEOF then io_fail one_object_error else io_ret creds))"

text \<open>The second reader checks the end of the file before the number of tokens.\<close>

definition loadCredentialFile :: "authlib \<Rightarrow> string \<Rightarrow> credentialRecord list io" where
  "loadCredentialFile A path =
     io_bind (readAuthFile path) (\<lambda>raw.
       case dec_creds A raw of
         None \<Rightarrow> io_fail (Wrapped ''decode auth file: %w'' [] (GoError ''json'' []))
       | Some (rs, atEOF) \<Rightarrow>
           if \<not> atEOF then io_fail one_object_error
           else if length rs = 0 then io_fail no_token_error
           else io_ret rs)"

subsection \<open>Authenticating\<close>

text \<open>Every credential is compared; \<open>found\<close> is the bit that \<^verbatim>\<open>|=\<close> accumulates.\<close>

fun matchLoop :: "bytes \<Rightarrow> time \<Rightarrow> Principal \<Rightarrow> bool \<Rightarrow> credential list \<Rightarrow> Principal \<times> bool" where
  "matchLoop digest now matched found [] = (matched, found)"
| "matchLoop digest now matched found (c # cs) =
     (let equal = (digest = cdDigest c);
          active = (case cdNotAfter c of None \<Rightarrow> True | Some t \<Rightarrow> now < t)
      in matchLoop digest now (if equal \<and> active then cdPrincipal c else matched)
           (if active then found \<or> equal else found) cs)"

definition Authenticate :: "authlib \<Rightarrow> credential list \<Rightarrow> time \<Rightarrow> string \<Rightarrow> Principal \<times> bool" where
  "Authenticate A creds now token =
     (if length token < 32 \<or> length token > 512 then (zeroPrincipal, False)
      else matchLoop (au_sha256 A token) now zeroPrincipal False creds)"

subsection \<open>Adding and revoking\<close>

definition authTmp :: string where
  "authTmp = ''.jaybase-auth-''"

definition writeCredentialFile :: "authlib \<Rightarrow> string \<Rightarrow> credentialRecord list \<Rightarrow> unit io" where
  "writeCredentialFile A path rs =
     (case json_creds A rs of
        None \<Rightarrow> io_fail (GoError ''json: unsupported value'' [])
      | Some contents \<Rightarrow> replaceFile authTmp (toPath path) (contents @ [CHR 0x0A]) 0x180)"

definition AddToken ::
    "authlib \<Rightarrow> string \<Rightarrow> string \<Rightarrow> string \<Rightarrow> string \<Rightarrow> time option \<Rightarrow> Allow option \<Rightarrow> unit io" where
  "AddToken A path id0 role token notAfter allow0 =
     io_bind (LoadAuthenticator A path) (\<lambda>_.
     io_bind (loadCredentialFile A path) (\<lambda>rs.
     let i = trimSpace id0 in
     if \<not> validCredentialID i then io_fail id_error
     else io_bind (io_lift (parseRole role)) (\<lambda>parsedRole.
     if length token < 32 \<or> length token > 512
     then io_fail (GoError ''token must be between 32 and 512 characters'' [])
     else io_bind readClock (\<lambda>now.
     if notAfter \<noteq> None \<and> \<not> the notAfter > now
     then io_fail (GoError ''not_after must be in the future'' [])
     else io_bind (io_lift (validateAllow allow0)) (\<lambda>allow.
     if list_ex (\<lambda>r. trimSpace (crID r) = i) rs
     then io_fail (GoError ''credential id %q already exists'' [i])
     else let digest = hex_encode (au_sha256 A token) in
       if list_ex (\<lambda>r. equalFold (trimSpace (crSHA256 r)) digest) rs
       then io_fail (GoError ''token digest already exists'' [])
       else writeCredentialFile A path (rs @ [\<lparr>crID = i, crRole = roleString parsedRole,
              crSHA256 = digest, crNotAfter = notAfter, crAllow = allow\<rparr>]))))))"

definition recordActive :: "time \<Rightarrow> credentialRecord \<Rightarrow> bool" where
  "recordActive now r = (case crNotAfter r of None \<Rightarrow> True | Some t \<Rightarrow> now < t)"

definition RevokeToken :: "authlib \<Rightarrow> string \<Rightarrow> string \<Rightarrow> unit io" where
  "RevokeToken A path id0 =
     io_bind (LoadAuthenticator A path) (\<lambda>_.
     io_bind (loadCredentialFile A path) (\<lambda>rs.
     let i = trimSpace id0; filtered = filter (\<lambda>r. trimSpace (crID r) \<noteq> i) rs in
     if \<not> list_ex (\<lambda>r. trimSpace (crID r) = i) rs
     then io_fail (GoError ''credential id %q was not found'' [i])
     else io_bind readClock (\<lambda>now.
       if \<not> list_ex (recordActive now) filtered
       then io_fail (GoError ''refusing to revoke the final active credential'' [])
       else writeCredentialFile A path filtered)))"

subsection \<open>What a loaded file means\<close>

text \<open>One record, on its own.\<close>

definition convert :: "credentialRecord \<Rightarrow> credential option" where
  "convert r =
     (if validCredentialID (trimSpace (crID r)) then
        (case (parseRole (crRole r), validateAllow (crAllow r), hex_decode (trimSpace (crSHA256 r))) of
           (Inr role, Inr allow, Some digest) \<Rightarrow>
             if length digest = 32
             then Some \<lparr>cdPrincipal = \<lparr>prID = trimSpace (crID r), prRole = role, prAllow = allow\<rparr>,
                        cdDigest = digest, cdNotAfter = crNotAfter r\<rparr>
             else None
         | _ \<Rightarrow> None)
      else None)"

definition cdID :: "credential \<Rightarrow> string" where
  "cdID c = prID (cdPrincipal c)"

lemma convert_Some: "convert r = Some c \<Longrightarrow> cdID c = trimSpace (crID r) \<and> cdNotAfter c = crNotAfter r
    \<and> hex_decode (trimSpace (crSHA256 r)) = Some (cdDigest c) \<and> length (cdDigest c) = 32
    \<and> validCredentialID (trimSpace (crID r)) \<and> validateAllow (crAllow r) = Inr (prAllow (cdPrincipal c))
    \<and> parseRole (crRole r) = Inr (prRole (cdPrincipal c))"
  by (auto simp: convert_def cdID_def split: if_splits sum.splits option.splits)

lemma loadTokens_iff:
  "loadTokens seen seenD rs = Inr cs \<longleftrightarrow>
     list_all2 (\<lambda>r c. convert r = Some c) rs cs \<and> distinct (map cdID cs) \<and> distinct (map cdDigest cs)
     \<and> set (map cdID cs) \<inter> set seen = {} \<and> set (map cdDigest cs) \<inter> set seenD = {}"
proof (induction rs arbitrary: seen seenD cs)
  case Nil
  then show ?case by auto
next
  case (Cons r rs)
  show ?case
  proof (cases "convert r")
    case None
    then show ?thesis
      by (auto simp: convert_def Let_def list_all2_Cons1 bindE_Inr_iff split: if_splits sum.splits option.splits)
  next
    case (Some c)
    note c = convert_Some [OF Some]
    have step: "loadTokens seen seenD (r # rs) =
        (if cdID c \<in> set seen then Inl (GoError ''duplicate credential id %q'' [cdID c])
         else if cdDigest c \<in> set seenD then Inl (GoError ''tokens[%d] duplicates another token digest'' [])
         else bindE (loadTokens (cdID c # seen) (cdDigest c # seenD) rs) (\<lambda>cs. Inr (c # cs)))"
    proof -
      obtain role allow digest where "parseRole (crRole r) = Inr role"
          "validateAllow (crAllow r) = Inr allow" "hex_decode (trimSpace (crSHA256 r)) = Some digest"
          "length digest = 32" "validCredentialID (trimSpace (crID r))"
          "c = \<lparr>cdPrincipal = \<lparr>prID = trimSpace (crID r), prRole = role, prAllow = allow\<rparr>,
             cdDigest = digest, cdNotAfter = crNotAfter r\<rparr>"
        using Some by (auto simp: convert_def split: if_splits sum.splits option.splits)
      then show ?thesis by (simp add: Let_def cdID_def)
    qed
    show ?thesis
      unfolding step using Some
      by (auto simp: list_all2_Cons1 bindE_Inr_iff Cons.IH disjoint_iff) (metis image_eqI)+
  qed
qed

lemma matchLoop_result:
  "distinct (map cdDigest cs) \<Longrightarrow>
   matchLoop d now m f cs =
     (case find (\<lambda>c. cdDigest c = d \<and> (case cdNotAfter c of None \<Rightarrow> True | Some t \<Rightarrow> now < t)) cs of
        None \<Rightarrow> (m, f) | Some c \<Rightarrow> (cdPrincipal c, True))"
proof (induction cs arbitrary: m f)
  case Nil
  then show ?case by simp
next
  case (Cons c cs)
  let ?P = "\<lambda>c. cdDigest c = d \<and> (case cdNotAfter c of None \<Rightarrow> True | Some t \<Rightarrow> now < t)"
  have none: "find ?P cs = None" if "cdDigest c = d"
  proof -
    have "\<forall>x \<in> set cs. cdDigest x \<noteq> d" using that Cons.prems by (auto simp: rev_image_eqI)
    then show ?thesis by (auto simp: find_None_iff)
  qed
  show ?case using Cons none by (auto simp: Let_def split: option.splits)
qed

definition active_at :: "time \<Rightarrow> credential \<Rightarrow> bool" where
  "active_at now c = (case cdNotAfter c of None \<Rightarrow> True | Some t \<Rightarrow> now < t)"

text \<open>A token gets in through one credential, active and with its digest, and no other way.\<close>

lemma Authenticate_iff:
  assumes "distinct (map cdDigest creds)"
  shows "Authenticate A creds now token = (p, True) \<longleftrightarrow>
    32 \<le> length token \<and> length token \<le> 512
    \<and> (\<exists>c \<in> set creds. cdDigest c = au_sha256 A token \<and> active_at now c \<and> p = cdPrincipal c)"
    (is "?l \<longleftrightarrow> ?r")
proof -
  let ?P = "\<lambda>c. cdDigest c = au_sha256 A token \<and> (case cdNotAfter c of None \<Rightarrow> True | Some t \<Rightarrow> now < t)"
  show ?thesis
  proof (cases "find ?P creds")
    case None
    then have "\<forall>c \<in> set creds. \<not> ?P c" by (auto simp: find_None_iff)
    then have "\<not> ?r" by (auto simp: active_at_def)
    then show ?thesis using None by (simp add: Authenticate_def matchLoop_result [OF assms])
  next
    case (Some c)
    then have c: "?P c" "c \<in> set creds" by (auto simp: find_Some_iff)
    have "d = c" if "d \<in> set creds" "cdDigest d = au_sha256 A token" for d
      using that c assms by (metis distinct_map inj_onD)
    then have r: "?r \<longleftrightarrow> 32 \<le> length token \<and> length token \<le> 512 \<and> p = cdPrincipal c"
      using c unfolding active_at_def by blast
    have "Authenticate A creds now token = (if length token < 32 \<or> length token > 512
        then (zeroPrincipal, False) else (cdPrincipal c, True))"
      using Some by (simp add: Authenticate_def matchLoop_result [OF assms])
    then show ?thesis unfolding r by auto
  qed
qed

end
