(* ===== verification/Codec.thy ===== *)
theory Codec
  imports StoreRun Auth
begin

text \<open>
  A small concrete codec with its round trips. It instantiates the library parameters
  (\<open>golib\<close>, \<open>catlib\<close>, \<open>authlib\<close>), which shows that what is assumed of them can hold, and it is
  what the witnesses evaluate.
\<close>

subsection \<open>Encoders and decoders\<close>

type_synonym 'a enc = "'a \<Rightarrow> bytes"
type_synonym 'a dec = "bytes \<Rightarrow> ('a \<times> bytes) option"

definition round_trip :: "'a enc \<Rightarrow> 'a dec \<Rightarrow> bool" where
  "round_trip e d \<longleftrightarrow> (\<forall>x r. d (e x @ r) = Some (x, r))"

lemma round_tripD: "round_trip e d \<Longrightarrow> d (e x @ r) = Some (x, r)"
  by (simp add: round_trip_def)

text \<open>Strings end at a quote; quotes and backslashes inside are escaped.\<close>

fun enc_str :: "string \<Rightarrow> bytes" where
  "enc_str [] = [CHR 0x22]"
| "enc_str (c # s) = (if c \<in> {CHR 0x22, CHR 0x5C} then [CHR 0x5C, c] else [c]) @ enc_str s"

fun dec_str :: "bytes \<Rightarrow> (string \<times> bytes) option" where
  "dec_str [] = None"
| "dec_str (c # s) =
     (if c = CHR 0x22 then Some ([], s)
      else if c = CHR 0x5C then
        (case s of [] \<Rightarrow> None
         | x # t \<Rightarrow> (case dec_str t of None \<Rightarrow> None | Some (a, r) \<Rightarrow> Some (x # a, r)))
      else case dec_str s of None \<Rightarrow> None | Some (a, r) \<Rightarrow> Some (c # a, r))"

lemma rt_str: "round_trip enc_str dec_str"
proof -
  have "dec_str (enc_str x @ r) = Some (x, r)" for x r
    by (induction x) auto
  then show ?thesis by (simp add: round_trip_def)
qed

definition enc_map :: "('b \<Rightarrow> 'a) \<Rightarrow> 'a enc \<Rightarrow> 'b enc" where
  "enc_map f e x = e (f x)"

definition dec_map :: "('a \<Rightarrow> 'b) \<Rightarrow> 'a dec \<Rightarrow> 'b dec" where
  "dec_map g d s = (case d s of None \<Rightarrow> None | Some (x, r) \<Rightarrow> Some (g x, r))"

lemma rt_map: "round_trip e d \<Longrightarrow> (\<And>x. g (f x) = x) \<Longrightarrow> round_trip (enc_map f e) (dec_map g d)"
  by (simp add: round_trip_def enc_map_def dec_map_def)

definition enc_pair :: "'a enc \<Rightarrow> 'b enc \<Rightarrow> ('a \<times> 'b) enc" where
  "enc_pair e f p = e (fst p) @ f (snd p)"

definition dec_pair :: "'a dec \<Rightarrow> 'b dec \<Rightarrow> ('a \<times> 'b) dec" where
  "dec_pair d g s = (case d s of None \<Rightarrow> None
     | Some (x, r) \<Rightarrow> (case g r of None \<Rightarrow> None | Some (y, t) \<Rightarrow> Some ((x, y), t)))"

lemma rt_pair: "round_trip e d \<Longrightarrow> round_trip f g \<Longrightarrow> round_trip (enc_pair e f) (dec_pair d g)"
  by (simp add: round_trip_def enc_pair_def dec_pair_def)

definition enc_opt :: "'a enc \<Rightarrow> 'a option enc" where
  "enc_opt e x = (case x of None \<Rightarrow> ''n'' | Some y \<Rightarrow> CHR ''s'' # e y)"

definition dec_opt :: "'a dec \<Rightarrow> 'a option dec" where
  "dec_opt d s = (case s of [] \<Rightarrow> None
     | c # t \<Rightarrow> if c = CHR ''n'' then Some (None, t)
         else (case d t of None \<Rightarrow> None | Some (x, r) \<Rightarrow> Some (Some x, r)))"

lemma rt_opt: "round_trip e d \<Longrightarrow> round_trip (enc_opt e) (dec_opt d)"
  by (auto simp: round_trip_def enc_opt_def dec_opt_def split: option.split)

definition enc_bool :: "bool enc" where
  "enc_bool b = (if b then ''t'' else ''f'')"

definition dec_bool :: "bool dec" where
  "dec_bool s = (case s of [] \<Rightarrow> None | c # t \<Rightarrow> Some (c = CHR ''t'', t))"

lemma rt_bool: "round_trip enc_bool dec_bool"
  by (simp add: round_trip_def enc_bool_def dec_bool_def)

text \<open>Lists: every element has a mark in front; the fuel is the length of the input.\<close>

fun enc_list :: "'a enc \<Rightarrow> 'a list enc" where
  "enc_list e [] = ''e''"
| "enc_list e (x # xs) = CHR ''i'' # e x @ enc_list e xs"

fun dec_list_fuel :: "'a dec \<Rightarrow> nat \<Rightarrow> 'a list dec" where
  "dec_list_fuel d 0 s = None"
| "dec_list_fuel d (Suc n) s = (case s of [] \<Rightarrow> None
     | c # t \<Rightarrow> if c = CHR ''e'' then Some ([], t)
         else (case d t of None \<Rightarrow> None
           | Some (x, r) \<Rightarrow> (case dec_list_fuel d n r of None \<Rightarrow> None
               | Some (xs, r') \<Rightarrow> Some (x # xs, r'))))"

definition dec_list :: "'a dec \<Rightarrow> 'a list dec" where
  "dec_list d s = dec_list_fuel d (length s) s"

lemma dec_list_fuel_enc:
  "round_trip e d \<Longrightarrow> length xs < n \<Longrightarrow> dec_list_fuel d n (enc_list e xs @ r) = Some (xs, r)"
proof (induction xs arbitrary: n)
  case Nil
  then show ?case by (cases n) auto
next
  case (Cons x xs)
  then show ?case by (cases n) (auto simp: round_tripD)
qed

lemma length_enc_list: "length xs < length (enc_list e xs)"
  by (induction xs) auto

lemma rt_list: "round_trip e d \<Longrightarrow> round_trip (enc_list e) (dec_list d)"
  unfolding round_trip_def [of "enc_list e"] dec_list_def
  by (metis dec_list_fuel_enc length_append length_enc_list trans_less_add1)

text \<open>Integers: a sign and the binary digits, lowest first.\<close>

fun bits_of :: "nat \<Rightarrow> bool list" where
  "bits_of n = (if n = 0 then [] else (n mod 2 = 1) # bits_of (n div 2))"

declare bits_of.simps [simp del]

fun of_bits :: "bool list \<Rightarrow> nat" where
  "of_bits [] = 0"
| "of_bits (b # bs) = (if b then 1 else 0) + 2 * of_bits bs"

lemma of_bits_bits_of [simp]: "of_bits (bits_of n) = n"
proof (induction n rule: bits_of.induct)
  case (1 n)
  then show ?case
    by (subst bits_of.simps) (auto simp: mod_2_eq_odd split: if_splits)
qed

definition enc_int :: "int enc" where
  "enc_int = enc_map (\<lambda>i. (i < 0, bits_of (nat \<bar>i\<bar>))) (enc_pair enc_bool (enc_list enc_bool))"

definition dec_int :: "int dec" where
  "dec_int = dec_map (\<lambda>(neg, bs). if neg then - int (of_bits bs) else int (of_bits bs))
     (dec_pair dec_bool (dec_list dec_bool))"

lemma rt_int: "round_trip enc_int dec_int"
  unfolding enc_int_def dec_int_def
  by (rule rt_map [OF rt_pair [OF rt_bool rt_list [OF rt_bool]]]) auto

lemmas round_trips = rt_str rt_pair rt_opt rt_bool rt_list rt_int

subsection \<open>The store's library\<close>

type_synonym content_tuple =
  "int \<times> string \<times> string \<times> string list \<times> string \<times> (string \<times> string \<times> string) option
   \<times> string \<times> string \<times> string \<times> int \<times> string \<times> string"

definition content_tuple :: "nodeContent \<Rightarrow> content_tuple" where
  "content_tuple c = (nSchema c, nType c, nEntityID c, nParents c, nPayload c,
     map_option (\<lambda>e. (Algorithm e, Nonce e, Ciphertext e)) (nSealedPayload c),
     nActor c, nRole c, nCommand c, nCreatedAt c, nRequestID c, nRequestHash c)"

definition tuple_content :: "content_tuple \<Rightarrow> nodeContent" where
  "tuple_content = (\<lambda>(sc, ty, en, ps, pl, se, ac, ro, co, cr, ri, rh).
     \<lparr>nSchema = sc, nType = ty, nEntityID = en, nParents = ps, nPayload = pl,
      nSealedPayload = map_option (\<lambda>(a, n, c). \<lparr>Algorithm = a, Nonce = n, Ciphertext = c\<rparr>) se,
      nActor = ac, nRole = ro, nCommand = co, nCreatedAt = cr, nRequestID = ri, nRequestHash = rh\<rparr>)"

lemma sealed_id: "(\<lambda>e. \<lparr>Algorithm = Algorithm e, Nonce = Nonce e, Ciphertext = Ciphertext e\<rparr>) = id"
  by (simp add: fun_eq_iff)

lemma entry_id: "(\<lambda>e. \<lparr>ceType = ceType e, ceCommands = ceCommands e\<rparr>) = id"
  by (simp add: fun_eq_iff)

lemma tuple_content_tuple [simp]: "tuple_content (content_tuple c) = c"
  by (cases c)
    (simp add: tuple_content_def content_tuple_def option.map_comp comp_def sealed_id option.map_id)

definition enc_content :: "nodeContent enc" where
  "enc_content = enc_map content_tuple
     (enc_pair enc_int (enc_pair enc_str (enc_pair enc_str (enc_pair (enc_list enc_str)
     (enc_pair enc_str (enc_pair (enc_opt (enc_pair enc_str (enc_pair enc_str enc_str)))
     (enc_pair enc_str (enc_pair enc_str (enc_pair enc_str (enc_pair enc_int
     (enc_pair enc_str enc_str)))))))))))"

definition dec_content :: "nodeContent dec" where
  "dec_content = dec_map tuple_content
     (dec_pair dec_int (dec_pair dec_str (dec_pair dec_str (dec_pair (dec_list dec_str)
     (dec_pair dec_str (dec_pair (dec_opt (dec_pair dec_str (dec_pair dec_str dec_str)))
     (dec_pair dec_str (dec_pair dec_str (dec_pair dec_str (dec_pair dec_int
     (dec_pair dec_str dec_str)))))))))))"

lemma rt_content: "round_trip enc_content dec_content"
  unfolding enc_content_def dec_content_def by (rule rt_map) (intro round_trips, simp)

definition enc_node :: "Node enc" where
  "enc_node = enc_map (\<lambda>n. (content_of n, nHash n)) (enc_pair enc_content enc_str)"

definition dec_node :: "Node dec" where
  "dec_node = dec_map (\<lambda>(c, h). mkNode c h) (dec_pair dec_content dec_str)"

lemma mkNode_content_of [simp]: "mkNode (content_of n) (nHash n) = n"
  by (cases n) (simp add: mkNode_def content_of_def nodeContent.truncate_def)

lemma rt_node: "round_trip enc_node dec_node"
  unfolding enc_node_def dec_node_def by (rule rt_map) (intro round_trips rt_content, simp)

text \<open>
  A checksum of 32 bytes (the last ones, backwards), and a cipher that puts key and nonce in
  front of the text.
\<close>

definition demo_sum :: "bytes \<Rightarrow> bytes" where
  "demo_sum b = take 32 (rev b @ replicate 32 (CHR ''0''))"

definition demoL :: golib where
  "demoL = \<lparr>sha256 = demo_sum,
     gcm_seal = (\<lambda>key nonce p. key @ nonce @ p),
     gcm_open = (\<lambda>key nonce c. if hasPrefix c (key @ nonce) then Some (drop (length (key @ nonce)) c) else None),
     json_content = (\<lambda>c. Some (enc_content c)),
     json_node = (\<lambda>n. Some (enc_node n)),
     json_parse_node = (\<lambda>b. map_option fst (dec_node b)),
     json_raw = Some\<rparr>"

lemma demoL_ok: "golib_ok demoL"
proof -
  have g: "hasPrefix (k @ n @ p) (k @ n)" for k n p :: string
    using hasPrefix_append [of "k @ n" p] by simp
  have c: "c = c'" if "enc_content c = enc_content c'" for c c'
    using round_tripD [OF rt_content, of c "[]"] round_tripD [OF rt_content, of c' "[]"] that by simp
  show ?thesis
    unfolding golib_ok_def
    by (auto simp: demoL_def demo_sum_def g round_tripD [OF rt_node] hasPrefix_iff intro: c)
qed

subsection \<open>The libraries of catalog and credentials\<close>

definition enc_doc :: "catalogDocument enc" where
  "enc_doc = enc_map (\<lambda>d. (cdEnforced d, map (\<lambda>e. (ceType e, ceCommands e)) (cdEntries d)))
     (enc_pair enc_bool (enc_list (enc_pair enc_str (enc_list enc_str))))"

definition dec_doc :: "catalogDocument dec" where
  "dec_doc = dec_map (\<lambda>(b, es). \<lparr>cdEnforced = b,
       cdEntries = map (\<lambda>(t, cs). \<lparr>ceType = t, ceCommands = cs\<rparr>) es\<rparr>)
     (dec_pair dec_bool (dec_list (dec_pair dec_str (dec_list dec_str))))"

lemma rt_doc: "round_trip enc_doc dec_doc"
  unfolding enc_doc_def dec_doc_def by (rule rt_map) (intro round_trips, simp add: comp_def entry_id)

definition demoC :: catlib where
  "demoC = \<lparr>json_catalog = (\<lambda>d. Some (enc_doc d)),
     dec_catalog = (\<lambda>b. map_option (\<lambda>(d, r). (d, r = [CHR 0x0A])) (dec_doc b))\<rparr>"

lemma demoC_ok: "catlib_ok demoC"
  by (auto simp: catlib_ok_def demoC_def round_tripD [OF rt_doc])

definition enc_allow :: "Allow enc" where
  "enc_allow = enc_map (\<lambda>a. (alTypes a, alCommands a, alRefs a))
     (enc_pair (enc_list enc_str) (enc_pair (enc_opt (enc_list enc_str)) (enc_opt (enc_list enc_str))))"

definition dec_allow :: "Allow dec" where
  "dec_allow = dec_map (\<lambda>(t, c, r). \<lparr>alTypes = t, alCommands = c, alRefs = r\<rparr>)
     (dec_pair (dec_list dec_str) (dec_pair (dec_opt (dec_list dec_str)) (dec_opt (dec_list dec_str))))"

lemma rt_allow: "round_trip enc_allow dec_allow"
  unfolding enc_allow_def dec_allow_def by (rule rt_map) (intro round_trips, simp)

definition enc_record :: "credentialRecord enc" where
  "enc_record = enc_map (\<lambda>r. (crID r, crRole r, crSHA256 r, crNotAfter r, crAllow r))
     (enc_pair enc_str (enc_pair enc_str (enc_pair enc_str (enc_pair (enc_opt enc_int) (enc_opt enc_allow)))))"

definition dec_record :: "credentialRecord dec" where
  "dec_record = dec_map (\<lambda>(i, ro, s, t, a).
       \<lparr>crID = i, crRole = ro, crSHA256 = s, crNotAfter = t, crAllow = a\<rparr>)
     (dec_pair dec_str (dec_pair dec_str (dec_pair dec_str (dec_pair (dec_opt dec_int) (dec_opt dec_allow)))))"

lemma rt_record: "round_trip enc_record dec_record"
  unfolding enc_record_def dec_record_def by (rule rt_map) (intro round_trips rt_allow, simp)

definition demoA :: authlib where
  "demoA = \<lparr>au_sha256 = demo_sum,
     json_creds = (\<lambda>rs. Some (enc_list enc_record (map written rs))),
     dec_creds = (\<lambda>b. case dec_list dec_record b of None \<Rightarrow> None
        | Some (rs, r) \<Rightarrow> if list_all utf8_record rs then Some (rs, r = [CHR 0x0A]) else None)\<rparr>"

lemma utf8_written [simp]: "utf8_record r \<Longrightarrow> utf8_record (written r)"
  by (cases "crAllow r")
    (auto simp: utf8_record_def written_def utf8_allow_def omit_allow_def omit_list_def utf8_list_def)

lemma demoA_ok: "authlib_ok demoA"
  using round_tripD [OF rt_list [OF rt_record]]
  by (auto simp: authlib_ok_def demoA_def demo_sum_def list_all_iff split: option.splits if_splits)

end
