(* ===== verification/StoreProgress.thy ===== *)
theory StoreProgress
  imports StoreRun
begin

text \<open>
  Progress: when no call fails, a well-formed append succeeds and a store whose disk is sound
  opens. And the frame of an append: no file is touched but the new node's, the root ref and
  temporary names.
\<close>

text \<open>What \<^verbatim>\<open>openStore\<close> makes sure of before anything is written.\<close>


definition store_dirs_made :: "path \<Rightarrow> world \<Rightarrow> bool" where
  "store_dirs_made dir w \<longleftrightarrow> dir @ [''objects'', ''nodes''] \<in> set (dirs w) \<and> dir @ [''refs''] \<in> set (dirs w)"

text \<open>The codec encodes every value of the two types.\<close>

definition codec_total :: "golib \<Rightarrow> bool" where
  "codec_total L \<longleftrightarrow> (\<forall>c. json_content L c \<noteq> None) \<and> (\<forall>n. json_node L n \<noteq> None)"

lemma prepareNode_succeeds:
  assumes ff: "faults w = []" and nd: "rootPath (sdir s) \<notin> set (dirs w)"
    and rt: "rootval (fcontent w (rootPath (sdir s))) = indexedRoot s"
    and ty: "trimSpace (oType opts) \<noteq> []" and er: "er = None \<or> er = Some (indexedRoot s)"
    and raw: "json_marshal L (oPayload opts) = Some raw" and key: "aes_key (skey s)"
    and tot: "codec_total L"
  shows "\<exists>n w1. prepareNode L s ctx opts er w = (Inr n, w1) \<and> faults w1 = []"
proof -
  have cr: "currentRoot (sdir s) w = (Inr (indexedRoot s), w)"
    using currentRoot_no_fault [OF ff nd] rt by simp
  obtain sealed w1 where e: "encryptPayload L (skey s) raw w = (Inr sealed, w1)" "faults w1 = []"
    using key ff by (auto simp: encryptPayload_def io_defs readRandom_def syscall_no_fault)
  have now: "storeNow s w1 = (Inr (snow s (wall w1)), w1)"
    by (simp add: storeNow_def readClock_def io_defs)
  obtain jf where js: "\<And>x. json_content L x = Some (jf x)"
    using tot that [of "\<lambda>x. the (json_content L x)"] by (auto simp: codec_total_def)
  have o: "oPayload (trimOptions opts) = oPayload opts" "oCreatedAt (trimOptions opts) = oCreatedAt opts"
      "oType (trimOptions opts) = trimSpace (oType opts)"
    by (simp_all add: trimOptions_def)
  show ?thesis
    using er
    by (elim disjE; cases "isZero (oCreatedAt opts)";
        subst prepareNode_def; simp add: Let_def io_bind_def cr ty raw e now o js)
qed

lemma publishNode_succeeds:
  assumes ff: "faults w = []" and d: "store_dirs_made (sdir s) w" and h: "valid_hash (nHash n)"
    and nd: "NodePath (sdir s) (nHash n) \<notin> set (dirs w)"
    and fr: "map_of (ents w) (NodePath (sdir s) (nHash n)) = None" and tot: "codec_total L"
  shows "\<exists>w'. publishNode L s n w = (Inr (), w') \<and> faults w' = []"
proof -
  let ?p = "NodePath (sdir s) (nHash n)"
  obtain b where b: "json_node L n = Some b" using tot by (auto simp: codec_total_def)
  have st: "statFile ?p w = (Inl (OsError ENOENT), w)"
    using ff nd fr by (simp add: statFile_def syscall_no_fault)
  have "?p \<noteq> tmp_path w (butlast ?p) ''.jaybase-node-''" using NodePath_not_tmp [OF h] by blast
  then obtain w' where "atomicCreateFile ?p (b @ newline) 0x180 w = (Inr (), w') \<and> faults w' = []"
    using atomicCreateFile_succeeds [OF ff _ nd fr] d by (auto simp: store_dirs_made_def)
  then show ?thesis by (simp add: publishNode_def io_defs st b)
qed

text \<open>Without failures a well-formed append at the current root succeeds.\<close>

lemma append_succeeds:
  assumes ok: "golib_ok L" and inv: "store_inv L s w ns (length ns) k" and ff: "faults w = []"
    and d: "store_dirs_made (sdir s) w" and ty: "trimSpace (oType opts) \<noteq> []"
    and er: "er = None \<or> er = Some (tip ns)" and raw: "json_marshal L (oPayload opts) = Some raw"
    and key: "aes_key (skey s)" and tot: "codec_total L" and fr: "fresh_address L s ctx opts er w"
  shows "\<exists>h s' w'. append L s ctx opts er w = (Inr (h, s'), w') \<and> faults w' = []
    \<and> store_dirs_made (sdir s) w'"
proof -
  have di: "disk_inv L (sdir s) w ns k" and ix: "indexedRoot s = tip ns"
    using inv by (auto simp: store_inv_def indexed_root)
  have rt: "rootval (fcontent w (rootPath (sdir s))) = indexedRoot s" "rootPath (sdir s) \<notin> set (dirs w)"
    using di ix by (auto simp: disk_inv_def)
  have er': "er = None \<or> er = Some (indexedRoot s)" using er ix by simp
  obtain n w1 where p: "prepareNode L s ctx opts er w = (Inr n, w1)" "faults w1 = []"
    using prepareNode_succeeds [OF ff rt(2,1) ty er' raw key tot] by blast
  have q: "quiet w w1" using prepareNode_quiet [OF p(1)] .
  have h: "valid_hash (nHash n)" using prepareNode_Inr [OF ok p(1)] event_of_hash(1) [OF ok] by blast
  have np: "NodePath (sdir s) (nHash n) \<notin> set (dirs w1)"
      "map_of (ents w1) (NodePath (sdir s) (nHash n)) = None"
    using fr p(1) q by (auto simp: fresh_address_def quiet_def)
  have d1: "store_dirs_made (sdir s) w1" using d q by (simp add: store_dirs_made_def quiet_def)
  obtain w2 where b: "publishNode L s n w1 = (Inr (), w2)" "faults w2 = []"
    using publishNode_succeeds [OF p(2) d1 h np tot] by blast
  have dd: "dirs w2 = dirs w" using publishNode_post(1) [OF b(1) h np(2)] q by (simp add: quiet_def)
  have d2: "butlast (rootPath (sdir s)) \<in> set (dirs w2)" "rootPath (sdir s) \<notin> set (dirs w2)"
    using d rt(2) dd by (auto simp: store_dirs_made_def rootPath_def butlast_append)
  obtain w3 where w3: "atomicWriteFile (rootPath (sdir s)) (nHash n @ newline) 0x180 w2 = (Inr (), w3)" "faults w3 = []"
    using wf.succeeds [OF b(2) d2] by blast
  have ne: "rootPath (sdir s) \<noteq> tmp_of ''.jaybase-write-'' w2 (rootPath (sdir s))"
    using app_path_not_tmp [OF app_path_rootPath, of "sdir s" w2 "butlast (rootPath (sdir s))" "''write-''"]
    by (simp add: tmp_of_def)
  have "dirs w3 = dirs w2" using wf.put_env [OF ne w3(1)] by (simp add: same_env_def)
  then have "store_dirs_made (sdir s) w3" using d dd by (simp add: store_dirs_made_def)
  moreover have "append L s ctx opts er w = (Inr (nHash n, recordNode s n), w3)"
    by (simp add: append_def io_bind_def p(1) b(1) w3(1))
  ultimately show ?thesis using w3(2) by blast
qed

text \<open>The frame of an append.\<close>

lemma append_keeps:
  assumes ok: "golib_ok L" and fr: "fresh_address L s ctx opts er w"
    and run: "append L s ctx opts er w = (Inr (h, s'), w')"
  shows "dirs w' = dirs w"
    and "app_path q \<Longrightarrow> q \<noteq> rootPath (sdir s) \<Longrightarrow> q \<noteq> NodePath (sdir s) h \<Longrightarrow> keeps q w w'"
proof -
  obtain n w1 w2 where p: "prepareNode L s ctx opts er w = (Inr n, w1)"
    and b: "publishNode L s n w1 = (Inr (), w2)"
    and r: "atomicWriteFile (rootPath (sdir s)) (nHash n @ newline) 0x180 w2 = (Inr (), w')" and h: "h = nHash n"
    using run by (auto simp: append_def io_iffs)
  have q1: "quiet w w1" using prepareNode_quiet [OF p] .
  have v: "valid_hash (nHash n)" using prepareNode_Inr [OF ok p] event_of_hash(1) [OF ok] by blast
  have np: "map_of (ents w1) (NodePath (sdir s) (nHash n)) = None"
    using fr p q1 by (auto simp: fresh_address_def quiet_def)
  note post = publishNode_post [OF b v np]
  have ap: "app_path q \<Longrightarrow> q \<noteq> tmp_of ''.jaybase-write-'' w2 (rootPath (sdir s))" for q
    using app_path_not_tmp [of q w2 "butlast (rootPath (sdir s))" "''write-''"] by (simp add: tmp_of_def)
  note ne = ap [OF app_path_rootPath]
  show "dirs w' = dirs w"
    using wf.put_env [OF ne r] post(1) q1 by (simp add: same_env_def quiet_def)
  assume q: "app_path q" "q \<noteq> rootPath (sdir s)" "q \<noteq> NodePath (sdir s) h"
  have "keeps q w1 w2" using post(2) q h by simp
  moreover have "keeps q w2 w'" using wf.put_frame [OF ne r q(2) ap [OF q(1)]] .
  ultimately show "keeps q w w'" using quiet_keeps [OF q1] keeps_trans by blast
qed

subsection \<open>Opening succeeds\<close>

text \<open>No file is in the way of a directory of the store.\<close>

definition dirs_free :: "path \<Rightarrow> world \<Rightarrow> bool" where
  "dirs_free dir w \<longleftrightarrow> (\<forall>q \<in> store_dirs dir. map_of (ents w) q = None)"

lemma mkdirAll_no_fault:
  assumes "faults w = []" "\<And>k. map_of (ents w) (take k p) = None"
  shows "mkdirAll p w = (Inr (), fold setDir (map (\<lambda>k. take k p) [0..<Suc (length p)]) w)"
proof -
  have "\<not> list_ex (\<lambda>q. map_of (ents w) q \<noteq> None) (map (\<lambda>k. take k p) [0..<Suc (length p)])"
    using assms(2) by (auto simp: list_ex_iff simp del: upt_Suc)
  then show ?thesis using assms(1) by (simp add: mkdirAll_def Let_def syscall_no_fault del: upt_Suc)
qed

definition same_files :: "world \<Rightarrow> world \<Rightarrow> bool" where
  "same_files w w' \<longleftrightarrow> ents w' = ents w \<and> flocks w' = flocks w \<and> faults w' = faults w
     \<and> environ w' = environ w \<and> set (dirs w) \<subseteq> set (dirs w')"

lemma fold_setDir_same: "same_files w (fold setDir ps w)"
proof -
  have "flocks (fold setDir ps w) = flocks w" "faults (fold setDir ps w) = faults w"
    "environ (fold setDir ps w) = environ w"
    by (induction ps arbitrary: w) (auto simp: setDir_def)
  then show ?thesis by (auto simp: same_files_def fold_setDir)
qed

lemma mkdir_chmod:
  assumes ff: "faults w = []" and fr: "dirs_free dir w"
    and q: "q \<in> {[''objects'', ''nodes''], [''refs'', ''named''], [''keys'']}"
  obtains w' where "io_bind (mkdirAll (dir @ q)) (\<lambda>_. chmodDir (dir @ q)) w = (Inr (), w')"
    "same_files w w'" "\<And>k. take k (dir @ q) \<in> set (dirs w')"
proof -
  have none: "map_of (ents w) (take k (dir @ q)) = None" for k
  proof -
    have "take k (dir @ q) \<in> store_dirs dir" unfolding store_dirs_def using q by blast
    then show ?thesis using fr by (simp add: dirs_free_def)
  qed
  let ?w = "fold setDir (map (\<lambda>k. take k (dir @ q)) [0..<Suc (length (dir @ q))]) w"
  note m = mkdirAll_no_fault [OF ff none]
  have s: "same_files w ?w" by (rule fold_setDir_same)
  have all: "take k (dir @ q) \<in> set (dirs ?w)" for k
  proof -
    have "take k (dir @ q) = take (min k (length (dir @ q))) (dir @ q)" by (metis min_def nle_le take_all)
    moreover have "take (min k (length (dir @ q))) (dir @ q)
        \<in> set (map (\<lambda>k. take k (dir @ q)) [0..<Suc (length (dir @ q))])"
      by (simp del: upt_Suc)
    ultimately show ?thesis unfolding fold_setDir(5) by auto
  qed
  have "chmodDir (dir @ q) ?w = (Inr (), ?w)"
    using s ff all [of "length (dir @ q)"]
    by (simp add: chmodDir_def syscall_no_fault same_files_def)
  then show thesis using that [of ?w] m s all by (simp add: io_bind_def)
qed

lemma same_files_trans: "same_files a b \<Longrightarrow> same_files b c \<Longrightarrow> same_files a c"
  by (auto simp: same_files_def)

lemma io_bind_assoc2: "io_bind m (\<lambda>_. io_bind k f) w = io_bind (io_bind m (\<lambda>_. k)) f w"
  by (cases "m w" rule: prod.exhaust; cases "fst (m w)") (auto simp: io_bind_def)

lemma makeDirs_succeeds:
  assumes ff: "faults w = []" and fr: "dirs_free dir w"
  shows "\<exists>w'. makeDirs dir w = (Inr (), w') \<and> same_files w w' \<and> store_dirs_made dir w' \<and> dir \<in> set (dirs w')"
proof -
  obtain w1 where w1: "io_bind (mkdirAll (dir @ [''objects'', ''nodes''])) (\<lambda>_. chmodDir (dir @ [''objects'', ''nodes''])) w = (Inr (), w1)"
    "same_files w w1" "\<And>k. take k (dir @ [''objects'', ''nodes'']) \<in> set (dirs w1)"
    using mkdir_chmod [OF ff fr, of "[''objects'', ''nodes'']"] by blast
  have f1: "faults w1 = []" "dirs_free dir w1" using w1(2) ff fr by (auto simp: same_files_def dirs_free_def)
  obtain w2 where w2: "io_bind (mkdirAll (dir @ [''refs'', ''named''])) (\<lambda>_. chmodDir (dir @ [''refs'', ''named''])) w1 = (Inr (), w2)"
    "same_files w1 w2" "\<And>k. take k (dir @ [''refs'', ''named'']) \<in> set (dirs w2)"
    using mkdir_chmod [OF f1, of "[''refs'', ''named'']"] by blast
  have f2: "faults w2 = []" "dirs_free dir w2" using w2(2) f1 by (auto simp: same_files_def dirs_free_def)
  obtain w3 where w3: "io_bind (mkdirAll (dir @ [''keys''])) (\<lambda>_. chmodDir (dir @ [''keys''])) w2 = (Inr (), w3)"
    "same_files w2 w3" "\<And>k. take k (dir @ [''keys'']) \<in> set (dirs w3)"
    using mkdir_chmod [OF f2, of "[''keys'']"] by blast
  have s: "same_files w1 w3" "same_files w w3" using w1(2) w2(2) w3(2) same_files_trans by blast+
  have d: "dir \<in> set (dirs w3)" using w3(3) [of "length dir"] by simp
  have "dir @ [''objects'', ''nodes''] \<in> set (dirs w1)" using w1(3) [of "length dir + 2"] by simp
  moreover have "dir @ [''refs''] \<in> set (dirs w2)" using w2(3) [of "length dir + 1"] by simp
  ultimately have "store_dirs_made dir w3"
    using s w3(2) by (auto simp: store_dirs_made_def same_files_def)
  moreover have "chmodDir dir w3 = (Inr (), w3)"
    using d s(2) ff by (simp add: chmodDir_def syscall_no_fault same_files_def)
  ultimately show ?thesis
    using w1(1) w2(1) w3(1) s(2) d
    unfolding makeDirs_def io_bind_assoc2 by (auto simp: io_bind_def split: sum.splits prod.splits)
qed

lemma lock_not_store_dir: "lockPath dir \<notin> store_dirs dir"
proof
  assume "lockPath dir \<in> store_dirs dir"
  then obtain k q where e: "lockPath dir = take k (dir @ q)"
    and q: "q \<in> {[''objects'', ''nodes''], [''refs'', ''named''], [''keys'']}"
    by (auto simp: store_dirs_def)
  have "drop (length dir) (lockPath dir) = take (k - length dir) (drop (length dir) (dir @ q))"
    unfolding e by (rule drop_take)
  then have "[''.writer.lock''] = take (k - length dir) q" by (simp add: lockPath_def)
  with q show False by (cases "k - length dir") auto
qed

lemma acquire_succeeds:
  assumes "faults w = []" "dir \<in> set (dirs w)" "lockPath dir \<notin> set (dirs w)"
    and "map_of (flocks w) (lockPath dir) = None"
  shows "\<exists>l w'. acquireStoreLock pid dir w = (Inr l, w') \<and> faults w' = [] \<and> dirs w' = dirs w"
proof -
  have "butlast (lockPath dir) = dir" by (simp add: lockPath_def)
  then show ?thesis using assms
    by (simp add: acquireStoreLock_def io_defs openLockFile_def flockEx_def fileTruncate_def
        fileSync_def fileWrite_no_fault syscall_no_fault Let_def set_inode_def split: option.split)
qed

lemma openStore_succeeds:
  assumes inv: "disk_inv L dir w ns k" and l: "lock_alone dir w" and ne: "dir \<noteq> []"
    and ff: "faults w = []" and fr: "dirs_free dir w" and nl: "map_of (flocks w) (lockPath dir) = None"
    and ld: "lockPath dir \<notin> set (dirs w)"
    and key: "trimSpace key \<noteq> []" "decodeKey (trimSpace key) = Inr kb" and rd: "readable L kb ns"
  shows "\<exists>s w'. openStore L pid dir key True w = (Inr s, w') \<and> faults w' = [] \<and> skey s = kb
    \<and> store_dirs_made dir w'"
proof -
  obtain w1 where w1: "makeDirs dir w = (Inr (), w1)" "same_files w w1" "store_dirs_made dir w1" "dir \<in> set (dirs w1)"
    using makeDirs_succeeds [OF ff fr] by blast
  have o1: "open_frame dir w w1" using opensD [OF opens_makeDirs l w1(1)] .
  have "lockPath dir \<notin> set (dirs w1)"
    using o1 ld lock_not_store_dir unfolding open_frame_def by blast
  then obtain lk w2 where w2: "acquireStoreLock pid dir w1 = (Inr lk, w2)" "faults w2 = []" "dirs w2 = dirs w1"
    using acquire_succeeds [of w1 dir pid] w1(2,4) ff nl by (auto simp: same_files_def)
  have "open_frame dir w1 w2" using opensD [OF opens_acquire _ w2(1)] o1 by (simp add: open_frame_def)
  then have d2: "disk_inv L dir w2 ns k"
    using disk_inv_open_frame [OF inv] o1 open_frame_trans by blast
  let ?s0 = "\<lparr>sdir = dir, snow = (\<lambda>t. t), skey = kb, slock = Some lk,
      history = [], metadata = [], historyIndex = Map.empty, requestIndex = Map.empty\<rparr>"
  obtain s where s: "rebuildIndexes L ?s0 w2 = (Inr s, w2)"
    using rebuildIndexes_no_fault [of L ?s0 w2 ns k] d2 w2(2) by auto
  have ix: "indexed s ns" "clear_indexes s = clear_indexes ?s0"
    using rebuildIndexes_Inr [of L ?s0 w2 ns k s w2] d2 s by auto
  have sk: "skey s = kb" "sdir s = dir"
    using arg_cong [OF ix(2), of skey] arg_cong [OF ix(2), of sdir] by (simp_all add: clear_indexes_def)
  have ch: "checkHead L s w2 = (Inr (), w2)"
  proof (cases "ns = []")
    case True
    then show ?thesis using indexed_history [OF ix(1)] by (simp add: checkHead_def)
  next
    case False
    have h: "history s ! (length (history s) - 1) = nHash (last ns)" "length (history s) > 0"
      using indexed_root [OF ix(1)] False indexed_history [OF ix(1)] by (simp_all add: indexedRoot_def tip_def)
    have "node_at L dir w2 (nHash (last ns)) (last ns)"
      using disk_inv_facts(3) [OF d2] False stored_node_at by simp
    then have "readNode L dir (nHash (last ns)) w2 = (Inr (last ns), w2)"
      using readNode_no_fault [OF w2(2)] by simp
    moreover obtain p where "nodePayload L kb (last ns) = Inr p"
      using rd last_in_set [OF False] unfolding readable_iff by blast
    ultimately show ?thesis using h sk by (simp add: checkHead_def io_bind_def)
  qed
  have "openLocked L dir (explicitKey key) lk w2 = (Inr s, w2)"
    using s ch key by (simp add: openLocked_def explicitKey_def io_defs)
  then have "openStore L pid dir key True w = (Inr s, w2)"
    using ne w1(1) w2(1) by (simp add: openStore_def io_bind_def)
  moreover have "store_dirs_made dir w2" using w1(3) w2(3) by (simp add: store_dirs_made_def)
  ultimately show ?thesis using w2(2) sk by blast
qed

end
