(* ===== verification/DemoStore.thy ===== *)
theory DemoStore
  imports Codec StoreProgress
begin

text \<open>
  Concrete stores on the instance of theory Codec, for the witnesses: \<open>demo_run cs\<close> opens an
  empty directory and appends one event per character of \<open>cs\<close>.
\<close>

subsection \<open>An empty store\<close>


definition demo_dir :: path where
  "demo_dir = [''db'']"

definition demo_world :: world where
  "demo_world = \<lparr>dirs = [[]], ents = [], dents = [], dlog = [],
     inodes = (\<lambda>_. \<lparr>idata = [], isynced = False, imode = 0\<rparr>), faults = [], wall = 5000,
     entropy = (\<lambda>n. CHR ''r''), drawn = 0, environ = Map.empty, flocks = [], next_fd = 3\<rparr>"

definition demo_key :: string where
  "demo_key = replicate 64 (CHR ''a'')"

definition demo_open :: "(go_error + Store) \<times> world" where
  "demo_open = OpenStoreWithDataKey demoL ''42'' demo_dir demo_key demo_world"

definition demo_s0 :: Store where
  "demo_s0 = projr (fst demo_open)"

definition demo_w0 :: world where
  "demo_w0 = snd demo_open"

lemma demo_key_decodes: "trimSpace demo_key = demo_key" "decodeKey demo_key = Inr (replicate 32 (CHR 0xAA))"
proof -
  have "list_all printable demo_key" by (simp add: demo_key_def printable_def list_all_iff)
  then show "trimSpace demo_key = demo_key" by (intro trimSpace_printable) (simp_all add: demo_key_def)
  show "decodeKey demo_key = Inr (replicate 32 (CHR 0xAA))" by code_simp
qed

lemma demo_store_dirs: "store_dirs [''db''] \<subseteq> {[], [''db''], [''db'', ''objects''], [''db'', ''refs''],
    [''db'', ''keys''], [''db'', ''objects'', ''nodes''], [''db'', ''refs'', ''named'']}"
  by (auto simp: store_dirs_def take_Cons' split: if_splits)

lemma demo_open_ok: "\<exists>s w. demo_open = (Inr s, w) \<and> faults w = [] \<and> skey s = replicate 32 (CHR 0xAA)
    \<and> dirs_free demo_dir w \<and> lockPath demo_dir \<notin> set (dirs w) \<and> store_dirs_made demo_dir w \<and> (\<forall>h. NodePath demo_dir h \<notin> set (dirs w))"
proof -
  have n: "demo_key \<noteq> []" by (simp add: demo_key_def)
  have "\<forall>q \<in> store_dirs [''db'']. q \<noteq> [''db'', ''.writer.lock'']" using demo_store_dirs by auto
  then show ?thesis
  by (simp add: demo_open_def OpenStoreWithDataKey_def openStore_def demo_dir_def makeDirs_def
      mkdirAll_def chmodDir_def demo_world_def syscall_def io_defs Let_def acquireStoreLock_def openLockFile_def
      lockPath_def flockEx_def fileTruncate_def fileWrite_def fileSync_def set_inode_def openLocked_def
      explicitKey_def demo_key_decodes n rebuildIndexes_def currentRoot_def readFile_def rootPath_def fcontent_def
      setDir_def nodesFromRoot_def clear_indexes_def checkHead_def store_dirs_made_def NodePath_def upt_rec
      dirs_free_def)
qed

lemma demo_s0_w0: "demo_open = (Inr demo_s0, demo_w0)" "faults demo_w0 = []" "skey demo_s0 = replicate 32 (CHR 0xAA)"
    "dirs_free demo_dir demo_w0" "lockPath demo_dir \<notin> set (dirs demo_w0)"
    "store_dirs_made demo_dir demo_w0" "NodePath demo_dir h \<notin> set (dirs demo_w0)"
proof -
  obtain s w where o: "demo_open = (Inr s, w)" "faults w = []" "skey s = replicate 32 (CHR 0xAA)"
      "dirs_free demo_dir w" "lockPath demo_dir \<notin> set (dirs w)"
      "store_dirs_made demo_dir w" "\<forall>h. NodePath demo_dir h \<notin> set (dirs w)"
    using demo_open_ok by blast
  have "demo_s0 = s" "demo_w0 = w" by (simp_all add: demo_s0_def demo_w0_def o(1))
  then show "demo_open = (Inr demo_s0, demo_w0)" "faults demo_w0 = []" "skey demo_s0 = replicate 32 (CHR 0xAA)"
    "dirs_free demo_dir demo_w0" "lockPath demo_dir \<notin> set (dirs demo_w0)"
    "store_dirs_made demo_dir demo_w0" "NodePath demo_dir h \<notin> set (dirs demo_w0)"
    using o by simp_all
qed

subsection \<open>Events\<close>

definition demo_ctx :: Context where
  "demo_ctx = \<lparr>ctxActor = ''alice'', ctxRole = ''writer''\<rparr>"

text \<open>One event per character; the character is the request id and fills the request hash.\<close>

definition demo_opts :: "char \<Rightarrow> AppendOptions" where
  "demo_opts c = \<lparr>oType = ''note.added'', oEntityID = ''e1'', oCommand = ''create'',
     oPayload = RawMessage ''{}'', oCreatedAt = 0, oRequestID = [c], oRequestHash = replicate 31 c\<rparr>"

definition demo_hash :: "char \<Rightarrow> string" where
  "demo_hash c = sha_prefix @ hex_encode (CHR 0x22 # replicate 31 c)"

definition plain_char :: "char \<Rightarrow> bool" where
  "plain_char c \<longleftrightarrow> c \<in> set ''abcdefgh''"

lemma plain_char: "plain_char c \<Longrightarrow> printable c \<and> c \<noteq> CHR 0x22 \<and> c \<noteq> CHR 0x5C"
  by (auto simp: plain_char_def printable_def)

lemma demo_hash_inj: "demo_hash c = demo_hash d \<longleftrightarrow> c = d"
proof -
  have "replicate 31 c = replicate 31 d \<longleftrightarrow> c = d" by (simp add: numeral_eq_Suc)
  then show ?thesis by (simp add: demo_hash_def hex_encode_inj)
qed

lemma demo_hash_valid: "valid_hash (demo_hash c)"
  using valid_hash_hash_bytes [of demoL]
  by (auto simp: valid_hash_iff demo_hash_def intro!: exI [of _ "CHR 0x22 # replicate 31 c"])

lemma enc_str_last: "plain_char c \<Longrightarrow> enc_str (replicate n c) = replicate n c @ [CHR 0x22]"
  by (induction n) (auto dest: plain_char)

lemma enc_content_last: "\<exists>pre. enc_content c = pre @ enc_str (nRequestHash c)"
  by (simp add: enc_content_def enc_map_def enc_pair_def content_tuple_def)

lemma demo_event_hash:
  assumes "event_of demoL key ctx opts root n" "oRequestHash opts = replicate 31 c" "plain_char c"
  shows "nHash n = demo_hash c"
proof -
  obtain x where x: "nHash n = hash_bytes demoL (enc_content x)" "nRequestHash x = replicate 31 c"
  proof -
    obtain sealed created cb where "n = mkNode (mkContent ctx (trimOptions opts) root sealed created)
          (hash_bytes demoL cb)"
        "json_content demoL (mkContent ctx (trimOptions opts) root sealed created) = Some cb"
      using assms(1) unfolding event_of_def by blast
    then show ?thesis
      using that [of "mkContent ctx (trimOptions opts) root sealed created"] assms(2)
      by (simp add: demoL_def) (simp add: mkContent_def trimOptions_def)
  qed
  obtain pre where "enc_content x = pre @ replicate 31 c @ [CHR 0x22]"
    using enc_content_last [of x] x(2) enc_str_last [OF assms(3)] by auto
  then have "demo_sum (enc_content x) = CHR 0x22 # replicate 31 c"
    by (simp add: demo_sum_def)
  then show ?thesis by (simp add: x(1) hash_bytes_def demo_hash_def demoL_def)
qed

lemma demo_clean: "plain_char c \<Longrightarrow> clean_request demo_ctx (demo_opts c)" "trimSpace ''note.added'' \<noteq> []"
proof -
  have t: "trimSpace ''note.added'' = ''note.added''" "trimSpace ''e1'' = ''e1''" "trimSpace ''create'' = ''create''"
    by (rule trimSpace_printable; simp add: printable_def)+
  then show "trimSpace ''note.added'' \<noteq> []" by simp
  assume "plain_char c"
  then have "printable c" by (simp add: plain_char)
  then show "clean_request demo_ctx (demo_opts c)"
    by (simp add: clean_request_def demo_ctx_def demo_opts_def t utf8_valid_printable printable_def list_all_iff)
qed

subsection \<open>A store with any number of events\<close>

definition demo_ok :: "string \<Rightarrow> Node list \<Rightarrow> Store \<Rightarrow> world \<Rightarrow> bool" where
  "demo_ok cs ns s w \<longleftrightarrow> store_inv demoL s w ns (length ns) (length ns) \<and> map nHash ns = map demo_hash cs
     \<and> map nRequestID ns = map (\<lambda>c. [c]) cs
     \<and> faults w = [] \<and> store_dirs_made demo_dir w \<and> sdir s = demo_dir
     \<and> skey s = replicate 32 (CHR 0xAA) \<and> dirs_free demo_dir w \<and> lockPath demo_dir \<notin> set (dirs w)
     \<and> lock_alone demo_dir w \<and> (\<forall>h. NodePath demo_dir h \<notin> set (dirs w))
     \<and> (\<forall>c. c \<notin> set cs \<longrightarrow> map_of (ents w) (NodePath demo_dir (demo_hash c)) = None)
     \<and> readable demoL (skey s) ns \<and> list_all clean_node ns"

definition demo_append :: "Store \<times> world \<Rightarrow> char \<Rightarrow> Store \<times> world" where
  "demo_append sw c = (case append demoL (fst sw) demo_ctx (demo_opts c) None (snd sw) of
     (r, w') \<Rightarrow> (snd (projr r), w'))"

definition demo_run :: "string \<Rightarrow> Store \<times> world" where
  "demo_run cs = foldl demo_append (demo_s0, demo_w0) cs"

lemma demo_fresh:
  assumes ok: "demo_ok cs ns s w" and c: "plain_char c" "c \<notin> set cs" "oRequestHash opts = replicate 31 c"
  shows "fresh_address demoL s ctx opts er w"
proof (cases "prepareNode demoL s ctx opts er w")
  case (Pair r w1)
  show ?thesis
  proof (cases r)
    case (Inl e)
    then show ?thesis by (simp add: fresh_address_def Pair)
  next
    case (Inr n)
    have "nHash n = demo_hash c"
      using prepareNode_Inr [OF demoL_ok] Pair Inr demo_event_hash c(1,3) by blast
    then show ?thesis using ok c(2) by (simp add: fresh_address_def Pair Inr demo_ok_def)
  qed
qed

lemma demo_append_ok:
  assumes ok: "demo_ok cs ns s w" and c: "plain_char c" "c \<notin> set cs"
    and er: "er = None \<or> er = Some (tip ns)"
  shows "\<exists>n s' w'. append demoL s demo_ctx (demo_opts c) er w = (Inr (demo_hash c, s'), w')
    \<and> demo_ok (cs @ [c]) (ns @ [n]) s' w' \<and> event_of demoL (skey s) demo_ctx (demo_opts c) (tip ns) n
    \<and> good_append demoL s demo_ctx (demo_opts c) er w"
proof -
  have inv: "store_inv demoL s w ns (length ns) (length ns)" and ff: "faults w = []"
    and d: "store_dirs_made (sdir s) w" and sd: "sdir s = demo_dir" and key: "aes_key (skey s)"
    and la: "lock_alone (sdir s) w"
    using ok by (auto simp: demo_ok_def aes_key_def)
  have fr: "fresh_address demoL s demo_ctx (demo_opts c) er w"
    using demo_fresh [OF ok c] by (simp add: demo_opts_def)
  have ix: "indexed s ns" using inv by (simp add: store_inv_def)
  have "set (map nRequestID ns) = (\<lambda>c. [c]) ` set cs" using ok by (simp add: demo_ok_def)
  then have "[c] \<notin> nRequestID ` set ns" using c(2) by auto
  then have ixf: "index_free s (oRequestID (demo_opts c))"
    using index_free_iff [OF ix] by (simp add: demo_opts_def)
  have tot: "codec_total demoL" by (simp add: codec_total_def demoL_def)
  have ty: "trimSpace (oType (demo_opts c)) \<noteq> []" using demo_clean(2) by (simp add: demo_opts_def)
  have raw: "json_marshal demoL (oPayload (demo_opts c)) = Some ''{}''"
    by (simp add: json_marshal_def demo_opts_def demoL_def)
  note cl = demo_clean(1) [OF c(1)]
  obtain h s' w' where a: "append demoL s demo_ctx (demo_opts c) er w = (Inr (h, s'), w')"
      "faults w' = []" "store_dirs_made (sdir s) w'"
    using append_succeeds [OF demoL_ok inv ff d ty er raw key tot fr] by blast
  obtain n where n: "event_of demoL (skey s) demo_ctx (demo_opts c) (tip ns) n" "h = nHash n"
      "s' = recordNode s n" "store_inv demoL s' w' (ns @ [n]) (Suc (length ns)) (Suc (length ns))"
    using append_correct [OF demoL_ok inv cl fr ixf a(1)] by auto
  have h: "h = demo_hash c" using demo_event_hash [OF n(1) _ c(1)] n(2) by (simp add: demo_opts_def)
  note k = append_keeps [OF demoL_ok fr a(1)]
  have no: "map_of (ents w') (NodePath demo_dir (demo_hash x)) = None" if "x \<notin> set (cs @ [c])" for x
  proof -
    have "keeps (NodePath demo_dir (demo_hash x)) w w'"
      using that demo_hash_valid by (intro k(2)) (auto simp: sd h NodePath_inj demo_hash_inj)
    then show ?thesis using ok that by (simp add: keeps_def demo_ok_def)
  qed
  have "dirs_free demo_dir w'"
    unfolding dirs_free_def
  proof
    fix q assume q: "q \<in> store_dirs demo_dir"
    then have "q \<in> store_dirs [''db'']" by (simp add: demo_dir_def)
    then have q': "q \<in> {[], [''db''], [''db'', ''objects''], [''db'', ''refs''],
        [''db'', ''keys''], [''db'', ''objects'', ''nodes''], [''db'', ''refs'', ''named'']}"
      using demo_store_dirs by blast
    have "keeps q w w'"
      using q'
      by (intro k(2))
        (auto simp: sd h app_path_def hasPrefix_def rootPath_def NodePath_def demo_dir_def)
    then show "map_of (ents w') q = None" using ok q by (simp add: keeps_def demo_ok_def dirs_free_def)
  qed
  moreover have lo: "lock_alone demo_dir w'" using append_lock_alone [OF demoL_ok la a(1)] sd by simp
  moreover have rd: "readable demoL (skey s) (ns @ [n])"
    using ok event_readable [OF n(1)] by (auto simp: demo_ok_def readable_iff)
  moreover have "clean_node n"
  proof -
    have "disk_inv demoL (sdir s) w ns (length ns)" using inv by (simp add: store_inv_def)
    from event_of_clean [OF n(1) cl tip_valid [OF this] demoL_ok] show ?thesis .
  qed
  ultimately have "demo_ok (cs @ [c]) (ns @ [n]) s' w'"
    using ok a n h no lo rd k(1) event_of_fields(7) [OF n(1)]
    by (simp add: demo_ok_def sd demo_opts_def)
  then show ?thesis using a(1) h n(1) cl fr ixf by (auto simp: good_append_def)
qed

lemma demo_start: "demo_ok [] [] demo_s0 demo_w0"
proof -
  have e: "disk_inv demoL demo_dir demo_world [] 0" "lock_alone demo_dir demo_world"
    by (rule disk_inv_empty; simp add: demo_world_def rootPath_def demo_dir_def)+
  have o: "openStore demoL ''42'' demo_dir demo_key True demo_world = (Inr demo_s0, demo_w0)"
    using demo_s0_w0(1) by (simp add: demo_open_def OpenStoreWithDataKey_def)
  have ne: "demo_dir \<noteq> []" by (simp add: demo_dir_def)
  note i = openStore_inv [OF e ne o]
  have f: "open_frame demo_dir demo_world demo_w0" using opensD [OF opens_openStore [OF ne] e(2) o] .
  have "map_of (ents demo_w0) (NodePath demo_dir (demo_hash c)) = None" for c
  proof -
    have "same_content (NodePath demo_dir (demo_hash c)) demo_world demo_w0"
      using f app_path_NodePath [OF demo_hash_valid, of demo_dir c]
      by (simp add: open_frame_def NodePath_def lockPath_def keyPath_def)
    then show ?thesis by (simp add: same_content_def fcontent_def demo_world_def)
  qed
  then show ?thesis using i demo_s0_w0 by (simp add: demo_ok_def readable_def)
qed

lemma demo_run_ok: "distinct cs \<Longrightarrow> list_all plain_char cs \<Longrightarrow> \<exists>ns. demo_ok cs ns (fst (demo_run cs)) (snd (demo_run cs))"
proof (induction cs rule: rev_induct)
  case Nil
  then show ?case using demo_start by (auto simp: demo_run_def)
next
  case (snoc c cs)
  then obtain ns where "demo_ok cs ns (fst (demo_run cs)) (snd (demo_run cs))" by auto
  then show ?case
    using demo_append_ok [of cs ns "fst (demo_run cs)" "snd (demo_run cs)" c None] snoc.prems
    by (auto simp: demo_run_def demo_append_def split_beta)
qed

definition demo_sys :: "string \<Rightarrow> sys" where
  "demo_sys cs = \<lparr>smem = Some (fst (demo_run cs)), sworld = snd (demo_run cs),
     acked = map demo_hash cs\<rparr>"

lemma demo_sys_views [simp]:
  "smem (demo_sys cs) = Some (fst (demo_run cs))" "sworld (demo_sys cs) = snd (demo_run cs)"
  "acked (demo_sys cs) = map demo_hash cs"
  by (simp_all add: demo_sys_def)

lemma demo_reachable: "distinct cs \<Longrightarrow> list_all plain_char cs \<Longrightarrow> store_reachable demoL demo_dir (demo_sys cs)"
proof (induction cs rule: rev_induct)
  case Nil
  let ?x = "\<lparr>smem = None, sworld = demo_world, acked = []\<rparr>"
  have "store_reachable demoL demo_dir ?x"
    by (rule store_reachable.start) (simp_all add: demo_world_def rootPath_def demo_dir_def)
  moreover have "openStore demoL ''42'' demo_dir demo_key True demo_world = (Inr demo_s0, demo_w0)"
    using demo_s0_w0(1) by (simp add: demo_open_def OpenStoreWithDataKey_def)
  ultimately have "store_reachable demoL demo_dir (?x\<lparr>smem := Some demo_s0, sworld := demo_w0\<rparr>)"
    by (intro store_reachable.step [OF _ store_step.open_ok]) simp_all
  then show ?case by (simp add: demo_sys_def demo_run_def)
next
  case (snoc c cs)
  obtain ns where ns: "demo_ok cs ns (fst (demo_run cs)) (snd (demo_run cs))"
    using demo_run_ok snoc.prems by auto
  obtain n s' w' where a: "append demoL (fst (demo_run cs)) demo_ctx (demo_opts c) None (snd (demo_run cs))
      = (Inr (demo_hash c, s'), w')"
      "good_append demoL (fst (demo_run cs)) demo_ctx (demo_opts c) None (snd (demo_run cs))"
    using demo_append_ok [OF ns, of c None] snoc.prems by auto
  have r: "store_reachable demoL demo_dir (demo_sys cs)" using snoc by simp
  have "store_step demoL demo_dir (demo_sys cs) ((demo_sys cs)\<lparr>smem := Some s', sworld := w',
      acked := acked (demo_sys cs) @ [demo_hash c]\<rparr>)"
    using a by (intro store_step.append_ok [where s = "fst (demo_run cs)"]) (simp_all add: demo_sys_def)
  moreover have "(demo_sys cs)\<lparr>smem := Some s', sworld := w', acked := acked (demo_sys cs) @ [demo_hash c]\<rparr>
      = demo_sys (cs @ [c])"
    using a(1) by (simp add: demo_sys_def demo_run_def demo_append_def split_beta)
  ultimately show ?case using r store_reachable.step by metis
qed

text \<open>The machine stops, and comes up with the live files.\<close>

definition settle :: "world \<Rightarrow> world" where
  "settle w = w\<lparr>dents := ents w, dlog := [], flocks := [], faults := []\<rparr>"

lemma crash_settle: "crash w (settle w)"
  by (simp add: crash_def settle_def crash_ents_def)

text \<open>The key the demonstration store was opened with.\<close>

lemma demo_key_ok: "trimSpace demo_key \<noteq> []" "decodeKey (trimSpace demo_key) = Inr (replicate 32 (CHR 0xAA))"
  using demo_key_decodes by (simp_all add: demo_key_def)

subsection \<open>Facts for the witnesses\<close>

text \<open>What holds of \<open>demo_run cs\<close>, in one place.\<close>

lemma demo_facts:
  assumes "distinct cs" "list_all plain_char cs"
  obtains ns where "demo_ok cs ns (fst (demo_run cs)) (snd (demo_run cs))" 
    "store_inv demoL (fst (demo_run cs)) (snd (demo_run cs)) ns (length ns) (length ns)"
    "disk_inv demoL demo_dir (snd (demo_run cs)) ns (length ns)"
    "map nHash ns = map demo_hash cs" "length ns = length cs" "readable demoL (replicate 32 (CHR 0xAA)) ns"
proof -
  obtain ns where ns: "demo_ok cs ns (fst (demo_run cs)) (snd (demo_run cs))"
    using demo_run_ok assms by blast
  moreover have "length ns = length cs"
    using ns map_eq_imp_length_eq unfolding demo_ok_def by blast
  ultimately show thesis by (intro that) (auto simp: demo_ok_def store_inv_def)
qed

text \<open>The demonstration store opens again after the machine stopped.\<close>

lemma demo_reopen:
  assumes "distinct cs" "list_all plain_char cs"
  obtains s w where "openStore demoL ''7'' demo_dir demo_key True (settle (snd (demo_run cs))) = (Inr s, w)"
    "faults w = []" "skey s = replicate 32 (CHR 0xAA)" "store_dirs_made demo_dir w"
proof -
  let ?w = "snd (demo_run cs)"
  obtain ns where ns: "demo_ok cs ns (fst (demo_run cs)) ?w" "disk_inv demoL demo_dir ?w ns (length ns)"
      "readable demoL (replicate 32 (CHR 0xAA)) ns"
    using demo_facts [OF assms] by blast
  obtain j where j: "length ns \<le> j" "j \<le> length ns" "disk_inv demoL demo_dir (settle ?w) (take j ns) j"
    using disk_inv_crash [OF ns(2) crash_settle] by blast
  have "disk_inv demoL demo_dir (settle ?w) ns (length ns)" using j by simp
  moreover have "lock_alone demo_dir (settle ?w)"
    using lock_alone_crash [OF _ crash_settle] ns(1) by (simp add: demo_ok_def)
  moreover have "faults (settle ?w) = []" "dirs_free demo_dir (settle ?w)"
      "lockPath demo_dir \<notin> set (dirs (settle ?w))" "map_of (flocks (settle ?w)) (lockPath demo_dir) = None"
    using ns(1) by (simp_all add: settle_def demo_ok_def dirs_free_def)
  moreover have "demo_dir \<noteq> []" by (simp add: demo_dir_def)
  ultimately obtain s w where "openStore demoL ''7'' demo_dir demo_key True (settle ?w) = (Inr s, w)
      \<and> faults w = [] \<and> skey s = replicate 32 (CHR 0xAA) \<and> store_dirs_made demo_dir w"
    using openStore_succeeds [where pid = "''7''"] demo_key_ok ns(3) by blast
  then show thesis using that by blast
qed

end
