(* ===== verification/StoreProperties.thy ===== *)
theory StoreProperties
  imports DemoStore
begin

text \<open>
  What the store promises, as theorems over every run: durability of acknowledged events, the
  meaning of an append and of a failed one. Each theorem with hypotheses is followed by its
  application to the demonstration store.
\<close>

section \<open>Durability\<close>

text \<open>
  C1. No acknowledged event is lost. From an empty directory, after any sequence of opening,
  appending, reading, writing named refs and closing, with any pattern of failing calls and
  any number of crashes, the machine stops; whatever store opens on the disk found then has
  every event whose append ever reported success in its history, in the order of the
  reports, and each of them can be read and verified under its hash.
\<close>

theorem acknowledged_survive_crash:
  assumes "golib_ok L" "dir \<noteq> []" "store_reachable L dir x" "crash (sworld x) w"
    and "openStore L pid dir key explicit w = (Inr s, w')"
  shows "subseq (acked x) (history s)
    \<and> (\<forall>h \<in> set (acked x). \<exists>n. node_at L dir w' h n)"
proof -
  obtain ns k where "sys_inv L dir x ns k" using store_reachable_inv assms(1-3) by blast
  then obtain j where j: "sys_inv L dir (x\<lparr>smem := None, sworld := w\<rparr>) (take j ns) j"
    using sys_inv_crash assms(4) by blast
  then have d: "disk_inv L dir w (take j ns) j" "lock_alone dir w"
    and a: "subseq (acked x) (map nHash (take j (take j ns)))"
    by (simp_all add: sys_inv_def)
  note o = openStore_inv [OF d assms(2,5)]
  have ix: "history s = map nHash (take j ns)"
    using o(3) indexed_history by (auto simp: store_inv_def)
  have "\<exists>n. node_at L dir w' h n" if "h \<in> set (acked x)" for h
  proof -
    have "h \<in> set (map nHash (take j (take j ns)))" using list_emb_set [OF a that] by metis
    then obtain n where "n \<in> set (take j ns)" "h = nHash n" by auto
    then show ?thesis using disk_inv_facts(3) [OF o(2)] stored_node_at by blast
  qed
  then show ?thesis using a ix by simp
qed

theorem acknowledged_survive_crash_witness:
  "\<exists>s w'. openStore demoL ''7'' demo_dir demo_key True (settle (snd (demo_run ''ab''))) = (Inr s, w')
     \<and> subseq [demo_hash (CHR ''a''), demo_hash (CHR ''b'')] (history s)"
proof -
  have c: "distinct ''ab''" "list_all plain_char ''ab''" by (simp_all add: plain_char_def)
  obtain s w where o: "openStore demoL ''7'' demo_dir demo_key True (settle (snd (demo_run ''ab''))) = (Inr s, w)"
    using demo_reopen [OF c] by blast
  have "subseq (acked (demo_sys ''ab'')) (history s)"
    using acknowledged_survive_crash [OF demoL_ok _ demo_reachable [OF c], of "settle (snd (demo_run ''ab''))"]
      o crash_settle by (simp add: demo_sys_def demo_dir_def)
  then show ?thesis using o by (simp add: demo_sys_def)
qed


text \<open>
  C6. In every state a run reaches, the four indexes of the open store are those of one list
  of nodes that are on disk under their hashes, each naming the one before it; request ids
  point to their event and to nothing else; and the list contains every acknowledged event
  in order.
\<close>

theorem open_store_indexes:
  assumes "golib_ok L" "dir \<noteq> []" "store_reachable L dir x" "smem x = Some s"
  shows "\<exists>ns. chain ns \<and> (\<forall>n \<in> set ns. node_at L dir (sworld x) (nHash n) n)
    \<and> history s = map nHash ns \<and> metadata s = map replayMetadata ns
    \<and> historyIndex s = index_of (map nHash ns)
    \<and> (\<forall>rid r. requestIndex s rid = Some r \<longleftrightarrow> (\<exists>n \<in> set ns. rid \<noteq> [] \<and> nRequestID n = rid
          \<and> r = \<lparr>rrHash = nHash n, rrRequestHash = nRequestHash n\<rparr>))
    \<and> subseq (acked x) (history s)"
proof -
  obtain ns m k where i: "store_inv L s (sworld x) ns m k" "sdir s = dir" "subseq (acked x) (map nHash (take k ns))"
    using reachable_store [OF assms] by blast
  let ?ms = "take m ns"
  have ix: "indexed s ?ms" and d: "disk_inv L dir (sworld x) ns k" and km: "k \<le> m"
    using i(1,2) by (simp_all add: store_inv_def)
  have c: "chain ?ms" using d chain_take by (simp add: disk_inv_def)
  then have di: "distinct (map nHash ?ms)" by (simp add: chain_def)
  have "\<forall>n \<in> set ?ms. node_at L dir (sworld x) (nHash n) n"
    using disk_inv_facts(3) [OF d] stored_node_at in_set_takeD by metis
  moreover have "subseq (acked x) (map nHash ?ms)"
    using i(3) subseq_map_take [OF km] subseq_order.trans by blast
  moreover have "requestIndex s rid = Some r \<longleftrightarrow> (\<exists>n \<in> set ?ms. rid \<noteq> [] \<and> nRequestID n = rid
      \<and> r = \<lparr>rrHash = nHash n, rrRequestHash = nRequestHash n\<rparr>)" for rid r
    using indexed_requests [OF ix, of rid r] by blast
  ultimately show ?thesis
    using c indexed_history [OF ix] indexed_metadata [OF ix] indexed_historyIndex [OF ix di]
    by (intro exI [of _ ?ms]) (simp add: take_map)
qed

theorem open_store_indexes_witness:
  "subseq [demo_hash (CHR ''a''), demo_hash (CHR ''b'')] (history (fst (demo_run ''ab'')))"
  using open_store_indexes [OF demoL_ok _ demo_reachable, of "''ab''" "fst (demo_run ''ab'')"]
  by (auto simp: demo_sys_def plain_char_def demo_dir_def)

section \<open>Appending\<close>



text \<open>
  C5. A failed append is safe. Whatever call failed, the disk holds the old chain, or the old
  chain and the new event; the indexes stay those of the old chain. In the second case the
  store has noticed: every later append on it fails and writes nothing, until it is opened
  again.
\<close>

theorem failed_append_is_safe:
  assumes "golib_ok L" "dir \<noteq> []" "store_reachable L dir x" "smem x = Some s"
    and "good_append L s ctx opts er (sworld x)"
    and "append L s ctx opts er (sworld x) = (Inl e, w')"
  shows "rootval (fcontent w' (rootPath dir)) = rootval (fcontent (sworld x) (rootPath dir))
    \<or> (\<exists>n. event_of L (skey s) ctx opts (indexedRoot s) n \<and> node_at L dir w' (nHash n) n
         \<and> rootval (fcontent w' (rootPath dir)) = nHash n
         \<and> (\<forall>ctx2 opts2 er2 r v. append L s ctx2 opts2 er2 w' = (r, v) \<longrightarrow> (\<exists>e2. r = Inl e2) \<and> quiet w' v))"
proof -
  obtain ns m k where i: "store_inv L s (sworld x) ns m k" "sdir s = dir"
    using reachable_store [OF assms(1-4)] by blast
  have g: "clean_request ctx opts" "fresh_address L s ctx opts er (sworld x)" "index_free s (oRequestID opts)"
    using assms(5) by (simp_all add: good_append_def)
  have r0: "rootval (fcontent (sworld x) (rootPath dir)) = tip ns" using i by (simp add: store_inv_def disk_inv_def)
  consider (old) "store_inv L s w' ns m k"
    | (new) n where "event_of L (skey s) ctx opts (tip ns) n" "m = length ns" "store_inv L s w' (ns @ [n]) m k"
    using append_correct [OF assms(1) i(1) g assms(6)] by auto
  then show ?thesis
  proof cases
    case old
    then show ?thesis using r0 i(2) by (simp add: store_inv_def disk_inv_def)
  next
    case new
    have t: "tip ns = indexedRoot s" using i(1) new(2) indexed_root [of s ns] by (simp add: store_inv_def)
    have d: "disk_inv L dir w' (ns @ [n]) k" using new(3) i(2) by (simp add: store_inv_def)
    have ne: "rootval (fcontent w' (rootPath (sdir s))) \<noteq> indexedRoot s"
      using store_inv_root [OF new(3)] new(2) by simp
    have "(\<exists>e2. r = Inl e2) \<and> quiet w' v" if a: "append L s ctx2 opts2 er2 w' = (r, v)" for ctx2 opts2 er2 r v
    proof -
      obtain pr v1 where p: "prepareNode L s ctx2 opts2 er2 w' = (pr, v1)"
        by (cases "prepareNode L s ctx2 opts2 er2 w'")
      then obtain e2 where "pr = Inl e2"
        using prepareNode_Inr [OF assms(1)] ne by (cases pr) blast+
      then show ?thesis using a p prepareNode_quiet [OF p] by (auto simp: append_def io_bind_def)
    qed
    then show ?thesis
      using new(1) t disk_inv_facts(3) [OF d, of n] disk_inv_facts(4) [OF d] stored_node_at by auto
  qed
qed

theorem failed_append_is_safe_witness:
  "\<exists>w'. append demoL (fst (demo_run ''a'')) demo_ctx (demo_opts (CHR ''b'')) None
         ((snd (demo_run ''a''))\<lparr>faults := [Some 0]\<rparr>) = (Inl (OsError EIO), w')
     \<and> (rootval (fcontent w' (rootPath demo_dir)) = rootval (fcontent (snd (demo_run ''a'')) (rootPath demo_dir))
        \<or> (\<exists>n. rootval (fcontent w' (rootPath demo_dir)) = nHash n))"
proof -
  let ?s = "fst (demo_run ''a'')" and ?o = "demo_opts (CHR ''b'')"
  let ?w = "(snd (demo_run ''a''))\<lparr>faults := [Some 0]\<rparr>"
  let ?x = "(demo_sys ''a'')\<lparr>sworld := ?w\<rparr>"
  have c: "distinct ''a''" "list_all plain_char ''a''" "plain_char (CHR ''b'')" "CHR ''b'' \<notin> set ''a''"
    by (simp_all add: plain_char_def)
  have r: "store_reachable demoL demo_dir ?x"
    using demo_reachable [OF c(1,2)]
    by (rule store_reachable.step) (rule store_step.environment, simp add: demo_sys_def quiet_def)
  obtain ns where ns: "demo_ok ''a'' ns ?s (snd (demo_run ''a''))" using demo_facts [OF c(1,2)] by blast
  have g0: "good_append demoL ?s demo_ctx ?o None (snd (demo_run ''a''))"
    using demo_append_ok [OF ns c(3,4), of None] by blast
  have p: "prepareNode demoL ?s demo_ctx ?o None ?w = (Inl (OsError EIO), (snd (demo_run ''a''))\<lparr>faults := []\<rparr>)"
    using demo_clean(2)
    by (simp add: prepareNode_def Let_def trimOptions_def demo_opts_def currentRoot_def readFile_def
        syscall_def io_defs)
  then have a: "append demoL ?s demo_ctx ?o None ?w = (Inl (OsError EIO), (snd (demo_run ''a''))\<lparr>faults := []\<rparr>)"
    by (simp add: append_def io_bind_def)
  have "good_append demoL ?s demo_ctx ?o None ?w"
    using g0 p by (simp add: good_append_def fresh_address_def)
  then show ?thesis
    using failed_append_is_safe [OF demoL_ok _ r, of ?s demo_ctx ?o None "OsError EIO"] a
    by (auto simp: demo_sys_def demo_dir_def fcontent_def)
qed

end
