(* ===== verification/RequestProperties.thy ===== *)
theory RequestProperties
  imports StoreProperties
begin

text \<open>
  Opening again, retries of idempotent appends, compare-and-set on the root, and request ids
  that a caller supplies.
\<close>

section \<open>Opening again\<close>

text \<open>
  The indexes that a running store has kept up to date are the ones that opening the
  directory again rebuilds from the files: closing and opening changes no history, metadata,
  position or request record. (The store is in step with the root on disk, as it is unless an
  append failed while the root was being replaced.)
\<close>

theorem reopen_same_indexes:
  assumes "golib_ok L" "dir \<noteq> []" "store_reachable L dir x" "smem x = Some s"
    and "rootval (fcontent (sworld x) (rootPath dir)) = indexedRoot s"
    and "CloseStore s (sworld x) = (r, w)" and "openStore L pid dir key explicit w = (Inr t, w')"
  shows "history t = history s \<and> metadata t = metadata s \<and> historyIndex t = historyIndex s
    \<and> requestIndex t = requestIndex s"
proof -
  obtain ns m k where i: "store_inv L s (sworld x) ns m k" "sdir s = dir" "sys_inv L dir x ns k"
    using reachable_store [OF assms(1-4)] by blast
  have m: "m = length ns" using store_inv_root [OF i(1)] assms(5) i(2) by simp
  have q: "quiet (sworld x) w"
    using assms(6) quiet_closeStoreLock
    by (cases r) (auto simp: CloseStore_def io_iffs split: option.splits prod.splits)
  have d: "disk_inv L dir w ns k" "lock_alone dir w"
    using i(2,3) disk_inv_quiet [OF _ q] lock_alone_quiet [OF q] by (auto simp: sys_inv_def)
  have "indexed t ns" using openStore_inv(3) [OF d assms(2,7)] by (simp add: store_inv_def)
  moreover have "indexed s ns" using i(1) m by (simp add: store_inv_def)
  moreover have "chain ns" using d(1) by (simp add: disk_inv_def)
  ultimately show ?thesis using indexed_same by blast
qed

theorem reopen_same_indexes_witness:
  "\<exists>t w'. openStore demoL ''7'' demo_dir demo_key True ((snd (demo_run ''ab''))\<lparr>flocks := []\<rparr>) = (Inr t, w')
     \<and> requestIndex t = requestIndex (fst (demo_run ''ab''))"
proof -
  let ?s = "fst (demo_run ''ab'')" and ?w = "(snd (demo_run ''ab''))\<lparr>flocks := []\<rparr>"
  let ?x = "(demo_sys ''ab'')\<lparr>sworld := ?w\<rparr>"
  have c: "distinct ''ab''" "list_all plain_char ''ab''" by (simp_all add: plain_char_def)
  have r: "store_reachable demoL demo_dir ?x"
    using demo_reachable [OF c]
    by (rule store_reachable.step) (rule store_step.environment, simp add: demo_sys_def quiet_def)
  obtain ns where ns: "demo_ok ''ab'' ns ?s (snd (demo_run ''ab''))" "readable demoL (replicate 32 (CHR 0xAA)) ns"
      "disk_inv demoL demo_dir (snd (demo_run ''ab'')) ns (length ns)"
    using demo_facts [OF c] by blast
  have q: "quiet (snd (demo_run ''ab'')) ?w" by (simp add: quiet_def)
  have d: "disk_inv demoL demo_dir ?w ns (length ns)" "lock_alone demo_dir ?w" "faults ?w = []"
      "dirs_free demo_dir ?w" "lockPath demo_dir \<notin> set (dirs ?w)" "demo_dir \<noteq> []"
    using ns disk_inv_quiet [OF _ q] lock_alone_quiet [OF q]
    by (simp_all add: demo_ok_def dirs_free_def demo_dir_def)
  obtain t w' where o: "openStore demoL ''7'' demo_dir demo_key True ?w = (Inr t, w')"
    using openStore_succeeds [OF d(1,2,6,3,4) _ d(5) demo_key_ok ns(2), of "''7''"] by auto
  have cl: "\<exists>z. CloseStore ?s ?w = (Inr z, ?w)"
    using d(3)
    by (cases "slock ?s"; cases "lfile (the (slock ?s))")
      (auto simp: CloseStore_def closeStoreLock_def flockUn_def closeFd_def release_def syscall_def io_defs
        split: prod.splits)
  have "indexedRoot ?s = tip ns" using ns(1) by (simp add: demo_ok_def store_inv_def indexed_root)
  then have sync: "rootval (fcontent ?w (rootPath demo_dir)) = indexedRoot ?s"
    using d(1) by (simp add: disk_inv_def)
  have "requestIndex t = requestIndex ?s"
    using reopen_same_indexes [OF demoL_ok d(6) r, of ?s _ ?w "''7''" demo_key True t w'] cl o sync
    by (auto simp: demo_sys_def)
  then show ?thesis using o by blast
qed

section \<open>Retries\<close>

text \<open>An acknowledged request is found in every later state.\<close>

lemma acknowledged_request:
  assumes ok: "golib_ok L" and ne: "dir \<noteq> []" and r: "store_reachable L dir x" and s: "smem x = Some s"
    and g: "clean_request ctx (with_request opts rid rhash)"
      "fresh_address L s ctx (with_request opts rid rhash) (Some er) (sworld x)"
    and run: "AppendIdempotent L s ctx opts er rid rhash (sworld x) = (Inr (h, False, s'), w')"
    and steps: "store_steps L dir (x\<lparr>smem := Some s', sworld := w', acked := acked x @ [h]\<rparr>) z"
    and t: "smem z = Some t"
  shows "requestIndex t (trimSpace rid) = Some \<lparr>rrHash = h, rrRequestHash = trimSpace rhash\<rparr>
    \<and> trimSpace rid \<noteq> [] \<and> trimSpace rhash \<noteq> []"
proof -
  let ?o = "with_request opts rid rhash"
  obtain ns m k where i: "sys_inv L dir x ns k" using reachable_store [OF ok ne r s] by blast
  obtain a: "append L s ctx ?o (Some er) (sworld x) = (Inr (h, s'), w')"
    and nn: "trimSpace rid \<noteq> []" "trimSpace rhash \<noteq> []" "requestIndex s (trimSpace rid) = None"
    using run by (cases rule: idempotent_cases) (auto split: sum.splits)
  let ?y = "x\<lparr>smem := Some s', sworld := w', acked := acked x @ [h]\<rparr>"
  obtain n where n: "sys_inv L dir ?y (ns @ [n]) (Suc (length ns))"
      "event_of L (skey s) ctx ?o (tip ns) n" "h = nHash n"
    using sys_inv_append_ok [OF ok i s good_append_fresh [OF g nn(3)] a] by blast
  obtain ms k' where ms: "sys_inv L dir z ms k'" "grows (ns @ [n]) (Suc (length ns)) ms k'"
    using sys_inv_steps [OF ok ne steps n(1)] by blast
  obtain m' where m': "store_inv L t (sworld z) ms m' k'" using ms(1) t by (auto simp: sys_inv_def)
  have "take (Suc (length ns)) ms = ns @ [n]" "Suc (length ns) \<le> m'"
    using ms(2) m' by (auto simp: grows_def store_inv_def)
  then have "n \<in> set (take m' ms)"
    by (metis in_set_conv_decomp in_set_takeD min.absorb1 take_take)
  moreover have "indexed t (take m' ms)" using m' by (simp add: store_inv_def)
  ultimately have "requestIndex t (trimSpace rid) = Some \<lparr>rrHash = nHash n, rrRequestHash = nRequestHash n\<rparr>"
    using indexed_requests event_of_fields(7) [OF n(2)] nn(1) by (fastforce simp: with_request_def)
  then show ?thesis using nn n(3) event_of_fields(8) [OF n(2)] by (simp add: with_request_def)
qed

text \<open>
  C2. Exactly once. After an idempotent append succeeded, whatever happens then (other
  appends, failures, crashes, closing and opening), a retry with the same request id and hash
  gives the hash of the original event, says it is a replay, and changes nothing; the same id
  with another hash is refused as a conflict and changes nothing.
\<close>

theorem retry_returns_original:
  assumes "golib_ok L" "dir \<noteq> []" "store_reachable L dir x" "smem x = Some s"
    and "clean_request ctx (with_request opts rid rhash)"
    and "fresh_address L s ctx (with_request opts rid rhash) (Some er) (sworld x)"
    and "AppendIdempotent L s ctx opts er rid rhash (sworld x) = (Inr (h, False, s'), w')"
    and "store_steps L dir (x\<lparr>smem := Some s', sworld := w', acked := acked x @ [h]\<rparr>) z"
    and "smem z = Some t"
  shows "AppendIdempotent L t ctx2 opts2 er2 rid rhash (sworld z) = (Inr (h, True, t), sworld z)
    \<and> (trimSpace rhash2 \<noteq> trimSpace rhash \<longrightarrow>
        (\<exists>e. AppendIdempotent L t ctx2 opts2 er2 rid rhash2 (sworld z) = (Inl e, sworld z)
          \<and> (trimSpace rhash2 \<noteq> [] \<longrightarrow> is_code ErrConflict e)))"
  using acknowledged_request [OF assms] by (auto simp: AppendIdempotent_def Let_def)

theorem retry_returns_original_witness:
  "\<exists>s' w'. AppendIdempotent demoL (fst (demo_run [])) demo_ctx (demo_opts (CHR ''a'')) [] ''a''
        (replicate 31 (CHR ''a'')) (snd (demo_run [])) = (Inr (demo_hash (CHR ''a''), False, s'), w')
    \<and> AppendIdempotent demoL s' demo_ctx (demo_opts (CHR ''a'')) [] ''a''
        (replicate 31 (CHR ''a'')) w' = (Inr (demo_hash (CHR ''a''), True, s'), w')"
proof -
  let ?s = "fst (demo_run [])" and ?w = "snd (demo_run [])" and ?o = "demo_opts (CHR ''a'')"
    and ?r = "replicate 31 (CHR ''a'')"
  have c: "distinct []" "list_all plain_char []" "plain_char (CHR ''a'')" by (simp_all add: plain_char_def)
  obtain ns where ns: "demo_ok [] ns ?s ?w" using demo_facts [OF c(1,2)] by blast
  then have "tip ns = []" by (simp add: demo_ok_def)
  then obtain n s' w' where a: "append demoL ?s demo_ctx ?o (Some []) ?w = (Inr (demo_hash (CHR ''a''), s'), w')"
      "good_append demoL ?s demo_ctx ?o (Some []) ?w"
    using demo_append_ok [OF ns c(3), of "Some []"] by auto
  have t: "trimSpace ''a'' = ''a''" "trimSpace ?r = ?r"
    by (rule trimSpace_printable; simp add: printable_def list_all_iff)+
  have wr: "with_request ?o ''a'' ?r = ?o" by (simp add: with_request_def t demo_opts_def)
  have "requestIndex ?s ''a'' = None" using a(2) by (simp add: good_append_def index_free_def demo_opts_def)
  then have i: "AppendIdempotent demoL ?s demo_ctx ?o [] ''a'' ?r ?w = (Inr (demo_hash (CHR ''a''), False, s'), w')"
    using a(1) wr by (simp add: AppendIdempotent_def Let_def t io_bind_def with_request_def)
  have g: "clean_request demo_ctx (with_request ?o ''a'' ?r)"
      "fresh_address demoL ?s demo_ctx (with_request ?o ''a'' ?r) (Some []) (sworld (demo_sys []))"
    using a(2) by (simp_all add: good_append_def wr demo_sys_def)
  have "AppendIdempotent demoL s' demo_ctx ?o [] ''a'' ?r w' = (Inr (demo_hash (CHR ''a''), True, s'), w')"
    using retry_returns_original [OF demoL_ok _ demo_reachable [OF c(1,2)] _ g, of "demo_hash (CHR ''a'')" s' w'
        "(demo_sys [])\<lparr>smem := Some s', sworld := w', acked := acked (demo_sys []) @ [demo_hash (CHR ''a'')]\<rparr>" s'
        demo_ctx ?o "[]" ?r]
      i store_steps.none by (simp add: demo_sys_def demo_dir_def)
  then show ?thesis using i by blast
qed

section \<open>Compare and set on the root\<close>



section \<open>Request ids given by the caller\<close>



end
