(* ===== verification/ReadProperties.thy ===== *)
theory ReadProperties
  imports RequestProperties
begin

text \<open>
  What the reading operations promise: walks of the chain, tamper evidence, pages and replays,
  payload batches, the check of a whole store and pinned roots. Each theorem with hypotheses is
  followed by its application to the demonstration store.
\<close>

section \<open>Walking the chain\<close>

text \<open>
  When no call fails, \<^verbatim>\<open>nodesFromRoot\<close> returns a list exactly when it is a chain on
  disk that ends at the root: every node is found under its hash and verified, each names the
  one before it, none occurs twice. Hence a cycle, a missing or altered node, and a node with
  two parents are all reported. (The walk always ends: it is a total function.)
\<close>

theorem nodes_from_root_exact:
  assumes "faults w = []"
  shows "nodesFromRoot L dir root w = (Inr ns, w) \<longleftrightarrow>
    chain ns \<and> tip ns = root \<and> (\<forall>n \<in> set ns. node_at L dir w (nHash n) n)"
  using nodesFromRoot_Inr [of L dir root w ns w] nodesFromRoot_no_fault [of ns L dir w] assms by blast

theorem nodes_from_root_exact_witness:
  "\<exists>n m. nodesFromRoot demoL demo_dir (demo_hash (CHR ''b'')) (snd (demo_run ''ab'')) = (Inr [n, m], snd (demo_run ''ab''))
     \<and> nHash n = demo_hash (CHR ''a'') \<and> nHash m = demo_hash (CHR ''b'')"
proof -
  have c: "distinct ''ab''" "list_all plain_char ''ab''" by (simp_all add: plain_char_def)
  obtain ns where ns: "demo_ok ''ab'' ns (fst (demo_run ''ab'')) (snd (demo_run ''ab''))"
      "disk_inv demoL demo_dir (snd (demo_run ''ab'')) ns (length ns)" "map nHash ns = map demo_hash ''ab''"
    using demo_facts [OF c] by blast
  obtain n m where e: "ns = [n, m]" "nHash n = demo_hash (CHR ''a'')" "nHash m = demo_hash (CHR ''b'')"
    using ns(3) by auto
  have "faults (snd (demo_run ''ab'')) = []" using ns(1) by (simp add: demo_ok_def)
  moreover have "chain ns" "tip ns = demo_hash (CHR ''b'')"
    "\<forall>a \<in> set ns. node_at demoL demo_dir (snd (demo_run ''ab'')) (nHash a) a"
    using ns(2) stored_node_at disk_inv_facts(3) [OF ns(2)] e by (auto simp: disk_inv_def tip_def)
  ultimately have "nodesFromRoot demoL demo_dir (demo_hash (CHR ''b'')) (snd (demo_run ''ab'')) = (Inr ns, snd (demo_run ''ab''))"
    by (intro iffD2 [OF nodes_from_root_exact]) auto
  then show ?thesis using e by blast
qed

section \<open>Tamper evidence\<close>

lemma chain_unique_hash:
  "chain ns \<Longrightarrow> chain ms \<Longrightarrow> tip ns = tip ms \<Longrightarrow>
   (\<And>n m. n \<in> set ns \<Longrightarrow> m \<in> set ms \<Longrightarrow> nHash n = nHash m \<Longrightarrow> n = m) \<Longrightarrow> ns = ms"
proof (induction ns arbitrary: ms rule: rev_induct)
  case Nil
  then show ?case using tip_Nil_iff [of ms] by auto
next
  case (snoc n ns)
  have "ms \<noteq> []" using snoc.prems(1,3) by (auto simp: chain_snoc)
  then obtain m ms' where ms: "ms = ms' @ [m]" by (metis rev_exhaust)
  have nm: "n = m" using snoc.prems(3) snoc.prems(4) [of n m] by (simp add: ms)
  have c: "chain ns" "chain ms'" "follows (tip ns) n" "follows (tip ms') n"
    using snoc.prems(1,2) by (auto simp: ms nm chain_snoc)
  have "tip ns = tip ms'" using c(3,4) by (auto simp: follows_def split: if_splits)
  then have "ns = ms'" using c snoc.prems(4) by (intro snoc.IH) (auto simp: ms)
  then show ?case by (simp add: ms nm)
qed

lemma node_at_content:
  assumes "node_at L dir w h n" shows "\<exists>b. json_content L (content_of n) = Some b \<and> h = hash_bytes L b \<and> nHash n = h"
  using assms by (auto simp: node_at_def parseNode_Inr)



section \<open>Pages\<close>

text \<open>A store whose indexes are in step with the root on disk, and the chain behind it.\<close>

definition in_step :: "path \<Rightarrow> Store \<Rightarrow> world \<Rightarrow> bool" where
  "in_step dir s w \<longleftrightarrow> rootval (fcontent w (rootPath dir)) = indexedRoot s"

lemma in_step_store:
  assumes "golib_ok L" "dir \<noteq> []" "store_reachable L dir x" "smem x = Some s" "in_step dir s (sworld x)"
    and "sys_inv L dir x ns k"
  shows "store_inv L s (sworld x) ns (length ns) k" "sdir s = dir" "indexed s ns" "chain ns"
    "history s = map nHash ns" "disk_inv L dir (sworld x) ns k" "k \<le> length ns"
    "subseq (acked x) (map nHash (take k ns))"
proof -
  obtain m where m: "store_inv L s (sworld x) ns m k" and d: "sdir s = dir"
    using assms(4,6) by (auto simp: sys_inv_def)
  have "m = length ns" using store_inv_root [OF m] assms(5) d by (simp add: in_step_def)
  with m show i: "store_inv L s (sworld x) ns (length ns) k" by simp
  then show "indexed s ns" "chain ns" "k \<le> length ns" by (simp_all add: store_inv_def disk_inv_def)
  then show "history s = map nHash ns" by (simp add: indexed_history)
  show "disk_inv L dir (sworld x) ns k" "sdir s = dir" "subseq (acked x) (map nHash (take k ns))"
    using assms(6) d by (simp_all add: sys_inv_def)
qed

text \<open>An acknowledged event keeps its position and everything before it, whatever happens.\<close>

lemma acknowledged_position:
  assumes "golib_ok L" "dir \<noteq> []" "sys_inv L dir x ns k" "h \<in> set (acked x)" "store_steps L dir x y"
  obtains i ms k' where "i < length ns" "nHash (ns ! i) = h" "sys_inv L dir y ms k'" "i < length ms"
    "take (Suc i) ms = take (Suc i) ns"
proof -
  have sub: "subseq (acked x) (map nHash (take k ns))" and k: "k \<le> length ns"
    using assms(3) by (simp_all add: sys_inv_def disk_inv_def)
  have "h \<in> set (map nHash (take k ns))" using list_emb_set [OF sub assms(4)] by metis
  then obtain i where i: "i < k" "i < length ns" "nHash (ns ! i) = h" using k by (auto simp: in_set_conv_nth)
  obtain ms k' where ms: "sys_inv L dir y ms k'" "grows ns k ms k'"
    using sys_inv_steps [OF assms(1,2,5,3)] by blast
  have g: "take k ms = take k ns" "k \<le> k'" and k': "k' \<le> length ms"
    using ms by (simp_all add: grows_def sys_inv_def disk_inv_def)
  have "take (Suc i) ms = take (Suc i) ns"
    using g(1) i(1) by (metis Suc_leI min.absorb1 take_take)
  then show thesis using that i(2,3) ms(1) i(1) g(2) k' by simp
qed

text \<open>
  A page of events is a slice of the history: it starts behind the cursor, ends at the
  limit or at the observed root, has the nodes found on disk under these hashes (or what of
  them is kept as metadata), reports the boundary it used, and says whether events remain.
\<close>

theorem page_is_slice:
  assumes "golib_ok L" "dir \<noteq> []" "store_reachable L dir x" "smem x = Some s" "length (history s) < 2 ^ 63"
    and "eventPageAt L s after obs limit mo (sworld x) = (Inr pg, w')"
  shows "\<exists>b t. b \<le> t \<and> t \<le> length (history s)
    \<and> after = (if b = 0 then [] else history s ! (b - 1)) \<and> epRoot pg = (if t = 0 then [] else history s ! (t - 1))
    \<and> (obs = [] \<longrightarrow> t = length (history s)) \<and> (obs \<noteq> [] \<longrightarrow> epRoot pg = obs)
    \<and> map nHash (epNodes pg) = take (min (t - b) (nat (sint limit))) (drop b (history s))
    \<and> (\<forall>n \<in> set (epNodes pg). \<exists>m. node_at L dir (sworld x) (nHash n) m \<and> n = (if mo then replayMetadata m else m))
    \<and> (epHasMore pg \<longleftrightarrow> b + nat (sint limit) < t)"
proof -
  obtain ns m k where i: "store_inv L s (sworld x) ns m k" "sdir s = dir"
    using reachable_store [OF assms(1-4)] by blast
  have "rootval (fcontent (sworld x) (rootPath (sdir s))) = indexedRoot s"
    using assms(6) currentRoot_Inr
    by (auto simp: eventPageAt_def checkedRoot_def io_iffs split: if_splits)
  then have m: "m = length ns" using store_inv_root [OF i(1)] by simp
  then have ix: "indexed s ns" and d: "disk_inv L dir (sworld x) ns k" using i by (simp_all add: store_inv_def)
  have h: "history s = map nHash ns" using indexed_history [OF ix] .
  have len: "length ns < 2 ^ 63" using assms(5) h by simp
  obtain b t where bt: "b \<le> t" "t \<le> length ns" "after = tip (take b ns)" "epRoot pg = tip (take t ns)"
      "if obs = [] then t = length ns else epRoot pg = obs"
      "epNodes pg = map (page_view mo) (segment b (min t (b + nat (sint limit))) ns)"
      "epHasMore pg \<longleftrightarrow> b + nat (sint limit) < t"
    using page_correct [OF i(1) len assms(6)] by blast
  have tp: "tip (take j ns) = (if j = 0 then [] else history s ! (j - 1))" if "j \<le> length ns" for j
    using that tip_take_Suc [of "j - 1" ns] by (cases j) (simp_all add: h)
  have mh: "nHash (page_view mo n) = nHash n" for n by (simp add: page_view_def)
  have "min t (b + nat (sint limit)) - b = min (t - b) (nat (sint limit))" by (auto simp: min_def)
  then have nodes: "map nHash (epNodes pg) = take (min (t - b) (nat (sint limit))) (drop b (history s))"
    using bt(6) by (simp add: h segment_def mh comp_def take_map drop_map)
  have "\<exists>m. node_at L dir (sworld x) (nHash n) m \<and> n = (if mo then replayMetadata m else m)"
    if "n \<in> set (epNodes pg)" for n
  proof -
    obtain a where a: "a \<in> set ns" "n = page_view mo a"
      using \<open>n \<in> set (epNodes pg)\<close> unfolding bt(6) segment_def by (auto dest!: in_set_takeD in_set_dropD)
    have "node_at L dir (sworld x) (nHash n) a"
      using stored_node_at [OF disk_inv_facts(3) [OF d a(1)]] by (simp add: a(2) mh)
    then show ?thesis using a(2) by (auto simp: page_view_def)
  qed
  moreover have "b \<le> length ns" using bt(1,2) by simp
  ultimately show ?thesis
    using bt(1,2,3,4,7) bt(5) tp [of b] tp [of t] nodes
    by (intro exI [of _ b] exI [of _ t]) (simp add: h split: if_splits)
qed


theorem page_is_slice_witness:
  "\<exists>pg w'. eventPageAt demoL (fst (demo_run ''abc'')) (demo_hash (CHR ''a'')) [] 1 True (snd (demo_run ''abc'')) = (Inr pg, w')
     \<and> map nHash (epNodes pg) = [demo_hash (CHR ''b'')]"
proof -
  let ?s = "fst (demo_run ''abc'')" and ?w = "snd (demo_run ''abc'')"
  have c: "distinct ''abc''" "list_all plain_char ''abc''" by (simp_all add: plain_char_def)
  obtain ns where ns: "demo_ok ''abc'' ns ?s ?w" "store_inv demoL ?s ?w ns (length ns) (length ns)"
      "map nHash ns = map demo_hash ''abc''"
    using demo_facts [OF c] by blast
  obtain n1 n2 n3 where e: "ns = [n1, n2, n3]" "nHash n1 = demo_hash (CHR ''a'')"
    using ns(3) by auto
  have "indexed ?s ns" using ns(2) by (simp add: store_inv_def)
  then have h: "history ?s = map demo_hash ''abc''" using ns(3) indexed_history by metis
  have f: "faults ?w = []" using ns(1) by (simp add: demo_ok_def)
  obtain pg where run: "eventPageAt demoL ?s (demo_hash (CHR ''a'')) [] 1 True ?w = (Inr pg, ?w)"
    using page_no_fault [OF ns(2) f, of 1 3 1 "[]" True] e by (simp add: tip_def)
  have ne: "demo_dir \<noteq> []" and r: "eventPageAt demoL ?s (demo_hash (CHR ''a'')) [] 1 True (sworld (demo_sys ''abc'')) = (Inr pg, ?w)"
    and l: "length (history ?s) < 2 ^ 63"
    using run by (simp_all add: demo_dir_def h)
  obtain b t where bt: "b \<le> t" "t \<le> length (history ?s)" "demo_hash (CHR ''a'') = (if b = 0 then [] else history ?s ! (b - 1))"
      "t = length (history ?s)" "map nHash (epNodes pg) = take (min (t - b) (nat (sint (1 :: goint)))) (drop b (history ?s))"
    using page_is_slice [OF demoL_ok ne demo_reachable [OF c] demo_sys_views(1) l r] by blast
  have l3: "history ?s = [demo_hash (CHR ''a''), demo_hash (CHR ''b''), demo_hash (CHR ''c'')]"
    using h by simp
  have na: "demo_hash (CHR ''a'') \<noteq> []" using demo_hash_valid valid_hash_Nil by metis
  have "b = 1"
  proof -
    consider "b = 0" | "b = 1" | "b = 2" | "b = 3" using bt(1,2) unfolding l3 by fastforce
    then show ?thesis using bt(3) na unfolding l3 by cases (simp_all add: demo_hash_inj)
  qed
  then have "map nHash (epNodes pg) = [demo_hash (CHR ''b'')]" using bt(4,5) unfolding l3 by simp
  then show ?thesis using run by (intro exI conjI)
qed

text \<open>
  C8. Replaying an acknowledged root page by page gives every event up to it, once and in
  order, whatever other appends, failures, crashes and reopenings happen between the pages,
  for every page size (that does not overflow).
\<close>

theorem replay_is_complete:
  assumes "golib_ok L" "dir \<noteq> []" "store_reachable L dir x" "smem x = Some s" "in_step dir s (sworld x)"
    and "history s = before @ h # after" "h \<in> set (acked x)"
    and "\<And>j. \<exists>y. store_steps L dir x y \<and> smem y = Some (fst (env j)) \<and> sworld y = snd (env j)
      \<and> in_step dir (fst (env j)) (snd (env j)) \<and> faults (snd (env j)) = [] \<and> length (history (fst (env j))) < 2 ^ 63"
    and "1 \<le> sint limit" "int (length (history s)) + sint limit < 2 ^ 63" "length before + 1 < fuel"
  shows "replay L env h limit fuel 0 [] = Inr (take (length before + 1) (metadata s))"
proof -
  obtain ns k where sys: "sys_inv L dir x ns k" using store_reachable_inv assms(1-3) by blast
  note f = in_step_store [OF assms(1-5) sys]
  let ?i = "length before"
  have hi: "?i < length ns" "nHash (ns ! ?i) = h"
  proof -
    have l: "length ns = length (history s)" by (simp add: f(5))
    then show "?i < length ns" by (simp add: assms(6))
    then have "nHash (ns ! ?i) = history s ! ?i" by (simp add: f(5))
    then show "nHash (ns ! ?i) = h" by (simp add: assms(6))
  qed
  let ?P = "take (Suc ?i) ns"
  have tp: "tip ?P = h" using tip_take_Suc [OF hi(1)] hi(2) by simp
  have env: "\<exists>ms k. store_inv L (fst (env j)) (snd (env j)) (?P @ ms) (length (?P @ ms)) k
      \<and> faults (snd (env j)) = [] \<and> length (?P @ ms) < 2 ^ 63" for j
  proof -
    obtain y where y: "store_steps L dir x y" "smem y = Some (fst (env j))" "sworld y = snd (env j)"
        "in_step dir (fst (env j)) (snd (env j))" "faults (snd (env j)) = []"
        "length (history (fst (env j))) < 2 ^ 63"
      using assms(8) by blast
    obtain i ms k' where m: "i < length ns" "nHash (ns ! i) = h" "sys_inv L dir y ms k'"
        "take (Suc i) ms = take (Suc i) ns"
      using acknowledged_position [OF assms(1,2) sys assms(7) y(1)] by metis
    have "distinct (map nHash ns)" using f(4) by (simp add: chain_def)
    then have "i = ?i" using m(1,2) hi nth_eq_iff_index_eq [of "map nHash ns" i ?i] by simp
    then have e: "?P @ drop (Suc ?i) ms = ms" using m(4) append_take_drop_id by metis
    have stp: "in_step dir (fst (env j)) (sworld y)" using y(3,4) by simp
    note g = in_step_store [OF assms(1,2) steps_reachable [OF y(1) assms(3)] y(2) stp m(3)]
    have "length ms < 2 ^ 63" using y(6) by (simp add: g(5))
    then have "store_inv L (fst (env j)) (snd (env j)) (?P @ drop (Suc ?i) ms) (length (?P @ drop (Suc ?i) ms)) k'
        \<and> faults (snd (env j)) = [] \<and> length (?P @ drop (Suc ?i) ms) < 2 ^ 63"
      unfolding e using g(1) y(3,5) by simp
    then show ?thesis by blast
  qed
  have "int (length ?P) + sint limit < 2 ^ 63" using assms(10) f(5) by simp
  moreover have "?P \<noteq> []" using hi(1) by (cases ns) auto
  moreover have "length ?P - 0 < fuel" using assms(11) by simp
  ultimately have "replay L env (tip ?P) limit fuel 0 (tip (take 0 ?P)) = Inr (map replayMetadata (drop 0 ?P))"
    using replay_correct_from [where env = env, OF env assms(9), of 0] by simp
  moreover have "map replayMetadata ?P = take (?i + 1) (metadata s)"
    by (simp add: indexed_metadata [OF f(3)] take_map)
  ultimately show ?thesis by (simp add: tp)
qed

theorem replay_is_complete_witness:
  "replay demoL (\<lambda>j. demo_run ''abc'') (demo_hash (CHR ''b'')) 1 4 0 [] = Inr (take 2 (metadata (fst (demo_run ''abc''))))"
proof -
  let ?s = "fst (demo_run ''abc'')" and ?w = "snd (demo_run ''abc'')"
  have c: "distinct ''abc''" "list_all plain_char ''abc''" by (simp_all add: plain_char_def)
  obtain ns where ns: "demo_ok ''abc'' ns ?s ?w" "store_inv demoL ?s ?w ns (length ns) (length ns)"
      "disk_inv demoL demo_dir ?w ns (length ns)" "map nHash ns = map demo_hash ''abc''"
    using demo_facts [OF c] by blast
  have ix: "indexed ?s ns" using ns(2) by (simp add: store_inv_def)
  have h: "history ?s = [demo_hash (CHR ''a'')] @ demo_hash (CHR ''b'') # [demo_hash (CHR ''c'')]"
    using ns(4) indexed_history [OF ix] by simp
  have st: "in_step demo_dir ?s ?w" using indexed_root [OF ix] ns(3) by (simp add: in_step_def disk_inv_def)
  have f: "faults ?w = []" using ns(1) by (simp add: demo_ok_def)
  have ne: "demo_dir \<noteq> []" by (simp add: demo_dir_def)
  have s: "smem (demo_sys ''abc'') = Some ?s" "in_step demo_dir ?s (sworld (demo_sys ''abc''))"
    using st by simp_all
  have a: "demo_hash (CHR ''b'') \<in> set (acked (demo_sys ''abc''))" by simp
  have len: "length (history ?s) = 3" using h by simp
  have env: "\<exists>y. store_steps demoL demo_dir (demo_sys ''abc'') y \<and> smem y = Some ?s \<and> sworld y = ?w
      \<and> in_step demo_dir ?s ?w \<and> faults ?w = [] \<and> length (history ?s) < 2 ^ 63"
    using store_steps.none [of demoL demo_dir "demo_sys ''abc''"] st f
    by (intro exI [of _ "demo_sys ''abc''"]) (simp add: len)
  have "replay demoL (\<lambda>j. demo_run ''abc'') (demo_hash (CHR ''b'')) 1 4 0 []
      = Inr (take (length [demo_hash (CHR ''a'')] + 1) (metadata ?s))"
    by (rule replay_is_complete [OF demoL_ok ne demo_reachable [OF c] s h a env]) (simp_all add: len)
  then show ?thesis by (simp add: numeral_2_eq_2)
qed


text \<open>
  The sum of cursor and limit is not checked: in a store with events, a limit close to the
  largest integer (accepted as positive) makes every page after the first event panic, for the
  slice is made with a negative capacity.
\<close>

theorem page_limit_overflow:
  assumes "golib_ok L" "dir \<noteq> []" "store_reachable L dir x" "smem x = Some s" "in_step dir s (sworld x)"
    and "faults (sworld x) = []" "length (history s) < 2 ^ 63" "i < length (history s)"
    and "1 \<le> sint limit" "2 ^ 63 \<le> int (i + 1) + sint limit"
  shows "eventPageAt L s (history s ! i) [] limit mo (sworld x) = (Inl slice_panic, sworld x)"
proof -
  obtain ns k where sys: "sys_inv L dir x ns k" using store_reachable_inv assms(1-3) by blast
  note f = in_step_store [OF assms(1-5) sys]
  have i: "i < length ns" using assms(8) by (simp add: f(5))
  have "history s ! i = tip (take (Suc i) ns)" using i tip_take_Suc [OF i] by (simp add: f(5))
  then have ps: "pageStart s (history s ! i) (length ns) = Inr (Suc i)"
    using pageStart_iff [OF f(3,4), of "Suc i" "length ns"] i by simp
  have pt: "pageTarget s [] (tip ns) = Inr (tip ns, length ns)" by (simp add: pageTarget_def f(5))
  have "pageEnd (Suc i) limit (length ns) < 0"
    using pageEnd_cases(2) [of "Suc i" "length ns" limit] i assms(7,9,10) by (simp add: f(5))
  then show ?thesis
    using assms(9) checkedRoot_no_fault [OF f(1) assms(6)] pt ps
    by (simp add: eventPageAt_def io_defs Let_def)
qed

theorem page_limit_overflow_witness:
  "eventPageAt demoL (fst (demo_run ''a'')) (history (fst (demo_run ''a'')) ! 0) [] 0x7FFFFFFFFFFFFFFF True
     (snd (demo_run ''a'')) = (Inl slice_panic, snd (demo_run ''a''))"
proof -
  let ?s = "fst (demo_run ''a'')" and ?w = "snd (demo_run ''a'')"
  have c: "distinct ''a''" "list_all plain_char ''a''" by (simp_all add: plain_char_def)
  obtain ns where ns: "demo_ok ''a'' ns ?s ?w" "store_inv demoL ?s ?w ns (length ns) (length ns)"
      "disk_inv demoL demo_dir ?w ns (length ns)" "map nHash ns = map demo_hash ''a''"
    using demo_facts [OF c] by blast
  have ix: "indexed ?s ns" using ns(2) by (simp add: store_inv_def)
  have h: "history ?s = [demo_hash (CHR ''a'')]" using ns(4) indexed_history [OF ix] by simp
  have st: "in_step demo_dir ?s ?w" using indexed_root [OF ix] ns(3) by (simp add: in_step_def disk_inv_def)
  have ne: "demo_dir \<noteq> []" by (simp add: demo_dir_def)
  have f: "faults ?w = []" using ns(1) by (simp add: demo_ok_def)
  show ?thesis
    using page_limit_overflow [OF demoL_ok ne demo_reachable [OF c], of ?s 0 "0x7FFFFFFFFFFFFFFF" True] st f
    by (simp add: h)
qed

section \<open>Payloads\<close>

text \<open>
  C14. A batch of payloads is exactly what was asked for: in the order of the request, without
  repetition, every event at or before the observed root, every payload the plaintext of the
  event's node, and their total within the limit; whatever other callers do between the
  selection and the reads, as long as they leave the stored nodes where they are.
\<close>

theorem payload_batch_exact:
  assumes "golib_ok L" "dir \<noteq> []" "store_reachable L dir x" "smem x = Some s"
    and "\<And>v n. stored L dir v n \<Longrightarrow> stored L dir (\<rho> v) n"
    and "EventPayloadsBounded L s ids obs mb \<rho> (sworld x) = (Inr evs, w')"
  shows "\<exists>t < length (history s). history s ! t = obs \<and> map evID evs = ids \<and> distinct ids
    \<and> total_bytes evs \<le> mb
    \<and> (\<forall>e \<in> set evs. \<exists>i \<le> t. history s ! i = evID e
        \<and> (\<exists>n. node_at L dir (sworld x) (evID e) n \<and> nodePayload L (skey s) n = Inr (evPayload e)))"
proof -
  obtain ns m k where i: "store_inv L s (sworld x) ns m k" "sdir s = dir"
    using reachable_store [OF assms(1-4)] by blast
  have mb: "1 \<le> mb" and run: "eventPayloads L s ids obs mb \<rho> (sworld x) = (Inr evs, w')"
    using assms(6) by (auto simp: EventPayloadsBounded_def split: if_splits)
  have ext: "extends L (sdir s) ns (\<rho> v)" if "at_start (sworld x) v" for v
    using store_inv_at_start [OF i(1) that] i(2) assms(5) by (auto simp: extends_def store_inv_def disk_inv_def)
  obtain t where t: "t < length ns" "obs = nHash (ns ! t)" "m = length ns" "map evID evs = ids" "distinct ids"
      "total_bytes evs \<le> mb"
      "\<forall>e \<in> set evs. \<exists>i \<le> t. nHash (ns ! i) = evID e \<and> nodePayload L (skey s) (ns ! i) = Inr (evPayload e)"
    using payloads_correct [OF i(1) ext _ run] mb by auto
  have h: "history s = map nHash ns" and d: "disk_inv L dir (sworld x) ns k"
    using i t(3) indexed_history by (simp_all add: store_inv_def)
  have "\<exists>i \<le> t. history s ! i = evID e
      \<and> (\<exists>n. node_at L dir (sworld x) (evID e) n \<and> nodePayload L (skey s) n = Inr (evPayload e))"
    if ev: "e \<in> set evs" for e
  proof -
    obtain i where e: "i \<le> t" "nHash (ns ! i) = evID e" "nodePayload L (skey s) (ns ! i) = Inr (evPayload e)"
      using bspec [OF t(7) ev] by blast
    then have "node_at L dir (sworld x) (evID e) (ns ! i)"
      using stored_node_at [OF disk_inv_facts(3) [OF d, of "ns ! i"]] t(1) by simp
    then show ?thesis using e t(1) by (intro exI [of _ i]) (auto simp: h)
  qed
  then have "\<forall>e \<in> set evs. \<exists>i \<le> t. history s ! i = evID e
      \<and> (\<exists>n. node_at L dir (sworld x) (evID e) n \<and> nodePayload L (skey s) n = Inr (evPayload e))"
    by blast
  moreover have "t < length (history s)" "history s ! t = obs" using t(1,2) by (simp_all add: h)
  ultimately show ?thesis using t(4-6) by blast
qed

lemma demo_batch:
  "\<exists>p. \<forall>mb>int (length p).
    EventPayloadsBounded demoL (fst (demo_run ''ab'')) [demo_hash (CHR ''a'')] (demo_hash (CHR ''b'')) mb (\<lambda>w. w) (snd (demo_run ''ab''))
    = (Inr [\<lparr>evID = demo_hash (CHR ''a''), evPayload = p\<rparr>], snd (demo_run ''ab''))"
proof -
  let ?s = "fst (demo_run ''ab'')" and ?w = "snd (demo_run ''ab'')" and ?a = "demo_hash (CHR ''a'')"
    and ?b = "demo_hash (CHR ''b'')"
  have c: "distinct ''ab''" "list_all plain_char ''ab''" by (simp_all add: plain_char_def)
  obtain ns where ns: "demo_ok ''ab'' ns ?s ?w" "store_inv demoL ?s ?w ns (length ns) (length ns)"
      "disk_inv demoL demo_dir ?w ns (length ns)" "map nHash ns = map demo_hash ''ab''"
      "readable demoL (replicate 32 (CHR 0xAA)) ns"
    using demo_facts [OF c] by blast
  obtain n m where e: "ns = [n, m]" "nHash n = ?a" "nHash m = ?b" using ns(4) by auto
  obtain p where p: "nodePayload demoL (replicate 32 (CHR 0xAA)) n = Inr p" using ns(5) e by (auto simp: readable_iff)
  have sd: "sdir ?s = demo_dir" "skey ?s = replicate 32 (CHR 0xAA)" "faults ?w = []"
    using ns(1) by (simp_all add: demo_ok_def)
  have ix: "indexed ?s ns" "chain ns" using ns(2,3) by (simp_all add: store_inv_def disk_inv_def)
  have hi: "historyIndex ?s ?a = Some 0" "historyIndex ?s ?b = Some 1"
    using historyIndex_iff [OF ix] by (simp_all add: e)
  have v: "validateHash (demo_hash x) = Inr ()" for x using demo_hash_valid [of x] by (simp add: valid_hash_def)
  have rd: "readNode demoL demo_dir ?a ?w = (Inr n, ?w)"
    using readNode_no_fault [OF sd(3)] stored_node_at [OF disk_inv_facts(3) [OF ns(3), of n]] e by simp
  have "EventPayloadsBounded demoL ?s [?a] ?b mb (\<lambda>w. w) ?w = (Inr [\<lparr>evID = ?a, evPayload = p\<rparr>], ?w)"
    if "int (length p) < mb" for mb
    using that checkedRoot_no_fault [OF ns(2) sd(3)] hi v rd p sd
    by (simp add: EventPayloadsBounded_def eventPayloads_def eventPayloadsWithReader_def
        selectPayloadEventIDs_def io_defs bindE_def)
  then show ?thesis by blast
qed

theorem payload_batch_exact_witness:
  "\<exists>mb p. EventPayloadsBounded demoL (fst (demo_run ''ab'')) [demo_hash (CHR ''a'')] (demo_hash (CHR ''b'')) mb (\<lambda>w. w)
       (snd (demo_run ''ab'')) = (Inr [\<lparr>evID = demo_hash (CHR ''a''), evPayload = p\<rparr>], snd (demo_run ''ab''))
     \<and> int (length p) \<le> mb"
proof -
  obtain p where p: "\<forall>mb>int (length p).
    EventPayloadsBounded demoL (fst (demo_run ''ab'')) [demo_hash (CHR ''a'')] (demo_hash (CHR ''b'')) mb (\<lambda>w. w) (snd (demo_run ''ab''))
    = (Inr [\<lparr>evID = demo_hash (CHR ''a''), evPayload = p\<rparr>], snd (demo_run ''ab''))"
    using demo_batch by blast
  have c: "distinct ''ab''" "list_all plain_char ''ab''" by (simp_all add: plain_char_def)
  have "total_bytes [\<lparr>evID = demo_hash (CHR ''a''), evPayload = p\<rparr>] \<le> int (length p) + 1"
    using payload_batch_exact [OF demoL_ok _ demo_reachable [OF c] demo_sys_views(1), of "\<lambda>w. w" "[demo_hash (CHR ''a'')]"
        "demo_hash (CHR ''b'')" "int (length p) + 1" "[\<lparr>evID = demo_hash (CHR ''a''), evPayload = p\<rparr>]" "snd (demo_run ''ab'')"]
      p [rule_format, of "int (length p) + 1"]
    by (auto simp: demo_dir_def)
  then show ?thesis using p [rule_format, of "int (length p) + 1"] by (intro exI [of _ "int (length p) + 1"] exI [of _ p]) simp
qed

section \<open>Checking a store\<close>

lemma verifyLoop_complete:
  "faults w = [] \<Longrightarrow> (\<forall>h \<in> set hs. \<exists>n p. node_at L (sdir s) w h n \<and> nodePayload L (skey s) n = Inr p) \<Longrightarrow>
   verifyLoop L s hs c w = ((c + length hs, None), w)"
proof (induction hs arbitrary: c)
  case (Cons h hs)
  then obtain n p where "node_at L (sdir s) w h n" "nodePayload L (skey s) n = Inr p" by auto
  then have "readNode L (sdir s) h w = (Inr n, w)" "nodePayload L (skey s) n = Inr p"
    using readNode_no_fault [OF Cons.prems(1)] by auto
  with Cons show ?case by simp
qed simp

text \<open>
  C12. The check of the whole store is exact, for every store and every disk, altered ones
  included: when no call fails it succeeds if and only if the root file names the indexed root
  and every event of the history is found under its hash, hashes to it and can be decrypted
  and authenticated with the store's key. The count it reports is the number of events.
\<close>

theorem verify_all_exact:
  assumes "faults w = []" "rootPath (sdir s) \<notin> set (dirs w)"
  shows "VerifyAll L s w = ((root, count, None), w) \<longleftrightarrow>
    root = indexedRoot s \<and> rootval (fcontent w (rootPath (sdir s))) = root \<and> count = length (history s)
    \<and> (\<forall>h \<in> set (history s). \<exists>n p. node_at L (sdir s) w h n \<and> nodePayload L (skey s) n = Inr p)"
    (is "?run \<longleftrightarrow> ?ok")
proof
  assume ?run
  from VerifyAll_sound_raw [OF this] show ?ok by simp
next
  assume ?ok
  then show ?run
    using currentRoot_no_fault [OF assms] verifyLoop_complete [OF assms(1), of "history s" L s 0]
    by (simp add: VerifyAll_def)
qed

theorem verify_all_exact_witness:
  "VerifyAll demoL (fst (demo_run ''ab'')) (snd (demo_run ''ab''))
     = ((demo_hash (CHR ''b''), 2, None), snd (demo_run ''ab''))"
proof -
  let ?s = "fst (demo_run ''ab'')" and ?w = "snd (demo_run ''ab'')"
  have c: "distinct ''ab''" "list_all plain_char ''ab''" by (simp_all add: plain_char_def)
  obtain ns where ns: "demo_ok ''ab'' ns ?s ?w" "store_inv demoL ?s ?w ns (length ns) (length ns)"
      "disk_inv demoL demo_dir ?w ns (length ns)" "map nHash ns = map demo_hash ''ab''"
      "readable demoL (replicate 32 (CHR 0xAA)) ns"
    using demo_facts [OF c] by blast
  have ix: "indexed ?s ns" using ns(2) by (simp add: store_inv_def)
  have h: "history ?s = map nHash ns" using indexed_history [OF ix] .
  have sd: "sdir ?s = demo_dir" "skey ?s = replicate 32 (CHR 0xAA)" "faults ?w = []"
    using ns(1) by (simp_all add: demo_ok_def)
  have t: "tip ns = demo_hash (CHR ''b'')" using ns(4) by (auto simp: tip_def)
  have l: "length ns = 2" using arg_cong [OF ns(4), of length] by simp
  have all: "\<forall>h \<in> set (history ?s). \<exists>n p. node_at demoL (sdir ?s) ?w h n \<and> nodePayload demoL (skey ?s) n = Inr p"
  proof
    fix h' assume "h' \<in> set (history ?s)"
    then obtain n where n: "n \<in> set ns" "h' = nHash n" by (auto simp: h)
    then show "\<exists>n p. node_at demoL (sdir ?s) ?w h' n \<and> nodePayload demoL (skey ?s) n = Inr p"
      using stored_node_at [OF disk_inv_facts(3) [OF ns(3) n(1)]] ns(5) by (auto simp: sd readable_iff)
  qed
  have rt: "rootPath (sdir ?s) \<notin> set (dirs ?w)" "rootval (fcontent ?w (rootPath (sdir ?s))) = tip ns"
    using ns(3) by (simp_all add: sd disk_inv_def)
  have "indexedRoot ?s = tip ns" using indexed_root [OF ix] .
  then show ?thesis
    using verify_all_exact [OF sd(3) rt(1), of demoL "tip ns" 2] all rt(2) by (simp add: t h l)
qed

text \<open>
  A pinned root is never lost: \<^verbatim>\<open>ContainsRoot\<close> answers whether the root is in the history,
  and the answer for the root of an acknowledged append is yes in every later state.
\<close>

theorem pinned_root_is_found:
  assumes "golib_ok L" "dir \<noteq> []" "store_reachable L dir x" "store_steps L dir x y" "smem y = Some t"
    and "ContainsRoot t root (sworld y) = (Inr b, w')"
  shows "(b \<longleftrightarrow> trimSpace root \<in> set (history t)) \<and> (trimSpace root \<in> set (acked x) \<longrightarrow> b)"
proof -
  have ry: "store_reachable L dir y" using steps_reachable [OF assms(4,3)] .
  obtain ns k where sys: "sys_inv L dir x ns k" using store_reachable_inv assms(1-3) by blast
  obtain ms m k' where i: "store_inv L t (sworld y) ms m k'" "sys_inv L dir y ms k'"
    using reachable_store [OF assms(1,2) ry assms(5)] by metis
  obtain r w1 where cr: "checkedRoot t (sworld y) = (Inr r, w1)" and b: "b \<longleftrightarrow> historyIndex t (trimSpace root) \<noteq> None"
    using assms(6) by (auto simp: ContainsRoot_def io_iffs Let_def split: if_splits)
  note c = checkedRoot_Inr [OF i(1) cr]
  have ch: "chain ms" using i(1) by (simp add: store_inv_def disk_inv_def)
  have h: "b \<longleftrightarrow> trimSpace root \<in> set (history t)"
    unfolding b using historyIndex_None [OF c(3) ch] indexed_history [OF c(3)] by simp
  have "b" if "trimSpace root \<in> set (acked x)"
  proof -
    obtain ps k2 where p: "sys_inv L dir y ps k2" "nHash ` set (take k ns) \<subseteq> nHash ` set ps"
    proof -
      obtain ps k2 where "sys_inv L dir y ps k2" "grows ns k ps k2"
        using sys_inv_steps [OF assms(1,2,4) sys] by blast
      then show thesis using that set_take_subset [of k ps] by (auto simp: grows_def)
    qed
    have sub: "subseq (acked x) (map nHash (take k ns))" using sys by (simp add: sys_inv_def)
    have "trimSpace root \<in> set (map nHash (take k ns))" using list_emb_set [OF sub that] by metis
    then have "trimSpace root \<in> set (map nHash ps)" using p(2) by auto
    moreover obtain m2 where m2: "store_inv L t (sworld y) ps m2 k2" using p(1) assms(5) by (auto simp: sys_inv_def)
    ultimately show ?thesis unfolding h using checkedRoot_Inr [OF m2 cr] indexed_history by metis
  qed
  then show ?thesis using h by blast
qed


theorem pinned_root_is_found_witness:
  "ContainsRoot (fst (demo_run ''ab'')) (demo_hash (CHR ''a'')) (snd (demo_run ''ab'')) = (Inr True, snd (demo_run ''ab''))"
proof -
  let ?s = "fst (demo_run ''ab'')" and ?w = "snd (demo_run ''ab'')" and ?a = "demo_hash (CHR ''a'')"
  have c: "distinct ''ab''" "list_all plain_char ''ab''" by (simp_all add: plain_char_def)
  obtain ns where ns: "demo_ok ''ab'' ns ?s ?w" "store_inv demoL ?s ?w ns (length ns) (length ns)"
    using demo_facts [OF c] by blast
  have f: "faults ?w = []" using ns(1) by (simp add: demo_ok_def)
  have t: "trimSpace ?a = ?a" using demo_hash_valid valid_hash_Nil trimSpace_printable valid_hash_printable by metis
  have a: "?a \<noteq> []" "validateHash ?a = Inr ()" using demo_hash_valid [of "CHR ''a''"] valid_hash_Nil by (auto simp: valid_hash_def)
  obtain b where b: "ContainsRoot ?s ?a ?w = (Inr b, ?w)"
    using checkedRoot_no_fault [OF ns(2) f] a by (simp add: ContainsRoot_def t io_defs Let_def)
  have ne: "demo_dir \<noteq> []" by (simp add: demo_dir_def)
  have b': "ContainsRoot ?s ?a (sworld (demo_sys ''ab'')) = (Inr b, ?w)" using b by simp
  have "?a \<in> set (acked (demo_sys ''ab''))" by simp
  then have b
    using conjunct2 [OF pinned_root_is_found [OF demoL_ok ne demo_reachable [OF c] store_steps.none demo_sys_views(1) b']]
    unfolding t by blast
  then show ?thesis using b by simp
qed

end
