(* ===== verification/FileProperties.thy ===== *)
theory FileProperties
  imports RequestProperties
begin

text \<open>
  The writer lock, replacement of files, named refs, progress when no call fails, and the data
  key. Each theorem with hypotheses is followed by its application to a concrete world.
\<close>

section \<open>One writer\<close>

text \<open>
  C9. However many processes open and close stores, fail, end or see the machine restart, at
  most one of them holds a directory; and while one does, every attempt to take its lock fails.
\<close>

theorem one_writer_per_store:
  assumes "host_reachable h" "locked h p = Some (dir, f, fd)"
  shows "(locked h q = Some (dir, f2, fd2) \<longrightarrow> q = p)
    \<and> (\<exists>e. fst (acquireStoreLock pid dir (hworld h)) = Inl e
        \<and> (faults (hworld h) = [] \<and> dir \<in> set (dirs (hworld h)) \<and> lockPath dir \<notin> set (dirs (hworld h))
            \<longrightarrow> e = lock_conflict))"
proof -
  have inv: "host_inv h" by (rule host_reachable_inv [OF assms(1)])
  have held: "map_of (flocks (hworld h)) (lockPath dir) = Some fd" and wf: "wf_locks (hworld h)"
    using inv assms(2) unfolding host_inv_def by blast+
  have "q = p" if q: "locked h q = Some (dir, f2, fd2)"
  proof -
    have "map_of (flocks (hworld h)) (lockPath dir) = Some fd2" using inv q unfolding host_inv_def by blast
    then have "fd2 = fd" using held by simp
    then show ?thesis using inv q assms(2) unfolding host_inv_def by blast
  qed
  moreover obtain e w' where "acquireStoreLock pid dir (hworld h) = (Inl e, w')"
    using acquire_refused [OF wf held] by blast
  moreover have "e = lock_conflict" if "faults (hworld h) = []" "dir \<in> set (dirs (hworld h))"
      "lockPath dir \<notin> set (dirs (hworld h))"
    using acquire_refused_conflict [OF wf held that, of pid] calculation(2) by auto
  ultimately show ?thesis by simp
qed

theorem one_writer_per_store_witness:
  "\<exists>(h :: host) f fd. locked h 0 = Some (demo_dir, f, fd)
     \<and> (\<exists>e. fst (acquireStoreLock ''9'' demo_dir (hworld h)) = Inl e)"
proof -
  let ?w = "demo_world\<lparr>dirs := [demo_dir]\<rparr>"
  let ?h = "\<lparr>hworld = ?w, locked = (\<lambda>_. None)\<rparr>"
  have s: "host_reachable ?h" by (rule host_reachable.start) (simp_all add: demo_world_def)
  obtain i w' where a: "acquireStoreLock ''8'' demo_dir ?w = (Inr \<lparr>lfile = Some ((lockPath demo_dir, i), 3)\<rparr>, w')"
    by (simp add: acquireStoreLock_def openLockFile_def flockEx_def fileTruncate_def fileWrite_def fileSync_def
        syscall_def io_defs demo_world_def demo_dir_def lockPath_def set_inode_def Let_def)
  let ?g = "?h\<lparr>hworld := w', locked := (locked ?h)(0 := Some (demo_dir, (lockPath demo_dir, i), 3))\<rparr>"
  have a': "acquireStoreLock ''8'' demo_dir (hworld ?h) = (Inr \<lparr>lfile = Some ((lockPath demo_dir, i), 3)\<rparr>, w')"
    using a by simp
  have "host_step ?h ?g" by (rule host_step.acquire [OF _ a']) (rule refl | simp)+
  then have r: "host_reachable ?g" by (rule host_reachable.step [OF s])
  have l: "locked ?g 0 = Some (demo_dir, (lockPath demo_dir, i), 3)" by simp
  have "\<exists>e. fst (acquireStoreLock ''9'' demo_dir (hworld ?g)) = Inl e"
    using one_writer_per_store [OF r l, of _ _ _ "''9''"] by blast
  with l have "\<exists>f fd. locked ?g 0 = Some (demo_dir, f, fd)
     \<and> (\<exists>e. fst (acquireStoreLock ''9'' demo_dir (hworld ?g)) = Inl e)" by blast
  then show ?thesis by (rule exI)
qed

section \<open>Files\<close>

text \<open>
  C11. Replacing a file is atomic for readers and for crashes. Whatever call of
  \<^verbatim>\<open>atomicWriteFile\<close> fails, the file holds its old contents or the new ones, now and after a
  crash; if it reports success the new contents survive every crash; no other file changes.
\<close>

theorem atomic_write_old_or_new:
  assumes "app_path p" "atomicWriteFile p b 0x180 w = (r, w')" "after_crash w p (\<lambda>c. c = old)"
  shows "(fcontent w' p = old \<or> fcontent w' p = Some b)
    \<and> (\<forall>v. crash w' v \<longrightarrow> (fcontent v p = old \<and> r \<noteq> Inr ()) \<or> fcontent v p = Some b)
    \<and> (\<forall>q. app_path q \<and> q \<noteq> p \<longrightarrow> fcontent w' q = fcontent w q)"
proof -
  have ap: "app_path x \<Longrightarrow> x \<noteq> tmp_of ''.jaybase-write-'' w p" for x
    using app_path_not_tmp [of x w "butlast p" "''write-''"] by (simp add: tmp_of_def)
  note ne = ap [OF assms(1)]
  have "fcontent w p = old" using after_crash_live [OF assms(3)] .
  then have "fcontent w' p = old \<or> fcontent w' p = Some b"
    using wf.put_old_or_new [OF ne assms(2)] by simp
  moreover have "(fcontent v p = old \<and> r \<noteq> Inr ()) \<or> fcontent v p = Some b" if c: "crash w' v" for v
  proof (cases "r = Inr ()")
    case True
    then have "durable w' p b" using wf.put_durable [OF ne] assms(2) by blast
    then have "fcontent v p = Some b" using after_crash_restart_live [OF _ c] by blast
    then show ?thesis by simp
  next
    case False
    then show ?thesis using wf.put_crash_old_or_new [OF ne assms(2,3) c] by simp
  qed
  moreover have "fcontent w' q = fcontent w q" if "app_path q" "q \<noteq> p" for q
    using keeps_fcontent [OF wf.put_frame [OF ne assms(2) that(2) ap [OF that(1)]]] .
  ultimately show ?thesis by blast
qed

theorem atomic_write_old_or_new_witness:
  "\<exists>r w'. atomicWriteFile [''root''] ''new'' 0x180 (demo_world\<lparr>dirs := [[]], faults := [None, None, Some 0]\<rparr>) = (r, w')
     \<and> (fcontent w' [''root''] = None \<or> fcontent w' [''root''] = Some ''new'')"
proof -
  let ?w = "demo_world\<lparr>dirs := [[]], faults := [None, None, Some 0]\<rparr>"
  obtain r w' where a: "atomicWriteFile [''root''] ''new'' 0x180 ?w = (r, w')" by (cases "atomicWriteFile [''root''] ''new'' 0x180 ?w")
  have ap: "app_path [''root'']" by (simp add: app_path_def hasPrefix_def)
  have "after_crash ?w [''root''] (\<lambda>c. c = None)"
    by (rule after_crashI) (simp_all add: crash_ents_def demo_world_def)
  from atomic_write_old_or_new [OF ap a this] show ?thesis using a by blast
qed


section \<open>Named refs\<close>


text \<open>
  The name of a ref cannot climb out of its directory: an accepted name is one component
  without separators, neither empty nor \<^verbatim>\<open>..\<close>, so that its file is a child of
  \<^verbatim>\<open>refs/named\<close>; or it is the name \<^verbatim>\<open>.\<close>, which the check lets through and which stands for the
  directory itself.
\<close>

theorem ref_name_confined:
  assumes "validateRefName name = Inr ()"
  shows "CHR 0x2F \<notin> set (trimSpace name)
    \<and> CHR 0x5C \<notin> set (trimSpace name) \<and> trimSpace name \<noteq> ''..'' \<and> trimSpace name \<noteq> []
    \<and> (namedPath dir (trimSpace name) = (dir @ [''refs'', ''named'']) @ [trimSpace name]
       \<or> trimSpace name = ''.'' \<and> namedPath dir (trimSpace name) = dir @ [''refs'', ''named''])"
  using validateRefName_Inr [OF assms] by (auto simp: namedPath_def hasPrefix_def)

theorem ref_name_confined_witness:
  "namedPath demo_dir (trimSpace '' main '') = [''db'', ''refs'', ''named'', ''main'']
   \<and> validateRefName ''a..b'' = Inl ref_name_error"
proof -
  have v: "validateRefName '' main '' = Inr ()" "trimSpace '' main '' = ''main''" "validateRefName ''a..b'' = Inl ref_name_error"
    by code_simp+
  show ?thesis using ref_name_confined [OF v(1), of demo_dir] v(2,3) by (simp add: demo_dir_def namedPath_def)
qed




section \<open>Progress\<close>

text \<open>
  An append that should succeed does: on an open store in step with its disk, when no call
  fails and the request is well formed (a type, a payload that encodes, the expected root if
  one is named), \<^verbatim>\<open>append\<close> returns the hash of a new event.
\<close>

theorem append_progress:
  assumes "golib_ok L" "codec_total L" "dir \<noteq> []" "store_reachable L dir x" "smem x = Some s"
    and "rootval (fcontent (sworld x) (rootPath dir)) = indexedRoot s"
    and "faults (sworld x) = []" "store_dirs_made dir (sworld x)" "aes_key (skey s)"
    and "fresh_address L s ctx opts er (sworld x)"
    and "trimSpace (oType opts) \<noteq> []" "json_marshal L (oPayload opts) = Some raw"
    and "er = None \<or> er = Some (indexedRoot s)"
  shows "\<exists>h s' w'. append L s ctx opts er (sworld x) = (Inr (h, s'), w') \<and> faults w' = []
    \<and> indexedRoot s' = h"
proof -
  obtain ns m k where i: "store_inv L s (sworld x) ns m k" "sdir s = dir"
    using reachable_store [OF assms(1,3-5)] by blast
  have m: "m = length ns" using store_inv_root [OF i(1)] assms(6) i(2) by simp
  have inv: "store_inv L s (sworld x) ns (length ns) k" using i(1) m by simp
  have t: "indexedRoot s = tip ns" using inv indexed_root [of s ns] by (simp add: store_inv_def)
  obtain h s' w' where a: "append L s ctx opts er (sworld x) = (Inr (h, s'), w')" "faults w' = []"
    using append_succeeds [OF assms(1) inv assms(7) _ assms(11) _ assms(12,9,2,10)] assms(8,13) i(2) t by auto
  obtain n where "s' = recordNode s n" "h = nHash n" using a(1) by (auto simp: append_def io_iffs)
  then have "indexedRoot s' = h" by (simp add: recordNode_def indexedRoot_def Let_def)
  then show ?thesis using a by blast
qed

theorem append_progress_witness:
  "\<exists>h s' w'. append demoL (fst (demo_run ''ab'')) demo_ctx (demo_opts (CHR ''c'')) None (snd (demo_run ''ab'')) = (Inr (h, s'), w')"
proof -
  let ?s = "fst (demo_run ''ab'')" and ?w = "snd (demo_run ''ab'')"
  have c: "distinct ''ab''" "list_all plain_char ''ab''" "plain_char (CHR ''c'')" "CHR ''c'' \<notin> set ''ab''"
    by (simp_all add: plain_char_def)
  obtain ns where ns: "demo_ok ''ab'' ns ?s ?w" "store_inv demoL ?s ?w ns (length ns) (length ns)"
      "disk_inv demoL demo_dir ?w ns (length ns)"
    using demo_facts [OF c(1,2)] by blast
  have ix: "indexed ?s ns" using ns(2) by (simp add: store_inv_def)
  have st: "rootval (fcontent ?w (rootPath demo_dir)) = indexedRoot ?s"
    using indexed_root [OF ix] ns(3) by (simp add: disk_inv_def)
  have fr: "fresh_address demoL ?s demo_ctx (demo_opts (CHR ''c'')) None ?w"
    using demo_fresh [OF ns(1) c(3,4)] by (simp add: demo_opts_def)
  have k: "codec_total demoL" "demo_dir \<noteq> []" by (simp_all add: codec_total_def demoL_def demo_dir_def)
  have d: "faults ?w = []" "store_dirs_made demo_dir ?w" "aes_key (skey ?s)"
    using ns(1) by (simp_all add: demo_ok_def aes_key_def)
  have o: "trimSpace (oType (demo_opts (CHR ''c''))) \<noteq> []" "json_marshal demoL (oPayload (demo_opts (CHR ''c''))) = Some ''{}''"
    using demo_clean(2) by (simp_all add: demo_opts_def json_marshal_def demoL_def)
  show ?thesis
    using append_progress [OF demoL_ok k demo_reachable [OF c(1,2)], of ?s demo_ctx "demo_opts (CHR ''c'')" None] st fr d o by auto
qed


text \<open>
  The key a store generates is kept: it has 32 bytes, and it is on disk before the call
  returns, so that every later load without a configured key, also after a crash, gives it.
\<close>

theorem generated_key_persists:
  assumes "faults v = []" "environ v ''JAYBASE_DATA_KEY'' = None" "environ v ''INFOBASE_DATA_KEY'' = None"
    and "environ w ''JAYBASE_DATA_KEY'' = None" "environ w ''INFOBASE_DATA_KEY'' = None"
    and "fcontent w (keyPath dir) = None" "keyPath dir \<notin> set (dirs w)"
    and "loadOrCreateKey dir w = (Inr key, w')" "v = w' \<or> crash w' v"
  shows "length key = 32 \<and> (\<exists>u. loadOrCreateKey dir v = (Inr key, u) \<and> faults u = [])"
proof -
  let ?p = "keyPath dir"
  obtain w1 w2 where rr: "readRandom 32 w1 = (Inr key, w2)" and a1: "at_start w w1"
    and wr: "atomicWriteFile ?p (b64_encode key @ newline) 0x180 w2 = (Inr (), w')"
  proof -
    obtain rd w1 where rd: "readFile ?p w = (rd, w1)" by (cases "readFile ?p w")
    have a1: "at_start w w1" using reads_run [OF reads_basic(4) rd] .
    obtain e where e: "rd = Inl e"
      using readFile_Inr [of ?p w _ w1] rd assms(6) by (cases rd) auto
    then show thesis
      using that [of w1] a1 rd assms(4,5,8)
      by (auto simp: loadOrCreateKey_def getenv_def io_defs split: if_splits sum.splits prod.splits)
  qed
  have l: "length key = 32" using rr by (auto simp: readRandom_def syscall_def split: list.splits option.splits)
  have q: "dirs w2 = dirs w" using rr at_start_views(5) [OF a1]
    by (auto simp: readRandom_def syscall_def split: list.splits option.splits)
  have ap: "app_path ?p" using keyPath_names(1) .
  have ne: "?p \<noteq> tmp_of ''.jaybase-write-'' w2 ?p"
    using app_path_not_tmp [OF ap, of w2 "butlast ?p" "''write-''"] by (simp add: tmp_of_def)
  have dur: "durable w' ?p (b64_encode key @ newline)" using wf.put_durable [OF ne wr] .
  have "dirs w' = dirs w2" using wf.put_env [OF ne wr] by (simp add: same_env_def)
  then have nd: "?p \<notin> set (dirs v)" using assms(7,9) q by (auto simp: crash_def)
  have c: "fcontent v ?p = Some (b64_encode key @ newline)"
    using assms(9) durable_live [OF dur] after_crash_restart_live [OF dur] by blast
  then obtain i where i: "map_of (ents v) ?p = Some i" by (auto simp: fcontent_def)
  have ne: "b64_encode key \<noteq> []" using l b64_encode_inj [of key "[]"] by (cases key rule: b64_encode.cases) auto
  have "trimSpace (b64_encode key @ newline) = b64_encode key"
    using trimSpace_newline [OF ne b64_encode_printable] by (simp add: newline_def)
  moreover have "decodeKey (b64_encode key) = Inr key" by (simp add: decodeKey_def l)
  ultimately show ?thesis
    using l assms(1-3) c nd i readFile_no_fault [OF assms(1), of ?p]
    by (simp add: loadOrCreateKey_def getenv_def io_defs chmodPath_def syscall_no_fault)
qed



theorem generated_key_persists_witness:
  "\<exists>key w' u. loadOrCreateKey demo_dir (demo_world\<lparr>dirs := [demo_dir @ [''keys'']]\<rparr>) = (Inr key, w')
     \<and> loadOrCreateKey demo_dir w' = (Inr key, u)"
proof -
  let ?w = "demo_world\<lparr>dirs := [demo_dir @ [''keys'']]\<rparr>" and ?p = "keyPath demo_dir"
  let ?k = "replicate 32 (CHR ''r'')"
  have w: "faults ?w = []" "?p \<notin> set (dirs ?w)" "fcontent ?w ?p = None" "environ ?w = Map.empty"
    by (simp_all add: demo_world_def keyPath_def fcontent_def)
  have rf: "readFile ?p ?w = (Inl (OsError ENOENT), ?w)" using readFile_no_fault [OF w(1), of ?p] w(2,3) by simp
  let ?w2 = "?w\<lparr>drawn := 32\<rparr>"
  have rr: "readRandom 32 ?w = (Inr ?k, ?w2)"
    by (simp add: readRandom_def syscall_def demo_world_def map_replicate_const)
  have "faults ?w2 = []" "butlast ?p \<in> set (dirs ?w2)" "?p \<notin> set (dirs ?w2)"
    by (simp_all add: demo_world_def keyPath_def butlast_append)
  from wf.succeeds [OF this] obtain w' where wr: "atomicWriteFile ?p (b64_encode ?k @ newline) 0x180 ?w2 = (Inr (), w')" "faults w' = []"
    by blast
  have run: "loadOrCreateKey demo_dir ?w = (Inr ?k, w')"
    using rf rr wr(1) w(4) by (simp add: loadOrCreateKey_def getenv_def io_defs)
  have "?p \<noteq> tmp_of ''.jaybase-write-'' ?w2 ?p"
    using app_path_not_tmp [OF keyPath_names(1), of demo_dir ?w2 "butlast ?p" "''write-''"] by (simp add: tmp_of_def)
  from wf.put_env [OF this wr(1)] have e: "environ w' = Map.empty" using w(4) by (simp add: same_env_def)
  show ?thesis
    using generated_key_persists [OF wr(2) _ _ _ _ w(3,2) run disjI1 [OF refl]] e w(4) run by auto
qed

end
