(* ===== verification/Snapshot.thy ===== *)
theory Snapshot
  imports StorePages "HOL-Library.List_Lexorder" "HOL-Library.Char_ord"
begin

text \<open>
  Snapshots (snapshot.go, and \<^verbatim>\<open>pruneSnapshots\<close> of server/server.go): the size estimate,
  the archive of node files and refs, its name, and the removal of old archives. The tar and
  gzip encoders and the JSON of the manifest are the parameter \<open>snaplib\<close>.
\<close>

subsection \<open>The name of a snapshot\<close>

text \<open>\<open>n\<close> decimal digits of a number.\<close>

primrec pad :: "nat \<Rightarrow> nat \<Rightarrow> string" where
  "pad 0 x = []"
| "pad (Suc n) x = pad n (x div 10) @ [char_of (48 + x mod 10)]"

text \<open>
  The year and the day of the year (from zero) of a day counted from 1 January of year 1: cycles
  of 400, 100, 4 and 1 years, the last century of 400 years and the last year of 4 being one day
  longer, as package \<^verbatim>\<open>time\<close> computes them.
\<close>

definition yearDay :: "nat \<Rightarrow> nat \<times> nat" where
  "yearDay d =
     (let n400 = d div 146097; d1 = d mod 146097;
          n100 = min 3 (d1 div 36524); d2 = d1 - 36524 * n100;
          n4 = d2 div 1461; d3 = d2 mod 1461;
          n1 = min 3 (d3 div 365)
      in (400 * n400 + 100 * n100 + 4 * n4 + n1 + 1, d3 - 365 * n1))"

definition leapYear :: "nat \<Rightarrow> bool" where
  "leapYear y \<longleftrightarrow> y mod 4 = 0 \<and> (y mod 100 \<noteq> 0 \<or> y mod 400 = 0)"

definition monthLengths :: "nat \<Rightarrow> nat list" where
  "monthLengths y = [31, if leapYear y then 29 else 28, 31, 30, 31, 30, 31, 31, 30, 31, 30, 31]"

fun monthDay :: "nat \<Rightarrow> nat list \<Rightarrow> nat \<Rightarrow> nat \<times> nat" where
  "monthDay m [] d = (m, d + 1)"
| "monthDay m (l # ls) d = (if d < l then (m, d + 1) else monthDay (m + 1) ls (d - l))"

text \<open>\<^verbatim>\<open>created.Format("20060102T150405.000000000Z")\<close>, for the years 1 to 9999.\<close>

definition formatStamp :: "time \<Rightarrow> string" where
  "formatStamp t =
     (let s = nat (t div 1000000000); day = s div 86400; sec = s mod 86400
      in case yearDay day of (y, yd) \<Rightarrow> (case monthDay 1 (monthLengths y) yd of (m, d) \<Rightarrow>
        pad 4 y @ pad 2 m @ pad 2 d @ ''T''
        @ pad 2 (sec div 3600) @ pad 2 (sec mod 3600 div 60) @ pad 2 (sec mod 60)
        @ ''.'' @ pad 9 (nat (t mod 1000000000)) @ ''Z''))"

definition snapshotName :: "time \<Rightarrow> string" where
  "snapshotName created = ''jaybase-'' @ formatStamp created @ ''.tar.gz''"

subsection \<open>Directory trees\<close>

text \<open>The names in a directory, in byte order. The world holds directories and regular files.\<close>

definition childNames :: "world \<Rightarrow> path \<Rightarrow> string list" where
  "childNames w p = sort (remdups (map last
     (filter (\<lambda>q. q \<noteq> [] \<and> butlast q = p) (dirs w @ map fst (ents w)))))"

definition readDirNames :: "path \<Rightarrow> string list io" where
  "readDirNames p = syscall (\<lambda>w.
     if p \<in> set (dirs w) then (Inr (childNames w p), w) else (Inl (OsError ENOENT), w))"

datatype FileInfo = DirInfo | RegInfo nat \<comment> \<open>the size\<close>

definition osLstat :: "path \<Rightarrow> FileInfo io" where
  "osLstat p = syscall (\<lambda>w.
     if p \<in> set (dirs w) then (Inr DirInfo, w)
     else (case map_of (ents w) p of
         None \<Rightarrow> (Inl (OsError ENOENT), w)
       | Some i \<Rightarrow> (Inr (RegInfo (length (idata (inodes w i)))), w)))"

text \<open>\<^verbatim>\<open>os.ReadDir\<close>: names with the answer of \<^verbatim>\<open>Type().IsRegular()\<close>.\<close>

definition readDir :: "path \<Rightarrow> (string \<times> bool) list io" where
  "readDir p = syscall (\<lambda>w.
     if p \<in> set (dirs w)
     then (Inr (map (\<lambda>n. (n, p @ [n] \<notin> set (dirs w))) (childNames w p)), w)
     else (Inl (OsError ENOENT), w))"

primrec io_foldM :: "('a \<Rightarrow> 'b \<Rightarrow> 'b io) \<Rightarrow> 'a list \<Rightarrow> 'b \<Rightarrow> 'b io" where
  "io_foldM f [] acc = io_ret acc"
| "io_foldM f (x # xs) acc = io_bind (f x acc) (\<lambda>acc'. io_foldM f xs acc')"

text \<open>
  \<^verbatim>\<open>filepath.Walk\<close> with a function that skips directories and stops at the first error:
  names in order, each with \<^verbatim>\<open>Lstat\<close> before it is visited. The number bounds the depth;
  \<open>Walk\<close> starts with more than the depth of the deepest directory (\<open>walkTree_enough\<close>).
\<close>

primrec walkTree :: "nat \<Rightarrow> (path \<Rightarrow> nat \<Rightarrow> 'a \<Rightarrow> 'a io) \<Rightarrow> path \<Rightarrow> 'a \<Rightarrow> 'a io" where
  "walkTree 0 visit p acc = io_fail (GoError ''file tree deeper than the walk'' [])"
| "walkTree (Suc n) visit p acc =
     io_bind (osLstat p) (\<lambda>info. case info of
         RegInfo sz \<Rightarrow> visit p sz acc
       | DirInfo \<Rightarrow> io_bind (readDirNames p) (\<lambda>names.
           io_foldM (\<lambda>name. walkTree n visit (p @ [name])) names acc))"

definition deepest :: "world \<Rightarrow> nat" where
  "deepest w = foldr max (map length (dirs w)) 0"

definition Walk :: "(path \<Rightarrow> nat \<Rightarrow> 'a \<Rightarrow> 'a io) \<Rightarrow> path \<Rightarrow> 'a \<Rightarrow> 'a io" where
  "Walk visit base acc = (\<lambda>w. walkTree (deepest w + 2) visit base acc w)"

subsection \<open>The size estimate\<close>

definition nodesBase :: "path \<Rightarrow> path" where
  "nodesBase dir = dir @ [''objects'', ''nodes'']"

definition refsBase :: "path \<Rightarrow> path" where
  "refsBase dir = dir @ [''refs'']"

text \<open>The sum has 64 bits and wraps around.\<close>

definition sizeVisit :: "path \<Rightarrow> nat \<Rightarrow> 64 word \<Rightarrow> 64 word io" where
  "sizeVisit p sz tot = io_ret (tot + (word_of_nat sz + 1024))"

definition SnapshotSizeEstimate :: "Store \<Rightarrow> 64 word io" where
  "SnapshotSizeEstimate s =
     io_bind (Walk sizeVisit (nodesBase (sdir s)) 0x100000) (\<lambda>tot.
     Walk sizeVisit (refsBase (sdir s)) tot)"

subsection \<open>The archive\<close>

record SnapshotInfo =
  siPath :: string
  siRoot :: string
  siCreatedAt :: time
  siNodes :: nat

record snapshotManifest =
  smFormat :: int
  smRoot :: string
  smCreatedAt :: time
  smNodes :: nat
  smKey :: string

text \<open>A tar header, with the data behind it; times and owners are left out.\<close>

record tarEntry =
  teName :: string
  teMode :: nat
  teSize :: nat
  teData :: bytes

text \<open>
  \<open>tar_gz\<close> gives the bytes of a finished archive; \<open>tar_cut\<close> is what the writers leave in the
  temporary file when the archive is abandoned.
\<close>

record snaplib =
  json_manifest :: "snapshotManifest \<Rightarrow> bytes option"
  tar_gz :: "tarEntry list \<Rightarrow> bytes"
  tar_cut :: bytes

text \<open>One call of the tar or gzip writer, which may have to write to the file.\<close>

definition tarCall :: "unit io" where
  "tarCall = syscall (io_ret ())"

definition writeTarBytes :: "string \<Rightarrow> bytes \<Rightarrow> tarEntry list \<Rightarrow> tarEntry list io" where
  "writeTarBytes name data tw =
     io_bind tarCall (\<lambda>_.
     io_bind tarCall (\<lambda>_.
     io_ret (tw @ [\<lparr>teName = name, teMode = 0x180, teSize = length data, teData = data\<rparr>])))"

fun joinSlash :: "string list \<Rightarrow> string" where
  "joinSlash [] = ''.''"
| "joinSlash [c] = c"
| "joinSlash (c # d # cs) = c @ CHR ''/'' # joinSlash (d # cs)"

text \<open>\<^verbatim>\<open>io.Copy\<close> of a file that is not as long as its header says is an error of the writer.\<close>

definition writeTarFile :: "path \<Rightarrow> string \<Rightarrow> nat \<Rightarrow> tarEntry list \<Rightarrow> tarEntry list io" where
  "writeTarFile p name sz tw =
     (if hasPrefix name ''../'' \<or> hasPrefix name ''/''
      then io_fail (GoError ''refusing unsafe snapshot path %q'' [name])
      else io_bind tarCall (\<lambda>_.
        io_bind (readFile p) (\<lambda>b.
        io_bind tarCall (\<lambda>_.
        if length b \<noteq> sz then io_fail (GoError ''archive/tar: write too long'' [])
        else io_ret (tw @ [\<lparr>teName = name, teMode = 0x180, teSize = sz, teData = b\<rparr>])))))"

text \<open>\<^verbatim>\<open>filepath.Rel(s.dir, path)\<close> of a path below the store's directory.\<close>

definition tarVisit :: "path \<Rightarrow> path \<Rightarrow> nat \<Rightarrow> tarEntry list \<Rightarrow> tarEntry list io" where
  "tarVisit dir p sz tw = writeTarFile p (joinSlash (drop (length dir) p)) sz tw"

definition archiveEntries :: "snaplib \<Rightarrow> path \<Rightarrow> snapshotManifest \<Rightarrow> tarEntry list io" where
  "archiveEntries Z dir manifest =
     (case json_manifest Z manifest of
        None \<Rightarrow> io_fail json_error
      | Some b \<Rightarrow>
          io_bind (writeTarBytes ''manifest.json'' (b @ newline) []) (\<lambda>tw.
          io_bind (Walk (tarVisit dir) (nodesBase dir) tw) (\<lambda>tw.
          Walk (tarVisit dir) (refsBase dir) tw)))"

text \<open>\<^verbatim>\<open>closeWithError\<close>: every writer is closed, the first error counts.\<close>

definition closeWithError :: "snaplib \<Rightarrow> handle \<Rightarrow> go_error + tarEntry list \<Rightarrow> unit io" where
  "closeWithError Z tmp base =
     io_bind (io_try tarCall) (\<lambda>twErr.
     io_bind (io_try (fileWrite tmp (case base of Inr tw \<Rightarrow> tar_gz Z tw | Inl _ \<Rightarrow> tar_cut Z))) (\<lambda>gzErr.
     io_bind (io_try (fileSync tmp)) (\<lambda>syncErr.
     io_bind (io_try (fileClose tmp)) (\<lambda>closeErr.
     io_lift (bindE base (\<lambda>_. bindE twErr (\<lambda>_. bindE gzErr (\<lambda>_. bindE syncErr (\<lambda>_. closeErr)))))))))"

definition mkManifest :: "string \<Rightarrow> time \<Rightarrow> nat \<Rightarrow> snapshotManifest" where
  "mkManifest root created nodes = \<lparr>smFormat = 1, smRoot = root, smCreatedAt = created, smNodes = nodes,
     smKey = ''not included; restore with the original JAYBASE_DATA_KEY''\<rparr>"

definition snapshot :: "golib \<Rightarrow> snaplib \<Rightarrow> Store \<Rightarrow> string \<Rightarrow> path \<Rightarrow> time \<Rightarrow> SnapshotInfo io" where
  "snapshot L Z s destName dest created =
     io_bind (currentRoot (sdir s)) (\<lambda>root.
     io_bind (nodesFromRoot L (sdir s) root) (\<lambda>nodes.
     io_bind (mkdirAll (butlast dest)) (\<lambda>_.
     io_bind (createTempSuffix (butlast dest) ''.jaybase-snapshot-'' ''.tar.gz'') (\<lambda>tmp.
     io_defer
       (io_bind (io_onerr (fileChmod tmp 0x180) (fileClose tmp)) (\<lambda>_.
        io_bind (io_try (archiveEntries Z (sdir s) (mkManifest root created (length nodes)))) (\<lambda>base.
        io_bind (closeWithError Z tmp base) (\<lambda>_.
        io_bind (osRename (fst tmp) dest) (\<lambda>_.
        io_bind (syncDir (butlast dest)) (\<lambda>_.
        io_ret \<lparr>siPath = destName, siRoot = root, siCreatedAt = created, siNodes = length nodes\<rparr>))))))
       (osRemove (fst tmp))))))"

definition Snapshot :: "golib \<Rightarrow> snaplib \<Rightarrow> Store \<Rightarrow> string \<Rightarrow> SnapshotInfo io" where
  "Snapshot L Z s dest =
     io_bind (storeNow s) (\<lambda>created. snapshot L Z s dest (toPath dest) created)"

definition CreateSnapshot :: "golib \<Rightarrow> snaplib \<Rightarrow> Store \<Rightarrow> string \<Rightarrow> SnapshotInfo io" where
  "CreateSnapshot L Z s dir =
     io_bind (storeNow s) (\<lambda>created.
     let name = snapshotName created in
     io_bind (snapshot L Z s name (toPath dir @ [name]) created) (\<lambda>info.
     io_ret (info\<lparr>siPath := name\<rparr>)))"

subsection \<open>Retention\<close>

definition is_snapshot_name :: "string \<Rightarrow> bool" where
  "is_snapshot_name n \<longleftrightarrow> hasPrefix n ''jaybase-'' \<and> hasSuffix n ''.tar.gz''"

fun pruneLoop :: "path \<Rightarrow> int \<Rightarrow> string list \<Rightarrow> unit io" where
  "pruneLoop dir retain [] =
     (if 0 > retain then io_fail (Panic ''index out of range'') else io_ret ())"
| "pruneLoop dir retain (n # ns) =
     (if int (length (n # ns)) > retain
      then io_bind (osRemove (dir @ [n])) (\<lambda>_. pruneLoop dir retain ns)
      else io_ret ())"

definition pruneSnapshots :: "string \<Rightarrow> int \<Rightarrow> unit io" where
  "pruneSnapshots dir retain =
     io_bind (readDir (toPath dir)) (\<lambda>es.
     let names = map fst (filter (\<lambda>(n, regular). regular \<and> is_snapshot_name n) es) in
     pruneLoop (toPath dir) retain (sort names))"

end
