(* ===== verification/Migration.thy ===== *)
theory Migration
  imports Snapshot StoreRefs StoreAppend
begin

text \<open>
  Moving a store to a new data key (migration.go): every event is decrypted with the old key and
  appended to a store in a new directory, the named refs follow, and a destination that is not
  complete is removed again. Errors that are joined are a list, the empty one being nil.
\<close>

subsection \<open>Calls on directories\<close>

text \<open>\<^verbatim>\<open>filepath.Abs\<close>: a relative path is taken from the working directory, and \<^verbatim>\<open>..\<close> goes up.\<close>

definition resolveDots :: "path \<Rightarrow> path" where
  "resolveDots p = foldl (\<lambda>acc c. if c = ''..'' then (if length acc \<le> 1 then acc else butlast acc) else acc @ [c]) [] p"

definition isAbs :: "path \<Rightarrow> bool" where
  "isAbs p \<longleftrightarrow> p \<noteq> [] \<and> hd p = ''/''"

definition absOf :: "path \<Rightarrow> path \<Rightarrow> path" where
  "absOf cwd p = resolveDots (if isAbs p then p else cwd @ p)"

definition absPath :: "path \<Rightarrow> path \<Rightarrow> path io" where
  "absPath cwd p = (if isAbs p then io_ret (absOf cwd p) else syscall (io_ret (absOf cwd p)))"

text \<open>The text of a path.\<close>

definition pathString :: "path \<Rightarrow> string" where
  "pathString p = (if isAbs p then (if tl p = [] then ''/'' else CHR ''/'' # joinSlash (tl p)) else joinSlash p)"

definition osMkdir :: "path \<Rightarrow> unit io" where
  "osMkdir p = syscall (\<lambda>w.
     if p \<in> set (dirs w) \<or> map_of (ents w) p \<noteq> None then (Inl (OsError EEXIST), w)
     else if butlast p \<notin> set (dirs w) then (Inl (OsError ENOENT), w)
     else (Inr (), setDir p w))"

definition within :: "path \<Rightarrow> path \<Rightarrow> bool" where
  "within d p \<longleftrightarrow> take (length d) p = d"

definition removeDir :: "path \<Rightarrow> unit io" where
  "removeDir d = syscall (\<lambda>w.
     if d \<notin> set (dirs w) then (Inl (OsError ENOENT), w)
     else if list_ex (\<lambda>p. p \<noteq> d \<and> within d p) (dirs w @ map fst (ents w)) then (Inl (OsError EIO), w)
     else (Inr (), w\<lparr>dirs := filter (\<lambda>p. p \<noteq> d) (dirs w)\<rparr>))"

text \<open>
  \<^verbatim>\<open>os.RemoveAll\<close> removes what it can, files before the directories that hold them, and
  reports the first error.
\<close>

fun tryEach :: "unit io list \<Rightarrow> unit io" where
  "tryEach [] = io_ret ()"
| "tryEach (m # ms) = (\<lambda>w. case m w of
       (Inr _, w1) \<Rightarrow> tryEach ms w1
     | (Inl e, w1) \<Rightarrow> (Inl e, snd (tryEach ms w1)))"

definition osRemoveAll :: "path \<Rightarrow> unit io" where
  "osRemoveAll d = (\<lambda>w. tryEach
     (map osRemove (filter (within d) (map fst (ents w)))
      @ map removeDir (rev (sort_key length (filter (within d) (dirs w))))) w)"

subsection \<open>The copy\<close>

record KeyMigrationInfo =
  kmSourceRoot :: string
  kmDestinationRoot :: string
  kmNodes :: nat
  kmNamedRefs :: nat
  kmHashMap :: "(string \<rightharpoonup> string) option" \<comment> \<open>\<open>None\<close> is a nil map\<close>

definition zeroMigrationInfo :: KeyMigrationInfo where
  "zeroMigrationInfo = \<lparr>kmSourceRoot = [], kmDestinationRoot = [], kmNodes = 0, kmNamedRefs = 0, kmHashMap = None\<rparr>"

definition copyContext :: "Node \<Rightarrow> Context" where
  "copyContext node = \<lparr>ctxActor = nActor node, ctxRole = nRole node\<rparr>"

definition copyOptions :: "Node \<Rightarrow> bytes \<Rightarrow> AppendOptions" where
  "copyOptions node payload = \<lparr>oType = nType node, oEntityID = nEntityID node, oCommand = nCommand node,
     oPayload = RawMessage payload, oCreatedAt = nCreatedAt node, oRequestID = nRequestID node, oRequestHash = nRequestHash node\<rparr>"

text \<open>The checks before anything is made: the absolute destination and the source root.\<close>

definition checkMigration :: "path \<Rightarrow> Store \<Rightarrow> string \<Rightarrow> (path \<times> string) io" where
  "checkMigration cwd s destinationDir =
     io_bind (absPath cwd (sdir s)) (\<lambda>sourceAbs.
     io_bind (absPath cwd (toPath (trimSpace destinationDir))) (\<lambda>destinationAbs.
     if destinationAbs = sourceAbs
     then io_fail (appErr ErrValidation ''destination must differ from the source store'' [])
     else io_bind (io_try (statFile destinationAbs)) (\<lambda>st. case st of
         Inr _ \<Rightarrow> io_fail (appErr ErrConflict ''destination already exists'' [])
       | Inl e \<Rightarrow>
           if \<not> isNotExist e then io_fail e
           else io_bind (currentRoot (sdir s)) (\<lambda>sourceRoot.
             if sourceRoot \<noteq> indexedRoot s then io_fail index_mismatch
             else io_ret (destinationAbs, sourceRoot)))))"

definition makeDestination :: "path \<Rightarrow> unit io" where
  "makeDestination destinationAbs =
     io_bind (mkdirAll (butlast destinationAbs)) (\<lambda>_.
     io_bind (io_try (osMkdir destinationAbs)) (\<lambda>r. case r of
         Inl e \<Rightarrow> if e = OsError EEXIST
           then io_fail (appErr ErrConflict ''destination already exists'' []) else io_fail e
       | Inr _ \<Rightarrow> io_ret ()))"

text \<open>The loop over the history; an error comes with the destination as it is by then.\<close>

fun migrateNodes :: "golib \<Rightarrow> Store \<Rightarrow> string list \<Rightarrow> Store \<Rightarrow> (string \<rightharpoonup> string) \<Rightarrow> string
    \<Rightarrow> world \<Rightarrow> ((go_error + ((string \<rightharpoonup> string) \<times> string)) \<times> Store) \<times> world" where
  "migrateNodes L s [] destination rootMap newRoot w = ((Inr (rootMap, newRoot), destination), w)"
| "migrateNodes L s (hash # hs) destination rootMap newRoot w =
     (case io_bind (readNode L (sdir s) hash) (\<lambda>node.
           io_bind (io_lift (nodePayload L (skey s) node)) (\<lambda>payload.
           AppendAt L destination (copyContext node) (copyOptions node payload) newRoot)) w of
        (Inl e, w1) \<Rightarrow> ((Inl e, destination), w1)
      | (Inr (newHash, destination'), w1) \<Rightarrow>
          migrateNodes L s hs destination' (rootMap(hash \<mapsto> newHash)) newHash w1)"

fun migrateRefs :: "golib \<Rightarrow> Store \<Rightarrow> Store \<Rightarrow> (string \<rightharpoonup> string) \<Rightarrow> (string \<times> bool) list \<Rightarrow> nat io" where
  "migrateRefs L s destination rootMap [] = io_ret 0"
| "migrateRefs L s destination rootMap ((name, regular) # es) =
     (if \<not> regular then io_fail (appErr ErrIntegrity ''named ref %q is not a regular file'' [name])
      else io_bind (readFile (sdir s @ [''refs'', ''named'', name])) (\<lambda>raw.
        case rootMap (trimSpace raw) of
          None \<Rightarrow> io_fail (appErr ErrIntegrity ''named ref %q points outside the current history'' [name])
        | Some mapped \<Rightarrow>
            io_bind (WriteNamedRefAt L destination name mapped []) (\<lambda>_.
            io_bind (migrateRefs L s destination rootMap es) (\<lambda>n. io_ret (Suc n)))))"

definition copyStore :: "golib \<Rightarrow> Store \<Rightarrow> string \<Rightarrow> Store \<Rightarrow> world
    \<Rightarrow> ((go_error + KeyMigrationInfo) \<times> Store) \<times> world" where
  "copyStore L s sourceRoot destination w =
     (case migrateNodes L s (history s) destination Map.empty [] w of
        ((Inl e, d), w1) \<Rightarrow> ((Inl e, d), w1)
      | ((Inr (rootMap, newRoot), d), w1) \<Rightarrow>
          (case io_bind (readDir (sdir s @ [''refs'', ''named''])) (migrateRefs L s d rootMap) w1 of
             (Inl e, w2) \<Rightarrow> ((Inl e, d), w2)
           | (Inr namedRefs, w2) \<Rightarrow>
               ((Inr \<lparr>kmSourceRoot = sourceRoot, kmDestinationRoot = newRoot, kmNodes = length (history s),
                  kmNamedRefs = namedRefs, kmHashMap = Some rootMap\<rparr>, d), w2)))"

text \<open>The deferred function: close the destination if it is open, remove it if it is not complete.\<close>

definition closing :: "Store \<Rightarrow> unit io" where
  "closing d = io_bind (CloseStore d) (\<lambda>(err, d'). io_lift err)"

definition abandon :: "path \<Rightarrow> Store option \<Rightarrow> go_error \<Rightarrow> world \<Rightarrow> (KeyMigrationInfo \<times> go_error list) \<times> world" where
  "abandon destinationAbs opened e w =
     (let (closeErr, w1) = (case opened of None \<Rightarrow> (Inr (), w) | Some d \<Rightarrow> closing d w);
          (removeErr, w2) = osRemoveAll destinationAbs w1
      in ((zeroMigrationInfo, e
             # (case closeErr of Inl c \<Rightarrow> [Wrapped ''close incomplete destination: %w'' [] c] | Inr _ \<Rightarrow> [])
             @ (case removeErr of Inl c \<Rightarrow> [Wrapped ''remove incomplete destination %s: %w'' [pathString destinationAbs] c] | Inr _ \<Rightarrow> [])), w2))"

definition migrateDataKey :: "golib \<Rightarrow> path \<Rightarrow> Store \<Rightarrow> string \<Rightarrow> string \<Rightarrow> (path \<Rightarrow> string \<Rightarrow> Store io)
    \<Rightarrow> world \<Rightarrow> (KeyMigrationInfo \<times> go_error list) \<times> world" where
  "migrateDataKey L cwd s destinationDir newEncodedKey openDestination w =
     (case io_bind (checkMigration cwd s destinationDir) (\<lambda>(destinationAbs, sourceRoot).
           io_bind (makeDestination destinationAbs) (\<lambda>_. io_ret (destinationAbs, sourceRoot))) w of
        (Inl e, w1) \<Rightarrow> ((zeroMigrationInfo, [e]), w1)
      | (Inr (destinationAbs, sourceRoot), w1) \<Rightarrow>
          (case openDestination destinationAbs newEncodedKey w1 of
             (Inl e, w2) \<Rightarrow> abandon destinationAbs None (Wrapped ''open destination store: %w'' [] e) w2
           | (Inr destination, w2) \<Rightarrow>
               (case copyStore L s sourceRoot destination w2 of
                  ((Inl e, d), w3) \<Rightarrow> abandon destinationAbs (Some d) e w3
                | ((Inr result, d), w3) \<Rightarrow>
                    (case closing d w3 of
                       (Inl e, w4) \<Rightarrow> ((result, [Wrapped ''close completed destination store %s: %w'' [pathString destinationAbs] e]), w4)
                     | (Inr _, w4) \<Rightarrow> ((result, []), w4)))))"

definition MigrateDataKey :: "golib \<Rightarrow> string \<Rightarrow> path \<Rightarrow> Store \<Rightarrow> string \<Rightarrow> string
    \<Rightarrow> world \<Rightarrow> (KeyMigrationInfo \<times> go_error list) \<times> world" where
  "MigrateDataKey L pid cwd s destinationDir newEncodedKey =
     migrateDataKey L cwd s destinationDir newEncodedKey (OpenStoreWithDataKey L pid)"

end
