(* ===== verification/SnapshotNames.thy ===== *)
theory SnapshotNames
  imports Snapshot
begin

text \<open>
  The names of snapshots are ordered like the times they were made at, so that removing the
  first names removes the oldest snapshots.
\<close>

subsection \<open>Names are ordered like times\<close>

lemma lex_append_same: "(xs @ ys < xs @ zs) = (ys < (zs :: 'a :: order list))"
  by (induction xs) auto

lemma lex_append_less: "length xs = length ys \<Longrightarrow> xs < ys \<Longrightarrow> xs @ us < ys @ (vs :: 'a :: order list)"
  by (induction xs ys rule: list_induct2) auto

lemma length_pad [simp]: "length (pad n x) = n"
  by (induction n arbitrary: x) auto

lemma digit_less: "a < b \<Longrightarrow> b < 10 \<Longrightarrow> (char_of (48 + a) :: char) < char_of (48 + (b :: nat))"
  by (simp add: less_char_def)

lemma pad_less: "x < y \<Longrightarrow> y < 10 ^ n \<Longrightarrow> pad n x < pad n y"
proof (induction n arbitrary: x y)
  case 0
  then show ?case by simp
next
  case (Suc n)
  have y: "y div 10 < 10 ^ n" using Suc.prems(2) by (simp add: less_mult_imp_div_less mult.commute)
  show ?case
  proof (cases "x div 10 = y div 10")
    case True
    then have "x mod 10 < y mod 10" using Suc.prems(1) by (metis div_mult_mod_eq nat_add_left_cancel_less)
    then show ?thesis by (simp add: True lex_append_same digit_less)
  next
    case False
    then have "x div 10 < y div 10" using Suc.prems(1) by (meson div_le_mono le_neq_implies_less less_imp_le)
    with Suc.IH [OF this y] show ?thesis by (simp add: lex_append_less)
  qed
qed

text \<open>Pairs in lexicographic order.\<close>

definition lex2 :: "nat \<times> nat \<Rightarrow> nat \<times> nat \<Rightarrow> bool" where
  "lex2 p q \<longleftrightarrow> fst p < fst q \<or> fst p = fst q \<and> snd p < snd q"

lemma div_mod_lex: "(x :: nat) < y \<Longrightarrow> x div k < y div k \<or> x div k = y div k \<and> x mod k < y mod k"
  by (metis div_le_mono div_mult_mod_eq le_neq_implies_less less_imp_le nat_add_left_cancel_less)

lemma capped_lex: "(x :: nat) < y \<Longrightarrow>
   min c (x div k) < min c (y div k)
   \<or> min c (x div k) = min c (y div k) \<and> x - k * min c (x div k) < y - k * min c (y div k)"
proof -
  assume "x < y"
  then have d: "x div k \<le> y div k" by (simp add: div_le_mono)
  have "k * min c (x div k) \<le> x" by (metis div_times_less_eq_dividend min.cobounded2 mult.commute mult_le_mono2 order_trans)
  moreover have "k * min c (y div k) \<le> y" by (metis div_times_less_eq_dividend min.cobounded2 mult.commute mult_le_mono2 order_trans)
  moreover have "min c (x div k) \<le> min c (y div k)" using d by simp
  ultimately show ?thesis using \<open>x < y\<close>
    by (cases "min c (x div k) = min c (y div k)") (auto simp: diff_less_mono)
qed

lemma yearDay_lex:
  assumes "x < y"
  shows "lex2 (yearDay x) (yearDay y)"
proof -
  let ?d1 = "\<lambda>d. d mod 146097" 
  let ?n100 = "\<lambda>d. min 3 (?d1 d div 36524)"
  let ?d2 = "\<lambda>d. ?d1 d - 36524 * ?n100 d"
  let ?d3 = "\<lambda>d. ?d2 d mod 1461"
  let ?n1 = "\<lambda>d. min 3 (?d3 d div 365)"
  have e: "yearDay d = (400 * (d div 146097) + 100 * ?n100 d + 4 * (?d2 d div 1461) + ?n1 d + 1, ?d3 d - 365 * ?n1 d)" for d
    unfolding yearDay_def Let_def by (rule refl)
  have b: "?n100 d \<le> 3" "?n1 d \<le> 3" for d :: nat by simp_all
  have b4: "?d2 d div 1461 \<le> 24" for d :: nat
  proof -
    have "?d1 d < 146097" by simp
    then have "?d2 d < 36525" by (cases "3 \<le> ?d1 d div 36524") (auto simp: min_def less_mult_imp_div_less)
    then have "?d2 d div 1461 < 25" by (intro less_mult_imp_div_less) simp
    then show ?thesis by simp
  qed
  have 1: "x div 146097 < y div 146097 \<or> x div 146097 = y div 146097 \<and> ?d1 x < ?d1 y"
    by (rule div_mod_lex [OF assms])
  have 2: "?n100 x < ?n100 y \<or> ?n100 x = ?n100 y \<and> ?d2 x < ?d2 y" if "?d1 x < ?d1 y"
    by (rule capped_lex [OF that])
  have 3: "?d2 x div 1461 < ?d2 y div 1461 \<or> ?d2 x div 1461 = ?d2 y div 1461 \<and> ?d3 x < ?d3 y" if "?d2 x < ?d2 y"
    by (rule div_mod_lex [OF that])
  have 4: "?n1 x < ?n1 y \<or> ?n1 x = ?n1 y \<and> ?d3 x - 365 * ?n1 x < ?d3 y - 365 * ?n1 y" if "?d3 x < ?d3 y"
    by (rule capped_lex [OF that])
  have mixed: "lex2 (400 * a + 100 * b + 4 * c + d + 1, r) (400 * a' + 100 * b' + 4 * c' + d' + 1, r')"
    if "b \<le> 3" "b' \<le> 3" "c \<le> 24" "c' \<le> 24" "d \<le> 3" "d' \<le> 3"
      "a < a' \<or> a = a' \<and> (b < b' \<or> b = b' \<and> (c < c' \<or> c = c' \<and> (d < d' \<or> d = d' \<and> r < r')))"
    for a b c d r a' b' c' d' r' :: nat
    using that unfolding lex2_def fst_conv snd_conv by linarith
  show ?thesis
    unfolding e by (rule mixed [OF b(1) b(1) b4 b4 b(2) b(2)]) (use 1 2 3 4 in blast)
qed

lemma monthDay_later: "m \<le> fst (monthDay m ls x)"
  by (induction m ls x rule: monthDay.induct) auto

lemma monthDay_lex: "x < y \<Longrightarrow> lex2 (monthDay m ls x) (monthDay m ls y)"
proof (induction m ls x arbitrary: y rule: monthDay.induct)
  case (1 m d)
  then show ?case by (simp add: lex2_def)
next
  case (2 m l ls d)
  have "m < fst (monthDay (m + 1) ls (y - l))" using monthDay_later [of "m + 1" ls "y - l"] by simp
  then show ?case using 2 by (auto simp: lex2_def)
qed

lemma yearDay_small: "d < 3652059 \<Longrightarrow> fst (yearDay d) < 10000"
  using yearDay_lex [of d 3652059] by (simp add: lex2_def yearDay_def [of 3652059])

lemma yearDay_day: "snd (yearDay d) < 366"
proof -
  define x where "x = (d mod 146097 - 36524 * min 3 (d mod 146097 div 36524)) mod 1461"
  have "x < 1461" by (simp add: x_def)
  then have "x - 365 * min 3 (x div 365) < 366" by (auto simp: min_def)
  then show ?thesis unfolding yearDay_def Let_def snd_conv x_def .
qed

lemma monthDay_bounds: "fst (monthDay m ls d) \<le> m + length ls"
    "list_all (\<lambda>l. l \<le> 31) ls \<Longrightarrow> snd (monthDay m ls d) \<le> max 31 (d + 1 - sum_list ls)"
  by (induction m ls d rule: monthDay.induct) auto

lemma monthDay_small:
  assumes "d < 366" shows "fst (monthDay 1 (monthLengths y) d) < 100" "snd (monthDay 1 (monthLengths y) d) < 100"
proof -
  have m: "length (monthLengths y) = 12" "365 \<le> sum_list (monthLengths y)" "list_all (\<lambda>l. l \<le> 31) (monthLengths y)"
    by (simp_all add: monthLengths_def)
  show "fst (monthDay 1 (monthLengths y) d) < 100" using monthDay_bounds(1) [of 1 "monthLengths y" d] m(1) by simp
  show "snd (monthDay 1 (monthLengths y) d) < 100"
    using monthDay_bounds(2) [OF m(3), of 1 d] m(2) assms by simp
qed

lemma pad_lex: "x < y \<or> x = y \<and> us < vs \<Longrightarrow> y < 10 ^ n \<Longrightarrow> pad n x @ us < pad n y @ vs"
  using pad_less by (auto simp: lex_append_same intro: lex_append_less)

definition stampEnd :: time where
  "stampEnd = 315537897600 * 1000000000"

text \<open>Until the year 10000 a later snapshot has a greater name.\<close>

lemma formatStamp_less:
  assumes "0 \<le> t" "t < t'" "t' < stampEnd"
  shows "formatStamp t < formatStamp t'"
proof -
  let ?s = "\<lambda>t. nat (t div 1000000000)" and ?ns = "\<lambda>t. nat (t mod 1000000000)"
  let ?y = "\<lambda>t. yearDay (?s t div 86400)"
  let ?m = "\<lambda>t. monthDay 1 (monthLengths (fst (?y t))) (snd (?y t))"
  let ?sec = "\<lambda>t. ?s t mod 86400"
  have e: "formatStamp t = pad 4 (fst (?y t)) @ pad 2 (fst (?m t)) @ pad 2 (snd (?m t)) @ ''T''
        @ pad 2 (?sec t div 3600) @ pad 2 (?sec t mod 3600 div 60) @ pad 2 (?sec t mod 60)
        @ ''.'' @ pad 9 (?ns t) @ ''Z''" for t
    by (simp add: formatStamp_def Let_def split: prod.split)
  have st: "?s t < ?s t' \<or> ?s t = ?s t' \<and> ?ns t < ?ns t'"
  proof -
    have "nat t < nat t'" using assms by simp
    from div_mod_lex [OF this, of 1000000000] show ?thesis
      using assms by (simp add: nat_div_distrib nat_mod_distrib)
  qed
  have day: "?s t' div 86400 < 3652059"
    using assms(3) by (simp add: stampEnd_def less_mult_imp_div_less nat_less_iff div_less_iff_less_mult)
  have d: "?s t div 86400 < ?s t' div 86400 \<or> ?s t div 86400 = ?s t' div 86400 \<and> ?sec t < ?sec t'" if "?s t < ?s t'"
    by (rule div_mod_lex [OF that])
  have yl: "lex2 (?y t) (?y t')" if "?s t div 86400 < ?s t' div 86400" by (rule yearDay_lex [OF that])
  have ml: "lex2 (?m t) (?m t')" if "fst (?y t) = fst (?y t')" "snd (?y t) < snd (?y t')"
    using monthDay_lex [OF that(2)] that(1) by simp
  have h: "?sec t div 3600 < ?sec t' div 3600 \<or> ?sec t div 3600 = ?sec t' div 3600 \<and> ?sec t mod 3600 < ?sec t' mod 3600"
    if "?sec t < ?sec t'" by (rule div_mod_lex [OF that])
  have mi: "?sec t mod 3600 div 60 < ?sec t' mod 3600 div 60
      \<or> ?sec t mod 3600 div 60 = ?sec t' mod 3600 div 60 \<and> ?sec t mod 60 < ?sec t' mod 60"
    if "?sec t mod 3600 < ?sec t' mod 3600"
    using div_mod_lex [OF that, of 60] by (simp add: mod_mod_cancel)
  note eq = lex_append_same [of "pad _ _"] lex_append_same [of "''.''", simplified] lex_append_same [of "''T''", simplified]
  have C: "pad 9 (?ns t) @ ''Z'' < pad 9 (?ns t') @ ''Z''" if "?ns t < ?ns t'"
    by (rule pad_lex) (use that assms in simp_all)
  have S: "pad 2 (?sec t mod 60) @ ''.'' @ pad 9 (?ns t) @ ''Z'' < pad 2 (?sec t' mod 60) @ ''.'' @ pad 9 (?ns t') @ ''Z''"
    if "?sec t mod 60 < ?sec t' mod 60"
  proof (rule pad_lex [OF disjI1 [OF that]])
    have "?sec t' mod 60 < 60" by (rule mod_less_divisor) simp
    then show "?sec t' mod 60 < 10 ^ 2" by (rule less_le_trans) simp
  qed
  have M: "pad 2 (?sec t mod 3600 div 60) @ pad 2 (?sec t mod 60) @ ''.'' @ pad 9 (?ns t) @ ''Z''
      < pad 2 (?sec t' mod 3600 div 60) @ pad 2 (?sec t' mod 60) @ ''.'' @ pad 9 (?ns t') @ ''Z''"
    if "?sec t mod 3600 < ?sec t' mod 3600"
    by (rule pad_lex) (use mi [OF that] S in blast, simp add: less_mult_imp_div_less)
  have H: "pad 2 (?sec t div 3600) @ pad 2 (?sec t mod 3600 div 60) @ pad 2 (?sec t mod 60) @ ''.'' @ pad 9 (?ns t) @ ''Z''
      < pad 2 (?sec t' div 3600) @ pad 2 (?sec t' mod 3600 div 60) @ pad 2 (?sec t' mod 60) @ ''.'' @ pad 9 (?ns t') @ ''Z''"
    if "?sec t < ?sec t'"
    by (rule pad_lex) (use h [OF that] M in blast, simp add: less_mult_imp_div_less)
  note md = monthDay_small [OF yearDay_day]
  show ?thesis
  proof (cases "?s t < ?s t'")
    case False
    have eq: "?s t = ?s t'" using False st by blast
    have "?ns t < ?ns t'" using False st by blast
    from C [OF this] show ?thesis unfolding e eq lex_append_same by simp
  next
    case True
    show ?thesis
    proof (cases "?s t div 86400 < ?s t' div 86400")
      case False
      then have eq: "?s t div 86400 = ?s t' div 86400" and sec: "?sec t < ?sec t'" using d [OF True] by blast+
      from H [OF sec] show ?thesis unfolding e eq lex_append_same by simp
    next
      case day_less: True
      from yl [OF this] consider "fst (?y t) < fst (?y t')"
        | "fst (?y t) = fst (?y t')" "fst (?m t) < fst (?m t')"
        | "fst (?y t) = fst (?y t')" "fst (?m t) = fst (?m t')" "snd (?m t) < snd (?m t')"
        using ml unfolding lex2_def by blast
      then show ?thesis
      proof cases
        case 1
        then show ?thesis unfolding e by (intro pad_lex disjI1) (use yearDay_small [OF day] in simp_all)
      next
        case 2
        show ?thesis unfolding e
          by (rule pad_lex, rule disjI2, rule conjI [OF 2(1)], rule pad_lex, rule disjI1 [OF 2(2)])
            (use yearDay_small [OF day] md in simp_all)
      next
        case 3
        show ?thesis unfolding e
          by (rule pad_lex, rule disjI2, rule conjI [OF 3(1)], rule pad_lex, rule disjI2, rule conjI [OF 3(2)],
              rule pad_lex, rule disjI1 [OF 3(3)])
            (use yearDay_small [OF day] md in simp_all)
      qed
    qed
  qed
qed

lemma length_formatStamp: "length (formatStamp t) = 26"
  unfolding formatStamp_def Let_def case_prod_beta length_append length_pad by simp

lemma snapshotName_less:
  "0 \<le> t \<Longrightarrow> t < t' \<Longrightarrow> t' < stampEnd \<Longrightarrow> snapshotName t < snapshotName t'"
  unfolding snapshotName_def lex_append_same by (intro lex_append_less formatStamp_less) (simp_all only: length_formatStamp)

end
