(* ===== verification/SnapshotCorrect.thy ===== *)
theory SnapshotCorrect
  imports SnapshotNames StoreProgress
begin

text \<open>
  What a snapshot holds: the files a walk visits, the archive made of them, and what is left on
  disk whether the snapshot succeeds or fails.
\<close>

subsection \<open>The walk\<close>

text \<open>The files a walk visits, in order, and how big they are.\<close>

primrec treePaths :: "nat \<Rightarrow> world \<Rightarrow> path \<Rightarrow> path list" where
  "treePaths 0 w p = []"
| "treePaths (Suc n) w p =
     (if p \<in> set (dirs w) then concat (map (\<lambda>name. treePaths n w (p @ [name])) (childNames w p)) else [p])"

definition fsize :: "world \<Rightarrow> path \<Rightarrow> nat" where
  "fsize w p = (case fcontent w p of None \<Rightarrow> 0 | Some b \<Rightarrow> length b)"

lemma reads_syscall: "(\<And>w. snd (m w) = w) \<Longrightarrow> reads (syscall m)"
  by (auto simp: reads_def syscall_def at_start_def split: list.splits option.splits)

lemma reads_tree_calls [io_reads]: "reads (readDirNames p)" "reads (osLstat p)" "reads (readDir p)" "reads tarCall"
  unfolding readDirNames_def osLstat_def readDir_def tarCall_def
  by (rule reads_syscall; auto split: option.splits)+

lemma reads_foldM [io_reads]: "(\<And>x acc. reads (f x acc)) \<Longrightarrow> reads (io_foldM f xs acc)"
  by (induction xs arbitrary: acc) (auto intro: io_reads)

lemma reads_walkTree [io_reads]: "(\<And>p sz acc. reads (visit p sz acc)) \<Longrightarrow> reads (walkTree n visit p acc)"
  by (induction n arbitrary: p acc) (auto intro!: io_reads split: FileInfo.split)

lemma reads_Walk [io_reads]: "(\<And>p sz acc. reads (visit p sz acc)) \<Longrightarrow> reads (Walk visit base acc)"
  using reads_walkTree [of visit] unfolding Walk_def reads_def by blast

lemma io_foldM_Inr:
  assumes "\<And>x acc. reads (f x acc)"
    and "\<And>x acc u r u'. at_start w u \<Longrightarrow> f x acc u = (Inr r, u') \<Longrightarrow> r = h x acc"
  shows "at_start w v \<Longrightarrow> io_foldM f xs acc v = (Inr r, v') \<Longrightarrow> r = fold h xs acc"
proof (induction xs arbitrary: acc v)
  case Nil
  then show ?case by simp
next
  case (Cons x xs)
  then obtain y v1 where y: "f x acc v = (Inr y, v1)" "io_foldM f xs y v1 = (Inr r, v')"
    by (auto simp: io_iffs)
  have "at_start w v1" using Cons.prems(1) reads_run [OF assms(1) y(1)] at_start_trans by blast
  from Cons.IH [OF this y(2)] assms(2) [OF Cons.prems(1) y(1)] show ?case by simp
qed

lemma fold_concat_map: "fold f (concat (map g xs)) = fold (\<lambda>x. fold f (g x)) xs"
  by (induction xs) auto

lemma childNames_at_start: "at_start w v \<Longrightarrow> childNames v p = childNames w p"
  by (simp add: childNames_def at_start_views)

lemma osLstat_Inr:
  "osLstat p v = (Inr info, v') \<Longrightarrow>
    (if p \<in> set (dirs v) then info = DirInfo else info = RegInfo (fsize v p) \<and> fcontent v p \<noteq> None)"
  by (auto simp: osLstat_def syscall_def fsize_def fcontent_def split: list.splits option.splits if_splits)

lemma walkTree_Inr:
  assumes "\<And>p sz acc. reads (visit p sz acc)"
    and spec: "\<And>q sz acc u r u'. at_start w u \<Longrightarrow> visit q sz acc u = (Inr r, u') \<Longrightarrow> r = g q sz acc"
  shows "at_start w v \<Longrightarrow> walkTree n visit p acc v = (Inr r, v') \<Longrightarrow>
    r = fold (\<lambda>q. g q (fsize w q)) (treePaths n w p) acc"
proof (induction n arbitrary: p acc v r v')
  case 0
  then show ?case by simp
next
  case (Suc n)
  obtain info v1 where l: "osLstat p v = (Inr info, v1)"
    and rest: "(case info of RegInfo sz \<Rightarrow> visit p sz acc
       | DirInfo \<Rightarrow> io_bind (readDirNames p) (\<lambda>names.
           io_foldM (\<lambda>name. walkTree n visit (p @ [name])) names acc)) v1 = (Inr r, v')"
    using Suc.prems(2) by (auto simp: io_iffs)
  have s1: "at_start w v1" using Suc.prems(1) reads_run [OF reads_tree_calls(2) l] at_start_trans by blast
  have dv: "dirs v = dirs w" "fsize v p = fsize w p"
    using Suc.prems(1) by (simp_all add: at_start_views at_start_fcontent fsize_def)
  show ?case
  proof (cases "p \<in> set (dirs w)")
    case False
    then have "info = RegInfo (fsize w p)" using osLstat_Inr [OF l] dv by simp
    then show ?thesis using rest spec [OF s1] False by simp
  next
    case True
    then have "info = DirInfo" using osLstat_Inr [OF l] dv by simp
    then obtain names v2 where nm: "readDirNames p v1 = (Inr names, v2)"
      and fm: "io_foldM (\<lambda>name. walkTree n visit (p @ [name])) names acc v2 = (Inr r, v')"
      using rest by (auto simp: io_iffs)
    have s2: "at_start w v2" using s1 reads_run [OF reads_tree_calls(1) nm] at_start_trans by blast
    have "names = childNames w p"
      using nm childNames_at_start [OF s1]
      by (auto simp: readDirNames_def syscall_def childNames_def split: list.splits option.splits if_splits)
    moreover have "r = fold (\<lambda>name acc. fold (\<lambda>q. g q (fsize w q)) (treePaths n w (p @ [name])) acc) names acc"
      by (rule io_foldM_Inr [OF _ _ s2 fm]) (auto intro: reads_walkTree assms(1) Suc.IH)
    ultimately show ?thesis using True by (simp add: fold_concat_map)
  qed
qed

subsection \<open>What a walk visits\<close>

text \<open>
  Below \<open>base\<close> every file and directory is in a directory, no name is both, and names hold no
  slash.
\<close>

definition tree_ok :: "world \<Rightarrow> path \<Rightarrow> bool" where
  "tree_ok w base \<longleftrightarrow> base \<in> set (dirs w)
     \<and> (\<forall>q \<in> set (dirs w) \<union> dom (map_of (ents w)). strict_prefix base q \<longrightarrow> butlast q \<in> set (dirs w))
     \<and> (\<forall>q \<in> dom (map_of (ents w)). prefix base q \<longrightarrow>
          q \<notin> set (dirs w) \<and> list_all (\<lambda>c. CHR ''/'' \<notin> set c) (drop (length base) q))"

lemma deepest_ge: "d \<in> set (dirs w) \<Longrightarrow> length d \<le> deepest w"
  unfolding deepest_def by (intro foldr_max_ge) simp

lemma childNames_iff: "name \<in> set (childNames w p) \<longleftrightarrow> p @ [name] \<in> set (dirs w) \<union> dom (map_of (ents w))"
proof -
  have "name \<in> set (childNames w p) \<longleftrightarrow> (\<exists>q \<in> set (dirs w) \<union> fst ` set (ents w). q \<noteq> [] \<and> butlast q = p \<and> last q = name)"
    by (auto simp: childNames_def)
  also have "\<dots> \<longleftrightarrow> p @ [name] \<in> set (dirs w) \<union> fst ` set (ents w)"
    by (metis append_butlast_last_id butlast_snoc last_snoc snoc_eq_iff_butlast)
  finally show ?thesis by (simp add: dom_map_of_conv_image_fst)
qed

lemma distinct_childNames: "distinct (childNames w p)"
  by (simp add: childNames_def)

lemma tree_ok_up:
  assumes t: "tree_ok w base" and b: "prefix base p"
  shows "strict_prefix p q \<Longrightarrow> q \<in> set (dirs w) \<union> dom (map_of (ents w)) \<Longrightarrow> p \<in> set (dirs w)"
proof (induction q rule: rev_induct)
  case Nil
  then show ?case by simp
next
  case (snoc x q)
  have pq: "prefix p q" using snoc.prems(1) by (auto simp: strict_prefix_def)
  have "strict_prefix base (q @ [x])" using b pq by (auto simp: strict_prefix_def prefix_def)
  then have q: "q \<in> set (dirs w)" using t snoc.prems(2) unfolding tree_ok_def by fastforce
  show ?case
  proof (cases "p = q")
    case False
    then have "strict_prefix p q" using pq by (simp add: strict_prefix_def)
    then show ?thesis using snoc.IH q by blast
  qed (use q in simp)
qed

lemma distinct_concat_map:
  "distinct xs \<Longrightarrow> (\<And>x. x \<in> set xs \<Longrightarrow> distinct (f x)) \<Longrightarrow>
   (\<And>x y. x \<in> set xs \<Longrightarrow> y \<in> set xs \<Longrightarrow> x \<noteq> y \<Longrightarrow> set (f x) \<inter> set (f y) = {}) \<Longrightarrow> distinct (concat (map f xs))"
proof (induction xs)
  case (Cons a xs)
  have "distinct (concat (map f xs))" using Cons.prems by (intro Cons.IH) auto
  moreover have "set (f a) \<inter> set (f y) = {}" if "y \<in> set xs" for y using Cons.prems(1,3) that by (metis distinct.simps(2) list.set_intros)
  ultimately show ?case using Cons.prems(2) by fastforce
qed simp

lemma treePaths_set:
  assumes t: "tree_ok w base"
  shows "prefix base p \<Longrightarrow> p \<in> set (dirs w) \<union> dom (map_of (ents w)) \<Longrightarrow>
    (\<forall>d \<in> set (dirs w). length d + 1 < n + length p) \<Longrightarrow> 0 < n \<Longrightarrow>
    set (treePaths n w p) = {q \<in> dom (map_of (ents w)). prefix p q} \<and> distinct (treePaths n w p)"
proof (induction n arbitrary: p)
  case 0
  then show ?case by simp
next
  case (Suc n)
  have nf: "q \<notin> set (dirs w)" if "q \<in> dom (map_of (ents w))" "prefix p q" for q
    using t that prefix_order.trans [OF Suc.prems(1) that(2)] by (simp add: tree_ok_def)
  show ?case
  proof (cases "p \<in> set (dirs w)")
    case False
    have "q = p" if "q \<in> dom (map_of (ents w))" "prefix p q" for q
      using tree_ok_up [OF t Suc.prems(1), of q] that False by (auto simp: strict_prefix_def)
    then show ?thesis using False Suc.prems(2) by auto
  next
    case True
    have ih: "set (treePaths n w (p @ [name])) = {q \<in> dom (map_of (ents w)). prefix (p @ [name]) q}
        \<and> distinct (treePaths n w (p @ [name]))" if "name \<in> set (childNames w p)" for name
    proof (rule Suc.IH)
      show "prefix base (p @ [name])" using Suc.prems(1) by (metis prefix_order.trans prefixI)
      show "p @ [name] \<in> set (dirs w) \<union> dom (map_of (ents w))" using that childNames_iff by blast
      show "\<forall>d \<in> set (dirs w). length d + 1 < n + length (p @ [name])" using Suc.prems(3) by simp
      show "0 < n" using Suc.prems(3) True by fastforce
    qed
    have "(\<exists>name \<in> set (childNames w p). prefix (p @ [name]) q) \<longleftrightarrow> prefix p q" if q: "q \<in> dom (map_of (ents w))" for q
    proof
      assume "prefix p q"
      moreover have "q \<noteq> p" using nf [OF q] True calculation by blast
      ultimately obtain name r where r: "q = (p @ [name]) @ r" by (metis append.assoc append_Cons append_Nil append_Nil2 list.exhaust prefixE)
      have "p @ [name] \<in> set (dirs w) \<union> dom (map_of (ents w))"
      proof (cases "r = []")
        case False
        then have "strict_prefix (p @ [name]) q" by (simp add: r strict_prefix_def)
        moreover have "prefix base (p @ [name])" using Suc.prems(1) by (metis prefix_order.trans prefixI)
        ultimately show ?thesis using tree_ok_up [OF t] q by blast
      qed (use q r in simp)
      then show "\<exists>name \<in> set (childNames w p). prefix (p @ [name]) q"
        by (intro bexI [of _ name]) (simp_all add: childNames_iff r)
    qed (auto simp: prefix_def)
    moreover have "distinct (concat (map (\<lambda>name. treePaths n w (p @ [name])) (childNames w p)))"
      by (rule distinct_concat_map [OF distinct_childNames]) (auto simp: ih prefix_def)
    ultimately show ?thesis using True by (auto simp: ih)
  qed
qed

text \<open>The depth that \<open>Walk\<close> starts with is enough.\<close>

lemma walkTree_depth:
  assumes "tree_ok w base" "prefix base p" "p \<in> set (dirs w)"
  shows "set (treePaths (deepest w + 2) w p) = {q \<in> dom (map_of (ents w)). prefix p q}"
    and "distinct (treePaths (deepest w + 2) w p)"
  using treePaths_set [OF assms(1,2), of "deepest w + 2"] assms(3) deepest_ge [of _ w] by fastforce+

subsection \<open>The archive\<close>

definition fileEntry :: "world \<Rightarrow> path \<Rightarrow> path \<Rightarrow> tarEntry" where
  "fileEntry w dir q = \<lparr>teName = joinSlash (drop (length dir) q), teMode = 0x180, teSize = fsize w q,
     teData = (case fcontent w q of None \<Rightarrow> [] | Some b \<Rightarrow> b)\<rparr>"

definition manifestEntry :: "bytes \<Rightarrow> tarEntry" where
  "manifestEntry b = \<lparr>teName = ''manifest.json'', teMode = 0x180, teSize = length b, teData = b\<rparr>"

definition walked :: "world \<Rightarrow> path \<Rightarrow> path list" where
  "walked w base = treePaths (deepest w + 2) w base"

definition archived :: "snaplib \<Rightarrow> path \<Rightarrow> snapshotManifest \<Rightarrow> world \<Rightarrow> tarEntry list \<Rightarrow> bool" where
  "archived Z dir m w es \<longleftrightarrow> (\<exists>b. json_manifest Z m = Some b \<and>
     es = manifestEntry (b @ newline) # map (fileEntry w dir) (walked w (nodesBase dir) @ walked w (refsBase dir)))"

lemma reads_writeTar [io_reads]: "reads (writeTarBytes n b tw)" "reads (writeTarFile p n sz tw)" "reads (tarVisit dir p sz tw)"
  unfolding writeTarBytes_def writeTarFile_def tarVisit_def by (auto intro!: io_reads)

lemma reads_archiveEntries [io_reads]: "reads (archiveEntries Z dir m)"
  unfolding archiveEntries_def by (auto intro!: io_reads split: option.split)

definition addEntry :: "world \<Rightarrow> path \<Rightarrow> path \<Rightarrow> nat \<Rightarrow> tarEntry list \<Rightarrow> tarEntry list" where
  "addEntry w dir q sz tw = tw @ [(fileEntry w dir q)\<lparr>teSize := sz\<rparr>]"

lemma tarVisit_Inr:
  assumes "at_start w u" "tarVisit dir q sz tw u = (Inr r, u')"
  shows "r = addEntry w dir q sz tw"
proof -
  obtain b v1 v2 where b: "at_start u v1" "readFile q v1 = (Inr b, v2)"
    and r: "r = tw @ [\<lparr>teName = joinSlash (drop (length dir) q), teMode = 0x180, teSize = sz, teData = b\<rparr>]"
    using assms(2) reads_run [OF reads_tree_calls(4)]
    by (fastforce simp: tarVisit_def writeTarFile_def io_iffs split: if_splits)
  have "fcontent w q = Some b"
    using readFile_Inr [OF b(2)] at_start_fcontent [OF at_start_trans [OF assms(1) b(1)]] by simp
  then show ?thesis by (simp add: r addEntry_def fileEntry_def)
qed

lemma fold_addEntry: "fold (\<lambda>q. addEntry w dir q (fsize w q)) qs tw = tw @ map (fileEntry w dir) qs"
  by (induction qs arbitrary: tw) (auto simp: addEntry_def fileEntry_def)

lemma Walk_tarVisit:
  assumes "at_start w v" "Walk (tarVisit dir) base tw v = (Inr r, v')"
  shows "r = tw @ map (fileEntry w dir) (walked w base) \<and> at_start w v'"
proof -
  have d: "deepest v = deepest w" using assms(1) by (simp add: deepest_def at_start_views)
  have "r = fold (\<lambda>q. addEntry w dir q (fsize w q)) (treePaths (deepest w + 2) w base) tw"
    by (rule walkTree_Inr [OF _ _ assms(1)]) (use assms(2) tarVisit_Inr in \<open>auto simp: Walk_def d intro: io_reads\<close>)
  moreover have "at_start v v'" by (rule reads_run [OF reads_Walk [OF reads_writeTar(3)] assms(2)])
  ultimately show ?thesis using assms(1) at_start_trans by (auto simp: fold_addEntry walked_def)
qed

lemma archiveEntries_Inr:
  assumes "archiveEntries Z dir m w = (Inr es, w')"
  shows "archived Z dir m w es \<and> at_start w w'"
proof -
  obtain b tw v1 tw2 v2 where b: "json_manifest Z m = Some b"
    and h: "writeTarBytes ''manifest.json'' (b @ newline) [] w = (Inr tw, v1)"
    and n: "Walk (tarVisit dir) (nodesBase dir) tw v1 = (Inr tw2, v2)"
    and r: "Walk (tarVisit dir) (refsBase dir) tw2 v2 = (Inr es, w')"
    using assms by (auto simp: archiveEntries_def io_iffs split: option.splits)
  have s: "at_start w v1" by (rule reads_run [OF reads_writeTar(1) h])
  have tw: "tw = [manifestEntry (b @ newline)]"
    using h by (auto simp: writeTarBytes_def io_iffs manifestEntry_def)
  note x = Walk_tarVisit [OF s n]
  note y = Walk_tarVisit [OF conjunct2 [OF x] r]
  show ?thesis using x y by (simp add: archived_def b tw)
qed

subsection \<open>What is left on disk\<close>

lemma hoare_reads: "reads m \<Longrightarrow> fault_free P \<Longrightarrow> hoare P m (\<lambda>_. P) P"
proof -
  assume r: "reads m" and f: "fault_free P"
  have "P w'" if "P w" "at_start w w'" for w w'
  proof -
    obtain fs where "w' = w\<lparr>faults := fs\<rparr>" using \<open>at_start w w'\<close> by (rule at_startE)
    then show ?thesis using f that(1) by (simp add: fault_free_def)
  qed
  then show ?thesis by (intro hoareI) (auto dest: reads_run [OF r])
qed

lemma hoare_try: "hoare P m Q E \<Longrightarrow> hoare P (io_try m) (\<lambda>r w. case r of Inl _ \<Rightarrow> E w | Inr x \<Rightarrow> Q x w) (\<lambda>_. False)"
  unfolding hoare_def io_try_def by (auto split: prod.splits sum.splits)

lemma hoare_and: "hoare P m Q E \<Longrightarrow> hoare P m Q' E' \<Longrightarrow> hoare P m (\<lambda>x w. Q x w \<and> Q' x w) (\<lambda>w. E w \<and> E' w)"
  unfolding hoare_def by (fastforce split: prod.splits sum.splits)

text \<open>Calls on the temporary file keep it private.\<close>

lemma in_temp_any: "in_temp w0 t i G w \<Longrightarrow> in_temp w0 t i (\<lambda>_. True) w"
  by (simp add: in_temp_def)

lemma hoare_private:
  "hoare (in_temp w0 t i (\<lambda>_. True)) (fileWrite (t, i) b) (\<lambda>_. in_temp w0 t i (\<lambda>_. True)) (in_temp w0 t i (\<lambda>_. True))"
  "hoare (in_temp w0 t i (\<lambda>_. True)) (fileSync (t, i)) (\<lambda>_. in_temp w0 t i (\<lambda>_. True)) (in_temp w0 t i (\<lambda>_. True))"
  "hoare (in_temp w0 t i (\<lambda>_. True)) (fileChmod (t, i) m) (\<lambda>_. in_temp w0 t i (\<lambda>_. True)) (in_temp w0 t i (\<lambda>_. True))"
proof -
  let ?P = "in_temp w0 t i (\<lambda>_. True)"
  have ff: "?P (w\<lparr>faults := fs\<rparr>) = ?P w" for w fs
    using phases_fault_free(2) [of w0 t i "\<lambda>_. True"] by (simp add: fault_free_def)
  have si: "?P w \<Longrightarrow> ?P (set_inode i f w)" for w f by (rule in_temp_set_inode) auto
  show "hoare ?P (fileWrite (t, i) b) (\<lambda>_. ?P) ?P"
    by (rule hoareI) (auto simp: fileWrite_def ff intro!: si split: list.splits option.splits)
  show "hoare ?P (fileSync (t, i)) (\<lambda>_. ?P) ?P" "hoare ?P (fileChmod (t, i) m) (\<lambda>_. ?P) ?P"
    unfolding fileSync_def fileChmod_def by (rule hoare_pure_call; auto intro: si)+
qed


lemma hoare_closeWithError:
  "hoare (in_temp w0 t i (\<lambda>n. idata n = [])) (closeWithError Z (t, i) base)
     (\<lambda>_ w. \<exists>es. base = Inr es \<and> in_temp w0 t i (\<lambda>n. isynced n \<and> idata n = tar_gz Z es) w) (untouched w0 t)"
proof -
  let ?b = "case base of Inr tw \<Rightarrow> tar_gz Z tw | Inl _ \<Rightarrow> tar_cut Z"
  let ?any = "in_temp w0 t i (\<lambda>_. True)" and ?empty = "in_temp w0 t i (\<lambda>n. idata n = [])"
  let ?W = "\<lambda>r w. ?any w \<and> (r = Inr () \<longrightarrow> in_temp w0 t i (\<lambda>n. idata n = ?b) w)"
  let ?S = "\<lambda>r q w. ?any w \<and> (r = Inr () \<and> q = Inr () \<longrightarrow> in_temp w0 t i (\<lambda>n. isynced n \<and> idata n = ?b) w)"
  have tc: "hoare ?empty (io_try tarCall) (\<lambda>_. ?empty) (untouched w0 t)"
    by (rule hoare_weaken [OF hoare_try [OF hoare_reads [OF reads_tree_calls(4) phases_fault_free(2)]]])
      (auto split: sum.splits)
  have wr: "hoare ?empty (io_try (fileWrite (t, i) ?b)) ?W (untouched w0 t)"
  proof -
    have "hoare ?empty (fileWrite (t, i) ?b) (\<lambda>_. ?any) ?any"
      by (rule hoare_weaken [OF hoare_private(1)]) (auto intro: in_temp_any)
    from hoare_try [OF hoare_and [OF hoare_write this]] show ?thesis
      by (rule hoare_weaken) (auto split: sum.splits)
  qed
  have sy: "hoare (?W r) (io_try (fileSync (t, i))) (?S r) (untouched w0 t)" for r
  proof (cases "r = Inr ()")
    case True
    have "hoare (\<lambda>w. ?any w \<and> in_temp w0 t i (\<lambda>n. idata n = ?b) w) (fileSync (t, i))
        (\<lambda>_. in_temp w0 t i (\<lambda>n. isynced n \<and> idata n = ?b)) (untouched w0 t)"
      by (rule hoare_weaken [OF hoare_sync]) auto
    moreover have "hoare (\<lambda>w. ?any w \<and> in_temp w0 t i (\<lambda>n. idata n = ?b) w) (fileSync (t, i)) (\<lambda>_. ?any) ?any"
      by (rule hoare_weaken [OF hoare_private(2)]) auto
    ultimately have "hoare (\<lambda>w. ?any w \<and> in_temp w0 t i (\<lambda>n. idata n = ?b) w) (fileSync (t, i))
        (\<lambda>x w. in_temp w0 t i (\<lambda>n. isynced n \<and> idata n = ?b) w \<and> ?any w) (\<lambda>w. untouched w0 t w \<and> ?any w)"
      by (rule hoare_and)
    from hoare_try [OF this] show ?thesis by (rule hoare_weaken) (auto simp: True split: sum.splits)
  next
    case False
    show ?thesis
      by (rule hoare_weaken [OF hoare_try [OF hoare_private(2)]]) (auto simp: False split: sum.splits)
  qed
  have cl: "hoare (?S r q) (io_try (fileClose (t, i))) (\<lambda>_. ?S r q) (untouched w0 t)" for r q
  proof -
    have "fault_free (?S r q)"
      using phases_fault_free(2) [of w0 t i] by (auto simp: fault_free_def)
    from hoare_try [OF hoare_close_any [OF this]] show ?thesis by (rule hoare_weaken) (auto split: sum.splits)
  qed
  have fin: "hoare (?S r q) (io_lift (bindE base (\<lambda>_. bindE e (\<lambda>_. bindE r (\<lambda>_. bindE q (\<lambda>_. c))))))
      (\<lambda>_ w. \<exists>es. base = Inr es \<and> in_temp w0 t i (\<lambda>n. isynced n \<and> idata n = tar_gz Z es) w) (untouched w0 t)"
    for r q e :: "go_error + unit" and c
    by (rule hoareI) (auto simp: bindE_Inr_iff intro: untouched_in_temp)
  show ?thesis
    unfolding closeWithError_def
    by (rule hoare_bind [OF tc] hoare_bind [OF wr] hoare_bind [OF sy] hoare_bind [OF cl] fin)+
qed

text \<open>What the archive holds, told about a world: a manifest, and each file below the two directories once.\<close>

definition archive_of :: "snaplib \<Rightarrow> path \<Rightarrow> snapshotManifest \<Rightarrow> world \<Rightarrow> tarEntry list \<Rightarrow> bool" where
  "archive_of Z dir m w es \<longleftrightarrow> (\<exists>b qs. json_manifest Z m = Some b \<and> es = manifestEntry (b @ newline) # map (fileEntry w dir) qs
     \<and> distinct qs \<and> set qs = {q \<in> dom (map_of (ents w)). prefix (nodesBase dir) q \<or> prefix (refsBase dir) q})"

lemma bases_apart: "prefix (nodesBase dir) q \<Longrightarrow> \<not> prefix (refsBase dir) q"
  by (auto simp: nodesBase_def refsBase_def prefix_def)

lemma archived_archive_of:
  assumes "archived Z dir m w es" "tree_ok w (nodesBase dir)" "tree_ok w (refsBase dir)"
  shows "archive_of Z dir m w es"
proof -
  have n: "set (walked w (nodesBase dir)) = {q \<in> dom (map_of (ents w)). prefix (nodesBase dir) q}" "distinct (walked w (nodesBase dir))"
    and r: "set (walked w (refsBase dir)) = {q \<in> dom (map_of (ents w)). prefix (refsBase dir) q}" "distinct (walked w (refsBase dir))"
    using walkTree_depth [OF assms(2)] walkTree_depth [OF assms(3)] assms(2,3)
    unfolding walked_def by (simp_all add: tree_ok_def)
  have "distinct (walked w (nodesBase dir) @ walked w (refsBase dir))"
    using n r bases_apart by auto
  moreover have "set (walked w (nodesBase dir) @ walked w (refsBase dir))
      = {q \<in> dom (map_of (ents w)). prefix (nodesBase dir) q \<or> prefix (refsBase dir) q}"
    using n r by auto
  ultimately show ?thesis using assms(1) unfolding archived_def archive_of_def by blast
qed

text \<open>Two worlds with the same files below the two directories.\<close>

lemma fileEntry_cong: "fcontent w q = fcontent v q \<Longrightarrow> fileEntry w dir q = fileEntry v dir q"
  by (simp add: fileEntry_def fsize_def)

lemma archive_of_cong:
  assumes "archive_of Z dir m v es"
    and "\<And>q. prefix (nodesBase dir) q \<or> prefix (refsBase dir) q \<Longrightarrow> map_of (ents v) q = map_of (ents w) q \<and> fcontent v q = fcontent w q"
  shows "archive_of Z dir m w es"
proof -
  obtain b qs where b: "json_manifest Z m = Some b" "es = manifestEntry (b @ newline) # map (fileEntry v dir) qs" "distinct qs"
    and qs: "set qs = {q \<in> dom (map_of (ents v)). prefix (nodesBase dir) q \<or> prefix (refsBase dir) q}"
    using assms(1) unfolding archive_of_def by blast
  have "map (fileEntry v dir) qs = map (fileEntry w dir) qs"
    using qs assms(2) by (auto intro: fileEntry_cong)
  moreover have "set qs = {q \<in> dom (map_of (ents w)). prefix (nodesBase dir) q \<or> prefix (refsBase dir) q}"
    unfolding qs using assms(2) by (auto simp: domIff)
  ultimately show ?thesis using b unfolding archive_of_def by (metis (lifting))
qed

lemma tree_ok_cong:
  assumes "tree_ok w base" "dirs v = dirs w"
    and "\<And>q. prefix base q \<Longrightarrow> map_of (ents v) q = map_of (ents w) q"
  shows "tree_ok v base"
  using assms unfolding tree_ok_def by (auto simp: strict_prefix_def domIff)

text \<open>Writing the archive, from a world \<open>w\<close> in which the directory exists.\<close>

definition snapshot_post :: "snaplib \<Rightarrow> path \<Rightarrow> snapshotManifest \<Rightarrow> path \<Rightarrow> world \<Rightarrow> go_error + SnapshotInfo \<Rightarrow> world \<Rightarrow> bool" where
  "snapshot_post Z dir m dest w r w' \<longleftrightarrow>
     (\<exists>t. butlast t = butlast dest \<and> hasPrefix (last t) ''.jaybase-snapshot-'' \<and>
       (\<forall>q. q \<noteq> t \<longrightarrow> q \<noteq> dest \<longrightarrow> keeps q w w') \<and>
       (case r of Inr _ \<Rightarrow> \<exists>es v. durable w' dest (tar_gz Z es) \<and> in_temp w t (fresh_ino w) (\<lambda>n. idata n = []) v \<and> archived Z dir m v es
        | Inl _ \<Rightarrow> keeps dest w w' \<or> (\<exists>es v. new_live w dest (tar_gz Z es) w' \<and> in_temp w t (fresh_ino w) (\<lambda>n. idata n = []) v \<and> archived Z dir m v es)))"

definition writeSnapshot :: "snaplib \<Rightarrow> path \<Rightarrow> snapshotManifest \<Rightarrow> path \<Rightarrow> SnapshotInfo \<Rightarrow> SnapshotInfo io" where
  "writeSnapshot Z dir m dest info =
     io_bind (createTempSuffix (butlast dest) ''.jaybase-snapshot-'' ''.tar.gz'') (\<lambda>tmp.
     io_defer
       (io_bind (io_onerr (fileChmod tmp 0x180) (fileClose tmp)) (\<lambda>_.
        io_bind (io_try (archiveEntries Z dir m)) (\<lambda>base.
        io_bind (closeWithError Z tmp base) (\<lambda>_.
        io_bind (osRename (fst tmp) dest) (\<lambda>_.
        io_bind (syncDir (butlast dest)) (\<lambda>_. io_ret info))))))
       (osRemove (fst tmp)))"

lemma hoare_ex: "(\<And>y. hoare (P y) m (Q y) E) \<Longrightarrow> hoare (\<lambda>w. \<exists>y. P y w) m (\<lambda>x w. \<exists>y. Q y x w) E"
  unfolding hoare_def by (fastforce split: prod.splits sum.splits)

lemma hoare_given:
  assumes "C \<Longrightarrow> hoare P m Q E" shows "hoare (\<lambda>w. C \<and> P w) m (\<lambda>x w. C \<and> Q x w) E"
proof (cases C)
  case True
  with assms show ?thesis by simp
next
  case False
  then show ?thesis by (simp add: hoare_def)
qed

text \<open>A predicate that a call keeps, whatever it is conjoined with.\<close>

lemma hoare_keep_ex:
  "(\<And>y. hoare (P y) m (\<lambda>_. P y) (P y)) \<Longrightarrow> hoare (\<lambda>w. \<exists>y. C y \<and> P y w) m (\<lambda>_ w. \<exists>y. C y \<and> P y w) (\<lambda>w. \<exists>y. C y \<and> P y w)"
  unfolding hoare_def by (fastforce split: prod.splits sum.splits)

lemma hoare_keep_or:
  "hoare P m (\<lambda>_. P) P \<Longrightarrow> hoare Q m (\<lambda>_. Q) Q \<Longrightarrow> hoare (\<lambda>w. P w \<or> Q w) m (\<lambda>_ w. P w \<or> Q w) (\<lambda>w. P w \<or> Q w)"
  unfolding hoare_def by (fastforce split: prod.splits sum.splits)

lemma hoare_keep_and: "hoare P m (\<lambda>_. P) P \<Longrightarrow> hoare (\<lambda>w. C \<and> P w) m (\<lambda>_ w. C \<and> P w) (\<lambda>w. C \<and> P w)"
  unfolding hoare_def by (fastforce split: prod.splits sum.splits)

lemma fault_free_at_start: "fault_free P \<Longrightarrow> P w \<Longrightarrow> at_start w w' \<Longrightarrow> P w'"
  by (auto simp: fault_free_def elim!: at_startE)

lemma writeSnapshot_post:
  assumes ne: "\<not> hasPrefix (last dest) ''.jaybase-snapshot-''" and run: "writeSnapshot Z dir m dest info w = (r, w')"
  shows "snapshot_post Z dir m dest w r w'" "r = Inr x \<Longrightarrow> x = info"
proof -
  let ?t = "tmp_path_suffix w (butlast dest) ''.jaybase-snapshot-'' ''.tar.gz''" and ?i = "fresh_ino w"
  let ?K = "\<lambda>es. \<exists>v. in_temp w ?t ?i (\<lambda>n. idata n = []) v \<and> archived Z dir m v es"
  let ?E = "\<lambda>w'. untouched w ?t w' \<or> (\<exists>es. ?K es \<and> placed w ?t dest ?i (tar_gz Z es) w')"
  let ?Q = "\<lambda>w'. \<exists>es. ?K es \<and> placed_synced w ?t dest ?i (tar_gz Z es) w'"
  have tp: "butlast ?t = butlast dest" "hasPrefix (last ?t) ''.jaybase-snapshot-''"
    by (simp_all add: tmp_path_suffix_def hasPrefix_def)
  have nt: "dest \<noteq> ?t" using ne tp(2) by metis
  let ?P = "in_temp w ?t ?i (\<lambda>n. idata n = [])"
  have cm: "hoare ?P (io_onerr (fileChmod (?t, ?i) 0x180) (fileClose (?t, ?i))) (\<lambda>_. ?P) (untouched w ?t)"
    by (rule hoare_onerr [OF hoare_chmod hoare_close_any [OF phases_fault_free(5)]])
  have c0: "hoare ?P (io_onerr (fileChmod (?t, ?i) 0x180) (fileClose (?t, ?i))) (\<lambda>_. ?P) ?E"
    by (rule hoare_weaken [OF cm]) blast+
  have ar: "hoare ?P (io_try (archiveEntries Z dir m)) (\<lambda>base w'. ?P w' \<and> (\<forall>es. base = Inr es \<longrightarrow> ?K es)) ?E"
  proof (rule hoareI)
    fix v x v' assume P: "?P v" and "io_try (archiveEntries Z dir m) v = (Inr x, v')"
    then have x: "archiveEntries Z dir m v = (x, v')" by (auto simp: io_try_def split: prod.splits)
    have "?P v'" by (rule fault_free_at_start [OF phases_fault_free(2) P reads_run [OF reads_archiveEntries x]])
    moreover have "?K es" if "x = Inr es" for es
      using archiveEntries_Inr [of Z dir m v es v'] x that P by blast
    ultimately show "?P v' \<and> (\<forall>es. x = Inr es \<longrightarrow> ?K es)" by blast
  qed (auto simp: io_try_def split: prod.splits)
  have cl: "hoare (\<lambda>w'. ?P w' \<and> (\<forall>es. base = Inr es \<longrightarrow> ?K es)) (closeWithError Z (?t, ?i) base)
      (\<lambda>_ w'. \<exists>es. ?K es \<and> in_temp w ?t ?i (\<lambda>n. isynced n \<and> idata n = tar_gz Z es) w') ?E" for base
  proof (rule hoareI)
    fix v x v' assume v: "?P v \<and> (\<forall>es. base = Inr es \<longrightarrow> ?K es)" and r: "closeWithError Z (?t, ?i) base v = (Inr x, v')"
    from hoareD [OF hoare_closeWithError conjunct1 [OF v] r] v
    show "\<exists>es. ?K es \<and> in_temp w ?t ?i (\<lambda>n. isynced n \<and> idata n = tar_gz Z es) v'" by blast
  next
    fix v e v' assume v: "?P v \<and> (\<forall>es. base = Inr es \<longrightarrow> ?K es)" and r: "closeWithError Z (?t, ?i) base v = (Inl e, v')"
    from hoareD_err [OF hoare_closeWithError conjunct1 [OF v] r] show "?E v'" by blast
  qed
  have rn: "hoare (\<lambda>w'. \<exists>es. ?K es \<and> in_temp w ?t ?i (\<lambda>n. isynced n \<and> idata n = tar_gz Z es) w') (osRename ?t dest)
      (\<lambda>_ w'. \<exists>es. ?K es \<and> placed w ?t dest ?i (tar_gz Z es) w') ?E"
    by (rule hoare_ex, rule hoare_given, rule hoare_weaken [OF hoare_rename [OF nt]]) auto
  have sd: "hoare (\<lambda>w'. \<exists>es. ?K es \<and> placed w ?t dest ?i (tar_gz Z es) w') (syncDir (butlast dest)) (\<lambda>_. ?Q) ?E"
    by (rule hoare_ex, rule hoare_given, rule hoare_weaken [OF hoare_syncDir]) auto
  have rt: "hoare ?Q (io_ret info) (\<lambda>x w'. x = info \<and> ?Q w') ?E" by (rule hoareI) auto
  have rmQ: "hoare (\<lambda>w'. x = info \<and> ?Q w') (osRemove ?t) (\<lambda>_ w'. x = info \<and> ?Q w') (\<lambda>w'. x = info \<and> ?Q w')" for x
    by (intro hoare_keep_and hoare_keep_ex hoare_remove_placed(2) [OF nt [symmetric]])
  have rmE: "hoare ?E (osRemove ?t) (\<lambda>_. ?E) ?E"
    by (intro hoare_keep_or hoare_keep_ex hoare_remove_untouched hoare_remove_placed(1) [OF nt [symmetric]])
  have body: "hoare ?P (io_defer
       (io_bind (io_onerr (fileChmod (?t, ?i) 0x180) (fileClose (?t, ?i))) (\<lambda>_.
        io_bind (io_try (archiveEntries Z dir m)) (\<lambda>base.
        io_bind (closeWithError Z (?t, ?i) base) (\<lambda>_.
        io_bind (osRename ?t dest) (\<lambda>_.
        io_bind (syncDir (butlast dest)) (\<lambda>_. io_ret info))))))
       (osRemove ?t)) (\<lambda>x w'. x = info \<and> ?Q w') ?E"
    by (rule hoare_defer [OF _ rmQ rmE], rule hoare_bind [OF c0], rule hoare_bind [OF ar],
        rule hoare_bind [OF cl], rule hoare_bind [OF rn], rule hoare_bind [OF sd], rule rt)
  have "hoare (at_start w) (writeSnapshot Z dir m dest info) (\<lambda>x w'. x = info \<and> ?Q w') ?E"
    unfolding writeSnapshot_def
  proof (rule hoare_bind [OF hoare_weaken [OF hoare_createTempSuffix]], assumption, assumption)
    show "\<And>v. at_start w v \<Longrightarrow> ?E v" by (simp add: untouched_start)
    fix f :: handle
    show "hoare (\<lambda>v. f = (?t, ?i) \<and> ?P v) (io_defer
       (io_bind (io_onerr (fileChmod f 0x180) (fileClose f)) (\<lambda>_.
        io_bind (io_try (archiveEntries Z dir m)) (\<lambda>base.
        io_bind (closeWithError Z f base) (\<lambda>_.
        io_bind (osRename (fst f) dest) (\<lambda>_.
        io_bind (syncDir (butlast dest)) (\<lambda>_. io_ret info))))))
       (osRemove (fst f))) (\<lambda>x w'. x = info \<and> ?Q w') ?E"
      by (cases "f = (?t, ?i)") (use body in \<open>auto simp: hoare_def\<close>)
  qed
  note h = hoareD [OF this at_start_refl] hoareD_err [OF this at_start_refl]
  show "r = Inr x \<Longrightarrow> x = info" using h(1) run by simp
  show "snapshot_post Z dir m dest w r w'"
  proof (cases r)
    case (Inr x)
    then have "?Q w'" using h(1) run by simp
    then obtain es where es: "?K es" "placed_synced w ?t dest ?i (tar_gz Z es) w'" by blast
    have d: "durable w' dest (tar_gz Z es)" by (rule placed_synced_durable [OF es(2)])
    have k: "\<forall>q. q \<noteq> ?t \<longrightarrow> q \<noteq> dest \<longrightarrow> keeps q w w'" using es(2) by (simp add: placed_synced_def placed_def)
    show ?thesis unfolding snapshot_post_def Inr sum.case by (rule exI [of _ ?t]) (use tp d k es(1) in blast)
  next
    case (Inl e)
    then consider "untouched w ?t w'" | es where "?K es" "placed w ?t dest ?i (tar_gz Z es) w'" using h(2) run by blast
    then show ?thesis
    proof cases
      case 1
      then have "\<forall>q. q \<noteq> ?t \<longrightarrow> keeps q w w'" by (simp add: untouched_def)
      then show ?thesis unfolding snapshot_post_def Inl sum.case by (intro exI [of _ ?t]) (use tp nt in blast)
    next
      case 2
      have l: "new_live w dest (tar_gz Z es) w'" by (rule placed_new_live [OF 2(2)])
      have k: "\<forall>q. q \<noteq> ?t \<longrightarrow> q \<noteq> dest \<longrightarrow> keeps q w w'" using 2(2) by (simp add: placed_def)
      show ?thesis unfolding snapshot_post_def Inl sum.case by (rule exI [of _ ?t]) (use tp l k 2(1) in blast)
    qed
  qed
qed

subsection \<open>A whole snapshot\<close>

lemma prefix_tmp:
  assumes "\<not> prefix base (butlast dest)" "base \<noteq> []" "butlast t = butlast dest"
    "hasPrefix (last t) ''.jaybase-snapshot-''" "\<not> hasPrefix (last base) ''.jaybase-snapshot-''"
  shows "\<not> prefix base t"
proof
  assume p: "prefix base t"
  then have "t \<noteq> []" using assms(2) by auto
  then have t: "t = butlast dest @ [last t]" using assms(3) by (metis append_butlast_last_id)
  then show False using p assms(1,4,5) by (metis prefix_snoc last_snoc)
qed

lemma bases_not_tmp: "nodesBase dir \<noteq> []" "refsBase dir \<noteq> []"
    "\<not> hasPrefix (last (nodesBase dir)) ''.jaybase-snapshot-''" "\<not> hasPrefix (last (refsBase dir)) ''.jaybase-snapshot-''"
  by (simp_all add: nodesBase_def refsBase_def hasPrefix_def)

definition snapshot_ready :: "path \<Rightarrow> path \<Rightarrow> world \<Rightarrow> bool" where
  "snapshot_ready dir dest w \<longleftrightarrow> tree_ok w (nodesBase dir) \<and> tree_ok w (refsBase dir)
     \<and> \<not> prefix (nodesBase dir) (butlast dest) \<and> \<not> prefix (refsBase dir) (butlast dest)
     \<and> \<not> hasPrefix (last dest) ''.jaybase-snapshot-''"

lemma archived_temp:
  assumes r: "snapshot_ready dir dest w" and v: "in_temp w t i G v" "archived Z dir m v es"
    and t: "butlast t = butlast dest" "hasPrefix (last t) ''.jaybase-snapshot-''"
  shows "archive_of Z dir m w es"
proof -
  have n: "\<not> prefix (nodesBase dir) t" and f: "\<not> prefix (refsBase dir) t"
    using r prefix_tmp [OF _ bases_not_tmp(1) t bases_not_tmp(3)] prefix_tmp [OF _ bases_not_tmp(2) t bases_not_tmp(4)]
    unfolding snapshot_ready_def by blast+
  have k: "keeps q w v" if "q \<noteq> t" for q using v(1) that by (simp add: in_temp_def)
  have d: "dirs v = dirs w" using v(1) by (simp add: in_temp_def same_env_def)
  have same: "map_of (ents v) q = map_of (ents w) q \<and> fcontent v q = fcontent w q"
    if "prefix (nodesBase dir) q \<or> prefix (refsBase dir) q" for q
  proof -
    have "q \<noteq> t" using that n f by blast
    from k [OF this] show ?thesis by (simp add: keeps_def keeps_fcontent [OF k [OF \<open>q \<noteq> t\<close>]])
  qed
  have "tree_ok v (nodesBase dir)" "tree_ok v (refsBase dir)"
    using r same unfolding snapshot_ready_def by (auto intro!: tree_ok_cong [OF _ d])
  from archived_archive_of [OF v(2) this] show ?thesis by (rule archive_of_cong) (use same in blast)
qed

lemma tree_ok_mkdirAll:
  assumes t: "tree_ok w base" and m: "mkdirAll d w = (Inr u, w')" and p: "\<not> prefix base d"
  shows "tree_ok w' base"
proof -
  note v = mkdirAll_views [OF m]
  have sub: "set (dirs w) \<subseteq> set (dirs w')"
    using m by (auto simp: mkdirAll_def syscall_def Let_def fold_setDir simp del: upt_Suc split: list.splits option.splits if_splits)
  have new: "q \<in> set (dirs w)" if "q \<in> set (dirs w')" "prefix base q" for q
  proof (rule ccontr)
    assume "q \<notin> set (dirs w)"
    then have "q \<in> {take k d | k. True}" using v(5) that(1) by blast
    then obtain k where "q = take k d" by blast
    then show False using p that(2) by (metis prefix_order.trans take_is_prefix)
  qed
  show ?thesis
    using t sub new unfolding tree_ok_def v(1) by (auto simp: strict_prefix_def)
qed

lemma currentRoot_file: "currentRoot dir w = (Inr r, w') \<Longrightarrow> rootPath dir \<notin> set (dirs w)"
  by (auto simp: currentRoot_def io_iffs io_try_def readFile_def syscall_def split: list.splits option.splits if_splits)

lemma snapshot_eq:
  "snapshot L Z s destName dest created =
     io_bind (currentRoot (sdir s)) (\<lambda>root.
     io_bind (nodesFromRoot L (sdir s) root) (\<lambda>nodes.
     io_bind (mkdirAll (butlast dest)) (\<lambda>_.
     writeSnapshot Z (sdir s) (mkManifest root created (length nodes)) dest
       \<lparr>siPath = destName, siRoot = root, siCreatedAt = created, siNodes = length nodes\<rparr>)))"
  by (simp add: snapshot_def writeSnapshot_def)

text \<open>
  Every outcome leaves all files but the archive and the temporary file as they were. Success
  means the archive is on disk for certain; a failure leaves the old file there, or a complete
  archive.
\<close>

definition snapshot_outcome :: "snaplib \<Rightarrow> path \<Rightarrow> path \<Rightarrow> world \<Rightarrow> go_error + SnapshotInfo \<Rightarrow> world \<Rightarrow> bool" where
  "snapshot_outcome Z dir dest w r w' \<longleftrightarrow>
     (\<exists>t. butlast t = butlast dest \<and> hasPrefix (last t) ''.jaybase-snapshot-''
        \<and> (\<forall>q. q \<noteq> t \<longrightarrow> q \<noteq> dest \<longrightarrow> keeps q w w'))
     \<and> (case r of
          Inr info \<Rightarrow> \<exists>es. durable w' dest (tar_gz Z es)
            \<and> archive_of Z dir (mkManifest (siRoot info) (siCreatedAt info) (siNodes info)) w es
        | Inl _ \<Rightarrow> keeps dest w w' \<or> (\<exists>es m. new_live w dest (tar_gz Z es) w' \<and> archive_of Z dir m w es))"

lemma snapshot_result:
  assumes r: "snapshot_ready (sdir s) dest w" and run: "snapshot L Z s destName dest created w = (r, w')"
  shows "snapshot_outcome Z (sdir s) dest w r w'"
    and "r = Inr info \<Longrightarrow> siPath info = destName \<and> siCreatedAt info = created
      \<and> siRoot info = rootval (fcontent w (rootPath (sdir s))) \<and> rootPath (sdir s) \<notin> set (dirs w)
      \<and> (\<exists>ns. chain ns \<and> tip ns = siRoot info \<and> length ns = siNodes info \<and> (\<forall>n \<in> set ns. node_at L (sdir s) w (nHash n) n))"
proof -
  let ?dir = "sdir s"
  have quiet_case: "snapshot_outcome Z ?dir dest w (Inl e) w'" if "\<And>q. keeps q w w'" for e
    unfolding snapshot_outcome_def using that by (auto intro!: exI [of _ "butlast dest @ [''.jaybase-snapshot-'']"] simp: hasPrefix_def)
  obtain x w1 where x: "currentRoot ?dir w = (x, w1)" by (cases "currentRoot ?dir w")
  have s1: "at_start w w1" by (rule reads_run [OF reads_currentRoot x])
  have "snapshot_outcome Z ?dir dest w r w' \<and> (r = Inr info \<longrightarrow> siPath info = destName \<and> siCreatedAt info = created
      \<and> siRoot info = rootval (fcontent w (rootPath ?dir)) \<and> rootPath ?dir \<notin> set (dirs w)
      \<and> (\<exists>ns. chain ns \<and> tip ns = siRoot info \<and> length ns = siNodes info \<and> (\<forall>n \<in> set ns. node_at L ?dir w (nHash n) n)))"
  proof (cases x)
    case (Inl e)
    then have "r = Inl e" "w' = w1" using run x by (auto simp: snapshot_eq io_bind_def)
    then show ?thesis using quiet_case at_start_keeps [OF s1] by simp
  next
    case (Inr root)
    obtain y w2 where y: "nodesFromRoot L ?dir root w1 = (y, w2)" by (cases "nodesFromRoot L ?dir root w1")
    have s2: "at_start w w2" by (rule at_start_trans [OF s1 reads_run [OF reads_nodesFromRoot y]])
    show ?thesis
    proof (cases y)
      case (Inl e)
      then have "r = Inl e" "w' = w2" using run x y Inr by (auto simp: snapshot_eq io_bind_def)
      then show ?thesis using quiet_case at_start_keeps [OF s2] by simp
    next
      case ns: (Inr ns)
      obtain z w3 where z: "mkdirAll (butlast dest) w2 = (z, w3)" by (cases "mkdirAll (butlast dest) w2")
      have k3: "keeps q w w3" for q using keeps_trans [OF at_start_keeps [OF s2] mkdirAll_keeps [OF z]] .
      show ?thesis
      proof (cases z)
        case (Inl e)
        then have "r = Inl e" "w' = w3" using run x y z Inr ns by (auto simp: snapshot_eq io_bind_def)
        then show ?thesis using quiet_case k3 by simp
      next
        case mk: (Inr u)
        let ?m = "mkManifest root created (length ns)"
        let ?info = "\<lparr>siPath = destName, siRoot = root, siCreatedAt = created, siNodes = length ns\<rparr>"
        have wr: "writeSnapshot Z ?dir ?m dest ?info w3 = (r, w')"
          using run x y z Inr ns mk by (simp add: snapshot_eq io_bind_def)
        have tw: "tree_ok w2 (nodesBase ?dir)" "tree_ok w2 (refsBase ?dir)"
          using r at_start_views [OF s2] unfolding snapshot_ready_def by (auto intro: tree_ok_cong)
        have r3: "snapshot_ready ?dir dest w3"
          using r tree_ok_mkdirAll [OF tw(1) z [unfolded mk]] tree_ok_mkdirAll [OF tw(2) z [unfolded mk]]
          unfolding snapshot_ready_def by blast
        have nt: "\<not> hasPrefix (last dest) ''.jaybase-snapshot-''" using r by (simp add: snapshot_ready_def)
        have seen: "archive_of Z ?dir m w es" if "archive_of Z ?dir m w3 es" for m es
          by (rule archive_of_cong [OF that]) (use k3 keeps_fcontent in \<open>auto simp: keeps_def\<close>)
        obtain t where t: "butlast t = butlast dest" "hasPrefix (last t) ''.jaybase-snapshot-''"
            "\<forall>q. q \<noteq> t \<longrightarrow> q \<noteq> dest \<longrightarrow> keeps q w3 w'"
          "case r of Inr _ \<Rightarrow> \<exists>es v. durable w' dest (tar_gz Z es) \<and> in_temp w3 t (fresh_ino w3) (\<lambda>n. idata n = []) v \<and> archived Z ?dir ?m v es
            | Inl _ \<Rightarrow> keeps dest w3 w' \<or> (\<exists>es v. new_live w3 dest (tar_gz Z es) w' \<and> in_temp w3 t (fresh_ino w3) (\<lambda>n. idata n = []) v \<and> archived Z ?dir ?m v es)"
          using writeSnapshot_post(1) [OF nt wr] unfolding snapshot_post_def by blast
        note rc = t(4)
        have arc: "archive_of Z ?dir ?m w es" if "in_temp w3 t (fresh_ino w3) (\<lambda>n. idata n = []) v" "archived Z ?dir ?m v es" for v es
          by (rule seen, rule archived_temp [OF r3 that t(1,2)])
        have kq: "\<forall>q. q \<noteq> t \<longrightarrow> q \<noteq> dest \<longrightarrow> keeps q w w'" using t(3) k3 keeps_trans by blast
        have nl: "new_live w dest b w'" if "new_live w3 dest b w'" for b
          using that keeps_after_crash [OF k3] unfolding new_live_def by blast
        have root: "root = rootval (fcontent w (rootPath ?dir))" "rootPath ?dir \<notin> set (dirs w)"
          using currentRoot_Inr currentRoot_file x Inr by blast+
        have nodes: "chain ns \<and> tip ns = root \<and> (\<forall>n \<in> set ns. node_at L ?dir w (nHash n) n)"
        proof -
          note nfr = nodesFromRoot_Inr [OF y [unfolded ns]]
          have "node_at L ?dir w h n" if "node_at L ?dir w1 h n" for h n
            using that at_start_fcontent [OF s1] at_start_views(5) [OF s1] by (simp add: node_at_def)
          then show ?thesis using nfr by blast
        qed
        show ?thesis
        proof (cases r)
          case (Inl e)
          have "keeps dest w w' \<or> (\<exists>es m. new_live w dest (tar_gz Z es) w' \<and> archive_of Z ?dir m w es)"
            using rc unfolding Inl sum.case
          proof (elim disjE exE conjE)
            assume "keeps dest w3 w'"
            then show ?thesis using keeps_trans [OF k3] by blast
          next
            fix es v assume "new_live w3 dest (tar_gz Z es) w'" "in_temp w3 t (fresh_ino w3) (\<lambda>n. idata n = []) v"
              "archived Z ?dir ?m v es"
            then show ?thesis using nl arc by blast
          qed
          then show ?thesis unfolding snapshot_outcome_def Inl using t(1,2) kq by auto
        next
          case (Inr i)
          have i: "i = ?info" by (rule writeSnapshot_post(2) [OF nt wr Inr])
          obtain es where es: "durable w' dest (tar_gz Z es)" "archive_of Z ?dir ?m w es"
            using rc arc unfolding Inr by auto
          then show ?thesis unfolding snapshot_outcome_def Inr i using t(1,2) kq root nodes by auto
        qed
      qed
    qed
  qed
  then show "snapshot_outcome Z ?dir dest w r w'"
    and "r = Inr info \<Longrightarrow> siPath info = destName \<and> siCreatedAt info = created
      \<and> siRoot info = rootval (fcontent w (rootPath ?dir)) \<and> rootPath ?dir \<notin> set (dirs w)
      \<and> (\<exists>ns. chain ns \<and> tip ns = siRoot info \<and> length ns = siNodes info \<and> (\<forall>n \<in> set ns. node_at L ?dir w (nHash n) n))"
    by blast+
qed

subsection \<open>Restoring\<close>

text \<open>The archive unpacked into a directory that was empty.\<close>

definition entryPath :: "tarEntry \<Rightarrow> path" where
  "entryPath e = splitOn (CHR ''/'') (teName e)"

definition unpacked :: "tarEntry list \<Rightarrow> path \<Rightarrow> world \<Rightarrow> bool" where
  "unpacked es dir v \<longleftrightarrow> (\<forall>e \<in> set es. fcontent v (dir @ entryPath e) = Some (teData e))
     \<and> (\<forall>p. fcontent v (dir @ p) \<noteq> None \<longrightarrow> p \<in> entryPath ` set es)
     \<and> (\<forall>p. p \<noteq> [] \<longrightarrow> dir @ p \<in> set (dirs v) \<longrightarrow> (\<exists>e \<in> set es. strict_prefix p (entryPath e)))"

lemma splitOn_join:
  "cs \<noteq> [] \<Longrightarrow> list_all (\<lambda>d. CHR ''/'' \<notin> set d) cs \<Longrightarrow> splitOn (CHR ''/'') (joinSlash cs) = cs"
proof (induction cs rule: joinSlash.induct)
  case (2 c)
  then show ?case by (induction c) auto
next
  case (3 c d cs)
  have "splitOn (CHR ''/'') (joinSlash (d # cs)) = d # cs" using 3 by simp
  moreover have "splitOn (CHR ''/'') (c @ CHR ''/'' # r) = c # splitOn (CHR ''/'') r" if "CHR ''/'' \<notin> set c" for r
    using that by (induction c) auto
  ultimately show ?case using "3.prems" by simp
qed simp

lemma archive_paths:
  assumes a: "archive_of Z dir m w es" and t: "tree_ok w (nodesBase dir)" "tree_ok w (refsBase dir)"
    and q: "q \<in> dom (map_of (ents w))" "prefix (nodesBase dir) q \<or> prefix (refsBase dir) q"
  shows "\<exists>p. q = dir @ p \<and> p \<noteq> [] \<and> entryPath (fileEntry w dir q) = p"
proof -
  obtain p where p: "q = dir @ p" "p \<noteq> []" using q(2) by (auto simp: nodesBase_def refsBase_def prefix_def)
  have l: "list_all (\<lambda>c. CHR ''/'' \<notin> set c) p"
  proof (cases "prefix (nodesBase dir) q")
    case True
    then have "list_all (\<lambda>c. CHR ''/'' \<notin> set c) (drop (length (nodesBase dir)) q)" using t(1) q(1) by (simp add: tree_ok_def)
    then show ?thesis using True p by (auto simp: nodesBase_def prefix_def)
  next
    case False
    then have f: "prefix (refsBase dir) q" using q(2) by blast
    then have "list_all (\<lambda>c. CHR ''/'' \<notin> set c) (drop (length (refsBase dir)) q)" using t(2) q(1) by (simp add: tree_ok_def)
    then show ?thesis using f p by (auto simp: refsBase_def prefix_def)
  qed
  then show ?thesis using p by (simp add: entryPath_def fileEntry_def splitOn_join)
qed

lemma manifest_path: "entryPath (manifestEntry b) = [''manifest.json'']"
  by (simp add: entryPath_def manifestEntry_def)

text \<open>A file below the two directories is where it was, with the same contents; no other appears.\<close>

lemma unpacked_file:
  assumes a: "archive_of Z dir m w es" and t: "tree_ok w (nodesBase dir)" "tree_ok w (refsBase dir)"
    and u: "unpacked es dir2 v" and p: "prefix (nodesBase dir) (dir @ p) \<or> prefix (refsBase dir) (dir @ p)"
    and nd: "dir @ p \<notin> set (dirs w)"
  shows "fcontent v (dir2 @ p) = fcontent w (dir @ p)" "dir2 @ p \<notin> set (dirs v)"
proof -
  obtain b qs where es: "es = manifestEntry (b @ newline) # map (fileEntry w dir) qs"
    and qs: "set qs = {q \<in> dom (map_of (ents w)). prefix (nodesBase dir) q \<or> prefix (refsBase dir) q}"
    using a unfolding archive_of_def by blast
  have pth: "\<exists>r. q = dir @ r \<and> r \<noteq> [] \<and> entryPath (fileEntry w dir q) = r" if "q \<in> set qs" for q
    using archive_paths [OF a t, of q] that qs by blast
  have pn: "p \<noteq> []" "\<And>r. p \<noteq> [''manifest.json''] \<and> \<not> strict_prefix p [''manifest.json'']"
    using p by (auto simp: nodesBase_def refsBase_def strict_prefix_def prefix_def Cons_eq_append_conv)
  show "fcontent v (dir2 @ p) = fcontent w (dir @ p)"
  proof (cases "fcontent w (dir @ p)")
    case (Some c)
    then have q: "dir @ p \<in> set qs" using p qs by (auto simp: fcontent_def domIff)
    obtain r where "dir @ p = dir @ r" "entryPath (fileEntry w dir (dir @ p)) = r" using pth [OF q] by blast
    then have "entryPath (fileEntry w dir (dir @ p)) = p" by simp
    moreover have "fileEntry w dir (dir @ p) \<in> set es" using q es by auto
    ultimately have "fcontent v (dir2 @ p) = Some (teData (fileEntry w dir (dir @ p)))"
      using u unfolding unpacked_def by metis
    then show ?thesis using Some by (simp add: fileEntry_def)
  next
    case None
    have "p \<notin> entryPath ` set es"
    proof
      assume "p \<in> entryPath ` set es"
      then obtain q where q: "q \<in> set qs" "p = entryPath (fileEntry w dir q)"
        using es pn(2) manifest_path by auto
      then have "q = dir @ p" using pth [OF q(1)] by auto
      then show False using q(1) qs None by (auto simp: fcontent_def)
    qed
    then show ?thesis using u None unfolding unpacked_def by metis
  qed
  show "dir2 @ p \<notin> set (dirs v)"
  proof
    assume "dir2 @ p \<in> set (dirs v)"
    then obtain e where e: "e \<in> set es" "strict_prefix p (entryPath e)" using u pn(1) unfolding unpacked_def by blast
    then obtain q where q: "q \<in> set qs" "e = fileEntry w dir q" using es pn(2) manifest_path by auto
    obtain r where r: "q = dir @ r" "entryPath e = r" using pth [OF q(1)] q(2) by blast
    have sp: "strict_prefix (dir @ p) q" using e(2) r by (simp add: strict_prefix_def)
    have "dir @ p \<in> set (dirs w)"
      using p tree_ok_up [OF t(1) _ sp] tree_ok_up [OF t(2) _ sp] q(1) qs by blast
    then show False using nd by blast
  qed
qed

lemma restored_history:
  assumes a: "archive_of Z dir m w es" and r: "snapshot_ready dir dest w" and u: "unpacked es dir2 v"
    and f: "faults v = []" and c: "chain ns" "tip ns = rootval (fcontent w (rootPath dir))"
    and n: "\<forall>n \<in> set ns. node_at L dir w (nHash n) n" and nr: "rootPath dir \<notin> set (dirs w)"
  shows "currentRoot dir2 v = (Inr (tip ns), v)" "nodesFromRoot L dir2 (tip ns) v = (Inr ns, v)"
proof -
  have t: "tree_ok w (nodesBase dir)" "tree_ok w (refsBase dir)" using r by (auto simp: snapshot_ready_def)
  note uf = unpacked_file [OF a t u]
  have root: "fcontent v (rootPath dir2) = fcontent w (rootPath dir)" "rootPath dir2 \<notin> set (dirs v)"
    using uf [of "[''refs'', ''root'']"] nr by (auto simp: rootPath_def refsBase_def)
  show "currentRoot dir2 v = (Inr (tip ns), v)"
    using currentRoot_no_fault [OF f root(2)] root(1) c(2) by simp
  have "node_at L dir2 v (nHash x) x" if "x \<in> set ns" for x
  proof -
    have x: "node_at L dir w (nHash x) x" using n that by blast
    then have "NodePath dir (nHash x) \<notin> set (dirs w)" by (simp add: node_at_def)
    then have "fcontent v (NodePath dir2 (nHash x)) = fcontent w (NodePath dir (nHash x))"
        "NodePath dir2 (nHash x) \<notin> set (dirs v)"
      using uf [of "[''objects'', ''nodes'', trimPrefix (nHash x) sha_prefix @ ''.json'']"]
      by (auto simp: NodePath_def nodesBase_def)
    then show ?thesis using x by (simp add: node_at_def)
  qed
  then show "nodesFromRoot L dir2 (tip ns) v = (Inr ns, v)"
    using nodesFromRoot_no_fault [of ns L dir2 v] c(1) f by blast
qed

end
