(* ===== verification/Confined.thy ===== *)
theory Confined imports Migration SnapshotCorrect
begin

text \<open>
  Operations that stay inside one directory. A run of them leaves every other file as it is, live
  and after a crash, whatever call fails: they only give and take names below the directory, and
  only write to files that no name outside reaches.
\<close>

text \<open>\<open>I\<close> holds the inodes of files that were opened inside.\<close>

definition inside :: "path \<Rightarrow> world \<Rightarrow> nat set \<Rightarrow> world \<Rightarrow> bool" where
  "inside d w0 I w \<longleftrightarrow> (\<forall>q. \<not> within d q \<longrightarrow> keeps q w0 w \<and>
     (\<forall>i. Some i \<in> crash_ents w q \<longrightarrow> i \<notin> I \<and> (\<forall>p. within d p \<longrightarrow> Some i \<notin> crash_ents w p)))"

lemma inside_antimono: "inside d w0 J w \<Longrightarrow> I \<subseteq> J \<Longrightarrow> inside d w0 I w"
  unfolding inside_def by blast

lemma insideI:
  assumes i: "inside d w0 I w" and J: "I \<subseteq> J"
    and out: "\<And>q. \<not> within d q \<Longrightarrow> map_of (ents w') q = map_of (ents w) q \<and> crash_ents w' q \<subseteq> crash_ents w q"
    and new: "\<And>p j. within d p \<Longrightarrow> Some j \<in> crash_ents w' p \<Longrightarrow> j \<in> J \<or> (\<exists>p'. within d p' \<and> Some j \<in> crash_ents w p')"
    and own: "\<And>j q. j \<in> J \<Longrightarrow> j \<notin> I \<Longrightarrow> \<not> within d q \<Longrightarrow> Some j \<notin> crash_ents w q"
    and data: "\<And>j. inodes w' j \<noteq> inodes w j \<Longrightarrow> j \<in> J \<or> (\<exists>p. within d p \<and> Some j \<in> crash_ents w p)"
  shows "inside d w0 J w'"
  unfolding inside_def
proof (intro allI impI conjI)
  fix q assume q: "\<not> within d q"
  have c: "Some j \<in> crash_ents w q" if "Some j \<in> crash_ents w' q" for j using out [OF q] that by blast
  have f: "j \<notin> J" "within d p \<Longrightarrow> Some j \<notin> crash_ents w p" if "Some j \<in> crash_ents w' q" for j p
    using i q c [OF that] own [of j q] unfolding inside_def by blast+
  have "inodes w' j = inodes w j" if "Some j \<in> crash_ents w' q" for j
    using data [of j] f [OF that] by blast
  then have "keeps q w w'" using out [OF q] by (simp add: keeps_def)
  then show "keeps q w0 w'" using i q keeps_trans unfolding inside_def by blast
  show "j \<notin> J" if "Some j \<in> crash_ents w' q" for j using f [OF that] by blast
  show "Some j \<notin> crash_ents w' p" if "Some j \<in> crash_ents w' q" "within d p" for j p
    using new [OF that(2), of j] f [OF that(1)] by blast
qed

lemma inside_same:
  assumes "inside d w0 I w" "ents w' = ents w" "dents w' = dents w" "dlog w' = dlog w" "inodes w' = inodes w"
  shows "inside d w0 I w'"
proof -
  have "crash_ents w' = crash_ents w" using assms(2-4) by (simp add: crash_ents_def fun_eq_iff)
  then show ?thesis using assms(2,5) by (intro insideI [OF assms(1) order_refl]) auto
qed

lemma inside_faults [simp]: "inside d w0 I (w\<lparr>faults := fs\<rparr>) = inside d w0 I w"
  by (simp add: inside_def)

definition confined :: "path \<Rightarrow> nat set \<Rightarrow> 'a io \<Rightarrow> bool" where
  "confined d I m \<longleftrightarrow> (\<forall>w0. hoare (inside d w0 I) m (\<lambda>_. inside d w0 I) (inside d w0 I))"

named_theorems confined_intros \<open>operations that stay inside a directory\<close>

lemma confinedI: "(\<And>w0 w r w'. inside d w0 I w \<Longrightarrow> m w = (r, w') \<Longrightarrow> inside d w0 I w') \<Longrightarrow> confined d I m"
  unfolding confined_def by (intro allI hoareI)

lemma confinedD: "confined d I m \<Longrightarrow> inside d w0 I w \<Longrightarrow> m w = (r, w') \<Longrightarrow> inside d w0 I w'"
  unfolding confined_def hoare_def by (cases r) fastforce+

lemma confined_syscall:
  assumes "\<And>w0 w r w'. inside d w0 I w \<Longrightarrow> m w = (r, w') \<Longrightarrow> inside d w0 I w'"
  shows "confined d I (syscall m)"
proof (rule confinedI)
  fix w0 w r w' assume i: "inside d w0 I w" and run: "syscall m w = (r, w')"
  have f: "inside d w0 I (w\<lparr>faults := fs\<rparr>)" for fs using i by simp
  have s: "m (w\<lparr>faults := fs\<rparr>) = (r, w') \<Longrightarrow> inside d w0 I w'" for fs using assms [OF f] .
  show "inside d w0 I w'"
    using run assms [OF i] s f by (auto simp: syscall_def split: list.splits option.splits)
qed

lemma confined_basic [confined_intros]: "confined d I (io_ret x)" "confined d I (io_fail e)" "confined d I (io_lift r)"
  by (auto intro!: confinedI)

lemma confined_bind [confined_intros]:
  assumes "confined d I m" "\<And>x. confined d I (f x)" shows "confined d I (io_bind m f)"
  using assms unfolding confined_def by (blast intro: hoare_bind)

lemma confined_try [confined_intros]: "confined d I m \<Longrightarrow> confined d I (io_try m)"
  by (rule confinedI) (auto simp: io_try_def split: prod.splits dest: confinedD)

lemma confined_onerr [confined_intros]: "confined d I m \<Longrightarrow> confined d I u \<Longrightarrow> confined d I (io_onerr m u)"
  unfolding confined_def by (blast intro: hoare_onerr)

lemma confined_defer [confined_intros]: "confined d I m \<Longrightarrow> confined d I u \<Longrightarrow> confined d I (io_defer m u)"
  unfolding confined_def by (blast intro: hoare_defer)

lemma confined_reads:
  assumes m: "reads m" shows "confined d I m"
proof (rule confinedI)
  fix w0 w r w' assume i: "inside d w0 I w" and run: "m w = (r, w')"
  show "inside d w0 I w'" using inside_same [OF i at_start_views(1-4) [OF reads_run [OF m run]]] .
qed

lemma confined_quiet: "(\<And>w r w'. m w = (r, w') \<Longrightarrow> quiet w w') \<Longrightarrow> confined d I m"
  by (rule confinedI) (auto simp: quiet_def intro: inside_same)

lemma confined_set_inode:
  assumes "inside d w0 I w" "i \<in> I \<or> (\<exists>p. within d p \<and> Some i \<in> crash_ents w p)"
  shows "inside d w0 I (set_inode i f w)"
  by (rule insideI [OF assms(1) order_refl]) (use assms(2) in \<open>auto simp: set_inode_def crash_ents_def split: if_splits\<close>)

lemma confined_handles [confined_intros]:
  assumes "snd f \<in> I"
  shows "confined d I (fileChmod f m)" "confined d I (fileWrite f b)" "confined d I (fileSync f)"
    "confined d I (fileClose f)" "confined d I (fileTruncate f)"
proof -
  show "confined d I (fileChmod f m)" "confined d I (fileSync f)" "confined d I (fileClose f)" "confined d I (fileTruncate f)"
    unfolding fileChmod_def fileSync_def fileClose_def fileTruncate_def
    by (rule confined_syscall; use assms in \<open>auto intro: confined_set_inode\<close>)+
  show "confined d I (fileWrite f b)"
    by (rule confinedI)
      (use assms in \<open>auto simp: fileWrite_def intro!: confined_set_inode split: list.splits option.splits\<close>)
qed

lemma confined_names [confined_intros]:
  "within d p \<Longrightarrow> confined d I (osRemove p)"
  "within d t \<Longrightarrow> within d p \<Longrightarrow> confined d I (osRename t p)"
  "within d t \<Longrightarrow> within d p \<Longrightarrow> confined d I (osLink t p)"
  "within d e \<Longrightarrow> confined d I (fsyncDir e)"
  "within d p \<Longrightarrow> confined d I (chmodPath p m)"
proof -
  show "confined d I (osRemove p)" if "within d p"
    unfolding osRemove_def
  proof (rule confined_syscall)
    fix w0 w r w' assume i: "inside d w0 I w"
      and run: "(case map_of (ents w) p of None \<Rightarrow> (Inl (OsError ENOENT), w)
        | Some i \<Rightarrow> (Inr (), w\<lparr>ents := AList.delete p (ents w), dlog := (p, None) # dlog w\<rparr>)) = (r, w')"
    show "inside d w0 I w'"
    proof (cases "map_of (ents w) p")
      case None
      then show ?thesis using i run by simp
    next
      case (Some k)
      then have w': "w' = w\<lparr>ents := AList.delete p (ents w), dlog := (p, None) # dlog w\<rparr>" using run by simp
      show ?thesis
        by (rule insideI [OF i order_refl]) (use that in \<open>auto simp: w' crash_ents_def split: if_splits\<close>)
    qed
  qed
  show "confined d I (osRename t p)" if "within d t" "within d p"
    unfolding osRename_def
  proof (rule confined_syscall)
    fix w0 w r w' assume i: "inside d w0 I w"
      and run: "(case map_of (ents w) t of None \<Rightarrow> (Inl (OsError ENOENT), w)
        | Some i \<Rightarrow> if p \<in> set (dirs w) then (Inl (OsError EEXIST), w)
          else if butlast p \<notin> set (dirs w) then (Inl (OsError ENOENT), w)
          else (Inr (), w\<lparr>ents := AList.update p i (AList.delete t (ents w)),
                 dlog := (p, Some i) # (t, None) # dlog w\<rparr>)) = (r, w')"
    show "inside d w0 I w'"
    proof (cases "w' = w")
      case False
      then obtain k where k: "map_of (ents w) t = Some k"
        "w' = w\<lparr>ents := AList.update p k (AList.delete t (ents w)), dlog := (p, Some k) # (t, None) # dlog w\<rparr>"
        using run by (auto split: option.splits if_splits)
      have "Some k \<in> crash_ents w t" using k(1) by (simp add: crash_ents_def)
      then show ?thesis
        by (intro insideI [OF i order_refl]) (use that k in \<open>auto simp: crash_ents_def update_conv' split: if_splits\<close>)
    qed (use i in simp)
  qed
  show "confined d I (osLink t p)" if "within d t" "within d p"
    unfolding osLink_def
  proof (rule confined_syscall)
    fix w0 w r w' assume i: "inside d w0 I w"
      and run: "(case map_of (ents w) t of None \<Rightarrow> (Inl (OsError ENOENT), w)
        | Some i \<Rightarrow> if p \<in> set (dirs w) \<or> map_of (ents w) p \<noteq> None then (Inl (OsError EEXIST), w)
          else if butlast p \<notin> set (dirs w) then (Inl (OsError ENOENT), w)
          else (Inr (), w\<lparr>ents := AList.update p i (ents w), dlog := (p, Some i) # dlog w\<rparr>)) = (r, w')"
    show "inside d w0 I w'"
    proof (cases "w' = w")
      case False
      then obtain k where k: "map_of (ents w) t = Some k"
        "w' = w\<lparr>ents := AList.update p k (ents w), dlog := (p, Some k) # dlog w\<rparr>"
        using run by (auto split: option.splits if_splits)
      have "Some k \<in> crash_ents w t" using k(1) by (simp add: crash_ents_def)
      then show ?thesis
        by (intro insideI [OF i order_refl]) (use that k in \<open>auto simp: crash_ents_def update_conv' split: if_splits\<close>)
    qed (use i in simp)
  qed
  show "confined d I (fsyncDir e)" if "within d e"
    unfolding fsyncDir_def
  proof (rule confined_syscall)
    fix w0 w r w' assume i: "inside d w0 I w" and run: "(Inr (), w\<lparr>
       dents := filter (\<lambda>(p, i). in_dir e p) (ents w) @ filter (\<lambda>(p, i). \<not> in_dir e p) (dents w),
       dlog := filter (\<lambda>(p, v). \<not> in_dir e p) (dlog w)\<rparr>) = (r, w')"
    have c: "crash_ents w' q = (if in_dir e q then {map_of (ents w) q} else crash_ents w q)" for q
      using run by (auto simp: crash_ents_fsync)
    have m: "map_of (ents w) q \<in> crash_ents w q" for q by (simp add: crash_ents_def)
    show "inside d w0 I w'"
      by (rule insideI [OF i order_refl]) (use c m run in \<open>auto split: if_splits\<close>)
  qed
  show "confined d I (chmodPath p m)" if "within d p"
    unfolding chmodPath_def
  proof (rule confined_syscall)
    fix w0 w r w' assume i: "inside d w0 I w"
      and run: "(case map_of (ents w) p of None \<Rightarrow> (Inl (OsError ENOENT), w)
       | Some i \<Rightarrow> (Inr (), w\<lparr>inodes := (inodes w)(i := (inodes w i)\<lparr>imode := m\<rparr>)\<rparr>)) = (r, w')"
    show "inside d w0 I w'"
    proof (cases "map_of (ents w) p")
      case (Some k)
      then have "w' = set_inode k (imode_update (\<lambda>_. m)) w" using run by (simp add: set_inode_def)
      moreover have "Some k \<in> crash_ents w p" using Some by (simp add: crash_ents_def)
      ultimately show ?thesis using confined_set_inode [OF i] that by blast
    qed (use i run in simp)
  qed
qed


lemma within_append [simp]: "within d (d @ p)"
  by (simp add: within_def)

lemma within_trans: "within a b \<Longrightarrow> within b c \<Longrightarrow> within a c"
  unfolding within_def by (metis append_take_drop_id append_eq_conv_conj append.assoc)

lemma inside_new:
  assumes i: "inside d w0 I w" and p: "within d p" and k: "k = fresh_ino w"
    and w': "ents w' = AList.update p k (ents w)" "dents w' = dents w" "dlog w' = (p, Some k) # dlog w"
      "inodes w' = (inodes w)(k := x)"
  shows "inside d w0 (insert k I) w'"
proof (rule insideI [OF i subset_insertI])
  show "map_of (ents w') q = map_of (ents w) q \<and> crash_ents w' q \<subseteq> crash_ents w q" if "\<not> within d q" for q
    using that p by (auto simp: w' crash_ents_def update_conv')
  show "j \<in> insert k I \<or> (\<exists>p'. within d p' \<and> Some j \<in> crash_ents w p')" if "within d q" "Some j \<in> crash_ents w' q" for q j
    using that by (auto simp: w' crash_ents_def update_conv' split: if_splits)
  show "Some j \<notin> crash_ents w q" if "j \<in> insert k I" "j \<notin> I" for j q
    using that fresh_ino_unused [of w q] k by auto
  show "j \<in> insert k I \<or> (\<exists>p. within d p \<and> Some j \<in> crash_ents w p)" if "inodes w' j \<noteq> inodes w j" for j
    using that by (auto simp: w' split: if_splits)
qed

lemma confined_after:
  assumes m: "\<And>w0 w r w'. inside d w0 I w \<Longrightarrow> m w = (r, w') \<Longrightarrow>
      case r of Inl e \<Rightarrow> inside d w0 I w' | Inr x \<Rightarrow> inside d w0 (insert (ino x) I) w' \<and> P x"
    and g: "\<And>x. P x \<Longrightarrow> confined d (insert (ino x) I) (g x)"
  shows "confined d I (io_bind m g)"
proof (rule confinedI)
  fix w0 w r w' assume i: "inside d w0 I w" and run: "io_bind m g w = (r, w')"
  obtain x w1 where x: "m w = (x, w1)" by (cases "m w")
  show "inside d w0 I w'"
  proof (cases x)
    case (Inl e)
    then show ?thesis using m [OF i x] run x by (simp add: io_bind_def)
  next
    case (Inr y)
    then have y: "inside d w0 (insert (ino y) I) w1" "P y" using m [OF i x] by simp_all
    have "g y w1 = (r, w')" using run x Inr by (simp add: io_bind_def)
    then have "inside d w0 (insert (ino y) I) w'" by (rule confinedD [OF g [OF y(2)] y(1)])
    then show ?thesis by (rule inside_antimono) blast
  qed
qed

lemma createNamed_inside:
  assumes nm: "\<And>w. within d (nm w)" and i: "inside d w0 I w" and run: "createNamed e nm w = (r, w')"
  shows "case r of Inl x \<Rightarrow> inside d w0 I w' | Inr f \<Rightarrow> inside d w0 (insert (snd f) I) w' \<and> within d (fst f)"
proof -
  have f: "inside d w0 I (w\<lparr>faults := fs\<rparr>)" for fs using i by simp
  have c: "case r of Inl x \<Rightarrow> inside d w0 I w' | Inr f \<Rightarrow> inside d w0 (insert (snd f) I) w' \<and> within d (fst f)"
    if v: "inside d w0 I v" and r: "(if e \<notin> set (dirs v) then (Inl (OsError ENOENT), v)
     else let p = nm v; i = fresh_ino v in
       (Inr (p, i), v\<lparr>ents := AList.update p i (ents v), dlog := (p, Some i) # dlog v,
          inodes := (inodes v)(i := \<lparr>idata = [], isynced = False, imode = 0x180\<rparr>)\<rparr>)) = (r, w')" for v
  proof (cases "e \<in> set (dirs v)")
    case False
    then show ?thesis using v r by auto
  next
    case True
    have w': "ents w' = AList.update (nm v) (fresh_ino v) (ents v)" "dents w' = dents v"
        "dlog w' = (nm v, Some (fresh_ino v)) # dlog v"
        "inodes w' = (inodes v)(fresh_ino v := \<lparr>idata = [], isynced = False, imode = 0x180\<rparr>)" "r = Inr (nm v, fresh_ino v)"
      using True r by (auto simp: Let_def)
    show ?thesis using inside_new [OF v nm refl w'(1-4)] w'(5) nm by simp
  qed
  show ?thesis
    using run i c [OF i] c [OF f] unfolding createNamed_def
    by (auto simp: syscall_def split: list.splits option.splits)
qed

lemma confined_createNamed [confined_intros]:
  assumes "\<And>w. within d (nm w)" "\<And>f. within d (fst f) \<Longrightarrow> confined d (insert (snd f) I) (g f)"
  shows "confined d I (io_bind (createNamed e nm) g)"
  by (rule confined_after [where P = "\<lambda>f. within d (fst f)" and ino = snd])
    (use createNamed_inside [OF assms(1)] assms(2) in auto)


lemma confined_createTemp [confined_intros]:
  assumes "within d e" "\<And>f. within d (fst f) \<Longrightarrow> confined d (insert (snd f) I) (g f)"
  shows "confined d I (io_bind (createTemp e pre) g)"
  unfolding createTemp_def
  by (rule confined_createNamed) (use assms within_trans in \<open>auto simp: tmp_path_def\<close>)

lemma confined_mkdir [confined_intros]: "confined d I (mkdirAll p)" "confined d I (chmodDir p)" "confined d I (osMkdir p)"
proof -
  show "confined d I (mkdirAll p)"
    by (rule confinedI) (metis mkdirAll_views(1-4) inside_same)
  show "confined d I (chmodDir p)" unfolding chmodDir_def by (rule confined_syscall) (auto split: if_splits)
  show "confined d I (osMkdir p)" unfolding osMkdir_def
    by (rule confined_syscall) (auto simp: setDir_def split: if_splits intro: inside_same)
qed

lemma confined_removeDir [confined_intros]: "confined d I (removeDir p)"
  unfolding removeDir_def by (rule confined_syscall) (auto split: if_splits intro: inside_same)

lemma confined_dirs [confined_intros]: "confined d I (openDir e)" "confined d I (closeDir e)"
  unfolding openDir_def closeDir_def by (rule confined_syscall; auto split: if_splits)+

lemma confined_files [confined_intros]:
  assumes "within d (butlast p)" "within d p"
  shows "confined d I (replaceFile pre p b m)" "confined d I (atomicWriteFile p b m)" "confined d I (atomicCreateFile p b m)"
  unfolding atomicWriteFile_def replaceFile_def atomicCreateFile_def fillTemp_def syncDir_def
  by (intro confined_intros; use assms in simp)+

lemma openLockFile_inside:
  assumes p: "within d p" and i: "inside d w0 I w" and run: "openLockFile p w = (r, w')"
  shows "case r of Inl x \<Rightarrow> inside d w0 I w' | Inr y \<Rightarrow> inside d w0 (insert (snd (fst y)) I) w' \<and> fst (fst y) = p"
proof -
  have f: "inside d w0 I (w\<lparr>faults := fs\<rparr>)" for fs using i by simp
  have c: "case r of Inl x \<Rightarrow> inside d w0 I w' | Inr y \<Rightarrow> inside d w0 (insert (snd (fst y)) I) w' \<and> fst (fst y) = p"
    if v: "inside d w0 I v" and r: "(if p \<in> set (dirs v) then (Inl (OsError EISDIR), v)
     else if butlast p \<notin> set (dirs v) then (Inl (OsError ENOENT), v)
     else case map_of (ents v) p of
         Some i \<Rightarrow> (Inr ((p, i), next_fd v), v\<lparr>next_fd := Suc (next_fd v)\<rparr>)
       | None \<Rightarrow> let i = fresh_ino v in
           (Inr ((p, i), next_fd v), v\<lparr>ents := AList.update p i (ents v),
              dlog := (p, Some i) # dlog v,
              inodes := (inodes v)(i := \<lparr>idata = [], isynced = False, imode = 0x180\<rparr>),
              next_fd := Suc (next_fd v)\<rparr>)) = (r, w')" for v
  proof (cases "p \<in> set (dirs v) \<or> butlast p \<notin> set (dirs v)")
    case True
    then have "w' = v" "\<exists>e. r = Inl e" using r by (auto split: if_splits)
    then show ?thesis using v by auto
  next
    case False
    show ?thesis
    proof (cases "map_of (ents v) p")
      case (Some k)
      then have w': "r = Inr ((p, k), next_fd v)" "w' = v\<lparr>next_fd := Suc (next_fd v)\<rparr>" using False r by auto
      have k: "Some k \<in> crash_ents v p" using Some by (simp add: crash_ents_def)
      have "crash_ents w' = crash_ents v" by (simp add: w' crash_ents_def fun_eq_iff)
      then have "inside d w0 (insert k I) w'"
        by (intro insideI [OF v subset_insertI]) (use v k p in \<open>auto simp: w'(2) inside_def\<close>)
      then show ?thesis using w' by simp
    next
      case None
      then have w': "ents w' = AList.update p (fresh_ino v) (ents v)" "dents w' = dents v"
        "dlog w' = (p, Some (fresh_ino v)) # dlog v"
        "inodes w' = (inodes v)(fresh_ino v := \<lparr>idata = [], isynced = False, imode = 0x180\<rparr>)" "r = Inr ((p, fresh_ino v), next_fd v)"
        using False r by (auto simp: Let_def)
      show ?thesis using inside_new [OF v p refl w'(1-4)] w'(5) by simp
    qed
  qed
  show ?thesis
    using run i c [OF i] c [OF f] unfolding openLockFile_def
    by (auto simp: syscall_def split: list.splits option.splits)
qed

lemma confined_flock [confined_intros]:
  "confined d I (flockEx p fd)" "confined d I (flockUn p fd)" "confined d I (closeFd p fd)"
  unfolding flockEx_def flockUn_def closeFd_def release_def
  by (rule confined_syscall; auto split: option.splits if_splits intro: inside_same)+

lemma confined_lock [confined_intros]:
  "within d e \<Longrightarrow> confined d I (acquireStoreLock pid e)" "confined d I (closeStoreLock l)" "confined d I (CloseStore s)" "confined d I (closing s)"
proof -
  show l: "confined d I (closeStoreLock l)" for l
    unfolding closeStoreLock_def by (auto intro!: confined_intros split: option.split prod.split)
  show c: "confined d I (CloseStore s)"
    unfolding CloseStore_def by (auto intro!: confined_intros l split: option.split prod.split)
  show "confined d I (closing s)"
    unfolding closing_def by (auto intro!: confined_intros c split: prod.split)
  show "confined d I (acquireStoreLock pid e)" if "within d e"
    unfolding acquireStoreLock_def
  proof (rule confined_after [where P = "\<lambda>y. fst (fst y) = lockPath e" and ino = "\<lambda>y. snd (fst y)"])
    have "within d (lockPath e)" unfolding lockPath_def by (rule within_trans [OF that within_append])
    then show "case r of Inl x \<Rightarrow> inside d w0 I w' | Inr y \<Rightarrow> inside d w0 (insert (snd (fst y)) I) w' \<and> fst (fst y) = lockPath e"
      if "inside d w0 I w" "openLockFile (lockPath e) w = (r, w')" for w0 w r w'
      using openLockFile_inside that by blast
    show "confined d (insert (snd (fst x)) I) (io_bind (io_try (flockEx (lockPath e) (snd x))) (\<lambda>r. case r of
         Inl err \<Rightarrow> io_defer (io_fail (if err = OsError EWOULDBLOCK then lock_conflict else err)) (closeFd (lockPath e) (snd x))
       | Inr _ \<Rightarrow>
           io_bind (io_onerr (fileTruncate (fst x)) (closeFd (lockPath e) (snd x))) (\<lambda>_.
           io_bind (io_onerr (fileWrite (fst x) (pid @ [CHR 0x0A])) (closeFd (lockPath e) (snd x))) (\<lambda>_.
           io_bind (io_onerr (fileSync (fst x)) (closeFd (lockPath e) (snd x))) (\<lambda>_.
           io_ret \<lparr>lfile = Some x\<rparr>)))))" for x
    proof (rule confined_bind)
      show "confined d (insert (snd (fst x)) I) (io_try (flockEx (lockPath e) (snd x)))" by (intro confined_intros)
      fix rr :: "go_error + unit"
      have "confined d (insert (snd (fst x)) I) (io_bind (io_onerr (fileTruncate (fst x)) (closeFd (lockPath e) (snd x))) (\<lambda>_.
           io_bind (io_onerr (fileWrite (fst x) (pid @ [CHR 0x0A])) (closeFd (lockPath e) (snd x))) (\<lambda>_.
           io_bind (io_onerr (fileSync (fst x)) (closeFd (lockPath e) (snd x))) (\<lambda>_.
           io_ret \<lparr>lfile = Some x\<rparr>))))"
        by (intro confined_intros) simp_all
      moreover have "confined d (insert (snd (fst x)) I) (io_defer (io_fail er) (closeFd (lockPath e) (snd x)))" for er
        by (intro confined_intros)
      ultimately show "confined d (insert (snd (fst x)) I) (case rr of
         Inl err \<Rightarrow> io_defer (io_fail (if err = OsError EWOULDBLOCK then lock_conflict else err)) (closeFd (lockPath e) (snd x))
       | Inr _ \<Rightarrow>
           io_bind (io_onerr (fileTruncate (fst x)) (closeFd (lockPath e) (snd x))) (\<lambda>_.
           io_bind (io_onerr (fileWrite (fst x) (pid @ [CHR 0x0A])) (closeFd (lockPath e) (snd x))) (\<lambda>_.
           io_bind (io_onerr (fileSync (fst x)) (closeFd (lockPath e) (snd x))) (\<lambda>_.
           io_ret \<lparr>lfile = Some x\<rparr>))))" by (cases rr) (simp_all only: sum.case)
    qed
  qed
qed

lemma confined_read_calls [confined_intros]:
  "confined d I (statFile p)" "confined d I (readFile p)" "confined d I (readNode L e h)" "confined d I (currentRoot e)"
  "confined d I (readDir p)" "confined d I (rebuildIndexes L s)" "confined d I (checkHead L s)"
  by (rule confined_reads, rule io_reads reads_tree_calls reads_rebuildIndexes reads_checkHead)+

lemma confined_branch [confined_intros]:
  "confined d I a \<Longrightarrow> confined d I b \<Longrightarrow> confined d I (if c then a else b)"
  by simp

lemma confined_open [confined_intros]:
  assumes "within d e" "e \<noteq> []" shows "confined d I (OpenStoreWithDataKey L pid e key)"
proof -
  have "confined d I (openLocked L e (explicitKey key) lock)" for lock
    unfolding openLocked_def explicitKey_def
    by (intro confined_intros)
  then show ?thesis
    unfolding OpenStoreWithDataKey_def openStore_def makeDirs_def Let_def using assms
    by (auto intro!: confined_intros)
qed

lemma confined_append [confined_intros]:
  assumes "within d (sdir s)" shows "confined d I (AppendAt L s ctx opts er)"
proof -
  have u: "within d (sdir s @ p)" for p by (rule within_trans [OF assms within_append])
  have "confined d I (publishNode L s n)" for n
    unfolding publishNode_def
    by (auto intro!: confined_intros split: sum.split option.split simp: NodePath_def u butlast_append)
  moreover have "confined d I (prepareNode L s ctx opts r)" for r by (rule confined_quiet) (rule prepareNode_quiet)
  ultimately show ?thesis unfolding AppendAt_def append_def
    by (intro confined_intros) (auto simp: rootPath_def u butlast_append)
qed

lemma confined_ref [confined_intros]:
  assumes "within d (sdir s)" shows "confined d I (WriteNamedRefAt L s name root er)"
proof -
  have u: "within d (sdir s @ p)" for p by (rule within_trans [OF assms within_append])
  have "within d (namedPath (sdir s) n)" "within d (butlast (namedPath (sdir s) n))" for n
    using u [of "[''refs'', ''named'']"] u [of "[''refs'', ''named'', n]"] u [of "[''refs'']"]
    by (simp_all add: namedPath_def butlast_append)
  then show ?thesis unfolding WriteNamedRefAt_def writeNamedRef_def Let_def
    by (auto intro!: confined_intros split: sum.split)
qed

lemma confined_removeAll [confined_intros]: "confined d I (osRemoveAll d)"
proof -
  have t: "confined d I (tryEach ms)" if "list_all (confined d I) ms" for ms
    using that
  proof (induction ms)
    case (Cons m ms)
    then show ?case
      by (auto intro!: confinedI split: prod.splits sum.splits dest: confinedD) (metis confinedD prod.collapse)+
  qed (simp add: confined_basic)
  show ?thesis
    unfolding osRemoveAll_def
  proof (rule confinedI)
    fix w0 w r w' assume i: "inside d w0 I w" and run: "tryEach (map osRemove (filter (within d) (map fst (ents w)))
      @ map removeDir (rev (sort_key length (filter (within d) (dirs w))))) w = (r, w')"
    show "inside d w0 I w'"
      by (rule confinedD [OF t i run]) (auto simp: list_all_iff intro: confined_intros)
  qed
qed


subsection \<open>The migration\<close>

lemma append_dir: "AppendAt L t ctx opts er w = (Inr (h, t'), w') \<Longrightarrow> sdir t' = sdir t \<and> skey t' = skey t \<and> slock t' = slock t"
  by (auto simp: AppendAt_def append_def io_iffs recordNode_def Let_def)

lemma migrateNodes_inside:
  "inside d w0 I w \<Longrightarrow> within d (sdir t) \<Longrightarrow> migrateNodes L s hs t m r w = ((res, t'), w') \<Longrightarrow>
   inside d w0 I w' \<and> sdir t' = sdir t"
proof (induction hs arbitrary: t m r w)
  case (Cons h hs)
  let ?m = "io_bind (readNode L (sdir s) h) (\<lambda>node. io_bind (io_lift (nodePayload L (skey s) node)) (\<lambda>payload.
      AppendAt L t (copyContext node) (copyOptions node payload) r))"
  have c: "confined d I ?m" using Cons.prems(2) by (intro confined_intros)
  obtain x w1 where x: "?m w = (x, w1)" by (cases "?m w")
  have i1: "inside d w0 I w1" using confinedD [OF c Cons.prems(1) x] .
  show ?case
  proof (cases x)
    case (Inl e)
    then show ?thesis using Cons.prems x i1 by simp
  next
    case (Inr y)
    obtain h' u where y: "y = (h', u)" by (cases y)
    have "sdir u = sdir t" using x Inr y append_dir by (fastforce simp: io_iffs)
    then show ?thesis using Cons.IH [OF i1, of u] Cons.prems x Inr y by simp
  qed
qed simp

lemma confined_migrateRefs [confined_intros]: "within d (sdir t) \<Longrightarrow> confined d I (migrateRefs L s t m es)"
proof (induction es)
  case (Cons e es)
  obtain n b where e: "e = (n, b)" by (cases e)
  show ?case unfolding e migrateRefs.simps
  proof (intro confined_intros)
    show "confined d I (case m (trimSpace raw) of
          None \<Rightarrow> io_fail (appErr ErrIntegrity ''named ref %q points outside the current history'' [n])
        | Some mapped \<Rightarrow> io_bind (WriteNamedRefAt L t n mapped []) (\<lambda>_.
            io_bind (migrateRefs L s t m es) (\<lambda>n. io_ret (Suc n))))" for raw
      using Cons by (cases "m (trimSpace raw)") (auto intro!: confined_intros)
  qed
qed (simp add: confined_intros)

lemma copyStore_inside:
  assumes "inside d w0 I w" "within d (sdir t)" "copyStore L s sr t w = ((res, t'), w')"
  shows "inside d w0 I w' \<and> sdir t' = sdir t"
proof -
  obtain r1 t1 w1 where n: "migrateNodes L s (history s) t Map.empty [] w = ((r1, t1), w1)" by (metis prod.collapse)
  note i1 = migrateNodes_inside [OF assms(1,2) n]
  show ?thesis
  proof (cases r1)
    case (Inl e)
    then show ?thesis using assms(3) n i1 by (simp add: copyStore_def)
  next
    case (Inr y)
    let ?m = "io_bind (readDir (sdir s @ [''refs'', ''named''])) (migrateRefs L s t1 (fst y))"
    obtain r2 w2 where x: "?m w1 = (r2, w2)" by (cases "?m w1")
    have "confined d I ?m" using i1 assms(2) by (intro confined_intros) simp
    then have "inside d w0 I w2" using confinedD i1 x by blast
    then show ?thesis using assms(3) n i1 Inr x by (cases r2) (auto simp: copyStore_def split: prod.splits)
  qed
qed

lemma abandon_inside:
  assumes "inside d w0 I w" "abandon d opened e w = (r, w')" shows "inside d w0 I w'"
proof -
  obtain c w1 where c: "(case opened of None \<Rightarrow> (Inr (), w) | Some t \<Rightarrow> closing t w) = (c, w1)"
    by (metis prod.collapse)
  have "inside d w0 I w1" using assms(1) c confinedD [OF confined_lock(4)] by (cases opened) auto
  moreover obtain u w2 where u: "osRemoveAll d w1 = (u, w2)" by (cases "osRemoveAll d w1")
  ultimately have "inside d w0 I w2" using confinedD [OF confined_removeAll] by blast
  then show ?thesis using assms(2) c u by (simp add: abandon_def Let_def)
qed


subsection \<open>Absolute paths\<close>

lemma isAbs_absOf: "isAbs cwd \<Longrightarrow> isAbs (absOf cwd p)"
proof -
  have r: "isAbs (foldl (\<lambda>acc c. if c = ''..'' then (if length acc \<le> 1 then acc else butlast acc) else acc @ [c]) acc p)"
    if "isAbs acc" for acc p
    using that
  proof (induction p arbitrary: acc)
    case (Cons c p)
    have "isAbs (if c = ''..'' then (if length acc \<le> 1 then acc else butlast acc) else acc @ [c])"
      using Cons.prems by (cases acc rule: rev_cases) (auto simp: isAbs_def hd_append)
    then show ?case using Cons.IH by simp
  qed simp
  have "isAbs (resolveDots q)" if "isAbs q" for q
  proof -
    define f where "f = (\<lambda>acc c :: string. if c = ''..'' then (if length acc \<le> 1 then acc else butlast acc) else acc @ [c])"
    have "q = ''/'' # tl q" using that by (cases q) (simp_all add: isAbs_def)
    then have "foldl f [] q = foldl f (f [] ''/'') (tl q)" by (metis foldl_Cons)
    moreover have "f [] ''/'' = [''/'']" by (simp add: f_def)
    moreover have "isAbs [''/'']" by (simp add: isAbs_def)
    ultimately show ?thesis using r [of "[''/'']" "tl q"] unfolding resolveDots_def f_def by simp
  qed
  moreover assume "isAbs cwd"
  then have "isAbs (cwd @ p)" by (auto simp: isAbs_def)
  ultimately show ?thesis unfolding absOf_def by (cases "isAbs p") (simp_all only: if_True if_False simp_thms)
qed

subsection \<open>Removing\<close>

lemma tryEach_Cons_Inr: "tryEach (m # ms) w = (Inr u, w') \<longleftrightarrow> (\<exists>w1. m w = (Inr (), w1) \<and> tryEach ms w1 = (Inr u, w'))"
  by (auto split: prod.splits sum.splits)

lemma tryEach_append_Inr:
  "tryEach (ms @ ns) w = (Inr u, w') \<longleftrightarrow> (\<exists>w1. tryEach ms w = (Inr (), w1) \<and> tryEach ns w1 = (Inr u, w'))"
  by (induction ms arbitrary: w) (auto simp: tryEach_Cons_Inr simp del: tryEach.simps(2))

lemma removed_files:
  "tryEach (map osRemove ps) w = (Inr u, w') \<Longrightarrow>
   dirs w' = dirs w \<and> map fst (ents w') = filter (\<lambda>p. p \<notin> set ps) (map fst (ents w))"
proof (induction ps arbitrary: w)
  case (Cons p ps)
  then obtain w1 where w1: "osRemove p w = (Inr (), w1)" "tryEach (map osRemove ps) w1 = (Inr u, w')"
    by (auto simp: tryEach_Cons_Inr simp del: tryEach.simps(2))
  have d: "map fst (AList.delete p xs) = filter (\<lambda>q. q \<noteq> p) (map fst xs)" for xs :: "(path \<times> nat) list"
    by (induction xs) auto
  have "dirs w1 = dirs w" "map fst (ents w1) = filter (\<lambda>q. q \<noteq> p) (map fst (ents w))"
    using w1(1) by (auto simp: osRemove_def syscall_def d split: list.splits option.splits)
  then show ?case using Cons.IH [OF w1(2)] by (auto simp: filter_filter conj_commute intro: filter_cong)
qed simp

lemma removed_dirs:
  "tryEach (map removeDir ds) w = (Inr u, w') \<Longrightarrow>
   ents w' = ents w \<and> dirs w' = filter (\<lambda>p. p \<notin> set ds) (dirs w)"
proof (induction ds arbitrary: w)
  case (Cons p ps)
  then obtain w1 where w1: "removeDir p w = (Inr (), w1)" "tryEach (map removeDir ps) w1 = (Inr u, w')"
    by (auto simp: tryEach_Cons_Inr simp del: tryEach.simps(2))
  have "ents w1 = ents w" "dirs w1 = filter (\<lambda>q. q \<noteq> p) (dirs w)"
    using w1(1) by (auto simp: removeDir_def syscall_def split: list.splits option.splits if_splits)
  then show ?case using Cons.IH [OF w1(2)] by (auto simp: filter_filter conj_commute intro: filter_cong)
qed simp

lemma removedAll:
  assumes "osRemoveAll d w = (Inr u, w')" "within d p"
  shows "p \<notin> set (dirs w')" "map_of (ents w') p = None"
proof -
  obtain w1 where w1: "tryEach (map osRemove (filter (within d) (map fst (ents w)))) w = (Inr (), w1)"
    "tryEach (map removeDir (rev (sort_key length (filter (within d) (dirs w))))) w1 = (Inr u, w')"
    using assms(1) by (auto simp: osRemoveAll_def tryEach_append_Inr)
  note r = removed_files [OF w1(1)] removed_dirs [OF w1(2)]
  show "p \<notin> set (dirs w')" using r assms(2) by auto
  have "p \<notin> set (map fst (ents w'))" using r assms(2) by auto
  then show "map_of (ents w') p = None" by (simp add: map_of_eq_None_iff)
qed

subsection \<open>What a migration does to the disk\<close>

lemma inside_start:
  assumes "\<And>p. within d p \<Longrightarrow> crash_ents w p = {None}" shows "inside d w {} w"
  using assms by (auto simp: inside_def)

lemma confined_checkMigration [confined_intros]: "confined d I (checkMigration cwd s dest)"
proof -
  have a: "confined d I (absPath cwd p)" for p
    unfolding absPath_def by (auto intro!: confined_intros confined_syscall)
  show ?thesis unfolding checkMigration_def
    by (intro confined_intros a) (auto intro!: confined_intros split: sum.split)
qed

lemma confined_makeDestination [confined_intros]: "confined d I (makeDestination p)"
  unfolding makeDestination_def by (intro confined_intros) (auto intro!: confined_intros split: sum.split)

lemma rebuilt_dir: "rebuildIndexes L s w = (Inr t, w') \<Longrightarrow> sdir t = sdir s \<and> skey t = skey s \<and> slock t = slock s"
proof -
  have n: "indexNodes s ns = Inr t \<Longrightarrow> sdir t = sdir s \<and> skey t = skey s \<and> slock t = slock s" for s t ns
    by (induction ns arbitrary: s)
      (auto simp: bindE_Inr_iff indexNode_def Let_def split: if_splits option.splits)
  show "rebuildIndexes L s w = (Inr t, w') \<Longrightarrow> sdir t = sdir s \<and> skey t = skey s \<and> slock t = slock s"
    by (auto simp: rebuildIndexes_def io_iffs clear_indexes_def dest!: n split: if_splits)
qed

lemma opened_dir: "OpenStoreWithDataKey L pid d key w = (Inr t, w') \<Longrightarrow> d \<noteq> [] \<Longrightarrow> sdir t = d"
  by (auto simp: OpenStoreWithDataKey_def openStore_def openLocked_def io_iffs dest!: rebuilt_dir)

text \<open>The destination of the checks is the absolute one, and it did not exist.\<close>

lemma checkMigration_dest:
  "checkMigration cwd s dest w = (Inr (D, sr), w') \<Longrightarrow> D = absOf cwd (toPath (trimSpace dest))"
proof -
  assume run: "checkMigration cwd s dest w = (Inr (D, sr), w')"
  have a: "q = absOf cwd p" if "absPath cwd p v = (Inr q, v')" for p q v v'
    using that by (auto simp: absPath_def syscall_def split: if_splits list.splits option.splits)
  from run obtain x w1 y w2 where x: "absPath cwd (sdir s) w = (Inr x, w1)"
    "absPath cwd (toPath (trimSpace dest)) w1 = (Inr y, w2)"
    and r: "(if y = x then io_fail (appErr ErrValidation ''destination must differ from the source store'' [])
       else io_bind (io_try (statFile y)) (\<lambda>st. case st of
         Inr _ \<Rightarrow> io_fail (appErr ErrConflict ''destination already exists'' [])
       | Inl e \<Rightarrow> if \<not> isNotExist e then io_fail e
           else io_bind (currentRoot (sdir s)) (\<lambda>sourceRoot.
             if sourceRoot \<noteq> indexedRoot s then io_fail index_mismatch
             else io_ret (y, sourceRoot)))) w2 = (Inr (D, sr), w')"
    unfolding checkMigration_def io_bind_Inr_iff by blast
  then obtain st w3 where st: "io_try (statFile y) w2 = (Inr st, w3)"
    and r: "(case st of
         Inr _ \<Rightarrow> io_fail (appErr ErrConflict ''destination already exists'' [])
       | Inl e \<Rightarrow> if \<not> isNotExist e then io_fail e
           else io_bind (currentRoot (sdir s)) (\<lambda>sourceRoot.
             if sourceRoot \<noteq> indexedRoot s then io_fail index_mismatch
             else io_ret (y, sourceRoot))) w3 = (Inr (D, sr), w')"
    by (auto simp: io_bind_Inr_iff split: if_splits)
  then show "D = absOf cwd (toPath (trimSpace dest))"
    using a [OF x(2)] by (cases st) (auto simp: io_iffs split: if_splits)
qed

definition removalFailed :: "go_error list \<Rightarrow> bool" where
  "removalFailed es \<longleftrightarrow> (\<exists>p e. Wrapped ''remove incomplete destination %s: %w'' [p] e \<in> set es)"

lemma abandon_removes:
  assumes "abandon d opened e w = ((info, es), w')"
  shows "info = zeroMigrationInfo" "es \<noteq> []" "removalFailed es \<or> (\<forall>p. within d p \<longrightarrow> p \<notin> set (dirs w') \<and> map_of (ents w') p = None)"
proof -
  obtain c w1 where c: "(case opened of None \<Rightarrow> (Inr (), w) | Some t \<Rightarrow> closing t w) = (c, w1)"
    by (metis prod.collapse)
  obtain u w2 where u: "osRemoveAll d w1 = (u, w2)" by (cases "osRemoveAll d w1")
  have r: "info = zeroMigrationInfo" "w' = w2" "es = e # (case c of Inl c \<Rightarrow> [Wrapped ''close incomplete destination: %w'' [] c] | Inr _ \<Rightarrow> [])
             @ (case u of Inl c \<Rightarrow> [Wrapped ''remove incomplete destination %s: %w'' [pathString d] c] | Inr _ \<Rightarrow> [])"
    using assms c u by (auto simp: abandon_def Let_def)
  then show "info = zeroMigrationInfo" "es \<noteq> []" by simp_all
  show "removalFailed es \<or> (\<forall>p. within d p \<longrightarrow> p \<notin> set (dirs w') \<and> map_of (ents w') p = None)"
    using removedAll r u by (cases u) (auto simp: removalFailed_def)
qed

end
