(* ===== verification/FileCreate.thy ===== *)
theory FileCreate
  imports Confined
begin

text \<open>
  Exclusive creation, \<^verbatim>\<open>os.OpenFile\<close> with \<^verbatim>\<open>O_CREATE|O_EXCL\<close>: it makes the file or fails, and
  never opens one that is there. The first secrets and the lock file of lock_other.go are made this way.
\<close>

definition createExclusive :: "path \<Rightarrow> handle io" where
  "createExclusive p = syscall (\<lambda>w.
     if p \<in> set (dirs w) \<or> map_of (ents w) p \<noteq> None then (Inl (OsError EEXIST), w)
     else if butlast p \<notin> set (dirs w) then (Inl (OsError ENOENT), w)
     else let i = fresh_ino w in
       (Inr (p, i), w\<lparr>ents := AList.update p i (ents w), dlog := (p, Some i) # dlog w,
          inodes := (inodes w)(i := \<lparr>idata = [], isynced = False, imode = 0x180\<rparr>)\<rparr>))"

end
