(* ===== verification/LockVariants.thy ===== *)
theory LockVariants
  imports FileCreate
begin

text \<open>
  The writer lock on the systems without \<^verbatim>\<open>flock\<close>: record locks of \<^verbatim>\<open>fcntl\<close> (lock_fcntl.go)
  and exclusive creation of the lock file (lock_other.go).
\<close>

section \<open>Record locks\<close>

text \<open>
  A record lock belongs to the process, not to the descriptor: a process is never refused by its own
  lock, and closing any descriptor of the file drops it. The holders in \<open>flocks\<close> are the
  process numbers here. \<^verbatim>\<open>EACCES\<close> and \<^verbatim>\<open>EAGAIN\<close> are \<open>EWOULDBLOCK\<close>.
\<close>

definition evalSymlinks :: "path \<Rightarrow> path io" where
  "evalSymlinks p = syscall (\<lambda>w. if p \<in> set (dirs w) then (Inr p, w) else (Inl (OsError ENOENT), w))"

definition fcntlSetLock :: "path \<Rightarrow> nat \<Rightarrow> unit io" where
  "fcntlSetLock p me = syscall (\<lambda>w. case map_of (flocks w) p of
       Some h \<Rightarrow> if h = me then (Inr (), w) else (Inl (OsError EWOULDBLOCK), w)
     | None \<Rightarrow> (Inr (), w\<lparr>flocks := AList.update p me (flocks w)\<rparr>))"

definition fcntlUnlock :: "path \<Rightarrow> nat \<Rightarrow> unit io" where
  "fcntlUnlock p me = syscall (\<lambda>w. (Inr (), release p me w))"

definition fcntlClose :: "path \<Rightarrow> nat \<Rightarrow> unit io" where
  "fcntlClose p me = syscall (\<lambda>w. (Inr (), release p me w))"

record fcntlLock =
  fkFile :: "handle option" \<comment> \<open>\<open>None\<close> once closed\<close>
  fkPath :: path

text \<open>The file is opened, locked and filled; every failure closes it again.\<close>

definition lockRecordFile :: "nat \<Rightarrow> string \<Rightarrow> path \<Rightarrow> handle io" where
  "lockRecordFile me pid p =
     io_bind (openLockFile p) (\<lambda>x.
     io_bind (io_try (fcntlSetLock p me)) (\<lambda>r.
       case r of
         Inl e \<Rightarrow> io_defer (io_fail (if e = OsError EWOULDBLOCK then lock_conflict else e)) (fcntlClose p me)
       | Inr _ \<Rightarrow>
           io_bind (io_onerr (fileTruncate (fst x)) (fcntlClose p me)) (\<lambda>_.
           io_bind (io_onerr (fileWrite (fst x) (pid @ [CHR 0x0A])) (fcntlClose p me)) (\<lambda>_.
           io_bind (io_onerr (fileSync (fst x)) (fcntlClose p me)) (\<lambda>_.
           io_ret (fst x))))))"

text \<open>
  The table of the process (\<^verbatim>\<open>fcntlProcessLocks\<close>) is asked before the file is opened; the path is
  reserved in it while the file is locked, and given up when that fails.
\<close>

definition acquireFcntlLock ::
    "nat \<Rightarrow> string \<Rightarrow> path \<Rightarrow> path list \<Rightarrow> world \<Rightarrow> ((go_error + fcntlLock) \<times> path list) \<times> world" where
  "acquireFcntlLock me pid dir table w =
     (case evalSymlinks dir w of
        (Inl e, w1) \<Rightarrow> ((Inl e, table), w1)
      | (Inr canonicalDir, w1) \<Rightarrow>
          (let p = lockPath canonicalDir in
           if p \<in> set table then ((Inl lock_conflict, table), w1)
           else let reserved = p # table in
             (case lockRecordFile me pid p w1 of
                (Inl e, w2) \<Rightarrow> ((Inl e, removeAll p reserved), w2)
              | (Inr f, w2) \<Rightarrow> ((Inr \<lparr>fkFile = Some f, fkPath = p\<rparr>, reserved), w2))))"

definition closeFcntlLock ::
    "nat \<Rightarrow> fcntlLock \<Rightarrow> path list \<Rightarrow> world \<Rightarrow> ((go_error + unit) \<times> fcntlLock \<times> path list) \<times> world" where
  "closeFcntlLock me l table w =
     (case fkFile l of
        None \<Rightarrow> ((Inr (), l, table), w)
      | Some f \<Rightarrow>
          (case fcntlUnlock (fkPath l) me w of (unlockErr, w1) \<Rightarrow>
           (case fcntlClose (fkPath l) me w1 of (closeErr, w2) \<Rightarrow>
             ((case unlockErr of Inl e \<Rightarrow> Inl e | Inr _ \<Rightarrow> closeErr, l\<lparr>fkFile := None\<rparr>, removeAll (fkPath l) table), w2))))"

subsection \<open>What the calls do to the locks\<close>

text \<open>From \<open>w0\<close>: only the lock on \<open>p\<close> may change, and not when another process has it.\<close>

definition only_mine :: "world \<Rightarrow> path \<Rightarrow> nat \<Rightarrow> world \<Rightarrow> bool" where
  "only_mine w0 p me w \<longleftrightarrow> (\<forall>q. q \<noteq> p \<longrightarrow> map_of (flocks w) q = map_of (flocks w0) q)
     \<and> (\<forall>h. h \<noteq> me \<longrightarrow> map_of (flocks w0) p = Some h \<longrightarrow> map_of (flocks w) p = Some h)"

definition mine :: "world \<Rightarrow> path \<Rightarrow> nat \<Rightarrow> world \<Rightarrow> bool" where
  "mine w0 p me w \<longleftrightarrow> only_mine w0 p me w \<and> map_of (flocks w) p = Some me
     \<and> (map_of (flocks w0) p = None \<or> map_of (flocks w0) p = Some me)"

lemma only_mine_refl [simp]: "only_mine w p me w"
  by (simp add: only_mine_def)

lemma only_mine_views [simp]:
  "only_mine w0 p me (w\<lparr>faults := fs\<rparr>) = only_mine w0 p me w" "mine w0 p me (w\<lparr>faults := fs\<rparr>) = mine w0 p me w"
  "only_mine w0 p me (set_inode i f w) = only_mine w0 p me w" "mine w0 p me (set_inode i f w) = mine w0 p me w"
  by (simp_all add: only_mine_def mine_def)

lemma mine_fault_free [simp]: "fault_free (only_mine w0 p me)" "fault_free (mine w0 p me)"
  by (simp_all add: fault_free_def)

lemma only_mine_release: "only_mine w0 p me w \<Longrightarrow> only_mine w0 p me (release p me w)"
  unfolding only_mine_def flocks_release by auto

lemma hoare_fcntl:
  "hoare (only_mine w0 p me) (openLockFile p') (\<lambda>_. only_mine w0 p me) (only_mine w0 p me)"
  "hoare (only_mine w0 p me) (fcntlSetLock p me) (\<lambda>_. mine w0 p me) (only_mine w0 p me)"
  "hoare (only_mine w0 p me) (fcntlUnlock p me) (\<lambda>_. only_mine w0 p me) (only_mine w0 p me)"
  "hoare (only_mine w0 p me) (fcntlClose p me) (\<lambda>_. only_mine w0 p me) (only_mine w0 p me)"
proof -
  show "hoare (only_mine w0 p me) (openLockFile p') (\<lambda>_. only_mine w0 p me) (only_mine w0 p me)"
    unfolding openLockFile_def
    by (rule hoare_syscall) (auto intro!: hoareI simp: only_mine_def Let_def split: if_splits option.splits)
  show "hoare (only_mine w0 p me) (fcntlSetLock p me) (\<lambda>_. mine w0 p me) (only_mine w0 p me)"
    unfolding fcntlSetLock_def
  proof (rule hoare_syscall, simp_all, rule hoareI)
    fix w x w' assume o: "only_mine w0 p me w"
      and r: "(case map_of (flocks w) p of None \<Rightarrow> (Inr (), w\<lparr>flocks := AList.update p me (flocks w)\<rparr>)
         | Some h \<Rightarrow> if h = me then (Inr (), w) else (Inl (OsError EWOULDBLOCK), w)) = (Inr x, w')"
    have "map_of (flocks w0) p = None \<or> map_of (flocks w0) p = Some me"
    proof (cases "map_of (flocks w0) p")
      case (Some a)
      have "map_of (flocks w) p = Some a" if "a \<noteq> me" using o Some that by (simp add: only_mine_def)
      then show ?thesis using r Some by (cases "a = me") simp_all
    qed simp
    moreover have w': "map_of (flocks w') q = (if q = p then Some me else map_of (flocks w) q)" for q
      using r by (cases "map_of (flocks w) p") (auto simp: map_of_update split: if_splits)
    ultimately show "mine w0 p me w'"
      using o unfolding mine_def only_mine_def w' by auto
  qed (auto split: option.splits if_splits)
  show "hoare (only_mine w0 p me) (fcntlUnlock p me) (\<lambda>_. only_mine w0 p me) (only_mine w0 p me)"
    "hoare (only_mine w0 p me) (fcntlClose p me) (\<lambda>_. only_mine w0 p me) (only_mine w0 p me)"
    unfolding fcntlUnlock_def fcntlClose_def
    by (rule hoare_syscall; auto intro!: hoareI only_mine_release)+
qed

lemma hoare_lockRecordFile:
  "hoare (only_mine w0 p me) (lockRecordFile me pid p) (\<lambda>_. mine w0 p me) (only_mine w0 p me)"
proof -
  let ?O = "only_mine w0 p me" and ?M = "mine w0 p me"
  have cl: "hoare ?M (fcntlClose p me) (\<lambda>_. ?O) ?O"
    by (rule hoare_weaken [OF hoare_fcntl(4) [of w0 p me]]) (auto simp: mine_def)
  have si: "?M (set_inode i f w) = ?M w" for i f w by simp
  have att: "hoare ?O (io_try (fcntlSetLock p me)) (\<lambda>r w. ?O w \<and> (r = Inr () \<longrightarrow> ?M w)) ?O"
    using hoare_fcntl(2) [of w0 p me] unfolding hoare_def io_try_def
    by (fastforce simp: mine_def split: prod.splits sum.splits)
  have fill: "hoare ?M (io_bind (io_onerr (fileTruncate f) (fcntlClose p me)) (\<lambda>_.
        io_bind (io_onerr (fileWrite f b) (fcntlClose p me)) (\<lambda>_.
        io_bind (io_onerr (fileSync f) (fcntlClose p me)) (\<lambda>_. io_ret f)))) (\<lambda>_. ?M) ?O" for f b
    unfolding fileTruncate_def fileSync_def
    by (rule hoare_bind [OF hoare_onerr [OF hoare_inode_call [OF mine_fault_free(2) si] cl]],
        rule hoare_bind [OF hoare_onerr [OF hoare_lock_write [OF mine_fault_free(2) si] cl]],
        rule hoare_bind [OF hoare_onerr [OF hoare_inode_call [OF mine_fault_free(2) si] cl]])
      (simp add: hoare_def)
  have lose: "hoare ?O (io_defer (io_fail e) (fcntlClose p me)) (\<lambda>_. ?M) ?O" for e
    by (rule hoare_defer [where R = "\<lambda>_ _. False", OF _ _ hoare_fcntl(4)]) (auto simp: hoare_def)
  show ?thesis
    unfolding lockRecordFile_def
  proof (rule hoare_bind [OF hoare_fcntl(1)], rule hoare_bind [OF att])
    fix x and r :: "go_error + unit"
    show "hoare (\<lambda>w. ?O w \<and> (r = Inr () \<longrightarrow> ?M w))
      (case r of
         Inl e \<Rightarrow> io_defer (io_fail (if e = OsError EWOULDBLOCK then lock_conflict else e)) (fcntlClose p me)
       | Inr _ \<Rightarrow>
           io_bind (io_onerr (fileTruncate (fst x)) (fcntlClose p me)) (\<lambda>_.
           io_bind (io_onerr (fileWrite (fst x) (pid @ [CHR 0x0A])) (fcntlClose p me)) (\<lambda>_.
           io_bind (io_onerr (fileSync (fst x)) (fcntlClose p me)) (\<lambda>_.
           io_ret (fst x))))) (\<lambda>_. ?M) ?O"
    proof (cases r)
      case (Inl e)
      show ?thesis unfolding Inl sum.case by (rule hoare_weaken [OF lose]) auto
    next
      case (Inr u)
      show ?thesis unfolding Inr sum.case by (rule hoare_weaken [OF fill]) auto
    qed
  qed
qed

lemma acquireFcntl_cases:
  assumes "acquireFcntlLock me pid dir table w = ((r, table'), w')"
  shows "set table \<subseteq> set table'" "only_mine w (lockPath dir) me w'"
    "lockPath dir \<in> set table \<Longrightarrow> flocks w' = flocks w \<and> (\<exists>e. r = Inl e)"
    "r = Inl e \<Longrightarrow> set table' = set table"
    "r = Inr l \<Longrightarrow> fkPath l = lockPath dir \<and> fkFile l \<noteq> None \<and> lockPath dir \<notin> set table
       \<and> set table' = insert (lockPath dir) (set table) \<and> mine w (lockPath dir) me w'"
proof -
  obtain x w1 where x: "evalSymlinks dir w = (x, w1)" by (cases "evalSymlinks dir w")
  have f: "flocks w1 = flocks w" "\<And>d. x = Inr d \<Longrightarrow> d = dir"
    using x by (auto simp: evalSymlinks_def syscall_def split: list.splits option.splits if_splits)
  have m: "only_mine w1 p me v = only_mine w p me v" "mine w1 p me v = mine w p me v" for p v
    using f(1) by (simp_all add: only_mine_def mine_def)
  have o: "only_mine w p me w1" for p using f(1) by (simp add: only_mine_def)
  note lk = hoareD [OF hoare_lockRecordFile [where ?w0.0 = w1 and p = "lockPath dir" and me = me and pid = pid] only_mine_refl, unfolded m]
    and le = hoareD_err [OF hoare_lockRecordFile [where ?w0.0 = w1 and p = "lockPath dir" and me = me and pid = pid] only_mine_refl, unfolded m]
  have "set table \<subseteq> set table' \<and> only_mine w (lockPath dir) me w'
    \<and> (lockPath dir \<in> set table \<longrightarrow> flocks w' = flocks w \<and> (\<exists>e. r = Inl e))
    \<and> (\<forall>e. r = Inl e \<longrightarrow> set table' = set table)
    \<and> (\<forall>l. r = Inr l \<longrightarrow> fkPath l = lockPath dir \<and> fkFile l \<noteq> None \<and> lockPath dir \<notin> set table
       \<and> set table' = insert (lockPath dir) (set table) \<and> mine w (lockPath dir) me w')"
    using assms x f o lk le
    by (auto simp: acquireFcntlLock_def Let_def mine_def split: sum.splits prod.splits if_splits)
  then show "set table \<subseteq> set table'" "only_mine w (lockPath dir) me w'"
    "lockPath dir \<in> set table \<Longrightarrow> flocks w' = flocks w \<and> (\<exists>e. r = Inl e)"
    "r = Inl e \<Longrightarrow> set table' = set table"
    "r = Inr l \<Longrightarrow> fkPath l = lockPath dir \<and> fkFile l \<noteq> None \<and> lockPath dir \<notin> set table
       \<and> set table' = insert (lockPath dir) (set table) \<and> mine w (lockPath dir) me w'"
    by blast+
qed

lemma closeFcntl_cases:
  assumes "closeFcntlLock me l table w = ((r, l', table'), w')"
  shows "only_mine w (fkPath l) me w'" "fkFile l \<noteq> None \<Longrightarrow> set table' = set table - {fkPath l}"
    "fkFile l' = None" "fkFile l = None \<Longrightarrow> table' = table \<and> w' = w"
proof -
  let ?O = "only_mine w (fkPath l) me"
  have c: "?O (snd (m v))" if "hoare ?O m (\<lambda>_. ?O) ?O" "?O v" for m :: "unit io" and v
    by (rule hoare_post [OF that])
  show "only_mine w (fkPath l) me w'"
    using assms c [OF hoare_fcntl(3), of w] c [OF hoare_fcntl(4)]
    by (auto simp: closeFcntlLock_def split: option.splits prod.splits) (metis snd_conv)
  show "fkFile l \<noteq> None \<Longrightarrow> set table' = set table - {fkPath l}" "fkFile l' = None"
    "fkFile l = None \<Longrightarrow> table' = table \<and> w' = w"
    using assms by (auto simp: closeFcntlLock_def split: option.splits prod.splits)
qed

subsection \<open>The processes of a host\<close>

text \<open>Any number of processes, each with its table, and the locks that are open.\<close>

record fhost =
  fhWorld :: world
  fhTable :: "nat \<Rightarrow> path list"
  fhOpen :: "(nat \<times> fcntlLock) list"

inductive fhost_step :: "fhost \<Rightarrow> fhost \<Rightarrow> bool" where
  acquired: "acquireFcntlLock me pid dir (fhTable s me) (fhWorld s) = ((Inr l, table), w') \<Longrightarrow>
     fhost_step s (s\<lparr>fhWorld := w', fhTable := (fhTable s)(me := table), fhOpen := (me, l) # fhOpen s\<rparr>)"
| refused: "acquireFcntlLock me pid dir (fhTable s me) (fhWorld s) = ((Inl e, table), w') \<Longrightarrow>
     fhost_step s (s\<lparr>fhWorld := w', fhTable := (fhTable s)(me := table)\<rparr>)"
| closed: "fhOpen s = as @ (me, l) # bs \<Longrightarrow>
     closeFcntlLock me l (fhTable s me) (fhWorld s) = ((r, l', table), w') \<Longrightarrow>
     fhost_step s (s\<lparr>fhWorld := w', fhTable := (fhTable s)(me := table), fhOpen := as @ bs\<rparr>)"
| exited: "fhost_step s (s\<lparr>fhWorld := (fhWorld s)\<lparr>flocks := filter (\<lambda>(p, h). h \<noteq> me) (flocks (fhWorld s))\<rparr>,
     fhTable := (fhTable s)(me := []), fhOpen := filter (\<lambda>(h, l). h \<noteq> me) (fhOpen s)\<rparr>)"
| rebooted: "crash (fhWorld s) w' \<Longrightarrow> fhost_step s (s\<lparr>fhWorld := w', fhTable := (\<lambda>_. []), fhOpen := []\<rparr>)"

inductive fhost_reachable :: "fhost \<Rightarrow> bool" where
  start: "flocks (fhWorld s) = [] \<Longrightarrow> fhTable s = (\<lambda>_. []) \<Longrightarrow> fhOpen s = [] \<Longrightarrow> fhost_reachable s"
| step: "fhost_reachable s \<Longrightarrow> fhost_step s t \<Longrightarrow> fhost_reachable t"

text \<open>Every open lock is in the table of its process and held by it, and no two are of one file.\<close>

definition fhost_inv :: "fhost \<Rightarrow> bool" where
  "fhost_inv s \<longleftrightarrow> distinct (map (fkPath \<circ> snd) (fhOpen s))
     \<and> (\<forall>(me, l) \<in> set (fhOpen s). fkPath l \<in> set (fhTable s me) \<and> map_of (flocks (fhWorld s)) (fkPath l) = Some me
          \<and> fkFile l \<noteq> None)"

lemma fhost_inv_start: "flocks (fhWorld s) = [] \<Longrightarrow> fhOpen s = [] \<Longrightarrow> fhost_inv s"
  by (simp add: fhost_inv_def)

lemma fhost_inv_facts:
  assumes "fhost_inv s" "(me, l) \<in> set (fhOpen s)"
  shows "fkPath l \<in> set (fhTable s me)" "map_of (flocks (fhWorld s)) (fkPath l) = Some me" "fkFile l \<noteq> None"
  using assms unfolding fhost_inv_def by blast+

lemma fhost_invI:
  assumes "distinct (map (fkPath \<circ> snd) (fhOpen s))"
    and "\<And>h k. (h, k) \<in> set (fhOpen s) \<Longrightarrow>
       map_of (flocks (fhWorld s)) (fkPath k) = Some h \<and> fkPath k \<in> set (fhTable s h) \<and> fkFile k \<noteq> None"
  shows "fhost_inv s"
  using assms unfolding fhost_inv_def by blast

text \<open>A process that asks for a lock leaves the open ones alone.\<close>

lemma asking_keeps_open:
  assumes "fhost_inv s" "(h, k) \<in> set (fhOpen s)"
    and "acquireFcntlLock me pid dir (fhTable s me) (fhWorld s) = ((r, table), w')"
  shows "map_of (flocks w') (fkPath k) = Some h" "fkPath k \<in> set (((fhTable s)(me := table)) h)"
    "r = Inr l \<Longrightarrow> fkPath k \<noteq> fkPath l"
proof -
  note c = acquireFcntl_cases [OF assms(3)]
  note i = fhost_inv_facts [OF assms(1,2)]
  show t: "fkPath k \<in> set (((fhTable s)(me := table)) h)" using i(1) c(1) by auto
  show m: "map_of (flocks w') (fkPath k) = Some h"
  proof (cases "fkPath k = lockPath dir \<and> h = me")
    case True
    then have "lockPath dir \<in> set (fhTable s me)" using i(1) by simp
    then show ?thesis using c(3) i(2) by simp
  next
    case False
    then show ?thesis using c(2) i(2) by (cases "fkPath k = lockPath dir") (simp_all add: only_mine_def)
  qed
  show "fkPath k \<noteq> fkPath l" if "r = Inr l"
  proof
    assume e: "fkPath k = fkPath l"
    note a = c(5) [OF that]
    have "h = me" using m a e by (simp add: mine_def)
    then show False using i(1) a e by simp
  qed
qed

lemma fhost_inv_step: "fhost_step s t \<Longrightarrow> fhost_inv s \<Longrightarrow> fhost_inv t"
proof (induction rule: fhost_step.induct)
  case (acquired me pid dir s l table w')
  note keep = asking_keeps_open [OF acquired.prems _ acquired.hyps]
  note a = acquireFcntl_cases(5) [OF acquired.hyps refl]
  have ne: "fkPath k \<noteq> fkPath l" if "(h, k) \<in> set (fhOpen s)" for h k using keep(3) [OF that refl] .
  then have "fkPath l \<notin> (fkPath \<circ> snd) ` set (fhOpen s)" by force
  moreover have "distinct (map (fkPath \<circ> snd) (fhOpen s))" using acquired.prems by (simp add: fhost_inv_def)
  moreover have "map_of (flocks w') (fkPath k) = Some h \<and> fkPath k \<in> set (((fhTable s)(me := table)) h) \<and> fkFile k \<noteq> None"
    if "(h, k) \<in> set ((me, l) # fhOpen s)" for h k
  proof (cases "(h, k) \<in> set (fhOpen s)")
    case False
    then show ?thesis using that a by (simp add: mine_def)
  qed (use keep(1,2) fhost_inv_facts(3) [OF acquired.prems] in blast)
  ultimately show ?case by (intro fhost_invI) simp_all
next
  case (refused me pid dir s e table w')
  note keep = asking_keeps_open [OF refused.prems _ refused.hyps]
  have "distinct (map (fkPath \<circ> snd) (fhOpen s))" using refused.prems by (simp add: fhost_inv_def)
  moreover have "map_of (flocks w') (fkPath k) = Some h \<and> fkPath k \<in> set (((fhTable s)(me := table)) h) \<and> fkFile k \<noteq> None"
    if "(h, k) \<in> set (fhOpen s)" for h k
    using keep(1,2) fhost_inv_facts(3) [OF refused.prems] that by blast
  ultimately show ?case by (intro fhost_invI) simp_all
next
  case (closed s as me l bs r l' table w')
  have l: "(me, l) \<in> set (fhOpen s)" using closed.hyps(1) by simp
  note c = closeFcntl_cases [OF closed.hyps(2)]
  have d: "distinct (map (fkPath \<circ> snd) (fhOpen s))" using closed.prems by (simp add: fhost_inv_def)
  then have d': "distinct (map (fkPath \<circ> snd) (as @ bs))" using closed.hyps(1) by simp
  have "map_of (flocks w') (fkPath k) = Some h \<and> fkPath k \<in> set (((fhTable s)(me := table)) h) \<and> fkFile k \<noteq> None"
    if k: "(h, k) \<in> set (as @ bs)" for h k
  proof -
    have "(h, k) \<in> set (fhOpen s)" using k closed.hyps(1) by auto
    note i = fhost_inv_facts [OF closed.prems this]
    have "(fkPath \<circ> snd) (h, k) \<in> set (map (fkPath \<circ> snd) (as @ bs))" using k by (metis image_eqI list.set_map)
    moreover have "fkPath l \<notin> set (map (fkPath \<circ> snd) (as @ bs))" using d by (simp add: closed.hyps(1))
    ultimately have "fkPath k \<noteq> fkPath l" by (metis comp_apply snd_conv)
    then show ?thesis using c(1,2) i fhost_inv_facts(3) [OF closed.prems l] by (auto simp: only_mine_def)
  qed
  then show ?case using d' by (intro fhost_invI) simp_all
next
  case (exited s me)
  have f: "map_of (filter (\<lambda>(p, h). h \<noteq> me) xs) q = Some h" if "map_of xs q = Some h" "h \<noteq> me" for xs :: "(path \<times> nat) list" and q h
    using that by (induction xs) (auto split: if_splits)
  have "distinct (map (fkPath \<circ> snd) (fhOpen s))" using exited by (simp add: fhost_inv_def)
  then show ?case using f fhost_inv_facts [OF exited] by (intro fhost_invI) (auto simp: distinct_map_filter)
next
  case (rebooted s w')
  then show ?case by (simp add: fhost_inv_def)
qed

lemma fhost_reachable_inv: "fhost_reachable s \<Longrightarrow> fhost_inv s"
  by (induction rule: fhost_reachable.induct) (auto intro: fhost_inv_start fhost_inv_step)

section \<open>A lock file that is there or not\<close>

record fileLock =
  fiFile :: "handle option" \<comment> \<open>\<open>None\<close> once closed\<close>
  fiPath :: path

definition acquireFileLock :: "path \<Rightarrow> fileLock io" where
  "acquireFileLock dir =
     (let p = lockPath dir in
      io_bind (io_try (createExclusive p)) (\<lambda>r. case r of
         Inl e \<Rightarrow> if e = OsError EEXIST then io_fail lock_conflict else io_fail e
       | Inr f \<Rightarrow> io_ret \<lparr>fiFile = Some f, fiPath = p\<rparr>))"

definition closeFileLock :: "fileLock \<Rightarrow> ((go_error + unit) \<times> fileLock) io" where
  "closeFileLock l =
     (case fiFile l of
        None \<Rightarrow> io_ret (Inr (), l)
      | Some f \<Rightarrow>
          io_bind (io_try (fileClose f)) (\<lambda>closeErr.
          io_bind (io_try (osRemove (fiPath l))) (\<lambda>removeErr.
          io_ret (case closeErr of Inl e \<Rightarrow> Inl e | Inr _ \<Rightarrow> removeErr, l\<lparr>fiFile := None\<rparr>))))"

lemma createExclusive_cases:
  assumes "createExclusive p w = (r, w')"
  shows "map_of (ents w) p \<noteq> None \<Longrightarrow> \<exists>e. r = Inl e" "r = Inl e \<Longrightarrow> ents w' = ents w \<and> at_start w w'"
    "r = Inr f \<Longrightarrow> f = (p, fresh_ino w) \<and> map_of (ents w) p = None \<and> p \<notin> set (dirs w) \<and> ents w' = AList.update p (fresh_ino w) (ents w)
       \<and> dirs w' = dirs w"
  using assms
  by (auto simp: createExclusive_def syscall_def Let_def fresh_ino_def at_start_def split: list.splits option.splits if_splits)

end
