(* ===== verification/LockProperties.thy ===== *)
theory LockProperties imports LockVariants
begin

text \<open>The properties of the two other writer locks.\<close>

text \<open>
  C10. With record locks, too, a store has at most one writer. Whatever the processes of a host do, in any
  order and with any failures, no two open locks are of one store, neither in two processes nor
  within one, where the system would grant the second; and a process that asks for a store that is
  open somewhere is refused and leaves every open lock as it is, its own included, which closing
  a second descriptor would have dropped.
\<close>

theorem fcntl_one_writer:
  assumes "fhost_reachable s"
  shows "distinct (map (fkPath \<circ> snd) (fhOpen s))
     \<and> (\<forall>(h, k) \<in> set (fhOpen s). map_of (flocks (fhWorld s)) (fkPath k) = Some h
          \<and> (\<forall>me pid dir r table w'. acquireFcntlLock me pid dir (fhTable s me) (fhWorld s) = ((r, table), w') \<longrightarrow>
               map_of (flocks w') (fkPath k) = Some h \<and> (lockPath dir = fkPath k \<longrightarrow> (\<exists>e. r = Inl e))))"
proof -
  have i: "fhost_inv s" by (rule fhost_reachable_inv [OF assms])
  have "\<exists>e. r = Inl e" if k: "(h, k) \<in> set (fhOpen s)" "lockPath dir = fkPath k"
      and run: "acquireFcntlLock me pid dir (fhTable s me) (fhWorld s) = ((r, table), w')" for h k me pid dir r table w'
  proof (cases r)
    case (Inr l)
    then show ?thesis using asking_keeps_open(3) [OF i k(1) run Inr] acquireFcntl_cases(5) [OF run Inr] k(2) by simp
  qed simp
  note refused = this
  show ?thesis
  proof (intro conjI ballI)
    show "distinct (map (fkPath \<circ> snd) (fhOpen s))" using i by (simp add: fhost_inv_def)
    fix x assume x: "x \<in> set (fhOpen s)"
    obtain h k where e: "x = (h, k)" by (cases x)
    show "case x of (h, k) \<Rightarrow> map_of (flocks (fhWorld s)) (fkPath k) = Some h
          \<and> (\<forall>me pid dir r table w'. acquireFcntlLock me pid dir (fhTable s me) (fhWorld s) = ((r, table), w') \<longrightarrow>
               map_of (flocks w') (fkPath k) = Some h \<and> (lockPath dir = fkPath k \<longrightarrow> (\<exists>e. r = Inl e)))"
      unfolding e prod.case
      using fhost_inv_facts(2) [OF i x [unfolded e]] asking_keeps_open(1) [OF i x [unfolded e]] refused [OF x [unfolded e]] by blast
  qed
qed

text \<open>A host on which process 1 has opened the store, and asks again, as process 2 does.\<close>

definition lock_world :: world where
  "lock_world = \<lparr>dirs = [[], [''db'']], ents = [], dents = [], dlog = [],
     inodes = (\<lambda>_. \<lparr>idata = [], isynced = False, imode = 0\<rparr>), faults = [], wall = 0,
     entropy = (\<lambda>_. CHR ''x''), drawn = 0, environ = Map.empty, flocks = [], next_fd = 3\<rparr>"

definition lock_host :: "fhost" where
  "lock_host = \<lparr>fhWorld = lock_world, fhTable = (\<lambda>_. []), fhOpen = []\<rparr>"

lemma fcntl_one_writer_witness:
  "\<exists>(s :: fhost) l e1 e2 t1 t2 w1 w2. fhOpen s = [(1, l)] \<and> fkPath l = lockPath [''db''] \<and> map_of (flocks (fhWorld s)) (fkPath l) = Some 1
     \<and> acquireFcntlLock 1 ''1'' [''db''] (fhTable s 1) (fhWorld s) = ((Inl e1, t1), w1)
     \<and> acquireFcntlLock 2 ''2'' [''db''] (fhTable s 2) (fhWorld s) = ((Inl e2, t2), w2)"
proof -
  obtain l table w where a: "acquireFcntlLock 1 ''1'' [''db''] (fhTable lock_host 1) (fhWorld lock_host) = ((Inr l, table), w)"
    by (simp add: acquireFcntlLock_def lock_host_def lock_world_def evalSymlinks_def lockRecordFile_def io_defs Let_def
        openLockFile_def lockPath_def fcntlSetLock_def syscall_def fileTruncate_def fileWrite_def fileSync_def set_inode_def)
  define s where "s = lock_host\<lparr>fhWorld := w, fhTable := (fhTable lock_host)(1 := table), fhOpen := (1, l) # fhOpen lock_host\<rparr>"
  have "fhost_reachable lock_host" by (rule fhost_reachable.start) (simp_all add: lock_host_def lock_world_def)
  then have r: "fhost_reachable s"
    unfolding s_def by (rule fhost_reachable.step [OF _ fhost_step.acquired [OF a]])
  have o: "fhOpen s = [(1, l)]" by (simp add: s_def lock_host_def)
  have p: "fkPath l = lockPath [''db'']" using acquireFcntl_cases(5) [OF a refl] by simp
  have m: "(1, l) \<in> set (fhOpen s)" using o by simp
  note t = conjunct2 [OF fcntl_one_writer [OF r], rule_format, OF m, unfolded prod.case]
  obtain r1 t1 w1 where q1: "acquireFcntlLock 1 ''1'' [''db''] (fhTable s 1) (fhWorld s) = ((r1, t1), w1)" by (metis prod.collapse)
  obtain r2 t2 w2 where q2: "acquireFcntlLock 2 ''2'' [''db''] (fhTable s 2) (fhWorld s) = ((r2, t2), w2)" by (metis prod.collapse)
  have "\<exists>e. r1 = Inl e" "\<exists>e. r2 = Inl e" using t q1 q2 p by metis+
  then obtain e1 e2 where e: "r1 = Inl e1" "r2 = Inl e2" by blast
  show ?thesis
    by (rule exI [of _ s], rule exI [of _ l], rule exI [of _ e1], rule exI [of _ e2], rule exI [of _ t1], rule exI [of _ t2],
        rule exI [of _ w1], rule exI [of _ w2]) (use o p t q1 q2 e in simp)
qed

text \<open>
  Where no lock of the system is used, the lock file itself excludes. Once the lock is acquired the file
  is there, and as long as it is, live, every attempt to acquire fails and changes nothing,
  whoever makes it; a close that succeeds takes the file away, and then, when no call fails,
  the store can be opened again. (After a crash the file may be left over: then it has to be
  removed by hand, as the documentation says.)
\<close>

theorem lock_file_excludes:
  assumes "acquireFileLock dir w = (Inr l, w1)"
  shows "map_of (ents w) (lockPath dir) = None \<and> map_of (ents w1) (lockPath dir) \<noteq> None
     \<and> (\<forall>v r v'. map_of (ents v) (lockPath dir) \<noteq> None \<longrightarrow> acquireFileLock dir v = (r, v') \<longrightarrow> (\<exists>e. r = Inl e) \<and> at_start v v')
     \<and> (\<forall>v l' v'. closeFileLock l v = (Inr (Inr (), l'), v') \<longrightarrow> map_of (ents v') (lockPath dir) = None
          \<and> (faults v' = [] \<and> dir \<in> set (dirs v') \<and> lockPath dir \<notin> set (dirs v') \<longrightarrow> (\<exists>k v''. acquireFileLock dir v' = (Inr k, v''))))"
proof -
  let ?p = "lockPath dir"
  obtain f where f: "createExclusive ?p w = (Inr f, w1)" "l = \<lparr>fiFile = Some f, fiPath = ?p\<rparr>"
    using assms by (cases "createExclusive ?p w" rule: prod.exhaust, cases "fst (createExclusive ?p w)")
      (auto simp: acquireFileLock_def io_iffs io_try_def Let_def split: sum.splits if_splits)
  note c = createExclusive_cases(3) [OF f(1) refl]
  have busy: "(\<exists>e. r = Inl e) \<and> at_start v v'" if v: "map_of (ents v) ?p \<noteq> None" and run: "acquireFileLock dir v = (r, v')" for v r v'
  proof -
    obtain x v1 where x: "createExclusive ?p v = (x, v1)" by (cases "createExclusive ?p v")
    have "\<exists>e. x = Inl e" by (rule createExclusive_cases(1) [OF x v])
    then obtain e where e: "x = Inl e" by blast
    have "v' = v1" "\<exists>e. r = Inl e" using run x e by (auto simp: acquireFileLock_def io_defs Let_def split: if_splits)
    then show ?thesis using createExclusive_cases(2) [OF x e] by simp
  qed
  have gone: "map_of (ents v') ?p = None" if "closeFileLock l v = (Inr (Inr (), l'), v')" for v l' v'
    using that f(2) by (auto simp: closeFileLock_def io_iffs io_try_def osRemove_def syscall_def map_of_delete
        split: prod.splits sum.splits list.splits option.splits)
  have again: "\<exists>k v''. acquireFileLock dir v' = (Inr k, v'')"
    if "map_of (ents v') ?p = None" "faults v' = []" "dir \<in> set (dirs v')" "?p \<notin> set (dirs v')" for v'
  proof -
    have "butlast ?p = dir" by (simp add: lockPath_def)
    then show ?thesis using that by (simp add: acquireFileLock_def createExclusive_def syscall_no_fault io_defs Let_def)
  qed
  show ?thesis using c busy gone again by (auto simp: map_of_update)
qed

lemma lock_file_excludes_witness:
  "\<exists>l w1 e v. acquireFileLock [''db''] lock_world = (Inr l, w1) \<and> acquireFileLock [''db''] w1 = (Inl e, v) \<and> at_start w1 v"
proof -
  obtain l w1 where a: "acquireFileLock [''db''] lock_world = (Inr l, w1)"
    by (simp add: acquireFileLock_def createExclusive_def lock_world_def lockPath_def syscall_def io_defs Let_def)
  obtain r v where v: "acquireFileLock [''db''] w1 = (r, v)" by (cases "acquireFileLock [''db''] w1")
  show ?thesis using lock_file_excludes [OF a] a v by metis
qed

end
