(* ===== verification/AuthCorrect.thy ===== *)
theory AuthCorrect
  imports Auth
begin

text \<open>
  What adding and revoking a token do to the auth file: the credentials that the next load
  gives, one by one.
\<close>

subsection \<open>The auth file\<close>

interpretation af: atomic_replace "\<lambda>p b. replaceFile authTmp p b 0x180" "tmp_of authTmp"
  by (rule atomic_replace_replaceFile)

definition auth_path_ok :: "string \<Rightarrow> world \<Rightarrow> bool" where
  "auth_path_ok p w \<longleftrightarrow> toPath p \<notin> set (dirs w) \<and> \<not> hasPrefix (last (toPath p)) authTmp"

lemma writeCredentialFile_restarts:
  assumes pk: "auth_path_ok p w" and run: "writeCredentialFile A p rs w = (Inr u, w')" and v: "restarts w' v"
  obtains b where "json_creds A rs = Some b" "readFile (toPath p) v = (Inr (b @ [CHR 0x0A]), v)"
proof -
  obtain b where b: "json_creds A rs = Some b"
    and r: "replaceFile authTmp (toPath p) (b @ [CHR 0x0A]) 0x180 w = (Inr u, w')"
    using run by (auto simp: writeCredentialFile_def split: option.splits)
  have ne: "toPath p \<noteq> tmp_of authTmp w (toPath p)"
    using pk not_tmp_path [of "toPath p" authTmp w "butlast (toPath p)"]
    by (auto simp: auth_path_ok_def tmp_of_def)
  have d: "durable w' (toPath p) (b @ [CHR 0x0A])" using af.put_durable [OF ne r] .
  have "dirs w' = dirs w" using af.put_env [OF ne r] by (simp add: same_env_def)
  moreover have "fcontent v (toPath p) = Some (b @ [CHR 0x0A])" "dirs v = dirs w'" "faults v = []"
    using restarts_durable [OF v d] v by (auto simp: restarts_def)
  ultimately have "readFile (toPath p) v = (Inr (b @ [CHR 0x0A]), v)"
    using pk by (simp add: readFile_no_fault auth_path_ok_def)
  then show thesis using that b by blast
qed

subsection \<open>Two readers, one file\<close>

lemma readAuthFile_Inr: "readAuthFile p w = (Inr raw, w') \<Longrightarrow> fcontent w (toPath p) = Some raw \<and> at_start w w'"
proof -
  assume r: "readAuthFile p w = (Inr raw, w')"
  obtain x w1 where x: "readFile (toPath p) w = (x, w1)" by (cases "readFile (toPath p) w")
  then have "x = Inr raw" "w1 = w'"
    using r by (cases x; simp add: readAuthFile_def io_defs)+
  then show ?thesis using readFile_Inr [of "toPath p" w raw w'] reads_run [OF reads_basic(4) x] x by simp
qed

lemma LoadAuthenticator_Inr:
  assumes "LoadAuthenticator A p w = (Inr creds, w')"
  obtains raw rs where "fcontent w (toPath p) = Some raw" "dec_creds A raw = Some (rs, True)" "rs \<noteq> []"
    "loadTokens [] [] rs = Inr creds" "at_start w w'"
proof -
  obtain raw w1 where raw: "readAuthFile p w = (Inr raw, w1)"
    and d: "(case dec_creds A raw of None \<Rightarrow> io_fail (Wrapped ''decode auth file: %w'' [] (GoError ''json'' []))
       | Some (rs, atEOF) \<Rightarrow> if length rs = 0 then io_fail no_token_error
           else io_bind (io_lift (loadTokens [] [] rs)) (\<lambda>creds.
             if \<not> atEOF then io_fail one_object_error else io_ret creds)) w1 = (Inr creds, w')"
    using assms unfolding LoadAuthenticator_def io_bind_Inr_iff by blast
  then show thesis
    using that readAuthFile_Inr [OF raw] by (auto simp: io_iffs split: option.splits if_splits)
qed

lemma loadCredentialFile_Inr:
  assumes "loadCredentialFile A p w = (Inr rs, w')"
  shows "\<exists>raw. fcontent w (toPath p) = Some raw \<and> dec_creds A raw = Some (rs, True) \<and> rs \<noteq> [] \<and> at_start w w'"
proof -
  obtain raw w1 where raw: "readAuthFile p w = (Inr raw, w1)"
    and d: "(case dec_creds A raw of None \<Rightarrow> io_fail (Wrapped ''decode auth file: %w'' [] (GoError ''json'' []))
       | Some (rs, atEOF) \<Rightarrow> if \<not> atEOF then io_fail one_object_error
           else if length rs = 0 then io_fail no_token_error else io_ret rs) w1 = (Inr rs, w')"
    using assms unfolding loadCredentialFile_def io_bind_Inr_iff by blast
  then show ?thesis
    using readAuthFile_Inr [OF raw] by (auto split: option.splits if_splits)
qed

text \<open>Both readers of \<^verbatim>\<open>AddToken\<close> and \<^verbatim>\<open>RevokeToken\<close> see the same records.\<close>

lemma load_twice:
  assumes "LoadAuthenticator A p w = (Inr creds, w1)" "loadCredentialFile A p w1 = (Inr rs, w2)"
  shows "loadTokens [] [] rs = Inr creds \<and> rs \<noteq> [] \<and> at_start w w2
    \<and> (\<exists>raw. dec_creds A raw = Some (rs, True))"
proof -
  obtain raw rs1 where a: "fcontent w (toPath p) = Some raw" "dec_creds A raw = Some (rs1, True)"
      "loadTokens [] [] rs1 = Inr creds" "at_start w w1"
    using LoadAuthenticator_Inr [OF assms(1)] by metis
  obtain raw2 where b: "fcontent w1 (toPath p) = Some raw2" "dec_creds A raw2 = Some (rs, True)" "rs \<noteq> []" "at_start w1 w2"
    using loadCredentialFile_Inr [OF assms(2)] by blast
  have "raw2 = raw" using a(1) b(1) at_start_fcontent [OF a(4)] by simp
  then show ?thesis using a b at_start_trans by auto
qed

subsection \<open>What a rewritten file means\<close>

text \<open>The credential that is left of one whose record was written again.\<close>

definition omit_cred :: "credential \<Rightarrow> credential" where
  "omit_cred c = c\<lparr>cdPrincipal := (cdPrincipal c)\<lparr>prAllow := map_option omit_allow (prAllow (cdPrincipal c))\<rparr>\<rparr>"

lemma omit_cred_views [simp]: "cdID (omit_cred c) = cdID c" "cdDigest (omit_cred c) = cdDigest c"
  "cdNotAfter (omit_cred c) = cdNotAfter c" "map cdID (map omit_cred cs) = map cdID cs"
  "map cdDigest (map omit_cred cs) = map cdDigest cs"
  by (simp_all add: omit_cred_def cdID_def comp_def)

lemma validateOpt_omit: "validateOpt at ck xs = Inr ys \<Longrightarrow> validateOpt at ck (omit_list xs) = Inr (omit_list ys)"
proof -
  assume v: "validateOpt at ck xs = Inr ys"
  show ?thesis
  proof (cases xs)
    case None
    then show ?thesis using v by (auto simp: validateOpt_def omit_list_def)
  next
    case (Some ps)
    then obtain qs where q: "validateList at ck [] ps = Inr qs" "ys = Some qs"
      using v by (auto simp: validateOpt_def bindE_Inr_iff)
    have "qs = map trimSpace ps" using validateList_Inr [OF q(1)] by simp
    then show ?thesis using q Some by (cases ps) (auto simp: validateOpt_def omit_list_def)
  qed
qed

lemma validateAllow_omit:
  assumes "validateAllow a = Inr b"
  shows "validateAllow (map_option omit_allow a) = Inr (map_option omit_allow b)"
proof (cases a)
  case None
  then show ?thesis using assms by (simp add: validateAllow_def)
next
  case (Some al)
  obtain nss ts cs rs where t: "validateTypes [] [] (alTypes al) = Inr (ts, nss)" "length nss \<le> 1"
    and n: "\<not> (alCommands al \<noteq> None \<and> length (alTypes al) = 0)"
    and c: "validateOpt ''allow.commands'' validateCommand (alCommands al) = Inr cs"
    and r: "validateOpt ''allow.refs'' validateRefPattern (alRefs al) = Inr rs"
    and b: "b = Some \<lparr>alTypes = ts, alCommands = cs, alRefs = rs\<rparr>"
    using assms Some by (auto simp: validateAllow_def bindE_Inr_iff split: if_splits)
  have "\<not> (omit_list (alCommands al) \<noteq> None \<and> length (alTypes al) = 0)" using n by (auto simp: omit_list_def)
  then show ?thesis
    using t validateOpt_omit [OF c] validateOpt_omit [OF r]
    by (auto simp: Some b validateAllow_def omit_allow_def bindE_def)
qed

lemma convert_written: "convert r = Some c \<Longrightarrow> convert (written r) = Some (omit_cred c)"
  by (auto simp: convert_def written_def omit_cred_def validateAllow_omit
      split: if_splits sum.splits option.splits)


lemma loadTokens_written:
  assumes "loadTokens [] [] rs = Inr cs"
  shows "loadTokens [] [] (map written rs) = Inr (map omit_cred cs)"
proof -
  have "list_all2 (\<lambda>r c. convert r = Some c) rs cs" using assms by (simp add: loadTokens_iff)
  then have "list_all2 (\<lambda>r c. convert r = Some c) (map written rs) (map omit_cred cs)"
    by (simp add: list_all2_map1 list_all2_map2) (auto elim: list_all2_mono intro: convert_written)
  then show ?thesis using assms by (simp add: loadTokens_iff comp_def)
qed

text \<open>After a successful write the next load gives the credentials of the records written.\<close>

lemma rewritten_file:
  assumes ok: "authlib_ok A" and pk: "auth_path_ok p w" and u: "list_all utf8_record rs" and ne: "rs \<noteq> []"
    and l: "loadTokens [] [] rs = Inr cs" and run: "writeCredentialFile A p rs w = (Inr u, w')" and v: "restarts w' v"
  shows "LoadAuthenticator A p v = (Inr (map omit_cred cs), v)"
proof -
  obtain b where b: "json_creds A rs = Some b" "readFile (toPath p) v = (Inr (b @ [CHR 0x0A]), v)"
    by (rule writeCredentialFile_restarts [OF pk run v])
  have "dec_creds A (b @ [CHR 0x0A]) = Some (map written rs, True)"
    using ok u b(1) by (auto simp: authlib_ok_def)
  then show ?thesis
    using b(2) ne loadTokens_written [OF l]
    by (simp add: LoadAuthenticator_def readAuthFile_def io_defs)
qed

lemma at_start_wall: "at_start w w' \<Longrightarrow> wall w' = wall w"
  by (auto simp: at_start_def dest: arg_cong [where f = wall])

lemma AddToken_Inr:
  assumes "AddToken A p id0 role token na allow0 w = (Inr u, w')"
  obtains rs cs parsed allow w1 where "loadTokens [] [] rs = Inr cs" "rs \<noteq> []" "at_start w w1"
    "\<exists>raw. dec_creds A raw = Some (rs, True)" "fst (LoadAuthenticator A p w) = Inr cs"
    "validCredentialID (trimSpace id0)" "parseRole role = Inr parsed" "validateAllow allow0 = Inr allow"
    "32 \<le> length token" "length token \<le> 512" "\<forall>t. na = Some t \<longrightarrow> wall w < t"
    "trimSpace id0 \<notin> (\<lambda>r. trimSpace (crID r)) ` set rs"
    "\<forall>r \<in> set rs. \<not> equalFold (trimSpace (crSHA256 r)) (hex_encode (au_sha256 A token))"
    "writeCredentialFile A p (rs @ [\<lparr>crID = trimSpace id0, crRole = roleString parsed,
        crSHA256 = hex_encode (au_sha256 A token), crNotAfter = na, crAllow = allow\<rparr>]) w1 = (Inr u, w')"
proof -
  obtain cs w1 rs w2 parsed now w3 allow where
    l: "LoadAuthenticator A p w = (Inr cs, w1)" "loadCredentialFile A p w1 = (Inr rs, w2)"
    and c: "validCredentialID (trimSpace id0)" "parseRole role = Inr parsed" "validateAllow allow0 = Inr allow"
      "\<not> (length token < 32 \<or> length token > 512)" "\<not> (na \<noteq> None \<and> \<not> the na > now)"
      "\<not> list_ex (\<lambda>r. trimSpace (crID r) = trimSpace id0) rs"
      "\<not> list_ex (\<lambda>r. equalFold (trimSpace (crSHA256 r)) (hex_encode (au_sha256 A token))) rs"
    and n: "readClock w2 = (Inr now, w3)"
    and wr: "writeCredentialFile A p (rs @ [\<lparr>crID = trimSpace id0, crRole = roleString parsed,
        crSHA256 = hex_encode (au_sha256 A token), crNotAfter = na, crAllow = allow\<rparr>]) w3 = (Inr u, w')"
    using assms by (auto simp: AddToken_def io_iffs Let_def split: if_splits)
  note t = load_twice [OF l]
  have w3: "w3 = w2" "now = wall w2" using n by (auto simp: readClock_def)
  have w2: "wall w2 = wall w" using t at_start_wall by blast
  show thesis
    by (rule that [of rs cs w2 parsed allow]) (use t c wr w2 w3 l in \<open>auto simp: list_ex_iff\<close>)
qed

lemma RevokeToken_Inr:
  assumes "RevokeToken A p id0 w = (Inr u, w')"
  obtains rs cs w1 where "loadTokens [] [] rs = Inr cs" "at_start w w1"
    "\<exists>raw. dec_creds A raw = Some (rs, True)" "fst (LoadAuthenticator A p w) = Inr cs"
    "trimSpace id0 \<in> (\<lambda>r. trimSpace (crID r)) ` set rs"
    "\<exists>r \<in> set rs. trimSpace (crID r) \<noteq> trimSpace id0 \<and> recordActive (wall w) r"
    "writeCredentialFile A p (filter (\<lambda>r. trimSpace (crID r) \<noteq> trimSpace id0) rs) w1 = (Inr u, w')"
proof -
  obtain cs w1 rs w2 now w3 where
    l: "LoadAuthenticator A p w = (Inr cs, w1)" "loadCredentialFile A p w1 = (Inr rs, w2)"
    and c: "list_ex (\<lambda>r. trimSpace (crID r) = trimSpace id0) rs"
      "list_ex (recordActive now) (filter (\<lambda>r. trimSpace (crID r) \<noteq> trimSpace id0) rs)"
    and n: "readClock w2 = (Inr now, w3)"
    and wr: "writeCredentialFile A p (filter (\<lambda>r. trimSpace (crID r) \<noteq> trimSpace id0) rs) w3 = (Inr u, w')"
    using assms by (auto simp: RevokeToken_def io_iffs Let_def split: if_splits)
  note t = load_twice [OF l]
  have w3: "w3 = w2" "now = wall w2" using n by (auto simp: readClock_def)
  have w2: "wall w2 = wall w" using t at_start_wall by blast
  show thesis
    by (rule that [of rs cs w2]) (use t c wr w2 w3 l in \<open>auto simp: list_ex_iff intro: rev_image_eqI\<close>)
qed

subsection \<open>The new record\<close>

lemma validateList_id:
  "distinct ps \<Longrightarrow> set ps \<inter> set seen = {} \<Longrightarrow> (\<forall>p \<in> set ps. trimSpace p = p \<and> ck p = Inr ()) \<Longrightarrow>
   validateList at ck seen ps = Inr ps"
  by (induction ps arbitrary: seen) (auto simp: Let_def bindE_def)

lemma validateOpt_idem: "validateOpt at ck xs = Inr ys \<Longrightarrow> validateOpt at ck ys = Inr ys"
proof -
  assume v: "validateOpt at ck xs = Inr ys"
  show ?thesis
  proof (cases xs)
    case None
    then show ?thesis using v by (simp add: validateOpt_def)
  next
    case (Some ps)
    then obtain qs where q: "validateList at ck [] ps = Inr qs" "ys = Some qs"
      using v by (auto simp: validateOpt_def bindE_Inr_iff)
    have "validateList at ck [] qs = Inr qs"
      using validateList_Inr [OF q(1)] by (intro validateList_id) auto
    then show ?thesis by (simp add: q(2) validateOpt_def bindE_def)
  qed
qed

lemma validateTypes_idem:
  "validateTypes seen nss raws = Inr (ps, nss') \<Longrightarrow> validateTypes seen nss ps = Inr (ps, nss')"
proof (induction seen nss raws arbitrary: ps nss' rule: validateTypes.induct)
  case (1 seen nss)
  then show ?case by simp
next
  case (2 seen nss raw raws)
  let ?p = "trimSpace raw"
  obtain ns qs where v: "validateTypePattern ?p = Inr ()" and nd: "?p \<notin> set seen" and n: "namespaceOf ?p = Inr ns"
    and rec: "validateTypes (?p # seen) (List.insert ns nss) raws = Inr (qs, nss')" and ps: "ps = ?p # qs"
    using "2.prems" by (auto simp: Let_def bindE_Inr_iff split: sum.splits if_splits)
  have "validateTypes (?p # seen) (List.insert ns nss) qs = Inr (qs, nss')"
    using "2.IH" [OF refl v nd n rec] .
  then show ?case using v nd n by (simp add: ps Let_def bindE_def)
qed

lemma validateAllow_idem: "validateAllow a = Inr b \<Longrightarrow> validateAllow b = Inr b"
proof -
  assume v: "validateAllow a = Inr b"
  show ?thesis
  proof (cases a)
    case None
    then show ?thesis using v by (simp add: validateAllow_def)
  next
    case (Some al)
    obtain nss ts cs rs where t: "validateTypes [] [] (alTypes al) = Inr (ts, nss)" "length nss \<le> 1"
      and n: "\<not> (alCommands al \<noteq> None \<and> length (alTypes al) = 0)"
      and c: "validateOpt ''allow.commands'' validateCommand (alCommands al) = Inr cs"
      and r: "validateOpt ''allow.refs'' validateRefPattern (alRefs al) = Inr rs"
      and b: "b = Some \<lparr>alTypes = ts, alCommands = cs, alRefs = rs\<rparr>"
      using v Some by (auto simp: validateAllow_def bindE_Inr_iff split: if_splits)
    have "ts = map trimSpace (alTypes al)" using validateTypes_Inr [OF t(1)] by simp
    moreover have "cs = None \<longleftrightarrow> alCommands al = None"
      using c by (auto simp: validateOpt_def bindE_Inr_iff split: option.splits)
    ultimately have "\<not> (cs \<noteq> None \<and> length ts = 0)" using n by auto
    then show ?thesis
      using validateTypes_idem [OF t(1)] t(2) validateOpt_idem [OF c] validateOpt_idem [OF r]
      by (auto simp: b validateAllow_def bindE_def)
  qed
qed

lemma validCredentialID_trim: "validCredentialID i \<Longrightarrow> trimSpace i = i \<and> utf8_valid i"
proof -
  assume v: "validCredentialID i"
  then have ne: "i \<noteq> []" and l: "list_all id_char i" by (auto simp: validCredentialID_def split: if_splits)
  have "id_char c \<Longrightarrow> printable c" for c
    by (auto simp: id_char_def alnum_def upper_az_def lower_az_def digit09_def in_range_def printable_def)
  then have "list_all printable i" using l by (auto simp: list_all_iff)
  then show ?thesis using trimSpace_printable [OF ne] utf8_valid_printable by blast
qed

lemma parseRole_not_none: "parseRole s = Inr r \<Longrightarrow> r \<noteq> RoleNone"
  by (auto simp: parseRole_def Let_def split: if_splits)


text \<open>The credential that a new token has in memory.\<close>

definition added_cred :: "authlib \<Rightarrow> string \<Rightarrow> Role \<Rightarrow> string \<Rightarrow> time option \<Rightarrow> Allow option \<Rightarrow> credential" where
  "added_cred A i role token na allow =
     \<lparr>cdPrincipal = \<lparr>prID = trimSpace i, prRole = role, prAllow = allow\<rparr>,
      cdDigest = au_sha256 A token, cdNotAfter = na\<rparr>"

lemma hex_plain: "trimSpace (hex_encode b) = hex_encode b" "utf8_valid (hex_encode b)"
proof -
  show "utf8_valid (hex_encode b)" using utf8_valid_printable [OF hex_encode_printable] .
  show "trimSpace (hex_encode b) = hex_encode b"
  proof (cases b)
    case Nil
    then show ?thesis by (simp add: hex_encode_def)
  next
    case (Cons x xs)
    then have "hex_encode b \<noteq> []" using length_hex_encode [of b] by (metis length_0_conv list.distinct(1) mult_eq_0_iff zero_neq_numeral)
    then show ?thesis using trimSpace_printable hex_encode_printable by blast
  qed
qed

lemma roleString_plain: "utf8_valid (roleString r)"
  by (cases r) (auto simp: roleString_def intro!: utf8_valid_printable simp: printable_def)

lemma convert_added:
  assumes "authlib_ok A" "validCredentialID (trimSpace i)" "parseRole s = Inr role" "validateAllow allow0 = Inr allow"
  shows "convert \<lparr>crID = trimSpace i, crRole = roleString role, crSHA256 = hex_encode (au_sha256 A token),
      crNotAfter = na, crAllow = allow\<rparr> = Some (added_cred A i role token na allow)"
  using assms parseRole_roleString [OF parseRole_not_none [OF assms(3)]] validateAllow_idem [OF assms(4)]
  by (simp add: convert_def added_cred_def hex_plain authlib_ok_def)

text \<open>
  The file after a token was added: the credentials there were, as \<open>omit_cred\<close> leaves them, and
  the new one.
\<close>

lemma AddToken_reload:
  assumes ok: "authlib_ok A" and pk: "auth_path_ok p w" and u: "\<And>allow. validateAllow allow0 = Inr allow \<Longrightarrow> utf8_allow allow"
    and run: "AddToken A p id0 role token na allow0 w = (Inr u0, w')" and v: "restarts w' v"
  obtains cs r allow where "fst (LoadAuthenticator A p w) = Inr cs" "parseRole role = Inr r"
    "validateAllow allow0 = Inr allow" "32 \<le> length token" "length token \<le> 512"
    "trimSpace id0 \<notin> cdID ` set cs" "au_sha256 A token \<notin> cdDigest ` set cs" "distinct (map cdDigest cs)"
    "LoadAuthenticator A p v = (Inr (map omit_cred (cs @ [added_cred A id0 r token na allow])), v)"
proof -
  obtain rs cs r allow w1 where l: "loadTokens [] [] rs = Inr cs" "rs \<noteq> []" "at_start w w1"
    and raw: "\<exists>raw. dec_creds A raw = Some (rs, True)" and la: "fst (LoadAuthenticator A p w) = Inr cs"
    and c: "validCredentialID (trimSpace id0)" "parseRole role = Inr r" "validateAllow allow0 = Inr allow"
    and len: "32 \<le> length token" "length token \<le> 512"
    and id: "trimSpace id0 \<notin> (\<lambda>r. trimSpace (crID r)) ` set rs"
    and dg: "\<forall>r \<in> set rs. \<not> equalFold (trimSpace (crSHA256 r)) (hex_encode (au_sha256 A token))"
    and wr: "writeCredentialFile A p (rs @ [\<lparr>crID = trimSpace id0, crRole = roleString r,
        crSHA256 = hex_encode (au_sha256 A token), crNotAfter = na, crAllow = allow\<rparr>]) w1 = (Inr u0, w')"
    by (rule AddToken_Inr [OF run]) blast
  let ?n = "\<lparr>crID = trimSpace id0, crRole = roleString r, crSHA256 = hex_encode (au_sha256 A token),
      crNotAfter = na, crAllow = allow\<rparr>" and ?c = "added_cred A id0 r token na allow"
  have a2: "list_all2 (\<lambda>r c. convert r = Some c) rs cs" and d: "distinct (map cdID cs)" "distinct (map cdDigest cs)"
    using l(1) by (simp_all add: loadTokens_iff)
  have rc: "\<exists>x \<in> set rs. convert x = Some c" if cc: "c \<in> set cs" for c
  proof -
    obtain i where i: "i < length cs" "c = cs ! i" using cc by (auto simp: in_set_conv_nth)
    then have "convert (rs ! i) = Some c" "rs ! i \<in> set rs" using a2 by (auto simp: list_all2_conv_all_nth)
    then show ?thesis by blast
  qed
  have nid: "trimSpace id0 \<notin> cdID ` set cs"
    using rc id by (force dest: convert_Some)
  have ndg: "au_sha256 A token \<notin> cdDigest ` set cs"
  proof
    assume "au_sha256 A token \<in> cdDigest ` set cs"
    then obtain c where c: "c \<in> set cs" "cdDigest c = au_sha256 A token" by auto
    then obtain x where x: "x \<in> set rs" "convert x = Some c" using rc by blast
    have "hex_decode (trimSpace (crSHA256 x)) = Some (au_sha256 A token)"
      using convert_Some [OF x(2)] c(2) by simp
    then show False using dg x(1) hex_decode_equalFold by fastforce
  qed
  have "loadTokens [] [] (rs @ [?n]) = Inr (cs @ [?c])"
    using a2 d nid ndg convert_added [OF ok c(1-3)]
    by (auto simp: loadTokens_iff list_all2_appendI added_cred_def cdID_def)
  moreover have "list_all utf8_record (rs @ [?n])"
  proof -
    have "list_all utf8_record rs" using ok raw by (auto simp: authlib_ok_def)
    moreover have "utf8_allow allow" using u c(3) by simp
    ultimately show ?thesis using validCredentialID_trim [OF c(1)] by (simp add: utf8_record_def hex_plain roleString_plain)
  qed
  moreover have "auth_path_ok p w1" using pk at_start_views(5) [OF l(3)] by (simp add: auth_path_ok_def)
  ultimately have "LoadAuthenticator A p v = (Inr (map omit_cred (cs @ [?c])), v)"
    using rewritten_file [OF ok _ _ _ _ wr v] by blast
  then show thesis using that la c len nid ndg d by blast
qed


lemma list_all2_filter_cong:
  "list_all2 R xs ys \<Longrightarrow> (\<And>x y. R x y \<Longrightarrow> P x = Q y) \<Longrightarrow> list_all2 R (filter P xs) (filter Q ys)"
  by (induction rule: list_all2_induct) auto

lemma RevokeToken_reload:
  assumes ok: "authlib_ok A" and pk: "auth_path_ok p w"
    and run: "RevokeToken A p id0 w = (Inr u0, w')" and v: "restarts w' v"
  obtains cs where "fst (LoadAuthenticator A p w) = Inr cs" "trimSpace id0 \<in> cdID ` set cs"
    "\<exists>c \<in> set cs. cdID c \<noteq> trimSpace id0 \<and> active_at (wall w) c" "distinct (map cdDigest cs)"
    "LoadAuthenticator A p v = (Inr (map omit_cred (filter (\<lambda>c. cdID c \<noteq> trimSpace id0) cs)), v)"
proof -
  let ?i = "trimSpace id0"
  obtain rs cs w1 where l: "loadTokens [] [] rs = Inr cs" "at_start w w1"
    and raw: "\<exists>raw. dec_creds A raw = Some (rs, True)" and la: "fst (LoadAuthenticator A p w) = Inr cs"
    and id: "?i \<in> (\<lambda>r. trimSpace (crID r)) ` set rs"
    and act: "\<exists>r \<in> set rs. trimSpace (crID r) \<noteq> ?i \<and> recordActive (wall w) r"
    and wr: "writeCredentialFile A p (filter (\<lambda>r. trimSpace (crID r) \<noteq> ?i) rs) w1 = (Inr u0, w')"
    by (rule RevokeToken_Inr [OF run]) blast
  have a2: "list_all2 (\<lambda>r c. convert r = Some c) rs cs" and d: "distinct (map cdID cs)" "distinct (map cdDigest cs)"
    using l(1) by (simp_all add: loadTokens_iff)
  have cr: "\<exists>c \<in> set cs. convert r = Some c" if rr: "r \<in> set rs" for r
  proof -
    obtain i where i: "i < length rs" "r = rs ! i" using rr by (auto simp: in_set_conv_nth)
    then have "convert r = Some (cs ! i)" "cs ! i \<in> set cs" using a2 by (auto simp: list_all2_conv_all_nth)
    then show ?thesis by blast
  qed
  have f2: "list_all2 (\<lambda>r c. convert r = Some c) (filter (\<lambda>r. trimSpace (crID r) \<noteq> ?i) rs) (filter (\<lambda>c. cdID c \<noteq> ?i) cs)"
    using a2 by (rule list_all2_filter_cong) (auto dest: convert_Some)
  then have "loadTokens [] [] (filter (\<lambda>r. trimSpace (crID r) \<noteq> ?i) rs) = Inr (filter (\<lambda>c. cdID c \<noteq> ?i) cs)"
    using d by (simp add: loadTokens_iff distinct_map_filter)
  moreover have "list_all utf8_record (filter (\<lambda>r. trimSpace (crID r) \<noteq> ?i) rs)"
    using ok raw by (auto simp: authlib_ok_def list_all_iff)
  moreover have "auth_path_ok p w1" using pk at_start_views(5) [OF l(2)] by (simp add: auth_path_ok_def)
  moreover have "filter (\<lambda>r. trimSpace (crID r) \<noteq> ?i) rs \<noteq> []" using act by (auto simp: filter_empty_conv)
  ultimately have res: "LoadAuthenticator A p v = (Inr (map omit_cred (filter (\<lambda>c. cdID c \<noteq> ?i) cs)), v)"
    using rewritten_file [OF ok _ _ _ _ wr v] by blast
  obtain r where r: "r \<in> set rs" "trimSpace (crID r) \<noteq> ?i" "recordActive (wall w) r" using act by blast
  then obtain c where c: "c \<in> set cs" "convert r = Some c" using cr by blast
  have ac: "\<exists>c \<in> set cs. cdID c \<noteq> ?i \<and> active_at (wall w) c"
    using c r convert_Some [OF c(2)] by (intro bexI [of _ c]) (auto simp: active_at_def recordActive_def)
  obtain r2 where r2: "r2 \<in> set rs" "trimSpace (crID r2) = ?i" using id by auto
  then obtain c2 where c2: "c2 \<in> set cs" "convert r2 = Some c2" using cr by blast
  have "?i \<in> cdID ` set cs" using c2 r2(2) convert_Some [OF c2(2)] by (auto intro: rev_image_eqI)
  then show thesis using that la ac d(2) res by blast
qed

end
