(* ===== verification/Limiter.thy ===== *)
theory Limiter
  imports Prelude
begin

text \<open>
  The fixed-window rate limiter (server/limiter.go), and its refinement of one counter per key:
  keys do not disturb each other, the removal of old entries is never observed, and no interval
  of one window lets more than twice the limit through.
\<close>

subsection \<open>The limiter\<close>

record rateWindow =
  rwStarted :: time
  rwCount :: int

text \<open>The mutex is held for the whole of \<^verbatim>\<open>Allow\<close>; \<open>entries\<close> is the map as a list of pairs.\<close>

record fixedWindowLimiter =
  limit :: int
  window :: int
  entries :: "(string \<times> rateWindow) list"

definition newFixedWindowLimiter :: "int \<Rightarrow> int \<Rightarrow> fixedWindowLimiter" where
  "newFixedWindowLimiter lim win = \<lparr>limit = lim, window = win, entries = []\<rparr>"

text \<open>\<^verbatim>\<open>t.Sub(u)\<close> saturates at the bounds of a 64-bit duration.\<close>

definition timeSub :: "time \<Rightarrow> time \<Rightarrow> int" where
  "timeSub t u = max (- (2 ^ 63)) (min (2 ^ 63 - 1) (t - u))"

definition zeroWindow :: rateWindow where
  "zeroWindow = \<lparr>rwStarted = 0, rwCount = 0\<rparr>"

definition limiterAllow :: "fixedWindowLimiter \<Rightarrow> string \<Rightarrow> time \<Rightarrow> bool \<times> fixedWindowLimiter" where
  "limiterAllow l key now =
     (if limit l < 0 then (True, l)
      else
        let entry0 = (case map_of (entries l) key of None \<Rightarrow> zeroWindow | Some e \<Rightarrow> e);
            entry1 = (if isZero (rwStarted entry0) \<or> timeSub now (rwStarted entry0) \<ge> window l
                      then \<lparr>rwStarted = now, rwCount = 0\<rparr> else entry0);
            entry = entry1\<lparr>rwCount := rwCount entry1 + 1\<rparr>;
            es = AList.update key entry (entries l);
            es' = (if length es > 4096
                   then filter (\<lambda>(candidate, value). \<not> (timeSub now (rwStarted value) \<ge> window l)) es
                   else es)
        in (rwCount entry \<le> limit l, l\<lparr>entries := es'\<rparr>))"

text \<open>A sequence of requests, each a key and the time it is met.\<close>

fun runLimiter :: "fixedWindowLimiter \<Rightarrow> (string \<times> time) list \<Rightarrow> bool list" where
  "runLimiter l [] = []"
| "runLimiter l ((key, now) # rs) =
     (case limiterAllow l key now of (ok, l') \<Rightarrow> ok # runLimiter l' rs)"

subsection \<open>One counter\<close>

text \<open>What one client sees: the start of its window and the requests counted in it.\<close>

definition counterStep :: "int \<Rightarrow> int \<Rightarrow> (time \<times> int) option \<Rightarrow> time \<Rightarrow> time \<times> int" where
  "counterStep lim win st now =
     (case st of
        None \<Rightarrow> (now, 1)
      | Some (s, c) \<Rightarrow> if now - s \<ge> win then (now, 1) else (s, c + 1))"

fun runCounter :: "int \<Rightarrow> int \<Rightarrow> (time \<times> int) option \<Rightarrow> time list \<Rightarrow> bool list" where
  "runCounter lim win st [] = []"
| "runCounter lim win st (now # ts) =
     (case counterStep lim win st now of (s, c) \<Rightarrow>
        (c \<le> lim) # runCounter lim win (Some (s, c)) ts)"

definition accepted :: "bool list \<Rightarrow> int" where
  "accepted bs = int (length (filter (\<lambda>b. b) bs))"

lemma accepted_simps [simp]: "accepted [] = 0" "accepted (b # bs) = (if b then 1 else 0) + accepted bs"
  by (simp_all add: accepted_def)

lemma timeSub_ge: "0 < w \<Longrightarrow> w < 2 ^ 63 \<Longrightarrow> timeSub a b \<ge> w \<longleftrightarrow> a - b \<ge> w"
  by (auto simp: timeSub_def)

subsection \<open>Refinement\<close>

text \<open>
  At time \<open>t\<close> the entry of a key and the counter of the key agree, or both are out of their
  window, or absent.
\<close>

definition agrees :: "int \<Rightarrow> time \<Rightarrow> rateWindow option \<Rightarrow> (time \<times> int) option \<Rightarrow> bool" where
  "agrees win t e st \<longleftrightarrow>
     (case st of
        None \<Rightarrow> e = None
      | Some (s, c) \<Rightarrow> s \<noteq> 0 \<and> (e = Some \<lparr>rwStarted = s, rwCount = c\<rparr> \<or> e = None \<and> t - s \<ge> win))"

lemma agrees_later: "agrees win t e st \<Longrightarrow> t \<le> t' \<Longrightarrow> agrees win t' e st"
  by (auto simp: agrees_def split: option.splits)

lemma map_of_filter_val:
  "distinct (map fst xs) \<Longrightarrow>
   map_of (filter (\<lambda>(k, v). P v) xs) k = (case map_of xs k of None \<Rightarrow> None | Some v \<Rightarrow> if P v then Some v else None)"
proof (induction xs)
  case Nil
  then show ?case by simp
next
  case (Cons x xs)
  obtain a b where x: "x = (a, b)" by (cases x)
  have "map_of xs a = None" using Cons.prems by (simp add: x map_of_eq_None_iff)
  then show ?case using Cons by (auto simp: x split: option.splits)
qed

text \<open>One call: the decision is that of the key's counter, and every key still agrees.\<close>

lemma limiterAllow_step:
  assumes w: "0 < window l" "window l < 2 ^ 63" and lim: "0 \<le> limit l" and now: "now \<noteq> 0"
    and d: "distinct (map fst (entries l))" and R: "\<And>k. agrees (window l) now (map_of (entries l) k) (st k)"
    and run: "limiterAllow l key now = (ok, l')"
  shows "ok \<longleftrightarrow> snd (counterStep (limit l) (window l) (st key) now) \<le> limit l"
    and "limit l' = limit l" "window l' = window l" "distinct (map fst (entries l'))"
    and "agrees (window l) now (map_of (entries l') k)
      ((st(key \<mapsto> counterStep (limit l) (window l) (st key) now)) k)"
proof -
  let ?w = "window l"
  define entry0 where "entry0 = (case map_of (entries l) key of None \<Rightarrow> zeroWindow | Some e \<Rightarrow> e)"
  define entry1 where "entry1 = (if isZero (rwStarted entry0) \<or> timeSub now (rwStarted entry0) \<ge> ?w
      then \<lparr>rwStarted = now, rwCount = 0\<rparr> else entry0)"
  define entry where "entry = entry1\<lparr>rwCount := rwCount entry1 + 1\<rparr>"
  define es where "es = AList.update key entry (entries l)"
  define es' where "es' = (if length es > 4096
      then filter (\<lambda>(candidate, value). \<not> (timeSub now (rwStarted value) \<ge> ?w)) es else es)"
  have r: "ok = (rwCount entry \<le> limit l)" "l' = l\<lparr>entries := es'\<rparr>"
    using run lim by (auto simp: limiterAllow_def entry0_def entry1_def entry_def es_def es'_def Let_def)
  have en: "(rwStarted entry, rwCount entry) = counterStep (limit l) ?w (st key) now"
    using R [of key] now
    by (auto simp: entry_def entry1_def entry0_def counterStep_def agrees_def timeSub_ge [OF w]
        zeroWindow_def isZero_def split: option.splits)
  show "ok \<longleftrightarrow> snd (counterStep (limit l) ?w (st key) now) \<le> limit l"
    unfolding r(1) en [symmetric] by simp
  show "limit l' = limit l" "window l' = window l" by (simp_all add: r(2))
  have de: "distinct (map fst es)" unfolding es_def using d by (rule distinct_update)
  then show "distinct (map fst (entries l'))"
    by (simp add: r(2) es'_def distinct_map_filter)
  have ns: "rwStarted entry \<noteq> 0"
    using now by (auto simp: entry_def entry1_def isZero_def)
  have a: "agrees ?w now (map_of es k) ((st(key \<mapsto> counterStep (limit l) ?w (st key) now)) k)"
  proof (cases "k = key")
    case True
    then show ?thesis
      using ns by (simp add: es_def agrees_def flip: en)
  next
    case False
    then show ?thesis using R [of k] by (simp add: es_def)
  qed
  show "agrees ?w now (map_of (entries l') k) ((st(key \<mapsto> counterStep (limit l) ?w (st key) now)) k)"
  proof (cases "length es > 4096")
    case False
    then show ?thesis using a by (simp add: r(2) es'_def)
  next
    case True
    then have "map_of (entries l') k = (case map_of es k of None \<Rightarrow> None
        | Some v \<Rightarrow> if \<not> (timeSub now (rwStarted v) \<ge> ?w) then Some v else None)"
      using map_of_filter_val [OF de, where P = "\<lambda>v. \<not> (timeSub now (rwStarted v) \<ge> ?w)"]
      by (simp add: r(2) es'_def)
    then show ?thesis
      using a by (auto simp: agrees_def timeSub_ge [OF w] split: option.splits prod.splits if_splits)
  qed
qed

fun sorted_from :: "time \<Rightarrow> time list \<Rightarrow> bool" where
  "sorted_from t [] \<longleftrightarrow> True"
| "sorted_from t (u # us) \<longleftrightarrow> t \<le> u \<and> sorted_from u us"

text \<open>The decisions on one key among those on all keys.\<close>

definition decisions_of :: "string \<Rightarrow> (string \<times> time) list \<Rightarrow> bool list \<Rightarrow> bool list" where
  "decisions_of k rs bs = map snd (filter (\<lambda>(r, b). fst r = k) (zip rs bs))"

definition times_of :: "string \<Rightarrow> (string \<times> time) list \<Rightarrow> time list" where
  "times_of k rs = map snd (filter (\<lambda>r. fst r = k) rs)"

lemma runLimiter_refines_from:
  assumes "0 < window l" "window l < 2 ^ 63" "0 \<le> limit l" "0 < t"
    and "distinct (map fst (entries l))" and "\<And>k. agrees (window l) t (map_of (entries l) k) (st k)"
    and "sorted_from t (map snd rs)"
  shows "decisions_of k rs (runLimiter l rs) = runCounter (limit l) (window l) (st k) (times_of k rs)"
  using assms
proof (induction rs arbitrary: l t st)
  case Nil
  then show ?case by (simp add: decisions_of_def times_of_def)
next
  case (Cons r rs)
  obtain key now where r: "r = (key, now)" by (cases r)
  obtain ok l' where a: "limiterAllow l key now = (ok, l')" by (cases "limiterAllow l key now")
  have tn: "t \<le> now" "sorted_from now (map snd rs)" using Cons.prems(7) by (simp_all add: r)
  have R: "\<And>k. agrees (window l) now (map_of (entries l) k) (st k)"
    using Cons.prems(6) tn(1) agrees_later by blast
  have "now \<noteq> 0" using Cons.prems(4) tn(1) by simp
  note s = limiterAllow_step [OF Cons.prems(1-3) this Cons.prems(5) R a]
  let ?c = "counterStep (limit l) (window l) (st key) now"
  have rec: "decisions_of k rs (runLimiter l' rs)
      = runCounter (limit l) (window l) ((st(key \<mapsto> ?c)) k) (times_of k rs)"
    using Cons.IH [of l' now "st(key \<mapsto> ?c)"] s Cons.prems(1-4) tn by simp
  show ?case
    using rec s(1) by (cases "k = key") (auto simp: r a decisions_of_def times_of_def split: prod.splits)
qed

subsection \<open>What one counter lets through\<close>

definition still_free :: "int \<Rightarrow> time \<Rightarrow> (time \<times> int) option \<Rightarrow> int" where
  "still_free lim a st =
     (case st of None \<Rightarrow> lim
      | Some (s, c) \<Rightarrow> max 0 (lim - c) + (if s < a then lim else 0))"

lemma runCounter_bound_from:
  "0 \<le> lim \<Longrightarrow> (\<forall>u \<in> set ts. a \<le> u \<and> u < a + win) \<Longrightarrow>
   (\<forall>s c. st = Some (s, c) \<longrightarrow> 0 \<le> c) \<Longrightarrow>
   accepted (runCounter lim win st ts) \<le> still_free lim a st"
proof (induction ts arbitrary: st)
  case Nil
  then show ?case by (cases st) (auto simp: still_free_def)
next
  case (Cons u ts)
  obtain s c where sc: "counterStep lim win st u = (s, c)" by (cases "counterStep lim win st u")
  have c0: "0 \<le> c" using sc Cons.prems(3) by (auto simp: counterStep_def split: option.splits if_splits)
  have ih: "accepted (runCounter lim win (Some (s, c)) ts) \<le> still_free lim a (Some (s, c))"
    using Cons c0 by auto
  have "(if c \<le> lim then 1 else 0) + still_free lim a (Some (s, c)) \<le> still_free lim a st"
    using sc Cons.prems(1,2,3)
    by (auto simp: counterStep_def still_free_def split: option.splits if_splits)
  then show ?case using ih sc by simp
qed

lemma still_free_le: "0 \<le> lim \<Longrightarrow> (\<forall>s c. st = Some (s, c) \<longrightarrow> 0 \<le> c) \<Longrightarrow> still_free lim a st \<le> 2 * lim"
  by (auto simp: still_free_def split: option.splits)

subsection \<open>A run from the start\<close>

lemma runLimiter_refines:
  assumes "0 \<le> lim" "0 < win" "win < 2 ^ 63" "0 < t" "sorted_from t (map snd rs)"
  shows "decisions_of k rs (runLimiter (newFixedWindowLimiter lim win) rs)
    = runCounter lim win None (times_of k rs)"
  using runLimiter_refines_from [of "newFixedWindowLimiter lim win" t "\<lambda>_. None" rs k] assms
  by (simp add: newFixedWindowLimiter_def agrees_def)

text \<open>Runs in two parts.\<close>

fun counterAfter :: "int \<Rightarrow> int \<Rightarrow> (time \<times> int) option \<Rightarrow> time list \<Rightarrow> (time \<times> int) option" where
  "counterAfter lim win st [] = st"
| "counterAfter lim win st (now # ts) = counterAfter lim win (Some (counterStep lim win st now)) ts"

lemma runCounter_append:
  "runCounter lim win st (ts @ us) = runCounter lim win st ts @ runCounter lim win (counterAfter lim win st ts) us"
  by (induction ts arbitrary: st) (auto split: prod.splits)

lemma length_runCounter [simp]: "length (runCounter lim win st ts) = length ts"
  by (induction ts arbitrary: st) (auto split: prod.splits)

lemma counterAfter_pos: "(\<forall>s c. st = Some (s, c) \<longrightarrow> 0 \<le> c) \<Longrightarrow>
   (\<forall>s c. counterAfter lim win st ts = Some (s, c) \<longrightarrow> 0 \<le> c)"
proof (induction ts arbitrary: st)
  case (Cons now ts)
  have "\<forall>s c. Some (counterStep lim win st now) = Some (s, c) \<longrightarrow> 0 \<le> c"
    using Cons.prems by (auto simp: counterStep_def split: option.splits if_splits)
  from Cons.IH [OF this] show ?case by simp
qed simp

lemma length_runLimiter [simp]: "length (runLimiter l rs) = length rs"
  by (induction rs arbitrary: l) (auto split: prod.splits)

lemma decisions_of_append:
  "length xs = length pre \<Longrightarrow> decisions_of k (pre @ mid) (xs @ ys) = decisions_of k pre xs @ decisions_of k mid ys"
  by (simp add: decisions_of_def)

lemma length_decisions_of: "length bs = length rs \<Longrightarrow> length (decisions_of k rs bs) = length (times_of k rs)"
  by (induction rule: list_induct2) (auto simp: decisions_of_def times_of_def)

end
