(* ===== verification/PolicyProperties.thy ===== *)
theory PolicyProperties
  imports RequestProperties AuthCorrect Limiter
begin

text \<open>
  What the access rules promise: capabilities, the event catalog, credentials and rate limits.
  Each theorem with hypotheses is followed by its application to a concrete input.
\<close>

section \<open>Capabilities\<close>

text \<open>
  C22. A capability that validates is confined: there is one namespace such that every type its
  holder may append begins with it and a dot, matches one of the patterns given, and, where
  commands are listed, comes with one of these commands. Without patterns nothing may be
  appended.
\<close>

theorem capability_is_confined:
  assumes "validateAllow (Some allow) = Inr (Some a)"
  shows "\<exists>ns. namespace_ok ns \<and> (\<forall>t command. authorizeAppend (Some a) t command = Inr () \<longrightarrow>
      hasPrefix t (ns @ ''.'') \<and> (\<exists>raw \<in> set (alTypes allow). typeAllowed (trimSpace raw) t)
      \<and> (\<forall>cs. alCommands allow = Some cs \<longrightarrow> command \<in> trimSpace ` set cs))"
proof -
  note v = validateAllow_Inr [OF assms]
  have auth: "(\<exists>p \<in> set (alTypes a). typeAllowed p t)
      \<and> (\<forall>cs. alCommands allow = Some cs \<longrightarrow> command \<in> trimSpace ` set cs)"
    if "authorizeAppend (Some a) t command = Inr ()" for t command
    using that v(5) by (auto simp: authorizeAppend_def list_ex_iff split: if_splits option.splits)
  have pre: "hasPrefix t (namespace p @ ''.'')" if p: "p \<in> set (alTypes a)" "typeAllowed p t" for p t
  proof -
    obtain x b where x: "p = x @ CHR ''.'' # b" "namespace p = x"
        "type_name_ok b \<and> \<not> hasSuffix p ''.*'' \<or> b = ''*''"
      using v(2) p(1) valid_pattern_split by metis
    show ?thesis
    proof (cases "hasSuffix p ''.*''")
      case False
      then have "t = p" using p(2) by (simp add: typeAllowed_def)
      then show ?thesis using x by (simp add: hasPrefix_def)
    next
      case True
      then have "trimSuffix p ''.*'' = x" using x by (auto simp: trimSuffix_def)
      then show ?thesis using p(2) True x(2) by (simp add: typeAllowed_def Let_def)
    qed
  qed
  show ?thesis
  proof (cases "alTypes a")
    case Nil
    have "namespace_ok ''a''" by (simp add: namespace_ok_def lower_az_def ns_char_def in_range_def)
    then show ?thesis using Nil auth by fastforce
  next
    case (Cons q qs)
    have "namespace_ok (namespace q)" using v(2) Cons valid_pattern_split [of q] by (metis list.set_intros(1))
    moreover have "hasPrefix t (namespace q @ ''.'') \<and> (\<exists>raw \<in> set (alTypes allow). typeAllowed (trimSpace raw) t)
      \<and> (\<forall>cs. alCommands allow = Some cs \<longrightarrow> command \<in> trimSpace ` set cs)"
      if ok: "authorizeAppend (Some a) t command = Inr ()" for t command
    proof -
      obtain p where p: "p \<in> set (alTypes a)" "typeAllowed p t" using auth [OF ok] by blast
      have "namespace p = namespace q" using v(4) p(1) Cons by (metis list.set_intros(1))
      then show ?thesis using pre [OF p] auth [OF ok] p v(1) by auto
    qed
    ultimately show ?thesis by blast
  qed
qed

text \<open>A capability for the witnesses: notes, with no command at all.\<close>

definition demo_allow :: Allow where
  "demo_allow = \<lparr>alTypes = [''note.*''], alCommands = Some [], alRefs = None\<rparr>"

lemma demo_allow_valid: "validateAllow (Some demo_allow) = Inr (Some demo_allow)"
  by code_simp

theorem capability_is_confined_witness:
  "\<exists>ns. namespace_ok ns \<and> hasPrefix ''note.added'' (ns @ ''.'')"
proof -
  let ?a = "\<lparr>alTypes = [''note.*''], alCommands = None, alRefs = None\<rparr>"
  have v: "validateAllow (Some ?a) = Inr (Some ?a)" "authorizeAppend (Some ?a) ''note.added'' ''create'' = Inr ()"
    by code_simp+
  show ?thesis using capability_is_confined [OF v(1)] v(2) by blast
qed

section \<open>The catalog\<close>

text \<open>
  C24. What an operation on the catalog reports is on disk before it reports it: after a
  restart, or a crash, the same catalog is loaded, and it is well formed.
\<close>

theorem catalog_survives_restart:
  assumes "catlib_ok C" "entries_ok (cEntries c)" "catalog_path_ok (cPath c) w"
    and "(\<exists>t cmds entry created. Install C c t cmds w = (Inr (entry, created, c'), w'))
      \<or> (\<exists>t. removeCatalogType C c t w = (Inr c', w')) \<or> (\<exists>b. SetEnforced C c b w = (Inr c', w'))"
    and "restarts w' v"
  shows "LoadCatalog C (cPath c) v = (Inr c', v) \<and> entries_ok (cEntries c')"
proof -
  have "entries_ok (cEntries c') \<and> cPath c' = cPath c
      \<and> (\<exists>u. persist C c (cEnforced c') (cEntries c') w = (Inr u, w'))"
    using assms(4)
  proof (elim disjE exE)
    fix t cmds entry created
    assume run: "Install C c t cmds w = (Inr (entry, created, c'), w')"
    show ?thesis using Install_Inr [OF assms(2) run] by simp
  next
    fix t assume run: "removeCatalogType C c t w = (Inr c', w')"
    show ?thesis using removeCatalogType_Inr [OF assms(2) run] by simp
  next
    fix b assume "SetEnforced C c b w = (Inr c', w')"
    then show ?thesis using assms(2) by (auto simp: SetEnforced_def io_iffs)
  qed
  then obtain u where e: "entries_ok (cEntries c')" "cPath c' = cPath c"
      and p: "persist C c (cEnforced c') (cEntries c') w = (Inr u, w')" by blast
  show ?thesis using persist_reload [OF assms(1) e(1) assms(3) p assms(5)] e by (cases c') simp
qed


text \<open>The catalog of the witnesses, empty and in a file of the current directory.\<close>

definition demo_catalog :: Catalog where
  "demo_catalog = \<lparr>cPath = ''catalog.json'', cEnforced = True, cEntries = []\<rparr>"

lemma demo_persist:
  assumes "faults w = []" "[] \<in> set (dirs w)" "[''catalog.json''] \<notin> set (dirs w)" "map_of (ents w) [] = None"
    and "cPath c = ''catalog.json''"
  shows "\<exists>w'. persist demoC c b es w = (Inr (), w') \<and> faults w' = [] \<and> dirs w' = dirs w"
proof -
  have t: "toPath ''catalog.json'' = [''catalog.json'']" by code_simp
  have ls: "set (List.insert [] (dirs w)) = set (dirs w)" "List.insert [] (dirs w) = dirs w" using assms(2) by (auto simp: List.insert_def)
  have m: "mkdirAll [] w = (Inr (), w)"
    using mkdirAll_no_fault [OF assms(1), of "[]"] assms(4) by (simp add: setDir_def ls)
  obtain x where x: "json_catalog demoC \<lparr>cdEnforced = b, cdEntries = es\<rparr> = Some x" by (simp add: demoC_def)
  obtain w' where w': "replaceFile catalogTmp [''catalog.json''] (x @ [CHR 0x0A]) 0x180 w = (Inr (), w')" "faults w' = []"
    using cf.succeeds [OF assms(1), of "[''catalog.json'']" "x @ [CHR 0x0A]"] assms(2,3) by auto
  have "[''catalog.json''] \<noteq> tmp_of catalogTmp w [''catalog.json'']"
    using not_tmp_path [of "[''catalog.json'']" catalogTmp] by (simp add: tmp_of_def catalogTmp_def hasPrefix_def)
  then have "dirs w' = dirs w" using cf.put_env w'(1) by (auto simp: same_env_def)
  then show ?thesis using x m w' assms(5) by (simp add: persist_def t io_defs)
qed

lemma demo_install:
  "\<exists>c1 w1. Install demoC demo_catalog ''note.added'' [''create''] demo_world
      = (Inr (\<lparr>ceType = ''note.added'', ceCommands = [''create'']\<rparr>, True, c1), w1)
    \<and> c1 = demo_catalog\<lparr>cEntries := [\<lparr>ceType = ''note.added'', ceCommands = [''create'']\<rparr>]\<rparr>
    \<and> faults w1 = [] \<and> dirs w1 = dirs demo_world"
proof -
  have n: "normalizeEntry \<lparr>ceType = ''note.added'', ceCommands = [''create'']\<rparr> = Inr \<lparr>ceType = ''note.added'', ceCommands = [''create'']\<rparr>"
    by code_simp
  obtain w1 where p: "persist demoC demo_catalog True [\<lparr>ceType = ''note.added'', ceCommands = [''create'']\<rparr>] demo_world = (Inr (), w1)"
      "faults w1 = []" "dirs w1 = dirs demo_world"
    using demo_persist [of demo_world demo_catalog] by (auto simp: demo_world_def demo_catalog_def)
  show ?thesis using n p by (simp add: Install_def io_defs demo_catalog_def maxCatalogEntries_def Let_def)
qed

theorem catalog_survives_restart_witness:
  "\<exists>w1. LoadCatalog demoC ''catalog.json'' w1
     = (Inr (demo_catalog\<lparr>cEntries := [\<lparr>ceType = ''note.added'', ceCommands = [''create'']\<rparr>]\<rparr>), w1)"
proof -
  obtain c1 w1 where i: "Install demoC demo_catalog ''note.added'' [''create''] demo_world
      = (Inr (\<lparr>ceType = ''note.added'', ceCommands = [''create'']\<rparr>, True, c1), w1)"
      "c1 = demo_catalog\<lparr>cEntries := [\<lparr>ceType = ''note.added'', ceCommands = [''create'']\<rparr>]\<rparr>" "faults w1 = []"
    using demo_install by blast
  have t: "toPath ''catalog.json'' = [''catalog.json'']" "trimSpace ''catalog.json'' = ''catalog.json''" by code_simp+
  have ok: "entries_ok (cEntries demo_catalog)" "catalog_path_ok (cPath demo_catalog) demo_world"
    by (simp_all add: demo_catalog_def entries_ok_def catalog_path_ok_def t demo_world_def catalogTmp_def hasPrefix_def)
  have "restarts w1 w1" using i(3) by (simp add: restarts_def)
  then have "LoadCatalog demoC (cPath demo_catalog) w1 = (Inr c1, w1)"
    using catalog_survives_restart [OF demoC_ok ok, of c1 w1 w1] i(1) by blast
  then have "LoadCatalog demoC ''catalog.json'' w1 = (Inr c1, w1)" by (simp add: demo_catalog_def)
  then show ?thesis unfolding i(2) by (rule exI)
qed



section \<open>Credentials\<close>

definition omit_principal :: "Principal \<Rightarrow> Principal" where
  "omit_principal pr = pr\<lparr>prAllow := map_option omit_allow (prAllow pr)\<rparr>"

lemma Authenticate_omit:
  assumes "distinct (map cdDigest cs)"
  shows "Authenticate A (map omit_cred cs) now tok = (pr', True) \<longleftrightarrow>
    (\<exists>pr. Authenticate A cs now tok = (pr, True) \<and> pr' = omit_principal pr)"
proof -
  have d: "distinct (map cdDigest (map omit_cred cs))" using assms by (simp only: omit_cred_views)
  show ?thesis
    unfolding Authenticate_iff [OF d] Authenticate_iff [OF assms]
    by (auto simp: omit_cred_def omit_principal_def active_at_def)
qed

subsection \<open>An auth file for the witnesses\<close>

definition demo_auth_recs :: "credentialRecord list" where
  "demo_auth_recs = [
     \<lparr>crID = ''alice'', crRole = ''writer'', crSHA256 = hex_encode (replicate 32 (CHR ''a'')),
      crNotAfter = None, crAllow = Some demo_allow\<rparr>,
     \<lparr>crID = ''root'', crRole = ''admin'', crSHA256 = hex_encode (replicate 32 (CHR ''b'')),
      crNotAfter = None, crAllow = None\<rparr>]"

definition demo_creds :: "credential list" where
  "demo_creds = [
     \<lparr>cdPrincipal = \<lparr>prID = ''alice'', prRole = RoleWriter, prAllow = Some demo_allow\<rparr>,
      cdDigest = replicate 32 (CHR ''a''), cdNotAfter = None\<rparr>,
     \<lparr>cdPrincipal = \<lparr>prID = ''root'', prRole = RoleAdmin, prAllow = None\<rparr>,
      cdDigest = replicate 32 (CHR ''b''), cdNotAfter = None\<rparr>]"

lemma demo_tokens: "loadTokens [] [] demo_auth_recs = Inr demo_creds" "list_all utf8_record demo_auth_recs"
  "toPath ''auth.json'' = [''auth.json'']"
  by code_simp+

definition demo_auth_world :: world where
  "demo_auth_world = demo_world\<lparr>ents := [([''auth.json''], 1)], dents := [([''auth.json''], 1)],
     inodes := (\<lambda>_. \<lparr>idata = enc_list enc_record demo_auth_recs @ [CHR 0x0A], isynced = True, imode = 0x180\<rparr>)\<rparr>"

lemma demo_auth:
  "LoadAuthenticator demoA ''auth.json'' demo_auth_world = (Inr demo_creds, demo_auth_world)"
  "loadCredentialFile demoA ''auth.json'' demo_auth_world = (Inr demo_auth_recs, demo_auth_world)"
  "auth_path_ok ''auth.json'' demo_auth_world"
proof -
  have w: "faults demo_auth_world = []" "[''auth.json''] \<notin> set (dirs demo_auth_world)"
    "fcontent demo_auth_world [''auth.json''] = Some (enc_list enc_record demo_auth_recs @ [CHR 0x0A])"
    by (simp_all add: demo_auth_world_def demo_world_def fcontent_def)
  have "readFile (toPath ''auth.json'') demo_auth_world = (Inr (enc_list enc_record demo_auth_recs @ [CHR 0x0A]), demo_auth_world)"
    using readFile_no_fault [OF w(1), of "[''auth.json'']"] w(2,3) by (simp add: demo_tokens)
  moreover have "dec_creds demoA (enc_list enc_record demo_auth_recs @ [CHR 0x0A]) = Some (demo_auth_recs, True)"
    using demo_tokens(2) by (simp add: demoA_def round_tripD [OF rt_list [OF rt_record]])
  moreover have "length demo_auth_recs \<noteq> 0" by (simp add: demo_auth_recs_def)
  ultimately show "LoadAuthenticator demoA ''auth.json'' demo_auth_world = (Inr demo_creds, demo_auth_world)"
    "loadCredentialFile demoA ''auth.json'' demo_auth_world = (Inr demo_auth_recs, demo_auth_world)"
    by (simp_all add: LoadAuthenticator_def loadCredentialFile_def readAuthFile_def io_defs demo_tokens)
  show "auth_path_ok ''auth.json'' demo_auth_world"
    using w(2) by (simp add: auth_path_ok_def demo_tokens authTmp_def hasPrefix_def)
qed

lemma demo_write: "\<exists>w'. writeCredentialFile demoA ''auth.json'' rs demo_auth_world = (Inr (), w') \<and> restarts w' w'"
proof -
  have "faults demo_auth_world = []" "butlast [''auth.json''] \<in> set (dirs demo_auth_world)"
    "[''auth.json''] \<notin> set (dirs demo_auth_world)"
    by (simp_all add: demo_auth_world_def demo_world_def)
  from af.succeeds [OF this] show ?thesis
    by (simp add: writeCredentialFile_def demoA_def demo_tokens restarts_def) (metis world.surjective world.update_convs(6))
qed

lemma demo_add: "\<exists>w'. AddToken demoA ''auth.json'' ''bob'' ''reader'' (replicate 32 (CHR ''c'')) None None demo_auth_world = (Inr (), w')
    \<and> restarts w' w'"
proof -
  have c: "validCredentialID ''bob''" "trimSpace ''bob'' = ''bob''" "parseRole ''reader'' = Inr RoleReader" "validateAllow None = Inr None"
    "demo_sum (replicate 32 (CHR ''c'')) = replicate 32 (CHR ''c'')"
    "\<not> list_ex (\<lambda>r. trimSpace (crID r) = ''bob'') demo_auth_recs"
    "\<not> list_ex (\<lambda>r. equalFold (trimSpace (crSHA256 r)) (hex_encode (replicate 32 (CHR ''c'')))) demo_auth_recs"
    by code_simp+
  obtain w' where "writeCredentialFile demoA ''auth.json'' (demo_auth_recs @ [\<lparr>crID = ''bob'', crRole = roleString RoleReader,
      crSHA256 = hex_encode (replicate 32 (CHR ''c'')), crNotAfter = None, crAllow = None\<rparr>]) demo_auth_world = (Inr (), w')" "restarts w' w'"
    using demo_write by blast
  then show ?thesis
    using c by (simp add: AddToken_def io_defs demo_auth readClock_def Let_def)
      (simp add: demoA_def)
qed

text \<open>
  C17. A token gets in if and only if it has between 32 and 512 bytes and the auth file has a
  record with its SHA-256 sum that has not expired; the principal it gets is that record's:
  id, role and validated capability.
\<close>

theorem authenticate_exact:
  assumes "LoadAuthenticator A p w = (Inr creds, w')"
  shows "\<exists>raw rs. fcontent w (toPath p) = Some raw \<and> dec_creds A raw = Some (rs, True)
    \<and> (\<forall>now token pr. Authenticate A creds now token = (pr, True) \<longleftrightarrow>
        32 \<le> length token \<and> length token \<le> 512
        \<and> (\<exists>r \<in> set rs. hex_decode (trimSpace (crSHA256 r)) = Some (au_sha256 A token) \<and> recordActive now r
            \<and> trimSpace (crID r) = prID pr \<and> parseRole (crRole r) = Inr (prRole pr)
            \<and> validateAllow (crAllow r) = Inr (prAllow pr)))"
proof -
  obtain raw rs where f: "fcontent w (toPath p) = Some raw" "dec_creds A raw = Some (rs, True)"
    and l: "loadTokens [] [] rs = Inr creds"
    using LoadAuthenticator_Inr [OF assms] by metis
  have a2: "list_all2 (\<lambda>r c. convert r = Some c) rs creds" and d: "distinct (map cdDigest creds)"
    using l by (simp_all add: loadTokens_iff)
  have one: "(\<exists>c \<in> set creds. P c) \<longleftrightarrow> (\<exists>r \<in> set rs. \<exists>c. convert r = Some c \<and> P c)" for P
    using a2 by (induction rule: list_all2_induct) auto
  have e: "(\<exists>c. convert r = Some c \<and> cdDigest c = dg \<and> active_at now c \<and> pr = cdPrincipal c) \<longleftrightarrow>
      hex_decode (trimSpace (crSHA256 r)) = Some dg \<and> recordActive now r
      \<and> trimSpace (crID r) = prID pr \<and> parseRole (crRole r) = Inr (prRole pr)
      \<and> validateAllow (crAllow r) = Inr (prAllow pr)" if r: "r \<in> set rs" for r dg now pr
  proof -
    obtain i where i: "i < length rs" "r = rs ! i" using r by (auto simp: in_set_conv_nth)
    then obtain c where c: "convert r = Some c" using a2 by (auto simp: list_all2_conv_all_nth)
    note cc = convert_Some [OF c]
    have "pr = cdPrincipal c \<longleftrightarrow> prID pr = cdID c \<and> prRole pr = prRole (cdPrincipal c) \<and> prAllow pr = prAllow (cdPrincipal c)"
      by (cases pr; cases "cdPrincipal c") (simp add: cdID_def)
    then show ?thesis using c cc by (auto simp: active_at_def recordActive_def)
  qed
  have "Authenticate A creds now token = (pr, True) \<longleftrightarrow>
        32 \<le> length token \<and> length token \<le> 512
        \<and> (\<exists>r \<in> set rs. hex_decode (trimSpace (crSHA256 r)) = Some (au_sha256 A token) \<and> recordActive now r
            \<and> trimSpace (crID r) = prID pr \<and> parseRole (crRole r) = Inr (prRole pr)
            \<and> validateAllow (crAllow r) = Inr (prAllow pr))" for now token pr
    unfolding Authenticate_iff [OF d] one using e by auto
  then show ?thesis using f by blast
qed

theorem authenticate_exact_witness:
  "Authenticate demoA demo_creds 0 (replicate 32 (CHR ''b'')) = (\<lparr>prID = ''root'', prRole = RoleAdmin, prAllow = None\<rparr>, True)"
proof -
  obtain raw rs where f: "fcontent demo_auth_world (toPath ''auth.json'') = Some raw" "dec_creds demoA raw = Some (rs, True)"
    and a: "\<forall>now token pr. Authenticate demoA demo_creds now token = (pr, True) \<longleftrightarrow>
        32 \<le> length token \<and> length token \<le> 512
        \<and> (\<exists>r \<in> set rs. hex_decode (trimSpace (crSHA256 r)) = Some (au_sha256 demoA token) \<and> recordActive now r
            \<and> trimSpace (crID r) = prID pr \<and> parseRole (crRole r) = Inr (prRole pr)
            \<and> validateAllow (crAllow r) = Inr (prAllow pr))"
    using authenticate_exact [OF demo_auth(1)] by blast
  have "fcontent demo_auth_world (toPath ''auth.json'') = Some (enc_list enc_record demo_auth_recs @ [CHR 0x0A])"
    unfolding demo_tokens by (simp add: demo_auth_world_def fcontent_def)
  then have rs: "rs = demo_auth_recs"
    using f demo_tokens(2) by (simp add: demoA_def round_tripD [OF rt_list [OF rt_record]])
  have x: "trimSpace (hex_encode (replicate 32 (CHR ''b''))) = hex_encode (replicate 32 (CHR ''b''))"
      "trimSpace ''root'' = ''root''" "parseRole ''admin'' = Inr RoleAdmin" "validateAllow None = Inr None"
      "demo_sum (replicate 32 (CHR ''b'')) = replicate 32 (CHR ''b'')"
    by code_simp+
  show ?thesis
    using a unfolding rs by (simp add: demo_auth_recs_def x) (simp add: demoA_def x recordActive_def)
qed

text \<open>
  C18. After a token was added (and the program or the machine restarted) the file loads: the
  new token gets in until it expires, as the principal given, which it did not before; every
  other token gets in exactly as before. (The capabilities are those that were written: what
  the encoding drops of them is stated apart.)
\<close>

theorem add_token_exact:
  assumes "authlib_ok A" "auth_path_ok p w" "\<And>allow. validateAllow allow0 = Inr allow \<Longrightarrow> utf8_allow allow"
    and "AddToken A p i role token na allow0 w = (Inr (), w')" "restarts w' v"
  shows "\<exists>old new r allow. fst (LoadAuthenticator A p w) = Inr old \<and> LoadAuthenticator A p v = (Inr new, v)
    \<and> parseRole role = Inr r \<and> validateAllow allow0 = Inr allow
    \<and> (\<forall>now pr. Authenticate A new now token = (pr, True) \<longleftrightarrow> (\<forall>t. na = Some t \<longrightarrow> now < t)
          \<and> pr = omit_principal \<lparr>prID = trimSpace i, prRole = r, prAllow = allow\<rparr>)
    \<and> (\<forall>now pr. Authenticate A old now token \<noteq> (pr, True))
    \<and> (\<forall>now tok pr. au_sha256 A tok \<noteq> au_sha256 A token \<longrightarrow> (Authenticate A new now tok = (pr, True) \<longleftrightarrow>
          (\<exists>q. Authenticate A old now tok = (q, True) \<and> pr = omit_principal q)))"
proof -
  obtain cs r allow where l: "fst (LoadAuthenticator A p w) = Inr cs" "parseRole role = Inr r"
      "validateAllow allow0 = Inr allow" "32 \<le> length token" "length token \<le> 512"
      "au_sha256 A token \<notin> cdDigest ` set cs" "distinct (map cdDigest cs)"
      "LoadAuthenticator A p v = (Inr (map omit_cred (cs @ [added_cred A i r token na allow])), v)"
    by (rule AddToken_reload [OF assms]) blast
  let ?c = "added_cred A i r token na allow" and ?new = "cs @ [added_cred A i r token na allow]"
  have d: "distinct (map cdDigest ?new)" using l(6,7) by (auto simp: added_cred_def)
  have old: "Authenticate A cs now token \<noteq> (pr, True)" for now pr
    unfolding Authenticate_iff [OF l(7)] using l(6) by (auto intro: rev_image_eqI)
  have new: "Authenticate A ?new now token = (q, True) \<longleftrightarrow> (\<forall>t. na = Some t \<longrightarrow> now < t)
      \<and> q = \<lparr>prID = trimSpace i, prRole = r, prAllow = allow\<rparr>" for now q
  proof -
    have "(\<exists>c \<in> set ?new. cdDigest c = au_sha256 A token \<and> active_at now c \<and> q = cdPrincipal c)
        \<longleftrightarrow> active_at now ?c \<and> q = cdPrincipal ?c"
      using l(6) by (auto simp: added_cred_def intro: rev_image_eqI)
    then show ?thesis
      unfolding Authenticate_iff [OF d] using l(4,5) by (auto simp: added_cred_def active_at_def split: option.splits)
  qed
  have same: "Authenticate A ?new now tok = (q, True) \<longleftrightarrow> Authenticate A cs now tok = (q, True)"
    if "au_sha256 A tok \<noteq> au_sha256 A token" for now tok q
    unfolding Authenticate_iff [OF d] Authenticate_iff [OF l(7)] using that by (auto simp: added_cred_def)
  show ?thesis
  proof (intro exI conjI allI impI)
    show "fst (LoadAuthenticator A p w) = Inr cs" "parseRole role = Inr r" "validateAllow allow0 = Inr allow"
      "LoadAuthenticator A p v = (Inr (map omit_cred ?new), v)" by (fact l)+
    show "Authenticate A (map omit_cred ?new) now token = (pr, True) \<longleftrightarrow> (\<forall>t. na = Some t \<longrightarrow> now < t)
          \<and> pr = omit_principal \<lparr>prID = trimSpace i, prRole = r, prAllow = allow\<rparr>" for now pr
      unfolding Authenticate_omit [OF d] new by auto
    show "Authenticate A cs now token \<noteq> (pr, True)" for now pr by (rule old)
    show "Authenticate A (map omit_cred ?new) now tok = (pr, True) \<longleftrightarrow>
          (\<exists>q. Authenticate A cs now tok = (q, True) \<and> pr = omit_principal q)"
      if "au_sha256 A tok \<noteq> au_sha256 A token" for now tok pr
      unfolding Authenticate_omit [OF d] same [OF that] by (rule refl)
  qed
qed

theorem add_token_exact_witness:
  "\<exists>new v. LoadAuthenticator demoA ''auth.json'' v = (Inr new, v)
     \<and> Authenticate demoA new 0 (replicate 32 (CHR ''c'')) = (\<lparr>prID = ''bob'', prRole = RoleReader, prAllow = None\<rparr>, True)"
proof -
  have c: "trimSpace ''bob'' = ''bob''" "parseRole ''reader'' = Inr RoleReader" "validateAllow None = Inr None" by code_simp+
  have u: "utf8_allow allow" if "validateAllow None = Inr allow" for allow using that c(3) by (simp add: utf8_allow_def)
  obtain w' where w': "AddToken demoA ''auth.json'' ''bob'' ''reader'' (replicate 32 (CHR ''c'')) None None demo_auth_world = (Inr (), w')"
      "restarts w' w'" using demo_add by blast
  show ?thesis
    using add_token_exact [OF demoA_ok demo_auth(3) u w'] c by (auto simp: omit_principal_def)
qed

text \<open>
  C19. After a credential was revoked (and a restart) no token gets in under its id, every other
  one as before; a revocation that would leave no credential active is refused.
\<close>

theorem revoke_token_exact:
  assumes "authlib_ok A" "auth_path_ok p w" "RevokeToken A p i w = (Inr (), w')" "restarts w' v"
  shows "\<exists>old new. fst (LoadAuthenticator A p w) = Inr old \<and> LoadAuthenticator A p v = (Inr new, v)
    \<and> (\<forall>now tok pr. Authenticate A new now tok = (pr, True) \<longleftrightarrow> prID pr \<noteq> trimSpace i
          \<and> (\<exists>q. Authenticate A old now tok = (q, True) \<and> pr = omit_principal q))
    \<and> (\<exists>c \<in> set new. active_at (wall w) c)"
proof -
  obtain cs where l: "fst (LoadAuthenticator A p w) = Inr cs"
      "\<exists>c \<in> set cs. cdID c \<noteq> trimSpace i \<and> active_at (wall w) c" "distinct (map cdDigest cs)"
      "LoadAuthenticator A p v = (Inr (map omit_cred (filter (\<lambda>c. cdID c \<noteq> trimSpace i) cs)), v)"
    by (rule RevokeToken_reload [OF assms]) blast
  let ?f = "filter (\<lambda>c. cdID c \<noteq> trimSpace i) cs"
  have d: "distinct (map cdDigest ?f)" using l(3) by (simp add: distinct_map_filter)
  have f: "Authenticate A ?f now tok = (q, True) \<longleftrightarrow> prID q \<noteq> trimSpace i \<and> Authenticate A cs now tok = (q, True)" for now tok q
    unfolding Authenticate_iff [OF d] Authenticate_iff [OF l(3)] by (auto simp: cdID_def)
  have "\<exists>c \<in> set (map omit_cred ?f). active_at (wall w) c" using l(2) by (auto simp: active_at_def)
  moreover have "Authenticate A (map omit_cred ?f) now tok = (pr, True) \<longleftrightarrow> prID pr \<noteq> trimSpace i
          \<and> (\<exists>q. Authenticate A cs now tok = (q, True) \<and> pr = omit_principal q)" for now tok pr
    unfolding Authenticate_omit [OF d] f by (auto simp: omit_principal_def)
  ultimately show ?thesis using l(1,4) by blast
qed

theorem revoke_token_exact_witness:
  "\<exists>new v. LoadAuthenticator demoA ''auth.json'' v = (Inr new, v)
     \<and> \<not> (\<exists>now tok pr. Authenticate demoA new now tok = (pr, True) \<and> prID pr = ''alice'')"
proof -
  have c: "trimSpace ''alice'' = ''alice''" "list_ex (\<lambda>r. trimSpace (crID r) = ''alice'') demo_auth_recs"
    "list_ex (recordActive 5000) (filter (\<lambda>r. trimSpace (crID r) \<noteq> ''alice'') demo_auth_recs)"
    by code_simp+
  have wl: "wall demo_auth_world = 5000" by (simp add: demo_auth_world_def demo_world_def)
  obtain w' where w: "writeCredentialFile demoA ''auth.json'' (filter (\<lambda>r. trimSpace (crID r) \<noteq> ''alice'') demo_auth_recs) demo_auth_world = (Inr (), w')"
      "restarts w' w'" using demo_write by blast
  have r: "RevokeToken demoA ''auth.json'' ''alice'' demo_auth_world = (Inr (), w')"
    using w(1) c wl by (simp add: RevokeToken_def io_defs demo_auth readClock_def Let_def)
  obtain new where n: "LoadAuthenticator demoA ''auth.json'' w' = (Inr new, w')"
      "\<forall>now tok pr. Authenticate demoA new now tok = (pr, True) \<longrightarrow> prID pr \<noteq> ''alice''"
    using revoke_token_exact [OF demoA_ok demo_auth(3) r w(2)] c(1) by auto
  then show ?thesis by blast
qed

text \<open>
  C31. Rewriting the auth file lifts empty lists. A credential whose capability lists no command
  at all may append nothing; after any token was added, the list is gone from the file, and the
  same token may append every command of its types.
\<close>

theorem rewriting_lifts_empty_lists:
  assumes "authlib_ok A" "auth_path_ok p w" "\<And>allow. validateAllow allow0 = Inr allow \<Longrightarrow> utf8_allow allow"
    and "AddToken A p i role token na allow0 w = (Inr (), w')" "restarts w' v"
    and "fst (LoadAuthenticator A p w) = Inr old" "Authenticate A old now tok = (pr, True)"
    and "prAllow pr = Some a" "alCommands a = Some []"
  shows "(\<forall>t command. authorizeAppend (prAllow pr) t command \<noteq> Inr ())
    \<and> (\<exists>new pr'. LoadAuthenticator A p v = (Inr new, v) \<and> Authenticate A new now tok = (pr', True)
        \<and> (\<forall>t command. authorizeAppend (prAllow pr') t command = Inr () \<longleftrightarrow> (\<exists>q \<in> set (alTypes a). typeAllowed q t)))"
proof -
  obtain r allow where l: "au_sha256 A token \<notin> cdDigest ` set old" "distinct (map cdDigest old)"
      "LoadAuthenticator A p v = (Inr (map omit_cred (old @ [added_cred A i r token na allow])), v)"
    by (rule AddToken_reload [OF assms(1-5)]) (use assms(6) in auto)
  let ?new = "old @ [added_cred A i r token na allow]"
  have d: "distinct (map cdDigest ?new)" using l(1,2) by (auto simp: added_cred_def)
  have "Authenticate A ?new now tok = (pr, True)"
    using assms(7) unfolding Authenticate_iff [OF d] Authenticate_iff [OF l(2)] by auto
  then have n: "Authenticate A (map omit_cred ?new) now tok = (omit_principal pr, True)"
    unfolding Authenticate_omit [OF d] by blast
  have pa: "prAllow (omit_principal pr) = Some (omit_allow a)" using assms(8) by (simp add: omit_principal_def)
  have a1: "\<forall>t command. authorizeAppend (prAllow pr) t command \<noteq> Inr ()"
    using assms(8,9) by (simp add: authorizeAppend_def)
  have a2: "\<forall>t command. authorizeAppend (prAllow (omit_principal pr)) t command = Inr () \<longleftrightarrow> (\<exists>q \<in> set (alTypes a). typeAllowed q t)"
    using assms(9) by (simp add: pa authorizeAppend_def omit_allow_def omit_list_def list_ex_iff)
  show ?thesis using a1 a2 n l(3) by blast
qed


theorem rewriting_lifts_empty_lists_witness:
  "authorizeAppend (Some demo_allow) ''note.added'' ''create'' \<noteq> Inr ()
   \<and> (\<exists>new v pr'. LoadAuthenticator demoA ''auth.json'' v = (Inr new, v)
        \<and> Authenticate demoA new 0 (replicate 32 (CHR ''a'')) = (pr', True)
        \<and> authorizeAppend (prAllow pr') ''note.added'' ''create'' = Inr ())"
proof -
  have c: "validateAllow None = Inr None"
      "Authenticate demoA demo_creds 0 (replicate 32 (CHR ''a'')) = (\<lparr>prID = ''alice'', prRole = RoleWriter, prAllow = Some demo_allow\<rparr>, True)"
      "list_ex (\<lambda>q. typeAllowed q ''note.added'') (alTypes demo_allow)"
    by code_simp+
  have u: "utf8_allow allow" if "validateAllow None = Inr allow" for allow using that c(1) by (simp add: utf8_allow_def)
  obtain w' where w': "AddToken demoA ''auth.json'' ''bob'' ''reader'' (replicate 32 (CHR ''c'')) None None demo_auth_world = (Inr (), w')"
      "restarts w' w'" using demo_add by blast
  have l: "fst (LoadAuthenticator demoA ''auth.json'' demo_auth_world) = Inr demo_creds" by (simp add: demo_auth)
  have a: "prAllow \<lparr>prID = ''alice'', prRole = RoleWriter, prAllow = Some demo_allow\<rparr> = Some demo_allow" "alCommands demo_allow = Some []"
    by (simp_all add: demo_allow_def)
  show ?thesis
    using rewriting_lifts_empty_lists [OF demoA_ok demo_auth(3) u w' l c(2) a] c(3) unfolding list_ex_iff by fastforce
qed

section \<open>Rate limits\<close>

text \<open>
  C29. The limiter is one counter per client: for requests that come in time order, the
  decisions on a client are those of a counter that sees only that client's requests. Other
  clients and the removal of old entries make no difference.
\<close>

theorem limiter_is_one_counter_per_client:
  assumes "0 \<le> lim" "0 < win" "win < 2 ^ 63" "0 < t" "sorted_from t (map snd rs)"
  shows "decisions_of k rs (runLimiter (newFixedWindowLimiter lim win) rs)
    = runCounter lim win None (times_of k rs)"
  by (rule runLimiter_refines [OF assms])

theorem limiter_is_one_counter_per_client_witness:
  "decisions_of ''a'' [(''a'', 5), (''b'', 6), (''a'', 7), (''a'', 20)]
     (runLimiter (newFixedWindowLimiter 1 10) [(''a'', 5), (''b'', 6), (''a'', 7), (''a'', 20)]) = [True, False, True]"
  using limiter_is_one_counter_per_client [of 1 10 1 "[(''a'', 5), (''b'', 6), (''a'', 7), (''a'', 20)]" "''a''"]
  by (simp add: times_of_def counterStep_def)

text \<open>
  Whatever came before, a client gets at most twice the limit through in any interval of
  the length of the window (the windows are fixed, so that twice is possible).
\<close>

theorem limiter_window_bound:
  assumes "0 \<le> lim" "0 < win" "win < 2 ^ 63" "0 < t" "sorted_from t (map snd (pre @ mid))"
    and "\<forall>r \<in> set mid. a \<le> snd r \<and> snd r < a + win"
  shows "accepted (decisions_of k mid (drop (length pre) (runLimiter (newFixedWindowLimiter lim win) (pre @ mid)))) \<le> 2 * lim"
proof -
  let ?ds = "runLimiter (newFixedWindowLimiter lim win) (pre @ mid)"
  let ?xs = "take (length pre) ?ds" and ?ys = "drop (length pre) ?ds"
  let ?st = "counterAfter lim win None (times_of k pre)"
  have "decisions_of k (pre @ mid) (?xs @ ?ys) = decisions_of k pre ?xs @ decisions_of k mid ?ys"
    by (rule decisions_of_append) simp
  then have "decisions_of k pre ?xs @ decisions_of k mid ?ys = runCounter lim win None (times_of k pre @ times_of k mid)"
    using runLimiter_refines [OF assms(1-5), of k] by (simp add: times_of_def)
  also have "\<dots> = runCounter lim win None (times_of k pre) @ runCounter lim win ?st (times_of k mid)"
    by (rule runCounter_append)
  finally have "decisions_of k mid ?ys = runCounter lim win ?st (times_of k mid)"
    using length_decisions_of [of ?xs pre k] by (subst (asm) append_eq_append_conv) simp_all
  moreover have pos: "\<forall>s c. ?st = Some (s, c) \<longrightarrow> 0 \<le> c" by (rule counterAfter_pos) simp
  have "accepted (runCounter lim win ?st (times_of k mid)) \<le> still_free lim a ?st"
    using assms(6) by (intro runCounter_bound_from [OF assms(1) _ pos]) (auto simp: times_of_def)
  moreover have "still_free lim a ?st \<le> 2 * lim" using still_free_le [OF assms(1) pos] .
  ultimately show ?thesis by simp
qed

theorem limiter_window_bound_witness:
  "accepted (decisions_of ''a'' [(''a'', 19), (''a'', 20), (''a'', 21)] (drop 1 (runLimiter (newFixedWindowLimiter 1 10)
     ([(''a'', 10)] @ [(''a'', 19), (''a'', 20), (''a'', 21)])))) \<le> 2"
  using limiter_window_bound [of 1 10 1 "[(''a'', 10)]" "[(''a'', 19), (''a'', 20), (''a'', 21)]" 15 "''a''"] by simp

end
