(* ===== verification/SnapshotProgress.thy ===== *)
theory SnapshotProgress
  imports SnapshotCorrect
begin

text \<open>
  When no call fails a snapshot is written, and pruning removes exactly the oldest archives. The
  depth with which a walk starts is enough in every world.
\<close>

subsection \<open>When no call fails\<close>

lemma io_foldM_no_fault:
  "(\<And>x acc. x \<in> set xs \<Longrightarrow> f x acc w = (Inr (h x acc), w)) \<Longrightarrow> io_foldM f xs acc w = (Inr (fold h xs acc), w)"
  by (induction xs arbitrary: acc) (auto simp: io_defs)

lemma walkTree_no_fault:
  assumes f: "faults w = []"
  shows "p \<in> set (dirs w) \<union> dom (map_of (ents w)) \<Longrightarrow> (\<forall>d \<in> set (dirs w). length d + 1 < n + length p) \<Longrightarrow> 0 < n \<Longrightarrow>
    (\<And>q acc. q \<in> set (treePaths n w p) \<Longrightarrow> visit q (fsize w q) acc w = (Inr (g q acc), w)) \<Longrightarrow>
    walkTree n visit p acc w = (Inr (fold g (treePaths n w p) acc), w)"
proof (induction n arbitrary: p acc)
  case 0
  then show ?case by simp
next
  case (Suc n)
  show ?case
  proof (cases "p \<in> set (dirs w)")
    case False
    then obtain i where i: "map_of (ents w) p = Some i" using Suc.prems(1) by auto
    have "osLstat p w = (Inr (RegInfo (fsize w p)), w)"
      using False f i by (simp add: osLstat_def syscall_no_fault fsize_def fcontent_def)
    then show ?thesis using Suc.prems(4) False by (simp add: io_bind_def)
  next
    case True
    have l: "osLstat p w = (Inr DirInfo, w)" "readDirNames p w = (Inr (childNames w p), w)"
      using True f by (simp_all add: osLstat_def readDirNames_def syscall_no_fault)
    have "walkTree n visit (p @ [name]) acc w = (Inr (fold g (treePaths n w (p @ [name])) acc), w)"
      if "name \<in> set (childNames w p)" for name acc
    proof (rule Suc.IH)
      show "p @ [name] \<in> set (dirs w) \<union> dom (map_of (ents w))" using that by (simp add: childNames_iff)
      show "\<forall>d \<in> set (dirs w). length d + 1 < n + length (p @ [name])" using Suc.prems(2) by simp
      show "0 < n" using Suc.prems(2) True by fastforce
      show "\<And>q acc. q \<in> set (treePaths n w (p @ [name])) \<Longrightarrow> visit q (fsize w q) acc w = (Inr (g q acc), w)"
        using Suc.prems(4) True that by auto
    qed
    then have "io_foldM (\<lambda>name. walkTree n visit (p @ [name])) (childNames w p) acc w
        = (Inr (fold (\<lambda>name acc. fold g (treePaths n w (p @ [name])) acc) (childNames w p) acc), w)"
      by (intro io_foldM_no_fault)
    then show ?thesis using True l by (simp add: io_bind_def fold_concat_map)
  qed
qed

text \<open>The depth that \<open>Walk\<close> starts with is never used up.\<close>

lemma Walk_no_fault:
  assumes "faults w = []" "tree_ok w base"
    and "\<And>q acc. q \<in> dom (map_of (ents w)) \<Longrightarrow> prefix base q \<Longrightarrow> visit q (fsize w q) acc w = (Inr (g q acc), w)"
  shows "Walk visit base acc w = (Inr (fold g (walked w base) acc), w)"
proof -
  have b: "base \<in> set (dirs w)" using assms(2) by (simp add: tree_ok_def)
  show ?thesis
    unfolding Walk_def walked_def
  proof (rule walkTree_no_fault [OF assms(1)])
    show "base \<in> set (dirs w) \<union> dom (map_of (ents w))" using b by simp
    show "\<forall>d \<in> set (dirs w). length d + 1 < deepest w + 2 + length base"
      using deepest_ge [of _ w] by fastforce
    show "\<And>q acc. q \<in> set (treePaths (deepest w + 2) w base) \<Longrightarrow> visit q (fsize w q) acc w = (Inr (g q acc), w)"
      using walkTree_depth(1) [OF assms(2) _ b] assms(3) by auto
  qed simp
qed

lemma joinSlash_Cons: "cs \<noteq> [] \<Longrightarrow> joinSlash (c # cs) = c @ CHR ''/'' # joinSlash cs"
  by (cases cs) auto

lemma below_bases:
  assumes "tree_ok w (nodesBase dir)" "tree_ok w (refsBase dir)" "q \<in> dom (map_of (ents w))"
    and "prefix (nodesBase dir) q \<or> prefix (refsBase dir) q"
  shows "(\<exists>cs. cs \<noteq> [] \<and> drop (length dir) q = ''objects'' # ''nodes'' # cs) \<or> (\<exists>cs. cs \<noteq> [] \<and> drop (length dir) q = ''refs'' # cs)"
proof -
  have ne: "q \<noteq> nodesBase dir" "q \<noteq> refsBase dir" using assms(1-3) by (auto simp: tree_ok_def)
  show ?thesis using assms(4)
  proof
    assume "prefix (nodesBase dir) q"
    then obtain r where r: "q = nodesBase dir @ r" by (rule prefixE)
    then have "r \<noteq> []" using ne(1) by auto
    then show ?thesis using r by (simp add: nodesBase_def)
  next
    assume "prefix (refsBase dir) q"
    then obtain r where r: "q = refsBase dir @ r" by (rule prefixE)
    then have "r \<noteq> []" using ne(2) by auto
    then show ?thesis using r by (simp add: refsBase_def)
  qed
qed

lemma tarVisit_no_fault:
  assumes f: "faults w = []" and t: "tree_ok w (nodesBase dir)" "tree_ok w (refsBase dir)"
    and q: "q \<in> dom (map_of (ents w))" "prefix (nodesBase dir) q \<or> prefix (refsBase dir) q"
  shows "tarVisit dir q (fsize w q) tw w = (Inr (tw @ [fileEntry w dir q]), w)"
proof -
  have nd: "q \<notin> set (dirs w)" using t q by (auto simp: tree_ok_def)
  obtain b where b: "fcontent w q = Some b" using q(1) by (auto simp: fcontent_def)
  let ?n = "joinSlash (drop (length dir) q)"
  have safe: "\<not> hasPrefix ?n ''../''" "\<not> hasPrefix ?n ''/''"
    using below_bases [OF t q] by (auto simp: hasPrefix_def joinSlash_Cons)
  show ?thesis
    using safe b nd f
    by (simp add: tarVisit_def writeTarFile_def tarCall_def io_defs syscall_no_fault readFile_def fileEntry_def fsize_def)
qed

lemma archiveEntries_no_fault:
  assumes f: "faults w = []" and t: "tree_ok w (nodesBase dir)" "tree_ok w (refsBase dir)" and j: "json_manifest Z m = Some b"
  shows "\<exists>es. archiveEntries Z dir m w = (Inr es, w)"
proof -
  let ?g = "\<lambda>q tw. tw @ [fileEntry w dir q]"
  have "Walk (tarVisit dir) (nodesBase dir) tw w = (Inr (fold ?g (walked w (nodesBase dir)) tw), w)"
      "Walk (tarVisit dir) (refsBase dir) tw w = (Inr (fold ?g (walked w (refsBase dir)) tw), w)" for tw
    by (rule Walk_no_fault [OF f]; use t tarVisit_no_fault [OF f t] in blast)+
  then show ?thesis
    using j f by (simp add: archiveEntries_def writeTarBytes_def tarCall_def io_defs syscall_no_fault)
qed

lemma set_inode_faults [simp]: "faults (set_inode i f w) = faults w"
  by (simp add: set_inode_def)

lemma writeSnapshot_no_fault:
  assumes f: "faults w = []" and r: "snapshot_ready dir dest w" and j: "json_manifest Z m = Some b"
    and d: "butlast dest \<in> set (dirs w)" "dest \<notin> set (dirs w)"
  shows "\<exists>w'. writeSnapshot Z dir m dest info w = (Inr info, w')"
proof -
  let ?t = "tmp_path_suffix w (butlast dest) ''.jaybase-snapshot-'' ''.tar.gz''" and ?i = "fresh_ino w"
  define w1 where "w1 = w\<lparr>ents := AList.update ?t ?i (ents w), dlog := (?t, Some ?i) # dlog w,
      inodes := (inodes w)(?i := \<lparr>idata = [], isynced = False, imode = 0x180\<rparr>)\<rparr>"
  define w2 where "w2 = set_inode ?i (imode_update (\<lambda>_. 0x180)) w1"
  have c: "createTempSuffix (butlast dest) ''.jaybase-snapshot-'' ''.tar.gz'' w = (Inr (?t, ?i), w1)"
    using f d(1) by (simp add: createTempSuffix_def createNamed_def syscall_no_fault Let_def w1_def)
  have ff: "faults w1 = []" "faults w2 = []" by (simp_all add: w1_def w2_def f set_inode_def)
  have ch: "io_onerr (fileChmod (?t, ?i) 0x180) (fileClose (?t, ?i)) w1 = (Inr (), w2)"
    using ff by (simp add: io_onerr_def fileChmod_def syscall_no_fault w2_def)
  have it: "in_temp w ?t ?i (\<lambda>n. idata n = []) w2"
    using hoareD [OF hoare_createTempSuffix at_start_refl c] unfolding w2_def by (auto intro: in_temp_set_inode)
  have "snapshot_ready dir dest w2"
  proof -
    have tb: "butlast ?t = butlast dest" "hasPrefix (last ?t) ''.jaybase-snapshot-''"
      by (simp_all add: tmp_path_suffix_def hasPrefix_def)
    have n: "\<not> prefix (nodesBase dir) ?t" and g: "\<not> prefix (refsBase dir) ?t"
      using r prefix_tmp [OF _ bases_not_tmp(1) tb bases_not_tmp(3)] prefix_tmp [OF _ bases_not_tmp(2) tb bases_not_tmp(4)]
      unfolding snapshot_ready_def by blast+
    have e: "dirs w2 = dirs w" "map_of (ents w2) q = map_of (ents w) q" if "q \<noteq> ?t" for q
      using it that by (auto simp: in_temp_def same_env_def keeps_def)
    have d2: "dirs w2 = dirs w" using it by (simp add: in_temp_def same_env_def)
    have "tree_ok w2 (nodesBase dir)" "tree_ok w2 (refsBase dir)"
      by (rule tree_ok_cong [OF _ d2]; use r n g e(2) in \<open>auto simp: snapshot_ready_def\<close>)+
    then show ?thesis using r by (simp add: snapshot_ready_def)
  qed
  then obtain es where es: "archiveEntries Z dir m w2 = (Inr es, w2)"
    using archiveEntries_no_fault [OF ff(2) _ _ j] by (auto simp: snapshot_ready_def)
  define w3 where "w3 = set_inode ?i (isynced_update (\<lambda>_. True)) (set_inode ?i (append_data (tar_gz Z es)) w2)"
  have w2e: "w2\<lparr>faults := []\<rparr> = w2" using ff by (cases w2) simp
  have cl: "closeWithError Z (?t, ?i) (Inr es) w2 = (Inr (), w3)"
    using ff by (simp add: closeWithError_def tarCall_def io_defs syscall_no_fault fileWrite_no_fault fileSync_def
        fileClose_def w3_def w2e)
  have w3: "faults w3 = []" "map_of (ents w3) ?t = Some ?i" "dirs w3 = dirs w"
    by (simp_all add: w3_def w2_def w1_def f set_inode_def)
  have rn: "\<exists>w4. osRename ?t dest w3 = (Inr (), w4) \<and> faults w4 = [] \<and> dirs w4 = dirs w"
    using w3 d by (simp add: osRename_def syscall_no_fault)
  then obtain w4 where w4: "osRename ?t dest w3 = (Inr (), w4)" "faults w4 = []" "dirs w4 = dirs w" by blast
  have "\<exists>w5. syncDir (butlast dest) w4 = (Inr (), w5)"
    using w4 d(1) by (simp add: run_simps)
  then obtain w5 where w5: "syncDir (butlast dest) w4 = (Inr (), w5)" by blast
  show ?thesis
    using c ch es cl w4(1) w5 by (simp add: writeSnapshot_def io_defer_def io_bind_def io_try_def io_ret_def)
qed

lemma fold_setDir_faults [simp]: "faults (fold setDir ps w) = faults w"
  by (induction ps arbitrary: w) (auto simp: setDir_def)

lemma snapshot_no_fault:
  assumes f: "faults w = []" and r: "snapshot_ready (sdir s) dest w" and j: "\<And>m. json_manifest Z m \<noteq> None"
    and root: "rootPath (sdir s) \<notin> set (dirs w)" and c: "chain ns" "tip ns = rootval (fcontent w (rootPath (sdir s)))"
    and n: "\<forall>n \<in> set ns. node_at L (sdir s) w (nHash n) n"
    and d: "\<And>k. map_of (ents w) (take k (butlast dest)) = None" "dest \<notin> set (dirs w)" "dest \<noteq> []"
  shows "\<exists>info w'. snapshot L Z s destName dest created w = (Inr info, w')"
proof -
  define w1 where "w1 = fold setDir (map (\<lambda>k. take k (butlast dest)) [0..<Suc (length (butlast dest))]) w"
  let ?info = "\<lparr>siPath = destName, siRoot = tip ns, siCreatedAt = created, siNodes = length ns\<rparr>"
  let ?m = "mkManifest (tip ns) created (length ns)"
  have cr: "currentRoot (sdir s) w = (Inr (tip ns), w)" using currentRoot_no_fault [OF f root] c(2) by simp
  have nf: "nodesFromRoot L (sdir s) (tip ns) w = (Inr ns, w)"
    using nodesFromRoot_no_fault [of ns L "sdir s" w] c(1) n f by blast
  have mk: "mkdirAll (butlast dest) w = (Inr (), w1)" unfolding w1_def by (rule mkdirAll_no_fault [OF f d(1)])
  have r1: "snapshot_ready (sdir s) dest w1"
    using r tree_ok_mkdirAll [OF _ mk] unfolding snapshot_ready_def by blast
  have dd: "set (dirs w1) = (\<lambda>k. take k (butlast dest)) ` {0..<Suc (length (butlast dest))} \<union> set (dirs w)"
    by (simp add: w1_def fold_setDir del: upt_Suc)
  have "butlast dest \<in> set (dirs w1)" unfolding dd by (auto intro!: image_eqI [of _ _ "length (butlast dest)"])
  moreover have "dest \<notin> set (dirs w1)"
  proof -
    have "length (take k (butlast dest)) < length dest" for k using d(3) by (cases dest) auto
    then show ?thesis using d(2) unfolding dd by (metis UnE image_iff less_irrefl)
  qed
  moreover have f1: "faults w1 = []" by (simp add: w1_def f del: upt_Suc)
  moreover obtain b where "json_manifest Z ?m = Some b" using j [of ?m] by blast
  ultimately obtain w' where "writeSnapshot Z (sdir s) ?m dest ?info w1 = (Inr ?info, w')"
    using writeSnapshot_no_fault [of w1 "sdir s" dest Z ?m b ?info] r1 f1 by blast
  then show ?thesis using cr nf mk by (simp add: snapshot_eq io_bind_def)
qed

subsection \<open>Retention\<close>

text \<open>The snapshots in a directory, oldest name first.\<close>

definition snapshotFiles :: "world \<Rightarrow> path \<Rightarrow> string list" where
  "snapshotFiles w d = filter (\<lambda>n. d @ [n] \<notin> set (dirs w) \<and> is_snapshot_name n) (childNames w d)"

lemma sorted_childNames: "sorted (childNames w d)"
  by (simp add: childNames_def)

lemma snapshotFiles_props: "sorted (snapshotFiles w d)" "distinct (snapshotFiles w d)"
    "n \<in> set (snapshotFiles w d) \<longleftrightarrow> d @ [n] \<notin> set (dirs w) \<and> is_snapshot_name n \<and> map_of (ents w) (d @ [n]) \<noteq> None"
  by (auto simp: snapshotFiles_def distinct_childNames childNames_iff intro!: sorted_wrt_filter sorted_childNames)

lemma osRemove_no_fault:
  "faults w = [] \<Longrightarrow> map_of (ents w) p \<noteq> None \<Longrightarrow>
   osRemove p w = (Inr (), w\<lparr>ents := AList.delete p (ents w), dlog := (p, None) # dlog w\<rparr>)"
  by (auto simp: osRemove_def syscall_no_fault)

lemma pruneLoop_no_fault:
  "faults w = [] \<Longrightarrow> distinct ns \<Longrightarrow> (\<And>n. n \<in> set ns \<Longrightarrow> map_of (ents w) (d @ [n]) \<noteq> None) \<Longrightarrow>
   \<exists>w'. pruneLoop d (int retain) ns w = (Inr (), w') \<and> dirs w' = dirs w \<and> inodes w' = inodes w
     \<and> (\<forall>q. map_of (ents w') q = (if q \<in> (\<lambda>n. d @ [n]) ` set (take (length ns - retain) ns) then None else map_of (ents w) q))"
proof (induction ns arbitrary: w)
  case Nil
  then show ?case by simp
next
  case (Cons n ns)
  show ?case
  proof (cases "length (n # ns) > retain")
    case False
    then show ?thesis by simp
  next
    case True
    let ?w = "w\<lparr>ents := AList.delete (d @ [n]) (ents w), dlog := (d @ [n], None) # dlog w\<rparr>"
    have r: "osRemove (d @ [n]) w = (Inr (), ?w)" by (rule osRemove_no_fault) (use Cons.prems in auto)
    have "\<exists>w'. pruneLoop d (int retain) ns ?w = (Inr (), w') \<and> dirs w' = dirs ?w \<and> inodes w' = inodes ?w
      \<and> (\<forall>q. map_of (ents w') q = (if q \<in> (\<lambda>n. d @ [n]) ` set (take (length ns - retain) ns) then None else map_of (ents ?w) q))"
      by (rule Cons.IH) (use Cons.prems in auto)
    then obtain w' where w': "pruneLoop d (int retain) ns ?w = (Inr (), w')" "dirs w' = dirs w" "inodes w' = inodes w"
      "\<And>q. map_of (ents w') q = (if q \<in> (\<lambda>n. d @ [n]) ` set (take (length ns - retain) ns) then None else map_of (ents ?w) q)"
      by auto
    have l: "length (n # ns) - retain = Suc (length ns - retain)" using True by simp
    have "pruneLoop d (int retain) (n # ns) w = (Inr (), w')" using r w'(1) True by (simp add: io_bind_def)
    then show ?thesis using w'(2-4) unfolding l by auto
  qed
qed

subsection \<open>The depth of a walk\<close>

lemma io_bind_cong: "(\<And>x w'. m w = (Inr x, w') \<Longrightarrow> f x w' = g x w') \<Longrightarrow> io_bind m f w = io_bind m g w"
  by (auto simp: io_bind_def split: prod.split sum.split)

lemma io_foldM_cong:
  assumes "\<And>x acc. reads (f x acc)" "at_start w v"
    and "\<And>x acc v. at_start w v \<Longrightarrow> x \<in> set xs \<Longrightarrow> f x acc v = g x acc v"
  shows "io_foldM f xs acc v = io_foldM g xs acc v"
  using assms(2,3)
proof (induction xs arbitrary: acc v)
  case (Cons x xs)
  have "f x acc v = g x acc v" using Cons.prems by simp
  moreover have "io_foldM f xs acc' v' = io_foldM g xs acc' v'" if "f x acc v = (Inr acc', v')" for acc' v'
    using Cons.prems at_start_trans [OF Cons.prems(1) reads_run [OF assms(1) that]] by (intro Cons.IH) auto
  ultimately show ?case by (auto simp: io_bind_def split: prod.split sum.split)
qed simp

text \<open>More depth than there are directories changes nothing.\<close>

lemma walkTree_more:
  assumes "\<And>p sz acc. reads (visit p sz acc)"
  shows "at_start w v \<Longrightarrow> deepest w + 2 \<le> m + length p \<Longrightarrow> 0 < m \<Longrightarrow> walkTree (m + n) visit p acc v = walkTree m visit p acc v"
proof (induction m arbitrary: p acc v)
  case (Suc m)
  have d: "dirs v = dirs w" using at_start_views [OF Suc.prems(1)] by simp
  have "io_foldM (\<lambda>name. walkTree (m + n) visit (p @ [name])) names a u = io_foldM (\<lambda>name. walkTree m visit (p @ [name])) names a u"
    if p: "p \<in> set (dirs w)" and u: "at_start w u" for names a u
  proof (rule io_foldM_cong)
    have "length p \<le> deepest w" using deepest_ge [OF p] .
    then have "0 < m" using Suc.prems(2) by simp
    then show "walkTree (m + n) visit (p @ [x]) acc v = walkTree m visit (p @ [x]) acc v" if "at_start w v" for x acc v
      using that Suc.prems(2) by (intro Suc.IH) simp_all
  qed (use u assms in \<open>auto intro: reads_walkTree\<close>)
  moreover have "p \<in> set (dirs w)" if "osLstat p v = (Inr DirInfo, u)" for u
    using that d by (auto simp: osLstat_def syscall_def split: list.splits option.splits if_splits)
  moreover have "at_start w u2" if "osLstat p v = (i, u)" "readDirNames p u = (r, u2)" for i u r u2
  proof -
    have "at_start v u" "at_start u u2" using reads_run that reads_tree_calls by blast+
    then show ?thesis using at_start_trans Suc.prems(1) by blast
  qed
  ultimately show ?case by (auto intro!: io_bind_cong split: FileInfo.split)
qed simp

end
