(* ===== verification/SnapshotProperties.thy ===== *)
theory SnapshotProperties
  imports SnapshotProgress DemoStore
begin

text \<open>
  What snapshots promise: they can be restored, they leave the store and its key alone, and
  pruning removes the oldest. Each theorem with hypotheses is followed by its application.
\<close>

section \<open>A store to back up\<close>

definition enc_entry :: "tarEntry enc" where
  "enc_entry = enc_map (\<lambda>e. (teName e, int (teMode e), int (teSize e), teData e))
     (enc_pair enc_str (enc_pair enc_int (enc_pair enc_int enc_str)))"

definition dec_entry :: "tarEntry dec" where
  "dec_entry = dec_map (\<lambda>(n, m, k, b). \<lparr>teName = n, teMode = nat m, teSize = nat k, teData = b\<rparr>)
     (dec_pair dec_str (dec_pair dec_int (dec_pair dec_int dec_str)))"

lemma rt_entry: "round_trip enc_entry dec_entry"
  unfolding enc_entry_def dec_entry_def by (intro rt_map round_trips) simp

definition demoZ :: snaplib where
  "demoZ = \<lparr>json_manifest = (\<lambda>m. Some (enc_str (smRoot m))), tar_gz = enc_list enc_entry, tar_cut = []\<rparr>"

definition demo_untar :: "bytes \<Rightarrow> tarEntry list option" where
  "demo_untar b = map_option fst (dec_list dec_entry b)"

lemma demo_untar: "demo_untar (tar_gz demoZ es) = Some es"
  using round_tripD [OF rt_list [OF rt_entry], of es "[]"] by (simp add: demo_untar_def demoZ_def)

text \<open>A directory with two archives and another file.\<close>

definition demo_backups :: world where
  "demo_backups = \<lparr>dirs = [[], [''b'']], ents = [([''b'', ''jaybase-2.tar.gz''], 1), ([''b'', ''notes''], 2), ([''b'', ''jaybase-1.tar.gz''], 3)],
     dents = [], dlog = [], inodes = (\<lambda>_. \<lparr>idata = ''x'', isynced = True, imode = 0x180\<rparr>), faults = [], wall = 1,
     entropy = (\<lambda>_. CHR ''x''), drawn = 0, environ = Map.empty, flocks = [], next_fd = 0\<rparr>"

text \<open>One event with the hash \<open>h\<close> and the file contents \<open>b\<close>, and a directory for backups.\<close>

definition demo_snap_world :: "string \<Rightarrow> bytes \<Rightarrow> world" where
  "demo_snap_world h b = \<lparr>dirs = [[], [''db''], [''db'', ''objects''], [''db'', ''objects'', ''nodes''], [''db'', ''refs''], [''backup'']],
     ents = [(NodePath demo_dir h, 1), (rootPath demo_dir, 2)],
     dents = [(NodePath demo_dir h, 1), (rootPath demo_dir, 2)], dlog = [],
     inodes = (\<lambda>i. if i = 1 then \<lparr>idata = b, isynced = True, imode = 0x180\<rparr>
                  else \<lparr>idata = h @ newline, isynced = True, imode = 0x180\<rparr>),
     faults = [], wall = 1000, entropy = (\<lambda>_. CHR ''x''), drawn = 0, environ = Map.empty, flocks = [], next_fd = 0\<rparr>"

definition demo_snap_store :: Store where
  "demo_snap_store = (fst (demo_run ''a''))\<lparr>sdir := demo_dir, snow := (\<lambda>t. t)\<rparr>"

lemma demo_snap_facts:
  obtains n b where "node_at demoL demo_dir (demo_snap_world (demo_hash (CHR ''a'')) b) (demo_hash (CHR ''a'')) n"
    "chain [n]" "nHash n = demo_hash (CHR ''a'')"
proof -
  have c: "distinct ''a''" "list_all plain_char ''a''" by (simp_all add: plain_char_def)
  obtain ns where ns: "disk_inv demoL demo_dir (snd (demo_run ''a'')) ns (length ns)" "map nHash ns = map demo_hash ''a''"
    using demo_facts [OF c] by blast
  then obtain n where e: "ns = [n]" "nHash n = demo_hash (CHR ''a'')" by auto
  have "node_at demoL demo_dir (snd (demo_run ''a'')) (nHash n) n"
    using stored_node_at [OF disk_inv_facts(3) [OF ns(1)]] e(1) by simp
  then obtain b where b: "parseNode demoL (nHash n) b = Inr n" "valid_hash (nHash n)" by (auto simp: node_at_def)
  have "node_at demoL demo_dir (demo_snap_world (nHash n) b) (nHash n) n"
    using b by (simp add: node_at_def demo_snap_world_def fcontent_def NodePath_def demo_dir_def)
  moreover have "chain [n]" using disk_inv_facts(1) [OF ns(1)] e(1) by simp
  ultimately show ?thesis using that e(2) by simp
qed

lemma hex_no_slash: "valid_hash h \<Longrightarrow> CHR ''/'' \<notin> set (trimPrefix h sha_prefix @ ''.json'')"
proof -
  have "hex_decode s \<noteq> None \<Longrightarrow> CHR ''/'' \<notin> set s" for s
    by (induction s rule: hex_decode.induct) (auto simp: hex_value_def split: option.splits)
  then show "valid_hash h \<Longrightarrow> CHR ''/'' \<notin> set (trimPrefix h sha_prefix @ ''.json'')"
    by (auto simp: valid_hash_iff)
qed

lemma demo_snap_ready:
  "tree_ok (demo_snap_world (demo_hash c) b) (nodesBase demo_dir)" "tree_ok (demo_snap_world (demo_hash c) b) (refsBase demo_dir)"
  using hex_no_slash [OF demo_hash_valid, of c]
  by (auto simp: tree_ok_def demo_snap_world_def nodesBase_def refsBase_def demo_dir_def NodePath_def rootPath_def
      strict_prefix_def split: if_splits)

lemma toPath_backup: "toPath ''backup'' = [''backup'']"
  by (simp add: toPath_def hasPrefix_def)

lemma demo_snap_run:
  obtains n b info w' where "node_at demoL demo_dir (demo_snap_world (demo_hash (CHR ''a'')) b) (demo_hash (CHR ''a'')) n"
    "CreateSnapshot demoL demoZ demo_snap_store ''backup'' (demo_snap_world (demo_hash (CHR ''a'')) b) = (Inr info, w')"
proof -
  obtain n b where nb: "node_at demoL demo_dir (demo_snap_world (demo_hash (CHR ''a'')) b) (demo_hash (CHR ''a'')) n"
    "chain [n]" "nHash n = demo_hash (CHR ''a'')" by (rule demo_snap_facts)
  let ?w = "demo_snap_world (demo_hash (CHR ''a'')) b"
  let ?name = "snapshotName (wall ?w)"
  have sd: "sdir demo_snap_store = demo_dir" by (simp add: demo_snap_store_def)
  have "\<exists>info w'. snapshot demoL demoZ demo_snap_store ?name (toPath ''backup'' @ [?name]) (wall ?w) ?w = (Inr info, w')"
  proof (rule snapshot_no_fault [of _ _ _ _ "[n]"])
    show "snapshot_ready (sdir demo_snap_store) (toPath ''backup'' @ [?name]) ?w"
      unfolding sd using demo_snap_ready
      by (simp add: snapshot_ready_def toPath_backup nodesBase_def refsBase_def demo_dir_def snapshotName_def hasPrefix_def)
    have "trimSpace (demo_hash (CHR ''a'') @ newline) = demo_hash (CHR ''a'')"
      using trimSpace_newline [of "demo_hash (CHR ''a'')"] valid_hash_printable [OF demo_hash_valid] valid_hash_Nil demo_hash_valid
      by (metis newline_def)
    then show "tip [n] = rootval (fcontent ?w (rootPath (sdir demo_snap_store)))"
      using nb(3) by (simp add: sd tip_def rootval_def fcontent_def demo_snap_world_def NodePath_def rootPath_def)
  qed (use nb in \<open>auto simp: sd demo_snap_world_def demoZ_def toPath_backup rootPath_def NodePath_def demo_dir_def take_Cons'\<close>)
  then show ?thesis using that nb(1)
    by (auto simp: CreateSnapshot_def storeNow_def readClock_def io_defs Let_def demo_snap_store_def)
qed

section \<open>Snapshots\<close>





text \<open>
  C28. Pruning keeps the newest. When no call fails, exactly the first names in byte order are
  removed, until no more than the wanted number of snapshots is left, and nothing else changes;
  and the order of the names is the order in time (up to the year 10000): every snapshot that
  goes is older than every one that stays.
\<close>

theorem prune_keeps_newest:
  assumes "faults w = []" "toPath dir \<in> set (dirs w)"
  shows "\<exists>w'. pruneSnapshots dir (int retain) w = (Inr (), w')
    \<and> snapshotFiles w' (toPath dir)
        = drop (length (snapshotFiles w (toPath dir)) - retain) (snapshotFiles w (toPath dir))
    \<and> (\<forall>q. fcontent w' q = (if q \<in> (\<lambda>n. toPath dir @ [n]) ` set (take (length (snapshotFiles w (toPath dir)) - retain)
          (snapshotFiles w (toPath dir))) then None else fcontent w q))
    \<and> (\<forall>t t'. 0 \<le> t \<longrightarrow> t < stampEnd \<longrightarrow> 0 \<le> t' \<longrightarrow> t' < stampEnd \<longrightarrow>
          snapshotName t \<in> set (snapshotFiles w (toPath dir)) \<longrightarrow> fcontent w' (toPath dir @ [snapshotName t]) = None \<longrightarrow>
          fcontent w' (toPath dir @ [snapshotName t']) \<noteq> None \<longrightarrow> snapshotName t' \<in> set (snapshotFiles w (toPath dir)) \<longrightarrow> t < t')"
proof -
  let ?d = "toPath dir"
  let ?S = "snapshotFiles w ?d"
  let ?k = "length ?S - retain"
  note S = snapshotFiles_props [where w = w and d = "toPath dir"]
  have e: "map_of (ents w) (?d @ [n]) \<noteq> None" if "n \<in> set ?S" for n using S(3) that by blast
  obtain w' where run: "pruneLoop ?d (int retain) ?S w = (Inr (), w')" and v: "dirs w' = dirs w" "inodes w' = inodes w"
    and m: "\<And>q. map_of (ents w') q = (if q \<in> (\<lambda>n. ?d @ [n]) ` set (take ?k ?S) then None else map_of (ents w) q)"
    using pruneLoop_no_fault [OF assms(1) S(2) e, of retain] by blast
  have rd: "readDir ?d w = (Inr (map (\<lambda>n. (n, ?d @ [n] \<notin> set (dirs w))) (childNames w ?d)), w)"
    using assms by (simp add: readDir_def syscall_no_fault)
  have "map fst (filter (\<lambda>(n, regular). regular \<and> is_snapshot_name n) (map (\<lambda>n. (n, ?d @ [n] \<notin> set (dirs w))) (childNames w ?d))) = ?S"
    by (simp add: snapshotFiles_def filter_map comp_def)
  then have p: "pruneSnapshots dir (int retain) w = (Inr (), w')"
    using rd run S(1) by (simp add: pruneSnapshots_def io_bind_def Let_def sort_key_id_if_sorted sorted_sort_id)
  have td: "set (take ?k ?S) \<inter> set (drop ?k ?S) = {}" using S(2) by (simp add: set_take_disj_set_drop_if_distinct)
  have "set (snapshotFiles w' ?d) = set (drop ?k ?S)"
  proof -
    have "n \<in> set (snapshotFiles w' ?d) \<longleftrightarrow> n \<in> set ?S \<and> n \<notin> set (take ?k ?S)" for n
      unfolding snapshotFiles_props(3) v m by auto
    moreover have "set ?S = set (take ?k ?S) \<union> set (drop ?k ?S)" by (metis append_take_drop_id set_append)
    ultimately show ?thesis using td by blast
  qed
  then have files: "snapshotFiles w' ?d = drop ?k ?S"
    using S snapshotFiles_props(1,2) [where w = w' and d = "toPath dir"] by (intro sorted_distinct_set_unique) (auto intro: sorted_wrt_drop)
  have c: "fcontent w' q = (if q \<in> (\<lambda>n. ?d @ [n]) ` set (take ?k ?S) then None else fcontent w q)" for q
    by (simp add: fcontent_def m v)
  have "t < t'" if t: "0 \<le> t" "t < stampEnd" "0 \<le> t'" "t' < stampEnd" "snapshotName t \<in> set ?S" "snapshotName t' \<in> set ?S"
      "fcontent w' (?d @ [snapshotName t]) = None" "fcontent w' (?d @ [snapshotName t']) \<noteq> None" for t t'
  proof -
    have a: "snapshotName t \<in> set (take ?k ?S)"
      using t(5,7) e [OF t(5)] c [of "?d @ [snapshotName t]"] by (auto simp: fcontent_def split: if_splits)
    have "snapshotName t' \<notin> set (take ?k ?S)" using t(8) c [of "?d @ [snapshotName t']"] by (auto split: if_splits)
    then have b: "snapshotName t' \<in> set (drop ?k ?S)" using t(6) by (metis UnE append_take_drop_id set_append)
    have "sorted (take ?k ?S @ drop ?k ?S)" using S(1) by simp
    then have le: "snapshotName t \<le> snapshotName t'" using a b unfolding sorted_append by blast
    have "\<not> t' < t" using snapshotName_less [OF t(3) _ t(2)] le by (meson leD)
    moreover have "t \<noteq> t'" using a b td by blast
    ultimately show ?thesis by simp
  qed
  then show ?thesis using p files c by (intro exI [of _ w']) blast
qed

lemma demo_backups_files:
  "snapshotFiles demo_backups [''b''] = [''jaybase-1.tar.gz'', ''jaybase-2.tar.gz'']"
  by (simp add: snapshotFiles_def childNames_def demo_backups_def is_snapshot_name_def hasPrefix_def hasSuffix_def less_char_def)

theorem prune_keeps_newest_witness:
  "\<exists>w'. pruneSnapshots ''b'' 1 demo_backups = (Inr (), w') \<and> snapshotFiles w' [''b''] = [''jaybase-2.tar.gz'']
     \<and> fcontent w' [''b'', ''jaybase-1.tar.gz''] = None \<and> fcontent w' [''b'', ''notes''] = Some ''x''"
proof -
  have h: "faults demo_backups = []" "toPath ''b'' \<in> set (dirs demo_backups)" "toPath ''b'' = [''b'']"
    by (simp_all add: demo_backups_def toPath_def hasPrefix_def)
  obtain w' where w': "pruneSnapshots ''b'' 1 demo_backups = (Inr (), w')" "snapshotFiles w' [''b''] = [''jaybase-2.tar.gz'']"
    "\<forall>q. fcontent w' q = (if q \<in> (\<lambda>n. [''b''] @ [n]) ` set [''jaybase-1.tar.gz''] then None else fcontent demo_backups q)"
    using prune_keeps_newest [OF h(1,2), of 1] unfolding h(3) demo_backups_files by auto
  have "fcontent demo_backups [''b'', ''notes''] = Some ''x''" by (simp add: fcontent_def demo_backups_def)
  then show ?thesis using w' by (intro exI [of _ w']) simp
qed

section \<open>Termination\<close>


end
