(* ===== verification/Http.thy ===== *)
theory Http
  imports Auth Limiter Snapshot
begin

text \<open>
  The HTTP layer of the server (server/server.go, server/limiter.go): requests, the response
  recorder with its audit fields, the state that requests share, errors as responses, the
  decoding of bodies. A handler takes a connection and gives it back, written to.
\<close>

subsection \<open>Values in responses\<close>

text \<open>
  What is given to the JSON encoder. \<open>JMsg\<close> is a formatted message, \<open>JErr\<close> the text of an
  error, \<open>JRaw\<close> raw JSON. Objects list their fields in the order of the output.
\<close>

datatype json =
    JInt int
  | JBool bool
  | JStr string
  | JTime time
  | JRaw bytes
  | JMsg string "string list"
  | JErr go_error
  | JList "json list"
  | JObj "(string \<times> json) list"

datatype ResponseBody = NoBody | JSONBody json | RawBody bytes

definition codeString :: "ErrorCode \<Rightarrow> string" where
  "codeString c = (case c of ErrValidation \<Rightarrow> ''validation_error'' | ErrPermission \<Rightarrow> ''permission_denied''
     | ErrNotFound \<Rightarrow> ''not_found'' | ErrConflict \<Rightarrow> ''conflict'' | ErrIntegrity \<Rightarrow> ''integrity_error''
     | ErrCapacity \<Rightarrow> ''capacity_exceeded'' | ErrRateLimit \<Rightarrow> ''rate_limited'')"

text \<open>
  \<^verbatim>\<open>err.Error()\<close> where the code searches it: verbs are replaced by the arguments, a number by
  \<^verbatim>\<open>#\<close>; the escapes of \<^verbatim>\<open>%q\<close> are left out.
\<close>

fun render :: "string \<Rightarrow> string list \<Rightarrow> string" where
  "render [] args = []"
| "render [c] args = [c]"
| "render (c # v # s) args =
     (if c \<noteq> CHR ''%'' then c # render (v # s) args
      else if v = CHR ''d'' then CHR ''#'' # render s args
      else (case args of
          [] \<Rightarrow> render s []
        | a # as \<Rightarrow> (if v = CHR ''q'' then [CHR 0x22] @ a @ [CHR 0x22] else a) @ render s as))"

definition osErrorText :: "os_error \<Rightarrow> string" where
  "osErrorText e = (case e of ENOENT \<Rightarrow> ''no such file or directory'' | EEXIST \<Rightarrow> ''file exists''
     | EISDIR \<Rightarrow> ''is a directory'' | EWOULDBLOCK \<Rightarrow> ''resource temporarily unavailable''
     | EIO \<Rightarrow> ''input/output error'')"

fun errorText :: "go_error \<Rightarrow> string" where
  "errorText (AppError c fmt args) = codeString c @ '': '' @ render fmt args"
| "errorText (OsError e) = osErrorText e"
| "errorText (GoError fmt args) = render fmt args"
| "errorText (Wrapped fmt args e) = render fmt (args @ [errorText e])"
| "errorText (Panic m) = m"

subsection \<open>Requests\<close>

text \<open>
  A request as the multiplexer and the handlers see it: the path both as the string and as its
  decoded segments, the query as its pairs in order, headers under their canonical names. The
  principal is what \<^verbatim>\<open>require\<close> puts into the context.
\<close>

record Request =
  rqMethod :: string
  rqPath :: string
  rqSegments :: "string list"
  rqQuery :: "(string \<times> string) list"
  rqHeader :: "(string \<times> string) list"
  rqBody :: bytes
  rqPathValue :: string
  rqPrincipal :: "Principal option"

definition firstValue :: "(string \<times> string) list \<Rightarrow> string \<Rightarrow> string" where
  "firstValue kvs k = (case map_of kvs k of None \<Rightarrow> [] | Some v \<Rightarrow> v)"

definition headerGet :: "Request \<Rightarrow> string \<Rightarrow> string" where
  "headerGet r k = firstValue (rqHeader r) k"

definition queryGet :: "Request \<Rightarrow> string \<Rightarrow> string" where
  "queryGet r k = firstValue (rqQuery r) k"

definition queryHas :: "Request \<Rightarrow> string \<Rightarrow> bool" where
  "queryHas r k \<longleftrightarrow> map_of (rqQuery r) k \<noteq> None"

definition principalFromContext :: "Request \<Rightarrow> Principal" where
  "principalFromContext r = (case rqPrincipal r of None \<Rightarrow> zeroPrincipal | Some p \<Rightarrow> p)"

text \<open>\<^verbatim>\<open>strconv.Atoi\<close>: the value, which is clipped when out of range, and whether there is an error.\<close>

definition decValue :: "string \<Rightarrow> int" where
  "decValue ds = foldl (\<lambda>n c. n * 10 + (int (of_char c) - 48)) 0 ds"

definition atoi :: "string \<Rightarrow> int \<times> bool" where
  "atoi raw =
     (let neg = hasPrefix raw ''-'';
          ds = (if hasPrefix raw ''-'' \<or> hasPrefix raw ''+'' then tl raw else raw);
          n = decValue ds
      in if ds = [] \<or> \<not> list_all digit09 ds then (0, True)
         else if neg then (if n > 2 ^ 63 then (- (2 ^ 63), True) else (- n, False))
         else (if n \<ge> 2 ^ 63 then (2 ^ 63 - 1, True) else (n, False)))"

subsection \<open>The body\<close>

record appendRequest =
  arType :: string
  arEntityID :: string
  arCommand :: string
  arPayload :: bytes
  arExpectedRoot :: "string option"

record payloadBatchRequest =
  pbRoot :: string
  pbEventIDs :: "string list"

record refRequest =
  rfRoot :: string
  rfExpectedRoot :: "string option"

text \<open>
  What \<^verbatim>\<open>http.MaxBytesReader\<close> gives to its reader: at most the limit, then the end of the
  body or the error that the body is too large. A JSON decoder takes a value from it and leaves
  the rest.
\<close>

record reader =
  rdData :: bytes
  rdTooLarge :: bool

definition maxBytesReader :: "int \<Rightarrow> bytes \<Rightarrow> reader" where
  "maxBytesReader maxBytes b =
     \<lparr>rdData = take (nat maxBytes) b, rdTooLarge = int (length b) > maxBytes\<rparr>"

definition io_EOF :: go_error where
  "io_EOF = GoError ''EOF'' []"

definition maxBytesError :: go_error where
  "maxBytesError = GoError ''http: request body too large'' []"

fun asMaxBytesError :: "go_error \<Rightarrow> bool" where
  "asMaxBytesError (Wrapped fmt args e) \<longleftrightarrow> asMaxBytesError e"
| "asMaxBytesError e \<longleftrightarrow> e = maxBytesError"

type_synonym 'a decoder = "reader \<Rightarrow> go_error + 'a \<times> reader"

definition decodeJSON :: "'a decoder \<Rightarrow> unit decoder \<Rightarrow> int \<Rightarrow> bytes \<Rightarrow> go_error + 'a" where
  "decodeJSON dec decEmpty maxBytes body =
     (case dec (maxBytesReader maxBytes body) of
        Inl e \<Rightarrow> Inl (Wrapped ''invalid JSON: %w'' [] e)
      | Inr (v, rest) \<Rightarrow>
          (case decEmpty rest of
             Inl e \<Rightarrow> if e = io_EOF then Inr v else Inl (Wrapped ''invalid trailing JSON: %w'' [] e)
           | Inr _ \<Rightarrow> Inl (GoError ''request body must contain exactly one JSON object'' [])))"

subsection \<open>The shared state\<close>

record API =
  apStore :: Store
  apAuth :: "credential list"
  apBackupDir :: string
  apMaxBody :: int
  apSnapshotRetention :: int
  apSnapshotMinFreeBytes :: "64 word"
  apMinimumRoot :: string
  apCatalog :: "Catalog option"
  apRequestLimiter :: fixedWindowLimiter
  apFailedAuthLimiter :: fixedWindowLimiter

text \<open>
  The libraries, and the other requests: \<open>others n\<close> is what they do to the shared state after
  the \<open>n\<close>-th operation of the request at hand (\<open>alone\<close>: nothing).
\<close>

record httplib =
  hGo :: golib
  hAuth :: authlib
  hCat :: catlib
  hSnap :: snaplib
  parseMediaType :: "string \<Rightarrow> string option"
  dec_append :: "appendRequest decoder"
  dec_batch :: "payloadBatchRequest decoder"
  dec_ref :: "refRequest decoder"
  dec_entry_body :: "CatalogEntry decoder"
  dec_empty :: "unit decoder"
  json_request :: "appendRequest \<Rightarrow> bytes option"
  json_bytes :: "json \<Rightarrow> bytes option"
  statfs :: "world \<Rightarrow> path \<Rightarrow> 64 word \<times> 64 word" \<comment> \<open>free blocks and block size\<close>
  others :: "nat \<Rightarrow> API \<times> world \<Rightarrow> API \<times> world"

definition alone :: "httplib \<Rightarrow> bool" where
  "alone H \<longleftrightarrow> (\<forall>n x. others H n x = x)"

text \<open>The writer of the response, inside the recorder that \<^verbatim>\<open>accessLog\<close> puts around it.\<close>

record responseRecorder =
  wHeader :: "(string \<times> string) list"
  wStatusLine :: "int option"
  wBody :: ResponseBody
  rcStatus :: int
  rcPrincipalID :: string
  rcRole :: string
  rcOperation :: string
  rcOutcome :: string
  rcRoot :: string
  rcNodes :: nat
  rcPayloadsRead :: nat
  rcSelectedIDs :: "string list"
  rcEventType :: string
  rcCommand :: string
  rcRefName :: string

datatype attr = AStr string | AInt int | ABool bool | AList "string list"

text \<open>A connection: the recorder, the shared state, the lines logged, and whether a panic ended it.\<close>

record conn =
  cnW :: responseRecorder
  cnAPI :: API
  cnWorld :: world
  cnCalls :: nat
  cnLog :: "(string \<times> attr) list list"
  cnPanic :: bool

type_synonym handler = "conn \<Rightarrow> conn"

definition onW :: "(responseRecorder \<Rightarrow> responseRecorder) \<Rightarrow> handler" where
  "onW f c = c\<lparr>cnW := f (cnW c)\<rparr>"

subsection \<open>Writing\<close>

definition setHeader :: "string \<Rightarrow> string \<Rightarrow> handler" where
  "setHeader k v = onW (\<lambda>w. w\<lparr>wHeader := AList.update k v (wHeader w)\<rparr>)"

definition WriteHeader :: "int \<Rightarrow> handler" where
  "WriteHeader status = onW (\<lambda>w. w\<lparr>rcStatus := status,
     wStatusLine := (case wStatusLine w of None \<Rightarrow> Some status | Some s \<Rightarrow> Some s)\<rparr>)"

definition writeBody :: "ResponseBody \<Rightarrow> handler" where
  "writeBody b = onW (\<lambda>w. w\<lparr>wBody := b\<rparr>)"

definition writeJSON :: "int \<Rightarrow> json \<Rightarrow> handler" where
  "writeJSON status v c =
     writeBody (JSONBody v) (WriteHeader status (setHeader ''Content-Type'' ''application/json'' c))"

definition writeRawJSON :: "int \<Rightarrow> bytes \<Rightarrow> handler" where
  "writeRawJSON status b c =
     writeBody (RawBody b) (WriteHeader status (setHeader ''Content-Type'' ''application/json'' c))"

definition appErrorJSON :: "string \<Rightarrow> json \<Rightarrow> json" where
  "appErrorJSON code message = JObj [(''code'', JStr code), (''message'', message)]"

definition writeError :: "int \<Rightarrow> string \<Rightarrow> json \<Rightarrow> handler" where
  "writeError status code message = writeJSON status (JObj [(''error'', appErrorJSON code message)])"

definition statusOf :: "ErrorCode \<Rightarrow> int" where
  "statusOf code = (case code of
       ErrValidation \<Rightarrow> 400 | ErrPermission \<Rightarrow> 403 | ErrNotFound \<Rightarrow> 404 | ErrConflict \<Rightarrow> 409
     | ErrIntegrity \<Rightarrow> 500 | ErrCapacity \<Rightarrow> 507 | ErrRateLimit \<Rightarrow> 500)"

definition writeAPIError :: "go_error \<Rightarrow> handler" where
  "writeAPIError e =
     (case asAppError e of
        Some (code, fmt, args) \<Rightarrow> writeError (statusOf code) (codeString code) (JMsg fmt args)
      | None \<Rightarrow> writeError 500 ''internal_error'' (JStr ''internal server error''))"

definition writeDecodeError :: "go_error \<Rightarrow> handler" where
  "writeDecodeError e =
     (if asMaxBytesError e
      then writeError 413 (codeString ErrValidation) (JStr ''request body exceeds the configured size limit'')
      else writeError 400 (codeString ErrValidation)
             (JStr ''request body must contain exactly one valid JSON object''))"

definition writeRateLimit :: handler where
  "writeRateLimit c =
     writeError 429 (codeString ErrRateLimit) (JStr ''request rate limit exceeded'') (setHeader ''Retry-After'' ''60'' c)"

definition hasJSONContentType :: "httplib \<Rightarrow> Request \<Rightarrow> bool" where
  "hasJSONContentType H r =
     (case parseMediaType H (headerGet r ''Content-Type'') of
        None \<Rightarrow> False | Some mediaType \<Rightarrow> equalFold mediaType ''application/json'')"

definition writeMediaTypeError :: handler where
  "writeMediaTypeError = writeError 415 (codeString ErrValidation) (JStr ''Content-Type must be application/json'')"

subsection \<open>The audit fields\<close>

definition setRequestPrincipal :: "string \<Rightarrow> string \<Rightarrow> handler" where
  "setRequestPrincipal i role = onW (\<lambda>w. w\<lparr>rcPrincipalID := i, rcRole := role\<rparr>)"

definition setAppendAudit :: "string \<Rightarrow> string \<Rightarrow> handler" where
  "setAppendAudit eventType command = onW (\<lambda>w. w\<lparr>rcEventType := eventType, rcCommand := command\<rparr>)"

definition setRefAudit :: "string \<Rightarrow> handler" where
  "setRefAudit name = onW (\<lambda>w. w\<lparr>rcRefName := name\<rparr>)"

definition setRequestAudit :: "string \<Rightarrow> string \<Rightarrow> string \<Rightarrow> nat \<Rightarrow> handler" where
  "setRequestAudit operation outcome root nodes =
     onW (\<lambda>w. w\<lparr>rcOperation := operation, rcOutcome := outcome, rcRoot := root, rcNodes := nodes\<rparr>)"

definition addPayloadRead :: handler where
  "addPayloadRead = onW (\<lambda>w. w\<lparr>rcPayloadsRead := rcPayloadsRead w + 1\<rparr>)"

definition setPayloadReadAudit :: "string \<Rightarrow> string \<Rightarrow> string list \<Rightarrow> handler" where
  "setPayloadReadAudit outcome root eventIDs =
     onW (\<lambda>w. w\<lparr>rcOperation := ''payload_read'', rcOutcome := outcome, rcRoot := root, rcSelectedIDs := eventIDs\<rparr>)"

subsection \<open>Operations on the shared state\<close>

text \<open>
  One operation, atomic under its lock: \<open>bad\<close> continues with its error, \<open>ok\<close> with its result.
  A panic ends the connection. Afterwards other requests may act.
\<close>

definition call ::
    "httplib \<Rightarrow> (API \<Rightarrow> ('a \<times> API) io) \<Rightarrow> (go_error \<Rightarrow> handler) \<Rightarrow> ('a \<Rightarrow> handler) \<Rightarrow> handler" where
  "call H f bad ok c =
     (case f (cnAPI c) (cnWorld c) of (r, w1) \<Rightarrow>
        (case others H (cnCalls c) (case r of Inl _ \<Rightarrow> cnAPI c | Inr (_, a) \<Rightarrow> a, w1) of (a2, w2) \<Rightarrow>
           (let c2 = c\<lparr>cnAPI := a2, cnWorld := w2, cnCalls := cnCalls c + 1\<rparr> in
            case r of
              Inl (Panic m) \<Rightarrow> c2\<lparr>cnPanic := True\<rparr>
            | Inl e \<Rightarrow> bad e c2
            | Inr (x, _) \<Rightarrow> ok x c2)))"

definition onStore :: "(Store \<Rightarrow> 'a io) \<Rightarrow> API \<Rightarrow> ('a \<times> API) io" where
  "onStore m a = io_bind (m (apStore a)) (\<lambda>x. io_ret (x, a))"

definition requestAllow :: "string \<Rightarrow> API \<Rightarrow> (bool \<times> API) io" where
  "requestAllow key a = (\<lambda>w. case limiterAllow (apRequestLimiter a) key (wall w) of
     (ok, l) \<Rightarrow> (Inr (ok, a\<lparr>apRequestLimiter := l\<rparr>), w))"

definition failedAuthAllow :: "string \<Rightarrow> API \<Rightarrow> (bool \<times> API) io" where
  "failedAuthAllow key a = (\<lambda>w. case limiterAllow (apFailedAuthLimiter a) key (wall w) of
     (ok, l) \<Rightarrow> (Inr (ok, a\<lparr>apFailedAuthLimiter := l\<rparr>), w))"

definition minimumRootPresent :: "API \<Rightarrow> (bool \<times> API) io" where
  "minimumRootPresent a =
     (if apMinimumRoot a = [] then io_ret (True, a)
      else onStore (\<lambda>s. ContainsRoot s (apMinimumRoot a)) a)"

subsection \<open>Authentication in front of a handler\<close>

definition denyUnauthenticated :: "httplib \<Rightarrow> handler" where
  "denyUnauthenticated H c =
     call H (failedAuthAllow ''failed-auth'') writeAPIError (\<lambda>ok c.
       if \<not> ok then writeRateLimit c
       else writeError 401 (codeString ErrPermission) (JStr ''valid bearer token required'')
              (setHeader ''Www-Authenticate'' ''Bearer realm=\"jaybase\"'' c))
       (setRequestPrincipal ''unauthenticated'' [] c)"

definition require :: "httplib \<Rightarrow> Role \<Rightarrow> (Request \<Rightarrow> handler) \<Rightarrow> Request \<Rightarrow> handler" where
  "require H minimum nxt r c =
     (case cutAt (CHR '' '') (headerGet r ''Authorization'') of (scheme, token, two) \<Rightarrow>
        if \<not> two \<or> \<not> equalFold scheme ''Bearer'' then denyUnauthenticated H c
        else (case Authenticate (hAuth H) (apAuth (cnAPI c)) (wall (cnWorld c)) (trimSpace token) of
            (pr, ok) \<Rightarrow>
              if \<not> ok then denyUnauthenticated H c
              else call H (requestAllow (prID pr)) writeAPIError (\<lambda>allowed c.
                  if \<not> allowed then writeRateLimit c
                  else if \<not> roleSatisfies (prRole pr) minimum
                  then writeError 403 (codeString ErrPermission)
                         (JStr ''credential does not have permission for this operation'') c
                  else nxt (r\<lparr>rqPrincipal := Some pr\<rparr>) c)
                (setRequestPrincipal (prID pr) (roleString (prRole pr)) c)))"

definition writeRootAbsent :: handler where
  "writeRootAbsent = writeError 503 (codeString ErrIntegrity)
     (JStr ''configured minimum root is absent from live history'')"

definition requireMutation :: "httplib \<Rightarrow> Role \<Rightarrow> (Request \<Rightarrow> handler) \<Rightarrow> Request \<Rightarrow> handler" where
  "requireMutation H minimum nxt =
     require H minimum (\<lambda>r. call H minimumRootPresent (\<lambda>_. writeRootAbsent) (\<lambda>contains c.
       if \<not> contains then writeRootAbsent c else nxt r c))"

end
