(* ===== verification/Server.thy ===== *)
theory Server
  imports Http
begin

text \<open>
  The server (server/server.go, server/catalog\<^verbatim>\<open>_\<close>http.go, server/disk\<^verbatim>\<open>_\<close>unix.go): its options,
  one definition per handler, the routes, the access log and the security headers.
\<close>

subsection \<open>Options\<close>

record Options =
  opStore :: "Store option"
  opAuth :: "credential list option"
  opBackupDir :: string
  opMaxBodyBytes :: int
  opSnapshotRetention :: int
  opMinimumRoot :: string
  opRateLimitPerMinute :: int
  opFailedAuthLimitPerMinute :: int
  opSnapshotMinFreeBytes :: "64 word"
  opCatalog :: "Catalog option"

definition minute :: int where
  "minute = 60000000000"

definition maxPayloadBatchEvents :: int where
  "maxPayloadBatchEvents = 100"

definition New :: "Options \<Rightarrow> go_error + API" where
  "New opts =
     (case opStore opts of
        None \<Rightarrow> Inl (GoError ''store is required'' [])
      | Some store \<Rightarrow> (case opAuth opts of
          None \<Rightarrow> Inl (GoError ''authenticator is required'' [])
        | Some auth \<Rightarrow> Inr
            \<lparr>apStore = store, apAuth = auth, apBackupDir = opBackupDir opts,
             apMaxBody = (if opMaxBodyBytes opts \<le> 0 then 0x100000 else opMaxBodyBytes opts),
             apSnapshotRetention = (if opSnapshotRetention opts \<le> 0 then 24 else opSnapshotRetention opts),
             apSnapshotMinFreeBytes = opSnapshotMinFreeBytes opts,
             apMinimumRoot = trimSpace (opMinimumRoot opts), apCatalog = opCatalog opts,
             apRequestLimiter = newFixedWindowLimiter
               (if opRateLimitPerMinute opts = 0 then 600 else opRateLimitPerMinute opts) minute,
             apFailedAuthLimiter = newFixedWindowLimiter
               (if opFailedAuthLimitPerMinute opts = 0 then 30 else opFailedAuthLimitPerMinute opts) minute\<rparr>))"

subsection \<open>Health\<close>

definition live :: "Request \<Rightarrow> handler" where
  "live r = writeJSON 200 (JObj [(''status'', JStr ''live'')])"

definition notReady :: "string \<Rightarrow> handler" where
  "notReady message = writeJSON 503 (JObj
     [(''error'', appErrorJSON (codeString ErrIntegrity) (JStr message)), (''status'', JStr ''not_ready'')])"

definition ready :: "httplib \<Rightarrow> Request \<Rightarrow> handler" where
  "ready H r =
     call H (onStore (VerifyHead (hGo H))) (\<lambda>_. notReady ''store head verification failed'') (\<lambda>_.
     call H minimumRootPresent
       (\<lambda>_. notReady ''configured minimum root is absent from live history'') (\<lambda>contains c.
     if \<not> contains then notReady ''configured minimum root is absent from live history'' c
     else writeJSON 200 (JObj [(''status'', JStr ''ready'')]) c))"

definition rootHandler :: "httplib \<Rightarrow> Request \<Rightarrow> handler" where
  "rootHandler H r =
     call H (onStore CurrentRoot) writeAPIError (\<lambda>root. writeJSON 200 (JObj [(''root'', JStr root)]))"

subsection \<open>Appending\<close>

text \<open>\<^verbatim>\<open>authorizeAppend\<close>: the capability of the credential, then the catalog, then the rest.\<close>

definition apiAuthorizeAppend :: "httplib \<Rightarrow> Principal \<Rightarrow> string \<Rightarrow> string \<Rightarrow> handler \<Rightarrow> handler" where
  "apiAuthorizeAppend H p eventType command nxt c0 =
     (let c = setAppendAudit eventType command c0 in
      case authorizeAppend (prAllow p) eventType command of
        Inl e \<Rightarrow> writeError 403 (codeString ErrPermission) (JErr e) c
      | Inr _ \<Rightarrow> (case apCatalog (cnAPI c) of
          None \<Rightarrow> nxt c
        | Some _ \<Rightarrow> call H
            (\<lambda>a. io_lift (case apCatalog a of None \<Rightarrow> Inr ((), a)
               | Some cat \<Rightarrow> bindE (catalogAuthorize cat eventType command) (\<lambda>_. Inr ((), a))))
            (\<lambda>e. writeError 403 (codeString ErrPermission) (JErr e)) (\<lambda>_. nxt) c))"

definition requestIDOf :: "golib \<Rightarrow> string \<Rightarrow> string \<Rightarrow> string" where
  "requestIDOf L principalID key = ''sha256:'' @ hex_encode (sha256 L (principalID @ [CHR 0x00] @ key))"

definition requestHashOf :: "golib \<Rightarrow> bytes \<Rightarrow> string" where
  "requestHashOf L canonical = ''sha256:'' @ hex_encode (sha256 L canonical)"

definition appendOptionsOf :: "appendRequest \<Rightarrow> AppendOptions" where
  "appendOptionsOf q = \<lparr>oType = arType q, oEntityID = arEntityID q, oCommand = arCommand q,
     oPayload = RawMessage (arPayload q), oCreatedAt = 0, oRequestID = [], oRequestHash = []\<rparr>"

definition storeAppend :: "httplib \<Rightarrow> Principal \<Rightarrow> appendRequest \<Rightarrow> string \<Rightarrow> bytes \<Rightarrow> API
    \<Rightarrow> ((string \<times> bool) \<times> API) io" where
  "storeAppend H p q requestKey canonical a =
     io_bind (AppendIdempotent (hGo H) (apStore a)
         \<lparr>ctxActor = prID p, ctxRole = roleString (prRole p)\<rparr> (appendOptionsOf q) (the (arExpectedRoot q))
         (requestIDOf (hGo H) (prID p) requestKey) (requestHashOf (hGo H) canonical))
       (\<lambda>(hash, replayed, s). io_ret ((hash, replayed), a\<lparr>apStore := s\<rparr>))"

definition appendEvent :: "httplib \<Rightarrow> Request \<Rightarrow> handler" where
  "appendEvent H r c =
     (if \<not> hasJSONContentType H r then writeMediaTypeError c
      else let requestKey = trimSpace (headerGet r ''Idempotency-Key'') in
      if length requestKey < 8 \<or> length requestKey > 200
      then writeError 400 (codeString ErrValidation)
             (JStr ''Idempotency-Key must be between 8 and 200 characters'') c
      else case decodeJSON (dec_append H) (dec_empty H) (apMaxBody (cnAPI c)) (rqBody r) of
          Inl e \<Rightarrow> writeDecodeError e c
        | Inr q \<Rightarrow>
            if arExpectedRoot q = None
            then writeError 400 (codeString ErrValidation)
                   (JStr ''expected_root is required; use an empty string for the first event'') c
            else if length (arPayload q) = 0
            then writeError 400 (codeString ErrValidation) (JStr ''payload is required'') c
            else let p = principalFromContext r in
            apiAuthorizeAppend H p (arType q) (arCommand q) (\<lambda>c.
              case json_request H q of
                None \<Rightarrow> writeAPIError json_error c
              | Some canonical \<Rightarrow>
                  call H (storeAppend H p q requestKey canonical) writeAPIError (\<lambda>(hash, replayed).
                  call H (onStore CurrentRoot) writeAPIError (\<lambda>currentRoot.
                  writeJSON (if replayed then 200 else 201) (JObj
                    [(''hash'', JStr hash), (''replayed'', JBool replayed), (''root'', JStr currentRoot)]))) c) c)"

subsection \<open>Reading events\<close>

definition omitempty :: "string \<Rightarrow> string \<Rightarrow> (string \<times> json) list" where
  "omitempty k v = (if v = [] then [] else [(k, JStr v)])"

definition eventResponse :: "Node \<Rightarrow> bytes \<Rightarrow> json" where
  "eventResponse n payload = JObj
     ([(''schema'', JInt (nSchema n)), (''event_id'', JStr (nHash n)), (''hash'', JStr (nHash n)),
       (''type'', JStr (nType n))] @ omitempty ''entity_id'' (nEntityID n)
      @ [(''parents'', JList (map JStr (nParents n))), (''actor'', JStr (nActor n)), (''role'', JStr (nRole n)),
         (''command'', JStr (nCommand n)), (''created_at'', JTime (nCreatedAt n))]
      @ omitempty ''request_id'' (nRequestID n)
      @ (if payload = [] then [] else [(''payload'', JRaw payload)]))"

text \<open>The limit of a request: \<open>None\<close> when it is refused.\<close>

definition eventsLimit :: "Request \<Rightarrow> int option" where
  "eventsLimit r =
     (let raw = queryGet r ''limit'' in
      if raw = [] then Some 100
      else case atoi raw of (parsed, err) \<Rightarrow>
        if err \<or> parsed < 1 \<or> parsed > 1000 then None else Some parsed)"

definition includePayload :: "Request \<Rightarrow> bool" where
  "includePayload r \<longleftrightarrow> queryGet r ''include_payload'' = ''true''"

definition writeCapacityError :: handler where
  "writeCapacityError = writeError 507 (codeString ErrCapacity)
     (JStr ''payload response exceeds the configured size limit'')"

text \<open>A response that is encoded first and then measured.\<close>

definition writeMeasured :: "httplib \<Rightarrow> string \<Rightarrow> string list \<Rightarrow> json \<Rightarrow> handler" where
  "writeMeasured H root eventIDs v c =
     (case json_bytes H v of
        None \<Rightarrow> writeAPIError json_error c
      | Some encoded \<Rightarrow>
          if int (length encoded) > apMaxBody (cnAPI c) then writeCapacityError c
          else writeRawJSON 200 encoded (setPayloadReadAudit ''retrieved'' root eventIDs c))"

definition finishEvents :: "httplib \<Rightarrow> bool \<Rightarrow> EventPage \<Rightarrow> (string \<rightharpoonup> bytes) \<Rightarrow> string list \<Rightarrow> handler" where
  "finishEvents H withPayload page pagePayloads eventIDs c =
     (let es = map (\<lambda>n. eventResponse n
            (if withPayload then (case pagePayloads (nHash n) of None \<Rightarrow> [] | Some b \<Rightarrow> b) else [])) (epNodes page);
          response = JObj [(''events'', JList es), (''has_more'', JBool (epHasMore page)), (''root'', JStr (epRoot page))]
      in if \<not> withPayload then writeJSON 200 response c
         else writeMeasured H (epRoot page) eventIDs response
                ((addPayloadRead ^^ length (epNodes page)) c))"

definition payloadMap :: "EventPayload list \<Rightarrow> (string \<rightharpoonup> bytes)" where
  "payloadMap ps = foldl (\<lambda>m p. m(evID p \<mapsto> evPayload p)) Map.empty ps"

definition boundedPayloads :: "httplib \<Rightarrow> string list \<Rightarrow> string \<Rightarrow> API \<Rightarrow> (EventPayload list \<times> API) io" where
  "boundedPayloads H eventIDs root a =
     onStore (\<lambda>s. EventPayloadsBounded (hGo H) s eventIDs root (apMaxBody a) (\<lambda>w. w)) a"

definition eventsHandler :: "httplib \<Rightarrow> Request \<Rightarrow> handler" where
  "eventsHandler H r c =
     (case eventsLimit r of
        None \<Rightarrow> writeError 400 (codeString ErrValidation) (JStr ''limit must be between 1 and 1000'') c
      | Some parsed \<Rightarrow>
          let withPayload = includePayload r;
              lim = (if withPayload \<and> parsed > maxPayloadBatchEvents then maxPayloadBatchEvents else parsed);
              after = trimSpace (queryGet r ''after''); root = trimSpace (queryGet r ''root'')
          in call H (onStore (\<lambda>s. MetadataEventPageAt (hGo H) s after root (word_of_int lim))) writeAPIError (\<lambda>page c.
            let eventIDs = (if withPayload then map nHash (epNodes page) else []);
                c1 = (if withPayload then setPayloadReadAudit ''failed'' (epRoot page) eventIDs c else c)
            in if withPayload \<and> length (epNodes page) > 0
               then call H (boundedPayloads H eventIDs (epRoot page)) writeAPIError (\<lambda>payloads.
                 finishEvents H withPayload page (payloadMap payloads) eventIDs) c1
               else finishEvents H withPayload page Map.empty eventIDs c1) c)"

definition validEventID :: "string \<Rightarrow> bool" where
  "validEventID v =
     (if length v \<noteq> 71 \<or> \<not> hasPrefix v ''sha256:'' then False
      else case hex_decode (trimPrefix v ''sha256:'') of None \<Rightarrow> False | Some d \<Rightarrow> length d = 32)"

definition payloadResponse :: "EventPayload \<Rightarrow> json" where
  "payloadResponse p = JObj [(''event_id'', JStr (evID p)), (''hash'', JStr (evID p)), (''payload'', JRaw (evPayload p))]"

definition eventPayloadsHandler :: "httplib \<Rightarrow> Request \<Rightarrow> handler" where
  "eventPayloadsHandler H r c =
     (if \<not> hasJSONContentType H r then writeMediaTypeError c
      else case decodeJSON (dec_batch H) (dec_empty H) (apMaxBody (cnAPI c)) (rqBody r) of
          Inl e \<Rightarrow> writeDecodeError e c
        | Inr q \<Rightarrow>
            let root = trimSpace (pbRoot q); ids = map trimSpace (pbEventIDs q) in
            if length ids < 1 \<or> int (length ids) > maxPayloadBatchEvents
            then writeError 400 (codeString ErrValidation)
                   (JStr ''event_ids must contain between 1 and 100 identities'') c
            else if \<not> validEventID root
            then writeError 400 (codeString ErrValidation) (JStr ''root must be a SHA-256 event identity'') c
            else if \<not> list_all validEventID ids
            then writeError 400 (codeString ErrValidation)
                   (JStr ''event_ids must contain SHA-256 event identities'') c
            else call H (boundedPayloads H ids root) writeAPIError (\<lambda>payloads.
                writeMeasured H root ids (JObj [(''root'', JStr root),
                  (''payloads'', JList (map payloadResponse payloads))]))
              (setPayloadReadAudit ''failed'' root ids c))"

subsection \<open>Named refs\<close>

definition getNamedRef :: "httplib \<Rightarrow> Request \<Rightarrow> handler" where
  "getNamedRef H r =
     call H (onStore (\<lambda>s. NamedRef s (rqPathValue r))) writeAPIError (\<lambda>root.
     writeJSON 200 (JObj [(''name'', JStr (rqPathValue r)), (''root'', JStr root)]))"

definition putNamedRef :: "httplib \<Rightarrow> Request \<Rightarrow> handler" where
  "putNamedRef H r c0 =
     (let name = rqPathValue r; c = setRefAudit name c0 in
      case authorizeRef (prAllow (principalFromContext r)) name of
        Inl e \<Rightarrow> writeError 403 (codeString ErrPermission) (JErr e) c
      | Inr _ \<Rightarrow>
          if \<not> hasJSONContentType H r then writeMediaTypeError c
          else case decodeJSON (dec_ref H) (dec_empty H) (apMaxBody (cnAPI c)) (rqBody r) of
              Inl e \<Rightarrow> writeDecodeError e c
            | Inr q \<Rightarrow> (case rfExpectedRoot q of
                None \<Rightarrow> writeError 400 (codeString ErrValidation)
                          (JStr ''expected_root is required; use an empty string to create the ref'') c
              | Some expected \<Rightarrow>
                  call H (onStore (\<lambda>s. WriteNamedRefAt (hGo H) s name (rfRoot q) expected)) writeAPIError (\<lambda>_.
                  writeJSON 200 (JObj [(''name'', JStr name), (''root'', JStr (rfRoot q))])) c))"

subsection \<open>Administration\<close>

definition diskAvailableBytes :: "httplib \<Rightarrow> path \<Rightarrow> 64 word io" where
  "diskAvailableBytes H p = syscall (\<lambda>w. case statfs H w p of (blocks, bsize) \<Rightarrow> (Inr (blocks * bsize), w))"

definition snapshotInfoJSON :: "SnapshotInfo \<Rightarrow> json" where
  "snapshotInfoJSON i = JObj [(''path'', JStr (siPath i)), (''root'', JStr (siRoot i)),
     (''created_at'', JTime (siCreatedAt i)), (''nodes'', JInt (int (siNodes i)))]"

definition snapshotCreated :: "SnapshotInfo \<Rightarrow> handler" where
  "snapshotCreated info c = writeJSON 201 (snapshotInfoJSON info)
     (setRequestAudit ''snapshot'' ''created'' (siRoot info) (siNodes info) c)"

definition logPruneError :: "SnapshotInfo \<Rightarrow> go_error \<Rightarrow> handler" where
  "logPruneError info e c = c\<lparr>cnLog := cnLog c @
     [[(''msg'', AStr ''snapshot retention cleanup failed''), (''error'', AStr (errorText e)),
       (''snapshot'', AStr (siPath info)), (''root'', AStr (siRoot info))]]\<rparr>"

text \<open>
  The mutex keeps other snapshots away from start to end; the steps that touch the store take
  its lock one by one. A failure of the pruning is only logged.
\<close>

definition snapshotHandler :: "httplib \<Rightarrow> Request \<Rightarrow> handler" where
  "snapshotHandler H r c0 =
     (let c = setRequestAudit ''snapshot'' ''failed'' [] 0 c0; dir = apBackupDir (cnAPI c) in
      if dir = []
      then writeError 503 (codeString ErrValidation) (JStr ''snapshot directory is not configured'') c
      else call H (onStore (\<lambda>_. mkdirAll (toPath dir))) writeAPIError (\<lambda>_.
        call H (onStore SnapshotSizeEstimate) writeAPIError (\<lambda>estimate.
        call H (onStore (\<lambda>_. diskAvailableBytes H (toPath dir))) writeAPIError (\<lambda>available c.
        let minFree = apSnapshotMinFreeBytes (cnAPI c) in
        if available < minFree \<or> available - minFree < estimate
        then writeError 507 (codeString ErrCapacity) (JStr ''insufficient free space for a safe snapshot'') c
        else call H (onStore (\<lambda>s. CreateSnapshot (hGo H) (hSnap H) s dir)) writeAPIError (\<lambda>info.
          call H (onStore (\<lambda>_. pruneSnapshots dir (apSnapshotRetention (cnAPI c))))
            (\<lambda>e. snapshotCreated info \<circ> logPruneError info e) (\<lambda>_. snapshotCreated info)) c))) c)"

definition verifyAll :: "httplib \<Rightarrow> API \<Rightarrow> ((string \<times> nat \<times> go_error option) \<times> API) io" where
  "verifyAll H a = (\<lambda>w. case VerifyAll (hGo H) (apStore a) w of (res, w') \<Rightarrow> (Inr (res, a), w'))"

definition verifyHandler :: "httplib \<Rightarrow> Request \<Rightarrow> handler" where
  "verifyHandler H r c =
     call H (verifyAll H) writeAPIError (\<lambda>(root, nodes, err) c.
       case err of
         Some e \<Rightarrow> writeAPIError e (setRequestAudit ''verify'' ''failed'' root nodes c)
       | None \<Rightarrow> writeJSON 200 (JObj [(''nodes'', JInt (int nodes)), (''root'', JStr root),
           (''status'', JStr ''verified'')]) (setRequestAudit ''verify'' ''verified'' root nodes c))
       (setRequestAudit ''verify'' ''failed'' [] 0 c)"

definition checkRootHandler :: "httplib \<Rightarrow> Request \<Rightarrow> handler" where
  "checkRootHandler H r c =
     (let root = trimSpace (queryGet r ''root'') in
      call H (onStore (\<lambda>s. ContainsRoot s root)) writeAPIError (\<lambda>contains c.
        if \<not> contains
        then writeError 409 (codeString ErrIntegrity) (JStr ''expected root is absent from live history'') c
        else writeJSON 200 (JObj [(''root'', JStr root), (''status'', JStr ''present'')])
               (setRequestAudit ''check_root'' ''present'' root 0 c))
        (setRequestAudit ''check_root'' ''missing'' root 0 c))"

end
