(* ===== verification/ServerRoutes.thy ===== *)
theory ServerRoutes
  imports Server
begin

text \<open>
  The catalog handlers (server/catalog\<^verbatim>\<open>_\<close>http.go), the routes, and the middleware of
  server/server.go: what happens to a request from the first header to the log line.
\<close>

subsection \<open>The catalog\<close>

definition catalogConfigured :: "handler \<Rightarrow> handler" where
  "catalogConfigured nxt c =
     (if apCatalog (cnAPI c) \<noteq> None then nxt c
      else writeError 503 (codeString ErrValidation) (JStr ''catalog file is not configured'') c)"

definition entryJSON :: "CatalogEntry \<Rightarrow> json" where
  "entryJSON e = JObj [(''type'', JStr (ceType e)), (''commands'', JList (map JStr (ceCommands e)))]"

definition documentJSON :: "catalogDocument \<Rightarrow> json" where
  "documentJSON d = JObj [(''enforced'', JBool (cdEnforced d)), (''entries'', JList (map entryJSON (cdEntries d)))]"

text \<open>An operation on the catalog that is configured.\<close>

definition onCatalog :: "(Catalog \<Rightarrow> ('a \<times> Catalog) io) \<Rightarrow> API \<Rightarrow> ('a \<times> API) io" where
  "onCatalog m a = (case apCatalog a of
       None \<Rightarrow> io_fail (Panic ''nil pointer dereference'')
     | Some cat \<Rightarrow> io_bind (m cat) (\<lambda>(x, cat'). io_ret (x, a\<lparr>apCatalog := Some cat'\<rparr>)))"

definition viewCatalog :: "API \<Rightarrow> (catalogDocument \<times> API) io" where
  "viewCatalog = onCatalog (\<lambda>cat. io_ret (View cat, cat))"

definition getCatalog :: "httplib \<Rightarrow> Request \<Rightarrow> handler" where
  "getCatalog H r = catalogConfigured
     (call H viewCatalog writeAPIError (\<lambda>d. writeJSON 200 (documentJSON d)))"

definition installCatalog :: "httplib \<Rightarrow> CatalogEntry \<Rightarrow> API \<Rightarrow> ((CatalogEntry \<times> bool) \<times> API) io" where
  "installCatalog H q = onCatalog (\<lambda>cat.
     io_bind (Install (hCat H) cat (ceType q) (ceCommands q)) (\<lambda>(entry, changed, cat').
     io_ret ((entry, changed), cat')))"

definition installCatalogEntry :: "httplib \<Rightarrow> Request \<Rightarrow> handler" where
  "installCatalogEntry H r = catalogConfigured (\<lambda>c.
     if \<not> hasJSONContentType H r then writeMediaTypeError c
     else case decodeJSON (dec_entry_body H) (dec_empty H) (apMaxBody (cnAPI c)) (rqBody r) of
         Inl e \<Rightarrow> writeDecodeError e c
       | Inr q \<Rightarrow>
           call H (installCatalog H q) (\<lambda>e. writeError 400 (codeString ErrValidation) (JErr e))
             (\<lambda>(entry, changed) c.
               writeJSON (if changed then 201 else 200)
                 (JObj [(''enforced'', JBool True), (''entry'', entryJSON entry)])
                 (setRequestAudit ''catalog_install'' ''installed'' [] 0 c)) c)"

definition removeCatalog :: "httplib \<Rightarrow> string \<Rightarrow> API \<Rightarrow> (unit \<times> API) io" where
  "removeCatalog H eventType = onCatalog (\<lambda>cat.
     io_bind (removeCatalogType (hCat H) cat eventType) (\<lambda>cat'. io_ret ((), cat')))"

definition removeCatalogEntry :: "httplib \<Rightarrow> Request \<Rightarrow> handler" where
  "removeCatalogEntry H r = catalogConfigured (
     let eventType = trimSpace (rqPathValue r) in
     call H (removeCatalog H eventType)
       (\<lambda>e. let status = (if containsStr (errorText e) ''is not installed'' then 404 else 400);
                code = (if status = 404 then ErrNotFound else ErrValidation)
            in writeError status (codeString code) (JErr e))
       (\<lambda>_ c. call H viewCatalog writeAPIError (\<lambda>view.
          writeJSON 200 (JObj [(''enforced'', JBool (cdEnforced view)), (''removed'', JStr eventType)]))
          (setRequestAudit ''catalog_remove'' ''removed'' [] 0 c)))"

subsection \<open>Routes\<close>

datatype Endpoint =
    EpLive | EpReady | EpRoot | EpEvents | EpEventPayloads | EpAppend | EpGetRef | EpPutRef
  | EpSnapshot | EpVerify | EpCheckRoot | EpGetCatalog | EpInstallEntry | EpRemoveEntry

datatype Segment = Lit string | Wild

definition routes :: "(string \<times> Segment list \<times> Endpoint) list" where
  "routes =
     [(''GET'', [Lit ''health'', Lit ''live''], EpLive),
      (''GET'', [Lit ''health'', Lit ''ready''], EpReady),
      (''GET'', [Lit ''v1'', Lit ''root''], EpRoot),
      (''GET'', [Lit ''v1'', Lit ''events''], EpEvents),
      (''POST'', [Lit ''v1'', Lit ''events'', Lit ''payloads''], EpEventPayloads),
      (''POST'', [Lit ''v1'', Lit ''events''], EpAppend),
      (''GET'', [Lit ''v1'', Lit ''refs'', Wild], EpGetRef),
      (''PUT'', [Lit ''v1'', Lit ''refs'', Wild], EpPutRef),
      (''POST'', [Lit ''v1'', Lit ''admin'', Lit ''snapshots''], EpSnapshot),
      (''POST'', [Lit ''v1'', Lit ''admin'', Lit ''verify''], EpVerify),
      (''GET'', [Lit ''v1'', Lit ''admin'', Lit ''check-root''], EpCheckRoot),
      (''GET'', [Lit ''v1'', Lit ''admin'', Lit ''catalog''], EpGetCatalog),
      (''POST'', [Lit ''v1'', Lit ''admin'', Lit ''catalog'', Lit ''entries''], EpInstallEntry),
      (''DELETE'', [Lit ''v1'', Lit ''admin'', Lit ''catalog'', Lit ''entries'', Wild], EpRemoveEntry)]"

text \<open>A wildcard takes one segment that is not empty; its value is the path value.\<close>

fun matchSegments :: "Segment list \<Rightarrow> string list \<Rightarrow> string option" where
  "matchSegments [] [] = Some []"
| "matchSegments (Lit l # ps) (s # ss) = (if l = s then matchSegments ps ss else None)"
| "matchSegments (Wild # ps) (s # ss) =
     (if s = [] then None else (case matchSegments ps ss of None \<Rightarrow> None | Some _ \<Rightarrow> Some s))"
| "matchSegments _ _ = None"

text \<open>\<^verbatim>\<open>net/http\<close> lets \<^verbatim>\<open>GET\<close> patterns serve \<^verbatim>\<open>HEAD\<close> too.\<close>

definition methodMatches :: "string \<Rightarrow> string \<Rightarrow> bool" where
  "methodMatches pattern m \<longleftrightarrow> m = pattern \<or> (pattern = ''GET'' \<and> m = ''HEAD'')"

fun findRoute :: "(string \<times> Segment list \<times> Endpoint) list \<Rightarrow> Request \<Rightarrow> (Endpoint \<times> string) option" where
  "findRoute [] r = None"
| "findRoute ((m, ps, ep) # rest) r =
     (case matchSegments ps (rqSegments r) of
        None \<Rightarrow> findRoute rest r
      | Some v \<Rightarrow> if methodMatches m (rqMethod r) then Some (ep, v) else findRoute rest r)"

definition pathKnown :: "Request \<Rightarrow> bool" where
  "pathKnown r \<longleftrightarrow> list_ex (\<lambda>(m, ps, ep). matchSegments ps (rqSegments r) \<noteq> None) routes"

definition serveEndpoint :: "httplib \<Rightarrow> Endpoint \<Rightarrow> Request \<Rightarrow> handler" where
  "serveEndpoint H ep = (case ep of
       EpLive \<Rightarrow> live
     | EpReady \<Rightarrow> ready H
     | EpRoot \<Rightarrow> require H RoleReader (rootHandler H)
     | EpEvents \<Rightarrow> require H RoleReader (eventsHandler H)
     | EpEventPayloads \<Rightarrow> require H RoleReader (eventPayloadsHandler H)
     | EpAppend \<Rightarrow> requireMutation H RoleWriter (appendEvent H)
     | EpGetRef \<Rightarrow> require H RoleReader (getNamedRef H)
     | EpPutRef \<Rightarrow> requireMutation H RoleWriter (putNamedRef H)
     | EpSnapshot \<Rightarrow> require H RoleAdmin (snapshotHandler H)
     | EpVerify \<Rightarrow> require H RoleAdmin (verifyHandler H)
     | EpCheckRoot \<Rightarrow> require H RoleAdmin (checkRootHandler H)
     | EpGetCatalog \<Rightarrow> require H RoleOperator (getCatalog H)
     | EpInstallEntry \<Rightarrow> require H RoleOperator (installCatalogEntry H)
     | EpRemoveEntry \<Rightarrow> require H RoleOperator (removeCatalogEntry H))"

definition plainError :: "int \<Rightarrow> string \<Rightarrow> handler" where
  "plainError status text c =
     writeBody (RawBody text) (WriteHeader status (setHeader ''Content-Type'' ''text/plain; charset=utf-8'' c))"

definition serveMux :: "httplib \<Rightarrow> Request \<Rightarrow> handler" where
  "serveMux H r =
     (case findRoute routes r of
        Some (ep, v) \<Rightarrow> serveEndpoint H ep (r\<lparr>rqPathValue := v\<rparr>)
      | None \<Rightarrow> if pathKnown r then plainError 405 (''Method Not Allowed'' @ newline)
                else plainError 404 (''404 page not found'' @ newline))"

subsection \<open>Middleware\<close>

definition freshRecorder :: "responseRecorder \<Rightarrow> responseRecorder" where
  "freshRecorder w = \<lparr>wHeader = wHeader w, wStatusLine = wStatusLine w, wBody = wBody w, rcStatus = 200,
     rcPrincipalID = ''anonymous'', rcRole = [], rcOperation = [], rcOutcome = [], rcRoot = [], rcNodes = 0,
     rcPayloadsRead = 0, rcSelectedIDs = [], rcEventType = [], rcCommand = [], rcRefName = []\<rparr>"

definition eventsPath :: string where
  "eventsPath = ''/v1/events''"

text \<open>The attributes of the log line, from the request and what the handlers recorded.\<close>

definition logLine :: "Request \<Rightarrow> responseRecorder \<Rightarrow> int \<Rightarrow> (string \<times> attr) list" where
  "logLine r w ms =
     [(''method'', AStr (rqMethod r)), (''path'', AStr (rqPath r)), (''status'', AInt (rcStatus w)),
      (''duration_ms'', AInt ms), (''principal_id'', AStr (rcPrincipalID w)), (''role'', AStr (rcRole w))]
     @ (if rqPath r = eventsPath \<and> rqMethod r = ''GET'' then
          [(''include_payload'', ABool (includePayload r)), (''payloads_decrypted'', AInt (int (rcPayloadsRead w))),
           (''limit'', AInt (if queryGet r ''limit'' = [] then 100 else fst (atoi (queryGet r ''limit'')))),
           (''after_present'', ABool (queryHas r ''after''))] else [])
     @ (if rcOperation w \<noteq> [] then
          [(''operation'', AStr (rcOperation w)), (''outcome'', AStr (rcOutcome w)), (''root'', AStr (rcRoot w)),
           (''nodes'', AInt (int (rcNodes w)))] else [])
     @ (if rcOperation w = ''payload_read'' then
          [(''selected_event_count'', AInt (int (length (rcSelectedIDs w)))),
           (''selected_event_ids'', AList (rcSelectedIDs w))] else [])
     @ (if rcEventType w \<noteq> [] then
          [(''event_type'', AStr (rcEventType w)), (''command'', AStr (rcCommand w))] else [])
     @ (if rcRefName w \<noteq> [] then [(''ref'', AStr (rcRefName w))] else [])"

text \<open>A panic goes past the line that logs.\<close>

definition accessLog :: "(Request \<Rightarrow> handler) \<Rightarrow> Request \<Rightarrow> handler" where
  "accessLog nxt r c0 =
     (let started = wall (cnWorld c0);
          c = nxt r (c0\<lparr>cnW := freshRecorder (cnW c0)\<rparr>)
      in if cnPanic c then c
         else c\<lparr>cnLog := cnLog c @ [logLine r (cnW c) (timeSub (wall (cnWorld c)) started div 1000000)]\<rparr>)"

definition contentPolicy :: string where
  "contentPolicy = ''default-src '' @ [CHR 0x27] @ ''none'' @ [CHR 0x27] @ ''; frame-ancestors ''
     @ [CHR 0x27] @ ''none'' @ [CHR 0x27]"

definition securityHeaders :: "(Request \<Rightarrow> handler) \<Rightarrow> Request \<Rightarrow> handler" where
  "securityHeaders nxt r c =
     nxt r (setHeader ''X-Frame-Options'' ''DENY''
       (setHeader ''X-Content-Type-Options'' ''nosniff''
       (setHeader ''Referrer-Policy'' ''no-referrer''
       (setHeader ''Content-Security-Policy'' contentPolicy
       (setHeader ''Cache-Control'' ''no-store'' c)))))"

definition Handler :: "httplib \<Rightarrow> Request \<Rightarrow> handler" where
  "Handler H = securityHeaders (accessLog (serveMux H))"

text \<open>A request that arrives.\<close>

definition newConn :: "API \<Rightarrow> world \<Rightarrow> conn" where
  "newConn a w = \<lparr>cnW = freshRecorder \<lparr>wHeader = [], wStatusLine = None, wBody = NoBody, rcStatus = 200,
       rcPrincipalID = [], rcRole = [], rcOperation = [], rcOutcome = [], rcRoot = [], rcNodes = 0,
       rcPayloadsRead = 0, rcSelectedIDs = [], rcEventType = [], rcCommand = [], rcRefName = []\<rparr>,
     cnAPI = a, cnWorld = w, cnCalls = 0, cnLog = [], cnPanic = False\<rparr>"

definition serveHTTP :: "httplib \<Rightarrow> Request \<Rightarrow> API \<Rightarrow> world \<Rightarrow> conn" where
  "serveHTTP H r a w = Handler H r (newConn a w)"

end
