(* ===== verification/NoPanic.thy ===== *)
theory NoPanic
  imports Snapshot Catalog StoreProgress
begin

text \<open>
  Operations that return or report an error, and never panic: one rule per operation of the
  store, the snapshots and the catalog that a handler of the server calls. A page needs room in
  64 bits for its end (\<open>store_room\<close>).
\<close>

subsection \<open>Operations that do not panic\<close>

named_theorems calm_intros \<open>operations that return or report, and never panic\<close>

definition calm :: "go_error + 'a \<Rightarrow> bool" where
  "calm r \<longleftrightarrow> (\<forall>m. r \<noteq> Inl (Panic m))"

definition no_panic :: "'a io \<Rightarrow> bool" where
  "no_panic m \<longleftrightarrow> (\<forall>w. calm (fst (m w)))"

lemma calm_simps [simp]: "calm (Inr x)" "calm (Inl e) \<longleftrightarrow> (\<forall>m. e \<noteq> Panic m)"
  by (auto simp: calm_def)

lemma calm_appErr [simp]: "appErr c f as \<noteq> Panic m"
  by (simp add: appErr_def)

lemma calm_bindE [calm_intros]: "calm r \<Longrightarrow> (\<And>x. r = Inr x \<Longrightarrow> calm (f x)) \<Longrightarrow> calm (bindE r f)"
  by (cases r) auto

lemma no_panic_basic [calm_intros]:
  "no_panic (io_ret x)" "calm r \<Longrightarrow> no_panic (io_lift r)" "no_panic (io_try m)" "(\<And>m. e \<noteq> Panic m) \<Longrightarrow> no_panic (io_fail e)"
  by (auto simp: no_panic_def io_ret_def io_lift_def io_try_def io_fail_def split: prod.split)

lemma no_panic_bind [calm_intros]: "no_panic m \<Longrightarrow> (\<And>x. no_panic (f x)) \<Longrightarrow> no_panic (io_bind m f)"
  unfolding no_panic_def io_bind_def by (auto split: prod.split sum.split) (metis fst_conv calm_simps(2))

lemma no_panic_defer [calm_intros]: "no_panic m \<Longrightarrow> no_panic (io_defer m d)"
  unfolding no_panic_def io_defer_def by (auto split: prod.split) (metis fst_conv)

lemma no_panic_onerr [calm_intros]: "no_panic m \<Longrightarrow> no_panic (io_onerr m d)"
  unfolding no_panic_def io_onerr_def by (auto split: prod.split sum.split) (metis fst_conv calm_simps(2))

text \<open>An error that was looked at and handed on is not a panic either.\<close>

lemma no_panic_try_bind: "no_panic m \<Longrightarrow> (\<And>r. calm r \<Longrightarrow> no_panic (f r)) \<Longrightarrow> no_panic (io_bind (io_try m) f)"
  unfolding no_panic_def io_bind_def io_try_def by (auto split: prod.split sum.split) (metis fst_conv)

lemma no_panic_lift_bind: "calm r \<Longrightarrow> (\<And>x. r = Inr x \<Longrightarrow> no_panic (f x)) \<Longrightarrow> no_panic (io_bind (io_lift r) f)"
  unfolding no_panic_def io_bind_def by (cases r) auto

lemma no_panic_cases:
  "(b \<Longrightarrow> no_panic m) \<Longrightarrow> (\<not> b \<Longrightarrow> no_panic n) \<Longrightarrow> no_panic (if b then m else n)"
  "(x = None \<Longrightarrow> no_panic m) \<Longrightarrow> (\<And>y. x = Some y \<Longrightarrow> no_panic (g y)) \<Longrightarrow> no_panic (case x of None \<Rightarrow> m | Some y \<Rightarrow> g y)"
  "(\<And>e. r = Inl e \<Longrightarrow> no_panic (k e)) \<Longrightarrow> (\<And>y. r = Inr y \<Longrightarrow> no_panic (h y)) \<Longrightarrow> no_panic (case r of Inl e \<Rightarrow> k e | Inr y \<Rightarrow> h y)"
  "(\<And>a b. p = (a, b) \<Longrightarrow> no_panic (q a b)) \<Longrightarrow> no_panic (case p of (a, b) \<Rightarrow> q a b)"
  by (auto split: option.split sum.split prod.split)

lemma no_panic_syscall: "(\<And>w. calm (fst (m w))) \<Longrightarrow> no_panic (syscall m)"
  by (auto simp: no_panic_def syscall_def split: list.split option.split)

lemma no_panic_calls [calm_intros]:
  "no_panic (readFile p)" "no_panic (statFile p)" "no_panic (readRandom n)" "no_panic (mkdirAll p)"
  "no_panic (createTemp d pre)" "no_panic (createTempSuffix d pre suf)" "no_panic (fileChmod h k)"
  "no_panic (fileSync h)" "no_panic (fileClose h)" "no_panic (osRename p q)" "no_panic (osLink p q)"
  "no_panic (osRemove p)" "no_panic (openDir p)" "no_panic (fsyncDir p)" "no_panic (readDirNames p)" "no_panic (osLstat p)"
  "no_panic (readDir p)" "no_panic tarCall"
  unfolding readFile_def statFile_def readRandom_def mkdirAll_def createTemp_def createTempSuffix_def createNamed_def
    fileChmod_def fileSync_def fileClose_def osRename_def osLink_def osRemove_def openDir_def fsyncDir_def
    readDirNames_def osLstat_def readDir_def tarCall_def
  by (rule no_panic_syscall; auto split: option.split simp: Let_def io_ret_def)+

lemma no_panic_clock [calm_intros]: "no_panic readClock" "no_panic (storeNow s)"
  by (auto simp: no_panic_def readClock_def storeNow_def io_bind_def io_ret_def)

lemma no_panic_write [calm_intros]: "no_panic (fileWrite h b)"
  by (auto simp: no_panic_def fileWrite_def split: list.split option.split)

lemma calm_errors [simp]: "index_mismatch \<noteq> Panic m" "json_error \<noteq> Panic m" "key_size_error \<noteq> Panic m" "ref_name_error \<noteq> Panic m"
  by (auto simp: index_mismatch_def json_error_def key_size_error_def ref_name_error_def)

lemma no_panic_files [calm_intros]:
  "no_panic (syncDir d)" "no_panic (fillTemp h b k)" "no_panic (replaceFile pre p b k)" "no_panic (atomicWriteFile p b k)"
  "no_panic (atomicCreateFile p b k)"
  unfolding syncDir_def fillTemp_def replaceFile_def atomicWriteFile_def atomicCreateFile_def by (intro calm_intros)+

subsection \<open>The store\<close>

lemma calm_pure [calm_intros]:
  "calm (validateHash h)" "calm (parseNode L h b)" "calm (nodePayload L k n)" "calm (validateRefName name)"
  by (auto simp: validateHash_def parseNode_def verifyNode_def nodePayload_def decryptPayload_def validateRefName_def Let_def
      bindE_def split: option.split if_splits)

lemma no_panic_reads [calm_intros]:
  "no_panic (currentRoot dir)" "no_panic (readNode L dir h)" "no_panic (encryptPayload L k p)" "no_panic (CurrentRoot s)"
  "no_panic (checkedRoot s)"
  unfolding currentRoot_def readNode_def encryptPayload_def CurrentRoot_def checkedRoot_def
  by (rule no_panic_try_bind no_panic_cases calm_intros | simp)+

lemma no_panic_walk: "calm (fst (walk L dir root seen reversed w))"
proof (induction L dir root seen reversed w rule: walk.induct)
  case (1 L dir root seen reversed w)
  obtain r w' where r: "readNode L dir root w = (r, w')" by (cases "readNode L dir root w")
  have c: "calm r" using no_panic_reads(2) [of L dir root] r unfolding no_panic_def by (metis fst_conv)
  show ?case
    by (subst walk.simps) (use 1 r c in \<open>auto split: sum.split\<close>)
qed

lemma no_panic_nodes [calm_intros]: "no_panic (nodesFromRoot L dir root)"
proof -
  have "no_panic (walk L dir root [] [])" using no_panic_walk by (simp add: no_panic_def)
  then show ?thesis unfolding nodesFromRoot_def by (intro no_panic_cases calm_intros)
qed

lemma no_panic_store [calm_intros]:
  "no_panic (VerifyHead L s)" "no_panic (ContainsRoot s root)" "no_panic (NamedRef s n)"
  "no_panic (WriteNamedRefAt L s n root e)" "no_panic (AppendIdempotent L s ctx opts e i h)"
  unfolding VerifyHead_def ContainsRoot_def NamedRef_def WriteNamedRefAt_def writeNamedRef_def AppendIdempotent_def append_def
    prepareNode_def publishNode_def Let_def
  by (rule no_panic_try_bind no_panic_cases calm_intros | simp)+

text \<open>A page: the limit and the length of the history leave room in 64 bits.\<close>

definition store_room :: "Store \<Rightarrow> bool" where
  "store_room s \<longleftrightarrow> int (length (history s)) + 1000 < 2 ^ 63
     \<and> (\<forall>h p. historyIndex s h = Some p \<longrightarrow> p < length (history s))"

lemma sint_range: "- (2 ^ 63) \<le> x \<Longrightarrow> x < 2 ^ 63 \<Longrightarrow> sint (word_of_int x :: 64 word) = x"
  by (simp add: sint_sbintrunc' signed_take_bit_int_eq_self)

lemma pageEnd_room:
  assumes "0 \<le> l" "l \<le> 1000" "int start + 1000 < 2 ^ 63" "start \<le> targetEnd"
  shows "int start \<le> pageEnd start (word_of_int l) targetEnd"
    "pageEnd start (word_of_int l) targetEnd \<le> int start + l"
proof -
  have "go_add (int start) (word_of_int l) = int start + l"
    using assms sint_range [of "int start + l"] by (simp add: go_add_def)
  then show "int start \<le> pageEnd start (word_of_int l) targetEnd"
    "pageEnd start (word_of_int l) targetEnd \<le> int start + l"
    using assms by (simp_all add: pageEnd_def)
qed

lemma sint_limit: "1 \<le> l \<Longrightarrow> l \<le> 1000 \<Longrightarrow> sint (word_of_int l :: 64 word) = l"
  by (rule sint_range) simp_all

lemma calm_pageTarget [calm_intros]: "calm (pageTarget s obs root)" "calm (pageStart s after t)"
  unfolding pageTarget_def pageStart_def by (auto intro!: calm_intros split: option.split)

lemma pageTarget_start:
  assumes "store_room s" "pageTarget s observed root0 = Inr (root, t)" "pageStart s after t = Inr start"
  shows "start \<le> t" "int start + 1000 < 2 ^ 63"
proof -
  have t: "t \<le> length (history s)"
    using assms(1,2) by (auto simp: pageTarget_def store_room_def bindE_Inr_iff Suc_le_eq split: if_splits option.splits)
  show st: "start \<le> t" using assms(3) by (auto simp: pageStart_def split: if_splits option.splits)
  have "int start \<le> int (length (history s))" using st t by linarith
  then show "int start + 1000 < 2 ^ 63" using assms(1) unfolding store_room_def by linarith
qed

lemma no_panic_mapM [calm_intros]: "(\<And>x. no_panic (f x)) \<Longrightarrow> no_panic (io_mapM f xs)"
  by (induction xs) (auto intro: calm_intros)

lemma no_panic_page:
  assumes "store_room s" "1 \<le> l" "l \<le> 1000"
  shows "no_panic (MetadataEventPageAt L s after root (word_of_int l))"
proof -
  have ok: "\<not> pageEnd start (word_of_int l) t < int start"
    if "pageTarget s root root0 = Inr (r, t)" "pageStart s after t = Inr start" for root0 r t start
    using pageTarget_start [OF assms(1) that] pageEnd_room(1) [of l start t] assms(2,3) by simp
  show ?thesis
    unfolding MetadataEventPageAt_def eventPageAt_def sint_limit [OF assms(2,3)] Let_def
    by (rule no_panic_lift_bind no_panic_cases calm_intros | erule (1) ok [THEN notE] | simp)+
qed

lemma calm_selectLoop [calm_intros]: "calm (selectLoop s t seen ids)"
  by (induction s t seen ids rule: selectLoop.induct) (auto intro!: calm_intros split: option.split)

lemma no_panic_payloadLoop [calm_intros]:
  "(\<And>h. no_panic (rd h)) \<Longrightarrow> no_panic (payloadLoop L s rd m p ids)"
  by (induction L s rd m p ids rule: payloadLoop.induct) (auto intro!: calm_intros no_panic_cases simp: appErr_def)

lemma no_panic_payloads [calm_intros]: "no_panic (EventPayloadsBounded L s ids root m (\<lambda>w. w))"
  unfolding EventPayloadsBounded_def eventPayloads_def eventPayloadsWithReader_def selectPayloadEventIDs_def
  by (rule no_panic_lift_bind no_panic_cases calm_intros | simp)+

subsection \<open>Snapshots and the catalog\<close>

lemma no_panic_foldM [calm_intros]: "(\<And>x acc. no_panic (f x acc)) \<Longrightarrow> no_panic (io_foldM f xs acc)"
  by (induction xs arbitrary: acc) (auto intro: calm_intros)

lemma no_panic_Walk [calm_intros]:
  assumes "\<And>p sz acc. no_panic (visit p sz acc)" shows "no_panic (Walk visit base acc)"
proof -
  have "no_panic (walkTree n visit p acc)" for n p acc
    by (induction n arbitrary: p acc) (auto intro!: assms calm_intros split: FileInfo.split)
  then show ?thesis unfolding Walk_def no_panic_def by blast
qed

lemma no_panic_archive [calm_intros]: "no_panic (archiveEntries Z dir m)"
proof -
  have f: "no_panic (writeTarFile p name sz tw)" for p name sz tw
    unfolding writeTarFile_def by (intro no_panic_cases calm_intros) simp_all
  have v: "no_panic (tarVisit d p sz tw)" for d p sz tw
    unfolding tarVisit_def by (rule f)
  have b: "no_panic (writeTarBytes name b tw)" for name b tw
    unfolding writeTarBytes_def by (intro calm_intros)
  show ?thesis
    unfolding archiveEntries_def by (intro no_panic_cases no_panic_bind b no_panic_Walk v no_panic_basic) simp
qed

lemma no_panic_close:
  assumes "calm base" shows "no_panic (closeWithError Z tmp base)"
proof -
  have "no_panic tarCall" "no_panic (fileWrite tmp x)" "no_panic (fileSync tmp)" "no_panic (fileClose tmp)" for x
    by (intro calm_intros)+
  then show ?thesis
    unfolding closeWithError_def using assms by (intro no_panic_try_bind no_panic_basic calm_bindE) simp_all
qed

lemma no_panic_snapshot: "no_panic (snapshot L Z s name dest created)"
proof -
  have f: "no_panic (io_bind (io_onerr (fileChmod tmp 0x180) (fileClose tmp)) (\<lambda>_.
        io_bind (io_try (archiveEntries Z (sdir s) (mkManifest root created n))) (\<lambda>base.
        io_bind (closeWithError Z tmp base) (\<lambda>_.
        io_bind (osRename (fst tmp) dest) (\<lambda>_.
        io_bind (syncDir (butlast dest)) (\<lambda>_.
        io_ret x)))))) " for tmp root n and x :: SnapshotInfo
    by (intro no_panic_try_bind [OF no_panic_archive] no_panic_bind no_panic_onerr no_panic_calls no_panic_close
        no_panic_files no_panic_basic) simp_all
  show ?thesis unfolding snapshot_def
    by (intro no_panic_bind no_panic_defer f no_panic_calls no_panic_reads no_panic_nodes)
qed

lemma no_panic_snapshots [calm_intros]:
  "no_panic (SnapshotSizeEstimate s)" "no_panic (CreateSnapshot L Z s dir)"
proof -
  have v: "no_panic (sizeVisit p sz acc)" for p sz acc unfolding sizeVisit_def by (intro calm_intros)
  show "no_panic (SnapshotSizeEstimate s)"
    unfolding SnapshotSizeEstimate_def by (intro no_panic_bind no_panic_Walk v)
  show "no_panic (CreateSnapshot L Z s dir)"
    unfolding CreateSnapshot_def Let_def
    by (intro no_panic_bind no_panic_snapshot no_panic_basic no_panic_clock)
qed

lemma no_panic_prune [calm_intros]: "0 \<le> retain \<Longrightarrow> no_panic (pruneSnapshots dir retain)"
proof -
  assume "0 \<le> retain"
  then have "no_panic (pruneLoop d retain ns)" for d ns
    by (induction ns) (auto intro!: no_panic_bind no_panic_calls no_panic_basic)
  then show ?thesis unfolding pruneSnapshots_def Let_def by (intro no_panic_bind no_panic_calls)
qed

lemma calm_catalog [calm_intros]:
  "calm (validateCatalogType t)" "calm (validateCommand c)" "calm (catalogAuthorize cat t c)" "calm (normalizeEntry e)"
proof -
  show t: "calm (validateCatalogType t)" for t by (simp add: validateCatalogType_def)
  show c: "calm (validateCommand c)" for c by (simp add: validateCommand_def)
  have "calm (authorizeEntries es t c)" for es by (induction es t c rule: authorizeEntries.induct) auto
  then show "calm (catalogAuthorize cat t c)" by (simp add: catalogAuthorize_def)
  have "calm (normalizeCommands seen cs)" for seen cs
    by (induction seen cs rule: normalizeCommands.induct) (auto simp: Let_def intro!: calm_bindE c)
  then show "calm (normalizeEntry e)"
    by (auto simp: normalizeEntry_def Let_def intro!: calm_bindE t)
qed

lemma no_panic_persist: "no_panic (persist C cat b es)"
  unfolding persist_def replaceFile_def
  by (intro no_panic_cases no_panic_bind no_panic_calls no_panic_files no_panic_defer no_panic_basic) simp_all

lemma no_panic_catalog [calm_intros]:
  "no_panic (Install C cat t cs)" "no_panic (removeCatalogType C cat t)"
  unfolding Install_def removeCatalogType_def Let_def
  by (intro no_panic_cases no_panic_lift_bind calm_catalog no_panic_bind no_panic_persist no_panic_basic; simp)+

end
