(* ===== verification/HttpLaws.thy ===== *)
theory HttpLaws
  imports ServerRoutes NoPanic
begin

text \<open>
  What it means that a handler answers: one status line out of a fixed list, the caller and the
  security headers as before, no panic, and payloads only where the read is on record. Rules for
  the writers, the audit setters and the calls into the shared state, while other requests act
  in between (\<open>polite_to\<close>).
\<close>

subsection \<open>Responses that carry payloads\<close>

primrec has_raw :: "json \<Rightarrow> bool" where
  "has_raw (JInt i) \<longleftrightarrow> False"
| "has_raw (JBool b) \<longleftrightarrow> False"
| "has_raw (JStr s) \<longleftrightarrow> False"
| "has_raw (JTime t) \<longleftrightarrow> False"
| "has_raw (JRaw b) \<longleftrightarrow> True"
| "has_raw (JMsg f as) \<longleftrightarrow> False"
| "has_raw (JErr e) \<longleftrightarrow> False"
| "has_raw (JList vs) \<longleftrightarrow> list_ex id (map has_raw vs)"
| "has_raw (JObj fs) \<longleftrightarrow> list_ex snd (map (map_prod id has_raw) fs)"

definition discloses :: "responseRecorder \<Rightarrow> bool" where
  "discloses w \<longleftrightarrow> (case wBody w of NoBody \<Rightarrow> False | JSONBody v \<Rightarrow> has_raw v | RawBody b \<Rightarrow> rcStatus w = 200)"

text \<open>The events whose payloads are in a value.\<close>

primrec disclosed :: "json \<Rightarrow> string list" where
  "disclosed (JInt i) = []"
| "disclosed (JBool b) = []"
| "disclosed (JStr s) = []"
| "disclosed (JTime t) = []"
| "disclosed (JRaw b) = []"
| "disclosed (JMsg f as) = []"
| "disclosed (JErr e) = []"
| "disclosed (JList vs) = concat (map disclosed vs)"
| "disclosed (JObj fs) =
     (if map_of fs ''payload'' = None then []
      else case map_of fs ''event_id'' of Some (JStr i) \<Rightarrow> [i] | _ \<Rightarrow> [[]])
     @ concat (map snd (map (map_prod id disclosed) fs))"

text \<open>
  The read is on record: at most a hundred events selected, the response shows no payload of
  another event and keeps to the byte limit.
\<close>

definition on_record :: "httplib \<Rightarrow> conn \<Rightarrow> bool" where
  "on_record H c \<longleftrightarrow> rcOperation (cnW c) = ''payload_read'' \<and> rcOutcome (cnW c) = ''retrieved''
     \<and> length (rcSelectedIDs (cnW c)) \<le> 100
     \<and> (\<exists>v b. json_bytes H v = Some b \<and> set (disclosed v) \<subseteq> set (rcSelectedIDs (cnW c))
         \<and> wBody (cnW c) = RawBody b \<and> int (length b) \<le> apMaxBody (cnAPI c))"

subsection \<open>What every handler does\<close>

definition statuses :: "int list" where
  "statuses = [200, 201, 400, 401, 403, 404, 405, 409, 413, 415, 429, 500, 503, 507]"

definition secNames :: "string list" where
  "secNames = [''X-Frame-Options'', ''X-Content-Type-Options'', ''Referrer-Policy'', ''Content-Security-Policy'',
     ''Cache-Control'']"

text \<open>
  \<open>fresh P b c\<close>: nothing is written on \<open>c\<close> yet, its caller and its security headers are those of
  \<open>b\<close>, and the shared state satisfies \<open>P\<close>. \<open>answered H D b c\<close>: one response is
  written, and payloads only if \<open>D\<close>.
\<close>

definition same_caller :: "conn \<Rightarrow> conn \<Rightarrow> bool" where
  "same_caller c c' \<longleftrightarrow> rcPrincipalID (cnW c') = rcPrincipalID (cnW c) \<and> rcRole (cnW c') = rcRole (cnW c)
     \<and> list_all (\<lambda>k. map_of (wHeader (cnW c')) k = map_of (wHeader (cnW c)) k) secNames"

definition fresh :: "(API \<Rightarrow> bool) \<Rightarrow> conn \<Rightarrow> conn \<Rightarrow> bool" where
  "fresh P b c \<longleftrightarrow> wStatusLine (cnW c) = None \<and> \<not> cnPanic c \<and> cnLog c = [] \<and> P (cnAPI c) \<and> same_caller b c"

definition answered :: "httplib \<Rightarrow> bool \<Rightarrow> conn \<Rightarrow> conn \<Rightarrow> bool" where
  "answered H D b c \<longleftrightarrow> wStatusLine (cnW c) = Some (rcStatus (cnW c)) \<and> rcStatus (cnW c) \<in> set statuses
     \<and> wBody (cnW c) \<noteq> NoBody \<and> \<not> cnPanic c \<and> length (cnLog c) \<le> 1 \<and> (discloses (cnW c) \<longrightarrow> D \<and> on_record H c)
     \<and> same_caller b c"

named_theorems serves \<open>handlers that answer\<close>

lemma fresh_weaken: "fresh P b c \<Longrightarrow> (\<And>a. P a \<Longrightarrow> Q a) \<Longrightarrow> fresh Q b c"
  by (auto simp: fresh_def)

lemma fresh_onW:
  assumes "\<And>w. wHeader (f w) = wHeader w" "\<And>w. wStatusLine (f w) = wStatusLine w"
    "\<And>w. rcPrincipalID (f w) = rcPrincipalID w" "\<And>w. rcRole (f w) = rcRole w"
  shows "fresh P b (onW f c) \<longleftrightarrow> fresh P b c"
  using assms by (auto simp: fresh_def onW_def same_caller_def)

lemma fresh_audit [simp]:
  "fresh P b (setRequestAudit o1 o2 o3 o4 c) \<longleftrightarrow> fresh P b c" "fresh P b (setAppendAudit t k c) \<longleftrightarrow> fresh P b c"
  "fresh P b (setRefAudit nm c) \<longleftrightarrow> fresh P b c" "fresh P b (setPayloadReadAudit out root ids c) \<longleftrightarrow> fresh P b c"
  "fresh P b (addPayloadRead c) \<longleftrightarrow> fresh P b c"
  unfolding setRequestAudit_def setAppendAudit_def setRefAudit_def setPayloadReadAudit_def addPayloadRead_def
  by (rule fresh_onW; simp)+

lemma fresh_reads [simp]: "fresh P b ((addPayloadRead ^^ n) c) \<longleftrightarrow> fresh P b c"
  by (induction n) simp_all

lemma map_of_update_other [simp]: "k \<noteq> j \<Longrightarrow> map_of (AList.update j v kvs) k = map_of kvs k"
  by (simp add: update_conv')

lemma fresh_header: "k \<notin> set secNames \<Longrightarrow> fresh P b c \<Longrightarrow> fresh P b (setHeader k v c)"
  by (auto simp: fresh_def setHeader_def onW_def same_caller_def secNames_def)

lemma statuses_mem [simp]:
  "200 \<in> set statuses" "201 \<in> set statuses" "400 \<in> set statuses" "401 \<in> set statuses" "403 \<in> set statuses" "404 \<in> set statuses"
  "405 \<in> set statuses" "409 \<in> set statuses" "413 \<in> set statuses" "415 \<in> set statuses" "429 \<in> set statuses" "500 \<in> set statuses"
  "503 \<in> set statuses" "507 \<in> set statuses" "statusOf code \<in> set statuses"
  by (simp_all add: statuses_def statusOf_def split: ErrorCode.split)

lemmas writing = writeBody_def WriteHeader_def setHeader_def onW_def

lemma serves_json [serves]:
  "status \<in> set statuses \<Longrightarrow> \<not> has_raw v \<Longrightarrow> fresh P b c \<Longrightarrow> answered H D b (writeJSON status v c)"
  by (auto simp: writeJSON_def writing fresh_def answered_def same_caller_def discloses_def secNames_def)

lemma serves_plain [serves]:
  "status \<in> set statuses \<Longrightarrow> status \<noteq> 200 \<Longrightarrow> fresh P b c \<Longrightarrow> answered H D b (plainError status t c)"
  by (auto simp: plainError_def writing fresh_def answered_def same_caller_def discloses_def secNames_def)

lemma serves_error [serves]:
  "status \<in> set statuses \<Longrightarrow> \<not> has_raw m \<Longrightarrow> fresh P b c \<Longrightarrow> answered H D b (writeError status code m c)"
  unfolding writeError_def appErrorJSON_def by (rule serves_json) simp_all

lemma serves_errors [serves]:
  assumes "fresh P b c"
  shows "answered H D b (writeAPIError e c)" "answered H D b (writeDecodeError e c)" "answered H D b (writeMediaTypeError c)"
    "answered H D b (writeRootAbsent c)" "answered H D b (writeCapacityError c)" "answered H D b (notReady m c)" "answered H D b (writeRateLimit c)"
  unfolding writeAPIError_def writeDecodeError_def writeMediaTypeError_def writeRootAbsent_def writeCapacityError_def
    notReady_def writeRateLimit_def appErrorJSON_def
  using assms by (auto intro!: serves_error serves_json fresh_header split: option.split simp: secNames_def)

lemma serves_measured [serves]:
  assumes "fresh P b c" D "length ids \<le> 100" "set (disclosed v) \<subseteq> set ids"
  shows "answered H D b (writeMeasured H root ids v c)"
proof -
  have r: "answered H D b (writeRawJSON 200 x (setPayloadReadAudit ''retrieved'' root ids c))"
    if "int (length x) \<le> apMaxBody (cnAPI c)" "json_bytes H v = Some x" for x
    using that assms
    by (auto simp: writeRawJSON_def writing fresh_def answered_def same_caller_def discloses_def secNames_def
        setPayloadReadAudit_def on_record_def)
  show ?thesis using serves_errors [OF assms(1)] r by (auto simp: writeMeasured_def split: option.split)
qed

subsection \<open>Calls\<close>

definition polite_to :: "httplib \<Rightarrow> (API \<Rightarrow> bool) \<Rightarrow> bool" where
  "polite_to H P \<longleftrightarrow> (\<forall>n a w. P a \<longrightarrow> P (fst (others H n (a, w))))"

lemma serves_call:
  assumes c: "fresh P b c" and "polite_to H Q"
    and f: "\<And>a w r w'. P a \<Longrightarrow> f a w = (r, w') \<Longrightarrow> calm r \<and> Q (case r of Inl _ \<Rightarrow> a | Inr (_, a') \<Rightarrow> a')"
    and bad: "\<And>e c. fresh Q b c \<Longrightarrow> answered H D b (bad e c)"
    and ok: "\<And>x a w a' w' c. P a \<Longrightarrow> f a w = (Inr (x, a'), w') \<Longrightarrow> fresh Q b c \<Longrightarrow> answered H D b (ok x c)"
  shows "answered H D b (call H f bad ok c)"
proof -
  have p: "P (cnAPI c)" using c by (simp add: fresh_def)
  obtain r w1 where r: "f (cnAPI c) (cnWorld c) = (r, w1)" by fastforce
  obtain a2 w2 where oth: "others H (cnCalls c) (case r of Inl _ \<Rightarrow> cnAPI c | Inr (_, a) \<Rightarrow> a, w1) = (a2, w2)" by fastforce
  define c2 where "c2 = c\<lparr>cnAPI := a2, cnWorld := w2, cnCalls := cnCalls c + 1\<rparr>"
  have f1: "calm r" "Q (case r of Inl _ \<Rightarrow> cnAPI c | Inr (_, a') \<Rightarrow> a')" using f [OF p r] by auto
  have "Q (fst (others H (cnCalls c) (case r of Inl _ \<Rightarrow> cnAPI c | Inr (_, a) \<Rightarrow> a, w1)))"
    using assms(2) f1(2) unfolding polite_to_def by blast
  then have u: "fresh Q b c2" using c oth by (simp add: c2_def fresh_def same_caller_def)
  show ?thesis
  proof (cases r)
    case (Inl e)
    have n: "\<And>m. e \<noteq> Panic m" using f1(1) Inl by simp
    have "call H f bad ok c = bad e c2"
      using r oth n unfolding call_def c2_def Inl by (cases e) (auto simp: Let_def)
    then show ?thesis using bad [OF u] by simp
  next
    case (Inr p')
    obtain x a1 where p': "p' = (x, a1)" by fastforce
    have "call H f bad ok c = ok x c2" using r oth unfolding call_def c2_def Inr p' by (simp add: Let_def)
    then show ?thesis using ok [OF p r [unfolded Inr p'] u] by simp
  qed
qed

lemma onStore_result: "onStore m a w = (r, w') \<Longrightarrow> no_panic (m (apStore a))
    \<Longrightarrow> calm r \<and> (case r of Inl _ \<Rightarrow> a | Inr (_, a') \<Rightarrow> a') = a"
  unfolding onStore_def no_panic_def io_bind_def io_ret_def
  by (cases "m (apStore a) w") (auto split: sum.splits prod.splits dest: spec [of _ w])

lemma onStore_Inr: "onStore m a w = (Inr (x, a'), w') \<longleftrightarrow> m (apStore a) w = (Inr x, w') \<and> a' = a"
  by (auto simp: onStore_def io_bind_def io_ret_def split: prod.splits sum.splits)

lemma serves_onStore:
  assumes "fresh P b c" "polite_to H P" "\<And>a. P a \<Longrightarrow> no_panic (m (apStore a))"
    and "\<And>e c. fresh P b c \<Longrightarrow> answered H D b (bad e c)"
    and ok: "\<And>x a w w' c. P a \<Longrightarrow> m (apStore a) w = (Inr x, w') \<Longrightarrow> fresh P b c \<Longrightarrow> answered H D b (ok x c)"
  shows "answered H D b (call H (onStore m) bad ok c)"
proof (rule serves_call [OF assms(1,2) _ assms(4)])
  fix a w r w' assume "P a" "onStore m a w = (r, w')"
  then show "calm r \<and> P (case r of Inl _ \<Rightarrow> a | Inr (_, a') \<Rightarrow> a')"
    using onStore_result [of m a w r w'] assms(3) [of a] by metis
next
  fix x a w a' w' c assume "P a" "onStore m a w = (Inr (x, a'), w')" "fresh P b c"
  then show "answered H D b (ok x c)" using ok unfolding onStore_Inr by blast
qed

end
