(* ===== verification/HttpAnswers.thy ===== *)
theory HttpAnswers
  imports HttpLaws
begin

text \<open>
  Every handler answers, and so does every request on its way through authentication, the rate
  limits, the roles and the route table.
\<close>

subsection \<open>The handlers\<close>

definition api_ok :: "API \<Rightarrow> bool" where
  "api_ok a \<longleftrightarrow> store_room (apStore a) \<and> 0 \<le> apSnapshotRetention a"

definition api_cat :: "API \<Rightarrow> bool" where
  "api_cat a \<longleftrightarrow> api_ok a \<and> apCatalog a \<noteq> None"

text \<open>The other requests leave room in the history, and do not take a configured catalog away.\<close>

definition polite :: "httplib \<Rightarrow> bool" where
  "polite H \<longleftrightarrow> polite_to H api_ok \<and> polite_to H api_cat"

lemma polite_True [simp]: "polite_to H (\<lambda>_. True)"
  by (simp add: polite_to_def)

lemma politeD: "polite H \<Longrightarrow> polite_to H api_ok" "polite H \<Longrightarrow> polite_to H api_cat"
  by (simp_all add: polite_def)

lemma no_panic_minimumRoot: "minimumRootPresent a w = (r, w') \<Longrightarrow> calm r \<and> (case r of Inl _ \<Rightarrow> a | Inr (_, a') \<Rightarrow> a') = a"
  using onStore_result [of "\<lambda>s. ContainsRoot s (apMinimumRoot a)" a w r w'] no_panic_store(2)
  by (auto simp: minimumRootPresent_def io_ret_def split: if_splits)

lemma serves_minimumRoot [serves]:
  assumes "fresh P b c" "polite_to H P"
    and "\<And>e c. fresh P b c \<Longrightarrow> answered H D b (bad e c)" "\<And>x c. fresh P b c \<Longrightarrow> answered H D b (ok x c)"
  shows "answered H D b (call H minimumRootPresent bad ok c)"
proof (rule serves_call [OF assms(1,2) _ assms(3)])
  fix a w r w' assume "P a" "minimumRootPresent a w = (r, w')"
  then show "calm r \<and> P (case r of Inl _ \<Rightarrow> a | Inr (_, a') \<Rightarrow> a')" using no_panic_minimumRoot by metis
qed (auto intro: assms(4))

lemma serves_branch [serves]:
  "(x \<Longrightarrow> answered H D b d) \<Longrightarrow> (\<not> x \<Longrightarrow> answered H D b d') \<Longrightarrow> answered H D b (if x then d else d')"
  "(v = None \<Longrightarrow> answered H D b d) \<Longrightarrow> (\<And>y. v = Some y \<Longrightarrow> answered H D b (g y)) \<Longrightarrow> answered H D b (case v of None \<Rightarrow> d | Some y \<Rightarrow> g y)"
  "(\<And>e. u = Inl e \<Longrightarrow> answered H D b (k e)) \<Longrightarrow> (\<And>y. u = Inr y \<Longrightarrow> answered H D b (h y)) \<Longrightarrow> answered H D b (case u of Inl e \<Rightarrow> k e | Inr y \<Rightarrow> h y)"
  "(\<And>x y. p = (x, y) \<Longrightarrow> answered H D b (q x y)) \<Longrightarrow> answered H D b (case p of (x, y) \<Rightarrow> q x y)"
  by (auto split: option.split sum.split prod.split)

lemma serves_branch2 [serves]:
  "(v = None \<Longrightarrow> answered H D b (d c)) \<Longrightarrow> (\<And>y. v = Some y \<Longrightarrow> answered H D b (g y c)) \<Longrightarrow> answered H D b ((case v of None \<Rightarrow> d | Some y \<Rightarrow> g y) c)"
  "(\<And>x y. p = (x, y) \<Longrightarrow> answered H D b (q x y c)) \<Longrightarrow> answered H D b ((case p of (x, y) \<Rightarrow> q x y) c)"
  by (auto split: option.split prod.split)

lemma serves_live: "fresh P b c \<Longrightarrow> answered H D b (live r c)"
  unfolding live_def by (rule serves_json) simp_all

lemma serves_ready: "fresh api_ok b c \<Longrightarrow> polite H \<Longrightarrow> answered H D b (ready H r c)"
  unfolding ready_def
  by (rule serves_onStore politeD calm_intros serves | assumption | simp)+

lemma serves_root: "fresh api_ok b c \<Longrightarrow> polite H \<Longrightarrow> answered H D b (rootHandler H r c)"
  unfolding rootHandler_def
  by (rule serves_onStore politeD calm_intros serves | assumption | simp)+

lemma serves_getRef: "fresh api_ok b c \<Longrightarrow> polite H \<Longrightarrow> answered H D b (getNamedRef H r c)"
  unfolding getNamedRef_def
  by (rule serves_onStore politeD calm_intros serves | assumption | simp)+

lemma serves_checkRoot: "fresh api_ok b c \<Longrightarrow> polite H \<Longrightarrow> answered H D b (checkRootHandler H r c)"
  unfolding checkRootHandler_def Let_def
  by (rule serves_onStore politeD calm_intros serves | assumption | simp)+

lemma serves_putRef: "fresh api_ok b c \<Longrightarrow> polite H \<Longrightarrow> answered H D b (putNamedRef H r c)"
  unfolding putNamedRef_def Let_def
  by (rule serves_onStore politeD calm_intros serves | assumption | simp)+

text \<open>Calls that may change the shared state.\<close>

lemma serves_step:
  assumes "fresh P b c" "polite_to H Q" "\<And>a. P a \<Longrightarrow> no_panic (f a)" "\<And>a. P a \<Longrightarrow> Q a"
    and "\<And>x a w a' w'. P a \<Longrightarrow> f a w = (Inr (x, a'), w') \<Longrightarrow> Q a'"
    and "\<And>e c. fresh Q b c \<Longrightarrow> answered H D b (bad e c)" "\<And>x c. fresh Q b c \<Longrightarrow> answered H D b (ok x c)"
  shows "answered H D b (call H f bad ok c)"
proof (rule serves_call [OF assms(1,2)])
  fix a w r w' assume a: "P a" "f a w = (r, w')"
  have "calm r" using assms(3) [OF a(1)] a(2) unfolding no_panic_def by (metis fst_conv)
  moreover have "Q (case r of Inl _ \<Rightarrow> a | Inr (_, a') \<Rightarrow> a')"
    using assms(4,5) a by (auto split: sum.split)
  ultimately show "calm r \<and> Q (case r of Inl _ \<Rightarrow> a | Inr (_, a') \<Rightarrow> a')" ..
qed (use assms(6,7) in blast)+

lemma serves_verify: "fresh api_ok b c \<Longrightarrow> polite H \<Longrightarrow> answered H D b (verifyHandler H r c)"
  unfolding verifyHandler_def
  by (rule serves_step [where P = api_ok and Q = api_ok] serves | assumption
      | auto simp: politeD verifyAll_def no_panic_def split: prod.splits; fail)+

lemma no_panic_storeAppend: "no_panic (storeAppend H p q k cn a)"
  unfolding storeAppend_def by (rule no_panic_cases calm_intros | simp)+

lemma serves_authorize:
  assumes "fresh api_ok b c" "polite H" "\<And>c. fresh api_ok b c \<Longrightarrow> answered H D b (nxt c)"
  shows "answered H D b (apiAuthorizeAppend H p ty cm nxt c)"
proof -
  have cat: "calm (case apCatalog a of None \<Rightarrow> Inr ((), a)
               | Some cat \<Rightarrow> bindE (catalogAuthorize cat ty cm) (\<lambda>_. Inr ((), a)))" for a
    by (auto split: option.split intro!: calm_bindE calm_catalog)
  have same: "a' = a" if "io_lift (case apCatalog a of None \<Rightarrow> Inr ((), a)
               | Some cat \<Rightarrow> bindE (catalogAuthorize cat ty cm) (\<lambda>_. Inr ((), a))) w = (Inr (x, a'), w')" for a x a' w w'
    using that by (auto simp: io_lift_def bindE_Inr_iff split: option.splits)
  have c: "fresh api_ok b (setAppendAudit ty cm c)" using assms(1) by simp
  show ?thesis
    unfolding apiAuthorizeAppend_def Let_def
    apply (rule serves_branch)
     apply (rule serves_error [OF _ _ c]; simp)
    apply (rule serves_branch)
     apply (rule assms(3) [OF c])
    apply (rule serves_step [where Q = api_ok, OF c politeD(1) [OF assms(2)]])
    subgoal by (intro no_panic_basic cat)
    subgoal by assumption
    subgoal using same by metis
    subgoal by (rule serves_error; simp)
    subgoal by (rule assms(3))
    done
qed

lemma serves_append:
  assumes "fresh api_ok b c" "polite H" shows "answered H D b (appendEvent H r c)"
proof -
  have tail: "answered H D b (call H (storeAppend H p q k cn) writeAPIError (\<lambda>(hash, replayed).
                  call H (onStore CurrentRoot) writeAPIError (\<lambda>currentRoot.
                  writeJSON (if replayed then 200 else 201) (JObj
                    [(''hash'', JStr hash), (''replayed'', JBool replayed), (''root'', JStr currentRoot)]))) c)"
    if "fresh api_ok b c" for p q k cn c
    by (rule serves_step [where Q = "\<lambda>_. True", OF that])
      (rule no_panic_storeAppend polite_True TrueI serves serves_onStore [where P = "\<lambda>_. True"] calm_intros | assumption | simp)+
  show ?thesis
    unfolding appendEvent_def Let_def
    by (insert assms, (rule serves serves_authorize tail | assumption | simp)+)
qed

text \<open>The catalog.\<close>

lemma serves_catalog:
  assumes "fresh api_ok b c" "\<And>c. fresh api_cat b c \<Longrightarrow> answered H D b (h c)" shows "answered H D b (catalogConfigured h c)"
  using assms unfolding catalogConfigured_def
  by (auto intro!: serves) (auto simp: fresh_def api_cat_def)

lemma onCatalog_keeps:
  assumes "polite H" "\<And>cat. no_panic (m cat)" "fresh api_cat b c"
    and "\<And>e c. fresh api_cat b c \<Longrightarrow> answered H D b (bad e c)" "\<And>x c. fresh api_cat b c \<Longrightarrow> answered H D b (ok x c)"
  shows "answered H D b (call H (onCatalog m) bad ok c)"
proof (rule serves_step [OF assms(3) politeD(2) [OF assms(1)] _ _ _ assms(4,5)])
  fix a assume "api_cat a"
  then show "no_panic (onCatalog m a)"
    using assms(2) unfolding onCatalog_def api_cat_def by (auto intro!: calm_intros no_panic_cases split: option.split)
next
  fix x a w a' w' assume "api_cat a" "onCatalog m a w = (Inr (x, a'), w')"
  then show "api_cat a'"
    by (auto simp: onCatalog_def api_cat_def api_ok_def io_bind_def io_ret_def split: option.splits prod.splits sum.splits)
qed auto

lemma serves_getCatalog: "fresh api_ok b c \<Longrightarrow> polite H \<Longrightarrow> answered H D b (getCatalog H r c)"
  unfolding getCatalog_def viewCatalog_def
  by (erule serves_catalog, rule onCatalog_keeps, assumption)
    (rule calm_intros serves | assumption | simp add: documentJSON_def entryJSON_def list_ex_iff)+

lemma serves_install: "fresh api_ok b c \<Longrightarrow> polite H \<Longrightarrow> answered H D b (installCatalogEntry H r c)"
  unfolding installCatalogEntry_def installCatalog_def
  by (erule serves_catalog)
    (rule serves onCatalog_keeps no_panic_cases calm_intros | assumption | simp add: entryJSON_def list_ex_iff)+

lemma serves_remove: "fresh api_ok b c \<Longrightarrow> polite H \<Longrightarrow> answered H D b (removeCatalogEntry H r c)"
  unfolding removeCatalogEntry_def removeCatalog_def viewCatalog_def Let_def
  by (erule serves_catalog)
    (rule serves onCatalog_keeps no_panic_cases calm_intros | assumption | simp)+

text \<open>Pages and payloads.\<close>

lemma mapM_length: "io_mapM f xs w = (Inr ys, w') \<Longrightarrow> length ys = length xs"
  by (induction xs arbitrary: w ys) (auto simp: io_iffs)

lemma page_length:
  assumes "store_room s" "1 \<le> l" "l \<le> 1000"
    "MetadataEventPageAt L s after root (word_of_int l) w = (Inr page, w')"
  shows "int (length (epNodes page)) \<le> l"
proof -
  have len: "int (nat (pageEnd start (word_of_int l) t) - start) \<le> l"
    if "pageTarget s root root0 = Inr (r, t)" "pageStart s after t = Inr start" for root0 r t start
    using pageTarget_start [OF assms(1) that] pageEnd_room(2) [of l start t] assms(2,3) by simp
  from assms(4) obtain root0 r t start where
    "pageTarget s root root0 = Inr (r, t)" "pageStart s after t = Inr start"
    "length (epNodes page) = nat (pageEnd start (word_of_int l) t) - start"
    unfolding MetadataEventPageAt_def eventPageAt_def Let_def
    by (auto simp: io_iffs split: if_splits prod.splits dest!: mapM_length)
  then show ?thesis using len by simp
qed

lemma payload_ids:
  assumes "EventPayloadsBounded L s ids root m (\<lambda>w. w) w = (Inr ps, w')" shows "map evID ps = ids"
proof -
  have pay: "payloadLoop L s rd m p xs v = (Inr qs, v') \<Longrightarrow> map evID qs = xs" for rd m p xs v qs v'
    by (induction xs arbitrary: p v qs) (auto simp: io_iffs split: if_splits)
  from assms obtain sel v where "selectLoop s (the (historyIndex s root)) [] ids = Inr sel"
    "payloadLoop L s (readNode L (sdir s)) m 0 sel v = (Inr ps, w')"
    unfolding EventPayloadsBounded_def eventPayloads_def eventPayloadsWithReader_def selectPayloadEventIDs_def
    by (auto simp: io_iffs split: if_splits sum.splits option.splits)
  then show ?thesis using pay selectLoop_Inr by blast
qed

lemma serves_bounded:
  assumes "fresh P b c" "polite_to H P"
    and "\<And>e c. fresh P b c \<Longrightarrow> answered H D b (bad e c)"
    and ok: "\<And>ps c. map evID ps = ids \<Longrightarrow> fresh P b c \<Longrightarrow> answered H D b (ok ps c)"
  shows "answered H D b (call H (boundedPayloads H ids root) bad ok c)"
proof (rule serves_call [OF assms(1,2) _ assms(3)])
  fix a w r w' assume "P a" "boundedPayloads H ids root a w = (r, w')"
  then show "calm r \<and> P (case r of Inl _ \<Rightarrow> a | Inr (_, a') \<Rightarrow> a')"
    unfolding boundedPayloads_def
    using onStore_result [of "\<lambda>s. EventPayloadsBounded (hGo H) s ids root (apMaxBody a) (\<lambda>w. w)" a w r w'] no_panic_payloads
    by simp
next
  fix ps a w a' w' c assume "P a" "boundedPayloads H ids root a w = (Inr (ps, a'), w')" "fresh P b c"
  then have "EventPayloadsBounded (hGo H) (apStore a) ids root (apMaxBody a) (\<lambda>w. w) w = (Inr ps, w')"
    "fresh P b c" unfolding boundedPayloads_def onStore_Inr by simp_all
  then show "answered H D b (ok ps c)" by (rule ok [OF payload_ids])
qed

lemma serves_finish:
  assumes "fresh P b c" D "length ids \<le> 100" "wp \<Longrightarrow> ids = map nHash (epNodes page)"
  shows "answered H D b (finishEvents H wp page m ids c)"
proof -
  have d: "set (disclosed (eventResponse n x)) \<subseteq> {nHash n}" for n x
    by (auto simp: eventResponse_def omitempty_def)
  define v where "v f = JObj [(''events'', JList (map (\<lambda>n. eventResponse n (f n)) (epNodes page))),
    (''has_more'', JBool (epHasMore page)), (''root'', JStr (epRoot page))]" for f
  have v: "set (disclosed (v f)) \<subseteq> set (map nHash (epNodes page))" for f
    using d by (fastforce simp: v_def)
  have r: "\<not> has_raw (eventResponse n [])" for n by (simp add: eventResponse_def omitempty_def list_ex_iff)
  show ?thesis
  proof (cases wp)
    case True
    have "answered H D b (writeMeasured H (epRoot page) ids (v f) ((addPayloadRead ^^ length (epNodes page)) c))" for f
      using assms v [of f] True by (intro serves_measured [where P = P]) simp_all
    then show ?thesis using True by (simp add: finishEvents_def Let_def v_def)
  next
    case False
    then show ?thesis using assms(1) r by (auto simp: finishEvents_def Let_def list_ex_iff intro!: serves_json)
  qed
qed

lemma serves_events:
  assumes "fresh api_ok b c" "polite H" D shows "answered H D b (eventsHandler H r c)"
proof (cases "eventsLimit r")
  case None
  then show ?thesis unfolding eventsHandler_def using assms(1) by (auto intro!: serves)
next
  case (Some parsed)
  define wp where "wp = includePayload r"
  define lim where "lim = (if wp \<and> parsed > maxPayloadBatchEvents then maxPayloadBatchEvents else parsed)"
  have l: "1 \<le> lim" "lim \<le> 1000" "wp \<Longrightarrow> lim \<le> 100"
    using Some by (auto simp: lim_def eventsLimit_def maxPayloadBatchEvents_def Let_def split: if_splits prod.splits)
  show ?thesis
    unfolding eventsHandler_def Some option.case Let_def wp_def [symmetric] lim_def [symmetric]
  proof (rule serves_onStore [OF assms(1) politeD(1) [OF assms(2)]])
    fix a assume "api_ok a"
    then show "no_panic (MetadataEventPageAt (hGo H) (apStore a) (trimSpace (queryGet r ''after'')) (trimSpace (queryGet r ''root''))
        (word_of_int lim))"
      using no_panic_page l by (simp add: api_ok_def)
  next
    fix page a w w' c1
    assume a: "api_ok a" "MetadataEventPageAt (hGo H) (apStore a) (trimSpace (queryGet r ''after'')) (trimSpace (queryGet r ''root''))
        (word_of_int lim) w = (Inr page, w')" and c1: "fresh api_ok b c1"
    have "int (length (epNodes page)) \<le> lim" using page_length [OF _ l(1,2) a(2)] a(1) by (simp add: api_ok_def)
    then have n: "length (if wp then map nHash (epNodes page) else []) \<le> 100" using l(3) by auto
    show "answered H D b
         (if wp \<and> 0 < length (epNodes page)
          then call H (boundedPayloads H (if wp then map nHash (epNodes page) else []) (epRoot page)) writeAPIError
                (\<lambda>payloads. finishEvents H wp page (payloadMap payloads) (if wp then map nHash (epNodes page) else []))
                (if wp then setPayloadReadAudit ''failed'' (epRoot page) (if wp then map nHash (epNodes page) else []) c1 else c1)
          else finishEvents H wp page Map.empty (if wp then map nHash (epNodes page) else [])
                (if wp then setPayloadReadAudit ''failed'' (epRoot page) (if wp then map nHash (epNodes page) else []) c1 else c1))"
      using c1 n politeD(1) [OF assms(2)] assms(3)
      by (intro serves_branch serves_finish [where P = api_ok] serves_bounded [where P = api_ok] serves_errors [where P = api_ok]) simp_all
  qed (rule serves_errors; assumption)
qed

lemma serves_payloads:
  assumes "fresh api_ok b c" "polite H" D shows "answered H D b (eventPayloadsHandler H r c)"
  unfolding eventPayloadsHandler_def Let_def
proof (intro serves_branch serves_errors serves_error)
  fix q assume "\<not> (length (map trimSpace (pbEventIDs q)) < 1
      \<or> maxPayloadBatchEvents < int (length (map trimSpace (pbEventIDs q))))"
  then have n: "length (map trimSpace (pbEventIDs q)) \<le> 100" by (simp add: maxPayloadBatchEvents_def)
  have d: "disclosed (payloadResponse p) = [evID p]" for p by (simp add: payloadResponse_def)
  have sub: "set (disclosed (JObj [(''root'', JStr x), (''payloads'', JList (map payloadResponse ps))])) \<subseteq> set is"
    if "map evID ps = is" for x ps "is"
    by (simp add: d that [symmetric] o_def)
  show "answered H D b (call H (boundedPayloads H (map trimSpace (pbEventIDs q)) (trimSpace (pbRoot q))) writeAPIError
           (\<lambda>payloads. writeMeasured H (trimSpace (pbRoot q)) (map trimSpace (pbEventIDs q))
               (JObj [(''root'', JStr (trimSpace (pbRoot q))), (''payloads'', JList (map payloadResponse payloads))]))
           (setPayloadReadAudit ''failed'' (trimSpace (pbRoot q)) (map trimSpace (pbEventIDs q)) c))"
    using assms(1,3) n
    by (intro serves_bounded [OF _ politeD(1) [OF assms(2)]] serves_errors serves_measured sub) simp_all
qed (use assms in simp_all)

text \<open>Snapshots.\<close>

lemma serves_created:
  assumes "fresh P b c"
  shows "answered H D b (snapshotCreated info c)" "answered H D b (snapshotCreated info (logPruneError info e c))"
  using assms
  by (auto simp: snapshotCreated_def logPruneError_def setRequestAudit_def writeJSON_def writing fresh_def answered_def
      same_caller_def discloses_def secNames_def snapshotInfoJSON_def)

lemma no_panic_space: "no_panic (diskAvailableBytes H p)"
  unfolding diskAvailableBytes_def by (rule no_panic_syscall) (simp split: prod.split)

lemma serves_snapshot:
  assumes "fresh api_ok b c" "polite H" shows "answered H D b (snapshotHandler H r c)"
proof -
  have prune: "answered H D b (call H (onStore (\<lambda>_. pruneSnapshots dir (apSnapshotRetention (cnAPI c))))
            (\<lambda>e. snapshotCreated info \<circ> logPruneError info e) (\<lambda>_. snapshotCreated info) c1)"
    if "fresh api_ok b c" "fresh api_ok b c1" for dir info c c1
    using that assms(2)
    by (intro serves_onStore [where P = api_ok]) (auto simp: politeD fresh_def api_ok_def intro: no_panic_prune
        intro!: serves_created [where P = api_ok])
  have c: "fresh api_ok b (setRequestAudit ''snapshot'' ''failed'' [] 0 c)" using assms(1) by simp
  note go = serves_onStore [OF _ politeD(1) [OF assms(2)]]
  show ?thesis
    unfolding snapshotHandler_def Let_def
    apply (rule serves_branch)
     apply (rule serves_error [OF _ _ c]; simp)
    apply (rule go [OF c no_panic_calls(4)])
     apply (rule serves_errors, assumption)
    apply (rule go, assumption, rule no_panic_snapshots)
     apply (rule serves_errors, assumption)
    apply (rule go, assumption, rule no_panic_space)
     apply (rule serves_errors, assumption)
    apply (rule serves_branch)
     apply (rule serves_error; simp)
    apply (rule go, assumption, rule no_panic_snapshots)
     apply (rule serves_errors, assumption)
    by (rule prune)
qed

subsection \<open>The way to a handler\<close>

text \<open>The token of a request, and whose it is.\<close>

definition bearer :: "Request \<Rightarrow> string option" where
  "bearer r = (case cutAt (CHR '' '') (headerGet r ''Authorization'') of (scheme, token, two) \<Rightarrow>
     if two \<and> equalFold scheme ''Bearer'' then Some (trimSpace token) else None)"

definition callerOf :: "httplib \<Rightarrow> API \<Rightarrow> world \<Rightarrow> Request \<Rightarrow> Principal option" where
  "callerOf H a w r = (case bearer r of None \<Rightarrow> None | Some token \<Rightarrow>
     (case Authenticate (hAuth H) (apAuth a) (wall w) token of (p, ok) \<Rightarrow> if ok then Some p else None))"

lemma require_callerOf:
  "require H minimum nxt r c =
     (case callerOf H (cnAPI c) (cnWorld c) r of
        None \<Rightarrow> denyUnauthenticated H c
      | Some p \<Rightarrow> call H (requestAllow (prID p)) writeAPIError (\<lambda>allowed c.
          if \<not> allowed then writeRateLimit c
          else if \<not> roleSatisfies (prRole p) minimum
          then writeError 403 (codeString ErrPermission)
                 (JStr ''credential does not have permission for this operation'') c
          else nxt (r\<lparr>rqPrincipal := Some p\<rparr>) c)
          (setRequestPrincipal (prID p) (roleString (prRole p)) c))"
  unfolding require_def callerOf_def bearer_def by (auto split: prod.split)

definition same_headers :: "conn \<Rightarrow> conn \<Rightarrow> bool" where
  "same_headers c c' \<longleftrightarrow> list_all (\<lambda>k. map_of (wHeader (cnW c')) k = map_of (wHeader (cnW c)) k) secNames"

text \<open>
  The request is answered. Payloads go to readers only, who are on record with their name.
\<close>

definition completes :: "httplib \<Rightarrow> API \<Rightarrow> world \<Rightarrow> Request \<Rightarrow> conn \<Rightarrow> conn \<Rightarrow> bool" where
  "completes H a w r b c \<longleftrightarrow> (\<exists>b' D. answered H D b' c \<and> same_headers b b' \<and>
     (D \<longrightarrow> (\<exists>p. callerOf H a w r = Some p \<and> roleSatisfies (prRole p) RoleReader
        \<and> rcPrincipalID (cnW b') = prID p \<and> rcRole (cnW b') = roleString (prRole p))))"

lemma completesI: "answered H False b c \<Longrightarrow> completes H a w r b c"
  unfolding completes_def by (rule exI [of _ b], rule exI [of _ False]) (simp add: same_headers_def list_all_iff)

lemma limiter_calls:
  "no_panic (requestAllow k a)" "no_panic (failedAuthAllow k a)"
  "requestAllow k a w = (Inr (x, a'), w') \<Longrightarrow> apStore a' = apStore a \<and> apCatalog a' = apCatalog a
     \<and> apSnapshotRetention a' = apSnapshotRetention a"
  "failedAuthAllow k a w = (Inr (x, a'), w') \<Longrightarrow> apStore a' = apStore a \<and> apCatalog a' = apCatalog a
     \<and> apSnapshotRetention a' = apSnapshotRetention a"
  by (auto simp: no_panic_def requestAllow_def failedAuthAllow_def split: prod.splits)

lemma serves_deny:
  assumes "fresh api_ok b c" "polite H"
  shows "completes H a w r b (denyUnauthenticated H c)"
proof -
  define c' where "c' = setRequestPrincipal ''unauthenticated'' [] c"
  have c': "fresh api_ok c' c'" "same_headers b c'"
    using assms(1) by (auto simp: c'_def fresh_def same_caller_def same_headers_def setRequestPrincipal_def onW_def list_all_iff)
  have "answered H False c' (denyUnauthenticated H c)"
    unfolding denyUnauthenticated_def c'_def [symmetric]
    apply (rule serves_step [where Q = api_ok, OF c'(1) politeD(1) [OF assms(2)] limiter_calls(2)])
       apply assumption
      apply (auto dest!: limiter_calls(4) simp: api_ok_def; fail)
     apply (rule serves_errors, assumption)
    apply (rule serves_branch)
     apply (rule serves_errors, assumption)
    apply (rule serves_error; (rule fresh_header; simp add: secNames_def)?; simp)
    done
  then show ?thesis using c'(2) unfolding completes_def by blast
qed

lemma serves_require:
  assumes "fresh api_ok b c" "polite H"
    and nxt: "\<And>(p :: Principal) b c. fresh api_ok b c \<Longrightarrow> roleSatisfies (prRole p) m
      \<Longrightarrow> answered H (roleSatisfies (prRole p) RoleReader) b (nxt (r\<lparr>rqPrincipal := Some p\<rparr>) c)"
  shows "completes H (cnAPI c) (cnWorld c) r b (require H m nxt r c)"
proof (cases "callerOf H (cnAPI c) (cnWorld c) r")
  case None
  then show ?thesis unfolding require_callerOf using serves_deny [OF assms(1,2)] by simp
next
  case (Some p)
  define c' where "c' = setRequestPrincipal (prID p) (roleString (prRole p)) c"
  have c': "fresh api_ok c' c'" "same_headers b c'" "rcPrincipalID (cnW c') = prID p" "rcRole (cnW c') = roleString (prRole p)"
    using assms(1) by (auto simp: c'_def fresh_def same_caller_def same_headers_def setRequestPrincipal_def onW_def list_all_iff)
  define D where "D = roleSatisfies (prRole p) RoleReader"
  have "answered H D c' (require H m nxt r c)"
    unfolding require_callerOf Some option.case c'_def [symmetric]
    apply (rule serves_step [where Q = api_ok, OF c'(1) politeD(1) [OF assms(2)] limiter_calls(1)])
       apply assumption
      apply (auto dest!: limiter_calls(3) simp: api_ok_def; fail)
     apply (rule serves_errors, assumption)
    apply (rule serves_branch)
     apply (rule serves_errors, assumption)
    apply (rule serves_branch)
     apply (rule serves_error; simp)
    apply (unfold D_def, rule nxt; simp)
    done
  then show ?thesis using Some c' unfolding completes_def D_def by blast
qed

lemma serves_mutation:
  assumes "fresh api_ok b c" "polite H"
    and nxt: "\<And>(p :: Principal) b c. fresh api_ok b c \<Longrightarrow> roleSatisfies (prRole p) m
      \<Longrightarrow> answered H (roleSatisfies (prRole p) RoleReader) b (nxt (r\<lparr>rqPrincipal := Some p\<rparr>) c)"
  shows "completes H (cnAPI c) (cnWorld c) r b (requireMutation H m nxt r c)"
  unfolding requireMutation_def
proof (rule serves_require [OF assms(1,2)])
  fix p :: Principal and b c assume c: "fresh api_ok b c" and m: "roleSatisfies (prRole p) m"
  show "answered H (roleSatisfies (prRole p) RoleReader) b (call H minimumRootPresent (\<lambda>_. writeRootAbsent)
           (\<lambda>contains c. if \<not> contains then writeRootAbsent c else nxt (r\<lparr>rqPrincipal := Some p\<rparr>) c) c)"
    using nxt m by (intro serves_minimumRoot [OF c politeD(1) [OF assms(2)]] serves_branch serves_errors) simp_all
qed

lemma serves_endpoint:
  assumes "fresh api_ok b c" "polite H"
  shows "completes H (cnAPI c) (cnWorld c) r b (serveEndpoint H ep r c)"
  using assms(1)
  by (cases ep; simp add: serveEndpoint_def)
    ((intro completesI serves_live serves_ready serves_require serves_mutation serves_root serves_events serves_payloads
        serves_append serves_getRef serves_putRef serves_snapshot serves_verify serves_checkRoot serves_getCatalog
        serves_install serves_remove TrueI assms(2) | assumption)+)

lemma serves_mux:
  assumes "fresh api_ok b c" "polite H"
  shows "completes H (cnAPI c) (cnWorld c) r b (serveMux H r c)"
proof -
  have p: "completes H (cnAPI c) (cnWorld c) r b (plainError st t c)" if "st \<in> set statuses" "st \<noteq> 200" for st t
    using that assms(1) by (intro completesI serves_plain)
  have e: "completes H (cnAPI c) (cnWorld c) r b (serveEndpoint H ep (r\<lparr>rqPathValue := v\<rparr>) c)" for ep v
    using serves_endpoint [OF assms, of "r\<lparr>rqPathValue := v\<rparr>" ep]
    by (simp add: completes_def callerOf_def bearer_def headerGet_def)
  show ?thesis unfolding serveMux_def using p e by (auto split: option.split)
qed

subsection \<open>The whole request\<close>

definition secHeaders :: "(string \<times> string) list" where
  "secHeaders = [(''X-Frame-Options'', ''DENY''), (''X-Content-Type-Options'', ''nosniff''),
     (''Referrer-Policy'', ''no-referrer''), (''Content-Security-Policy'', contentPolicy), (''Cache-Control'', ''no-store'')]"

text \<open>The connection the multiplexer sees first.\<close>

definition begun :: "API \<Rightarrow> world \<Rightarrow> conn" where
  "begun a w = (newConn a w)\<lparr>cnW := (cnW (newConn a w))\<lparr>wHeader := rev secHeaders\<rparr>\<rparr>"

lemma begun_simps [simp]:
  "cnAPI (begun a w) = a" "cnWorld (begun a w) = w" "wStatusLine (cnW (begun a w)) = None" "\<not> cnPanic (begun a w)"
  "cnLog (begun a w) = []" "wBody (cnW (begun a w)) = NoBody" "rcPrincipalID (cnW (begun a w)) = ''anonymous''"
  by (simp_all add: begun_def newConn_def freshRecorder_def)

lemma begun_headers: "(k, v) \<in> set secHeaders \<Longrightarrow> map_of (wHeader (cnW (begun a w))) k = Some v"
  by (auto simp: begun_def secHeaders_def)

lemma serveHTTP_eq:
  "serveHTTP H r a w = (let d = serveMux H r (begun a w) in if cnPanic d then d
     else d\<lparr>cnLog := cnLog d @ [logLine r (cnW d) (timeSub (wall (cnWorld d)) (wall w) div 1000000)]\<rparr>)"
proof -
  have "(let s = setHeader ''X-Frame-Options'' ''DENY''
       (setHeader ''X-Content-Type-Options'' ''nosniff''
       (setHeader ''Referrer-Policy'' ''no-referrer''
       (setHeader ''Content-Security-Policy'' contentPolicy
       (setHeader ''Cache-Control'' ''no-store'' (newConn a w))))) in s\<lparr>cnW := freshRecorder (cnW s)\<rparr>) = begun a w"
    by (simp add: begun_def newConn_def freshRecorder_def setHeader_def onW_def secHeaders_def)
  then show ?thesis
    by (simp add: serveHTTP_def Handler_def securityHeaders_def accessLog_def Let_def) (simp add: setHeader_def onW_def newConn_def)
qed

lemma serves_request:
  assumes "api_ok a" "polite H"
  shows "completes H a w r (begun a w) (serveMux H r (begun a w))"
proof -
  have "fresh api_ok (begun a w) (begun a w)" using assms(1) by (simp add: fresh_def same_caller_def list_all_iff)
  then show ?thesis using serves_mux [of "begun a w" "begun a w" H r] assms(2) by simp
qed

end
