(* ===== verification/HttpWalk.thy ===== *)
theory HttpWalk
  imports HttpAnswers SnapshotCorrect
begin

text \<open>
  What happens to the shared state and to the disk while one request is served alone. The locale
  \<open>request_walk\<close> follows a relation of both through all handlers; it is told where something
  changes, and what was checked before (\<open>walk_serve\<close>).
\<close>

subsection \<open>Operations that only read\<close>

lemma reads_split [io_reads]:
  "reads m \<Longrightarrow> reads n \<Longrightarrow> reads (if b then m else n)"
  "reads m \<Longrightarrow> (\<And>y. reads (g y)) \<Longrightarrow> reads (case x of None \<Rightarrow> m | Some y \<Rightarrow> g y)"
  "(\<And>e. reads (k e)) \<Longrightarrow> (\<And>y. reads (h y)) \<Longrightarrow> reads (case r of Inl e \<Rightarrow> k e | Inr y \<Rightarrow> h y)"
  "(\<And>a b. reads (q a b)) \<Longrightarrow> reads (case p of (a, b) \<Rightarrow> q a b)"
  by (simp_all split: option.split sum.split prod.split)

lemma reads_store [io_reads]:
  "reads (CurrentRoot s)" "reads (VerifyHead L s)" "reads (ContainsRoot s root)" "reads (NamedRef s n)"
  "reads (MetadataEventPageAt L s after root lim)"
  unfolding CurrentRoot_def VerifyHead_def ContainsRoot_def NamedRef_def MetadataEventPageAt_def eventPageAt_def Let_def
  by (intro io_reads)+

lemma reads_payloadLoop [io_reads]: "(\<And>h. reads (rd h)) \<Longrightarrow> reads (payloadLoop L s rd m p hs)"
  by (induction hs arbitrary: p) (auto intro!: io_reads)

lemma reads_payloads [io_reads]: "reads (EventPayloadsBounded L s ids root m (\<lambda>w. w))"
  unfolding EventPayloadsBounded_def eventPayloads_def eventPayloadsWithReader_def selectPayloadEventIDs_def
  by (intro io_reads)+

lemma verifyLoop_reads: "verifyLoop L s hs n w = (r, w') \<Longrightarrow> at_start w w'"
proof (induction hs arbitrary: n w)
  case (Cons h hs)
  then show ?case
    using reads_run [OF reads_readNode, of L "sdir s" h w] at_start_trans
    by (fastforce split: prod.splits sum.splits)
qed simp

lemma VerifyAll_reads: "VerifyAll L s w = (r, w') \<Longrightarrow> at_start w w'"
  using reads_run [OF reads_currentRoot, of "sdir s" w] verifyLoop_reads at_start_trans
  by (fastforce simp: VerifyAll_def split: prod.splits sum.splits if_splits)

subsection \<open>One request at a time\<close>

definition solo :: "httplib \<Rightarrow> httplib" where
  "solo H = H\<lparr>others := (\<lambda>_ x. x)\<rparr>"

text \<open>The same shared state but for the counters of the two limiters.\<close>

definition same_config :: "API \<Rightarrow> API \<Rightarrow> bool" where
  "same_config a b \<longleftrightarrow>
     b\<lparr>apRequestLimiter := apRequestLimiter a, apFailedAuthLimiter := apFailedAuthLimiter a\<rparr> = a"

lemma same_config_refl [simp]: "same_config a a"
  by (simp add: same_config_def)

lemma same_configD:
  assumes "same_config a b"
  shows "apStore b = apStore a" "apAuth b = apAuth a" "apBackupDir b = apBackupDir a" "apMaxBody b = apMaxBody a"
    "apSnapshotRetention b = apSnapshotRetention a" "apSnapshotMinFreeBytes b = apSnapshotMinFreeBytes a"
    "apMinimumRoot b = apMinimumRoot a" "apCatalog b = apCatalog a"
  using assms unfolding same_config_def by (metis API.surjective API.update_convs(9,10) API.select_convs(1-8))+

lemma same_config_iff:
  "same_config a b \<longleftrightarrow> apStore b = apStore a \<and> apAuth b = apAuth a \<and> apBackupDir b = apBackupDir a
     \<and> apMaxBody b = apMaxBody a \<and> apSnapshotRetention b = apSnapshotRetention a
     \<and> apSnapshotMinFreeBytes b = apSnapshotMinFreeBytes a \<and> apMinimumRoot b = apMinimumRoot a
     \<and> apCatalog b = apCatalog a"
  by (cases a; cases b) (auto simp: same_config_def)

lemma same_config_trans: "same_config a b \<Longrightarrow> same_config b c \<Longrightarrow> same_config a c"
  by (simp add: same_config_iff)

definition reads_api :: "(API \<Rightarrow> ('a \<times> API) io) \<Rightarrow> bool" where
  "reads_api f \<longleftrightarrow> (\<forall>a w. case f a w of (r, w') \<Rightarrow>
     at_start w w' \<and> same_config a (case r of Inl _ \<Rightarrow> a | Inr (_, a') \<Rightarrow> a'))"

lemma reads_api_onStore: "(\<And>s. reads (m s)) \<Longrightarrow> reads_api (onStore m)"
  unfolding reads_api_def onStore_def
proof (intro allI)
  fix a :: API and w assume m: "\<And>s. reads (m s)"
  obtain r w1 where r: "m (apStore a) w = (r, w1)" by fastforce
  then have "at_start w w1" using reads_run [OF m] by blast
  then show "case io_bind (m (apStore a)) (\<lambda>x. io_ret (x, a)) w of (r, w') \<Rightarrow>
      at_start w w' \<and> same_config a (case r of Inl _ \<Rightarrow> a | Inr (_, a') \<Rightarrow> a')"
    using r by (cases r) (simp_all add: io_bind_def io_ret_def)
qed

lemma reads_api_ops:
  "reads_api (requestAllow k)" "reads_api (failedAuthAllow k)" "reads_api minimumRootPresent"
  "reads_api (boundedPayloads H ids root)" "reads_api (verifyAll H)" "reads_api viewCatalog"
proof -
  show "reads_api (requestAllow k)" "reads_api (failedAuthAllow k)"
    by (auto simp: reads_api_def requestAllow_def failedAuthAllow_def same_config_iff at_start_def split: prod.splits)
  have os: "case onStore m a w of (r, w') \<Rightarrow> at_start w w' \<and> same_config a (case r of Inl _ \<Rightarrow> a | Inr (_, a') \<Rightarrow> a')"
    if "\<And>s. reads (m s)" for m :: "Store \<Rightarrow> 'b io" and a :: API and w
    using reads_api_onStore [of m, OF that] unfolding reads_api_def by simp
  show "reads_api minimumRootPresent"
    unfolding reads_api_def using os [of "\<lambda>s. ContainsRoot s root" for root] reads_store(3)
    by (auto simp: minimumRootPresent_def io_ret_def at_start_def)
  show "reads_api (boundedPayloads H ids root)"
    unfolding reads_api_def boundedPayloads_def using os [OF reads_payloads] by simp
  show "reads_api (verifyAll H)"
    using VerifyAll_reads by (auto simp: reads_api_def verifyAll_def split: prod.splits)
  show "reads_api viewCatalog"
    by (auto simp: reads_api_def viewCatalog_def onCatalog_def io_fail_def io_bind_def io_ret_def at_start_def same_config_iff
        split: option.split)
qed

lemma call_solo:
  "call (solo H) f bad ok c = (case f (cnAPI c) (cnWorld c) of (r, w') \<Rightarrow>
     (let c2 = c\<lparr>cnAPI := (case r of Inl _ \<Rightarrow> cnAPI c | Inr (_, a') \<Rightarrow> a'), cnWorld := w', cnCalls := cnCalls c + 1\<rparr> in
      case r of Inl (Panic m) \<Rightarrow> c2\<lparr>cnPanic := True\<rparr> | Inl e \<Rightarrow> bad e c2 | Inr (x, _) \<Rightarrow> ok x c2))"
  unfolding call_def solo_def by (simp split: prod.split)

lemma solo_fields [simp]:
  "hGo (solo H) = hGo H" "hAuth (solo H) = hAuth H" "hCat (solo H) = hCat H" "hSnap (solo H) = hSnap H"
  "parseMediaType (solo H) = parseMediaType H" "dec_append (solo H) = dec_append H" "dec_batch (solo H) = dec_batch H"
  "dec_ref (solo H) = dec_ref H" "dec_entry_body (solo H) = dec_entry_body H" "dec_empty (solo H) = dec_empty H"
  "json_request (solo H) = json_request H" "json_bytes (solo H) = json_bytes H" "statfs (solo H) = statfs H"
  "solo (solo H) = solo H"
  by (simp_all add: solo_def)

subsection \<open>What a request asks for\<close>

definition bodyOf :: "httplib \<Rightarrow> 'b decoder \<Rightarrow> API \<Rightarrow> Request \<Rightarrow> 'b option" where
  "bodyOf H dec a r = (case decodeJSON dec (dec_empty H) (apMaxBody a) (rqBody r) of Inl _ \<Rightarrow> None | Inr q \<Rightarrow> Some q)"

text \<open>The append of the request is one that the credential and the catalog allow.\<close>

definition may_append :: "httplib \<Rightarrow> API \<Rightarrow> Request \<Rightarrow> Principal \<Rightarrow> appendRequest \<Rightarrow> bool" where
  "may_append H a r p q \<longleftrightarrow> bodyOf H (dec_append H) a r = Some q
     \<and> authorizeAppend (prAllow p) (arType q) (arCommand q) = Inr ()
     \<and> (case apCatalog a of None \<Rightarrow> True | Some cat \<Rightarrow> catalogAuthorize cat (arType q) (arCommand q) = Inr ())"

text \<open>The configured minimum root is in the history.\<close>

definition root_kept :: "API \<Rightarrow> bool" where
  "root_kept a \<longleftrightarrow> apMinimumRoot a = [] \<or> historyIndex (apStore a) (trimSpace (apMinimumRoot a)) \<noteq> None"

definition idempotencyKey :: "Request \<Rightarrow> string" where
  "idempotencyKey r = trimSpace (headerGet r ''Idempotency-Key'')"

subsection \<open>Following a request\<close>

text \<open>
  A client of the handlers wants to know that some relation \<open>R\<close> of shared state and world, true
  of \<open>a\<close> and \<open>w\<close>, survives a request. It has to survive reads; what the operations that change
  something do to it is asked where they are called, with what the handler has checked before.
\<close>

locale request_walk =
  fixes H :: httplib and a :: API and w :: world and R :: "API \<Rightarrow> world \<Rightarrow> bool"
  assumes others: "others H n x = x"
    and start: "R a w"
    and stable: "R b v \<Longrightarrow> at_start v v' \<Longrightarrow> same_config b b' \<Longrightarrow> R b' v'"
begin

definition reach :: "conn \<Rightarrow> bool" where
  "reach c \<longleftrightarrow> R (cnAPI c) (cnWorld c)"

text \<open>Nothing has changed yet.\<close>

definition on_way :: "conn \<Rightarrow> bool" where
  "on_way c \<longleftrightarrow> at_start w (cnWorld c) \<and> same_config a (cnAPI c)"

lemma on_way_reach: "on_way c \<Longrightarrow> reach c"
  using stable [OF start] by (simp add: on_way_def reach_def)

lemma reach_onW [simp]: "reach (onW f c) \<longleftrightarrow> reach c"
  by (simp add: reach_def onW_def)

lemma on_way_onW [simp]: "on_way (onW f c) \<longleftrightarrow> on_way c"
  by (simp add: on_way_def onW_def)

lemma reach_writes [simp]:
  "reach (setHeader k hv c) \<longleftrightarrow> reach c" "reach (writeJSON st v c) \<longleftrightarrow> reach c" "reach (writeRawJSON st x c) \<longleftrightarrow> reach c"
  "reach (writeError st k m c) \<longleftrightarrow> reach c" "reach (plainError st t c) \<longleftrightarrow> reach c"
  by (simp_all add: writeJSON_def writeRawJSON_def writeError_def plainError_def writeBody_def WriteHeader_def setHeader_def)

lemma reach_errors [simp]:
  "reach (writeAPIError e c) \<longleftrightarrow> reach c" "reach (writeDecodeError e c) \<longleftrightarrow> reach c" "reach (writeMediaTypeError c) \<longleftrightarrow> reach c"
  "reach (writeRootAbsent c) \<longleftrightarrow> reach c" "reach (writeCapacityError c) \<longleftrightarrow> reach c" "reach (notReady m c) \<longleftrightarrow> reach c"
  "reach (writeRateLimit c) \<longleftrightarrow> reach c"
  by (simp_all add: writeAPIError_def writeDecodeError_def writeMediaTypeError_def writeRootAbsent_def writeCapacityError_def
      notReady_def writeRateLimit_def split: option.split)

lemma reach_audits [simp]:
  "reach (setRequestAudit o1 o2 o3 o4 c) \<longleftrightarrow> reach c" "reach (setAppendAudit t k c) \<longleftrightarrow> reach c"
  "reach (setRefAudit nm c) \<longleftrightarrow> reach c" "reach (setPayloadReadAudit out root ids c) \<longleftrightarrow> reach c"
  "reach (addPayloadRead c) \<longleftrightarrow> reach c" "reach (setRequestPrincipal i ro c) \<longleftrightarrow> reach c"
  by (simp_all add: setRequestAudit_def setAppendAudit_def setRefAudit_def setPayloadReadAudit_def addPayloadRead_def
      setRequestPrincipal_def)

lemma on_way_audits [simp]:
  "on_way (setRequestAudit o1 o2 o3 o4 c) \<longleftrightarrow> on_way c" "on_way (setAppendAudit t k c) \<longleftrightarrow> on_way c"
  "on_way (setRefAudit nm c) \<longleftrightarrow> on_way c" "on_way (setPayloadReadAudit out root ids c) \<longleftrightarrow> on_way c"
  "on_way (setRequestPrincipal i ro c) \<longleftrightarrow> on_way c"
  by (simp_all add: setRequestAudit_def setAppendAudit_def setRefAudit_def setPayloadReadAudit_def setRequestPrincipal_def)

lemma reach_measured: "reach c \<Longrightarrow> reach (writeMeasured H root ids v c)"
  by (simp add: writeMeasured_def split: option.split)

lemma reach_finish: "reach c \<Longrightarrow> reach (finishEvents H wp page m ids c)"
proof -
  have "reach ((addPayloadRead ^^ n) c) \<longleftrightarrow> reach c" for n by (induction n) simp_all
  then show "reach c \<Longrightarrow> reach (finishEvents H wp page m ids c)"
    by (simp add: finishEvents_def Let_def reach_measured)
qed

text \<open>A call.\<close>

lemma call_alone:
  "call H f bad ok c = (case f (cnAPI c) (cnWorld c) of (r, w') \<Rightarrow>
     (let c2 = c\<lparr>cnAPI := (case r of Inl _ \<Rightarrow> cnAPI c | Inr (_, a') \<Rightarrow> a'), cnWorld := w', cnCalls := cnCalls c + 1\<rparr> in
      case r of Inl (Panic m) \<Rightarrow> c2\<lparr>cnPanic := True\<rparr> | Inl e \<Rightarrow> bad e c2 | Inr (x, _) \<Rightarrow> ok x c2))"
  unfolding call_def by (simp add: others split: prod.split)

lemma call_cases:
  assumes "f (cnAPI c) (cnWorld c) = (r, w')"
    and "c2 = c\<lparr>cnAPI := (case r of Inl _ \<Rightarrow> cnAPI c | Inr (_, a') \<Rightarrow> a'), cnWorld := w', cnCalls := cnCalls c + 1\<rparr>"
  obtains m where "r = Inl (Panic m)" "call H f bad ok c = c2\<lparr>cnPanic := True\<rparr>"
  | e where "r = Inl e" "call H f bad ok c = bad e c2"
  | x a' where "r = Inr (x, a')" "call H f bad ok c = ok x c2"
proof (cases r)
  case (Inl e)
  then show ?thesis using that(1,2) unfolding call_alone assms(1)
    by (cases e) (auto simp: assms(2) Let_def)
next
  case (Inr p)
  then show ?thesis using that(3) unfolding call_alone assms(1) by (cases p) (simp add: assms(2))
qed

lemma reach_call:
  assumes R: "\<And>r w'. f (cnAPI c) (cnWorld c) = (r, w') \<Longrightarrow> R (case r of Inl _ \<Rightarrow> cnAPI c | Inr (_, a') \<Rightarrow> a') w'"
    and "\<And>e c. reach c \<Longrightarrow> reach (bad e c)" "\<And>x c. reach c \<Longrightarrow> reach (ok x c)"
  shows "reach (call H f bad ok c)"
proof -
  obtain r w' where r: "f (cnAPI c) (cnWorld c) = (r, w')" by fastforce
  define c2 where "c2 = c\<lparr>cnAPI := (case r of Inl _ \<Rightarrow> cnAPI c | Inr (_, a') \<Rightarrow> a'), cnWorld := w', cnCalls := cnCalls c + 1\<rparr>"
  have c2: "reach c2" "reach (c2\<lparr>cnPanic := True\<rparr>)" using R [OF r] by (simp_all add: reach_def c2_def)
  show ?thesis
    by (rule call_cases [where f = f and c = c and bad = bad and ok = ok, OF r c2_def]) (simp_all add: c2 assms(2,3))
qed

lemma walk_call:
  assumes "reads_api f" "on_way c"
    and "\<And>e c. on_way c \<Longrightarrow> reach (bad e c)"
    and "\<And>x b v b' v' c. same_config a b \<Longrightarrow> f b v = (Inr (x, b'), v') \<Longrightarrow> on_way c \<Longrightarrow> reach (ok x c)"
  shows "reach (call H f bad ok c)"
proof -
  obtain r w' where r: "f (cnAPI c) (cnWorld c) = (r, w')" by fastforce
  define c2 where "c2 = c\<lparr>cnAPI := (case r of Inl _ \<Rightarrow> cnAPI c | Inr (_, a') \<Rightarrow> a'), cnWorld := w', cnCalls := cnCalls c + 1\<rparr>"
  have s: "at_start (cnWorld c) w'" "same_config (cnAPI c) (case r of Inl _ \<Rightarrow> cnAPI c | Inr (_, a') \<Rightarrow> a')"
    using assms(1) r unfolding reads_api_def by (auto dest!: spec [of _ "cnAPI c"] spec [of _ "cnWorld c"])
  have c2: "on_way c2"
    using assms(2) at_start_trans [OF _ s(1)] same_config_trans [OF _ s(2)] by (simp add: on_way_def c2_def)
  have p: "reach (c2\<lparr>cnPanic := True\<rparr>)" using on_way_reach [OF c2] by (simp add: reach_def)
  have b: "same_config a (cnAPI c)" using assms(2) by (simp add: on_way_def)
  show ?thesis
  proof (rule call_cases [where f = f and c = c and bad = bad and ok = ok, OF r c2_def])
    fix x a' assume "r = Inr (x, a')" "call H f bad ok c = ok x c2"
    then show ?thesis using assms(4) [OF b _ c2, of "cnWorld c"] r by simp
  qed (simp_all add: p assms(3) [OF c2])
qed

text \<open>A read after the change.\<close>

lemma reach_read:
  assumes "reads_api f" "reach c" "\<And>e c. reach c \<Longrightarrow> reach (bad e c)" "\<And>x c. reach c \<Longrightarrow> reach (ok x c)"
  shows "reach (call H f bad ok c)"
proof (rule reach_call [OF _ assms(3,4)])
  fix r w' assume r: "f (cnAPI c) (cnWorld c) = (r, w')"
  have "at_start (cnWorld c) w'" "same_config (cnAPI c) (case r of Inl _ \<Rightarrow> cnAPI c | Inr (_, a') \<Rightarrow> a')"
    using assms(1) r unfolding reads_api_def by (auto dest!: spec [of _ "cnAPI c"] spec [of _ "cnWorld c"])
  then show "R (case r of Inl _ \<Rightarrow> cnAPI c | Inr (_, a') \<Rightarrow> a') w'"
    using stable assms(2) by (simp add: reach_def)
qed

lemmas walk_store = walk_call [OF reads_api_onStore]

text \<open>Handlers that read.\<close>

lemma walk_live: "on_way c \<Longrightarrow> reach (live r c)"
  by (simp add: live_def on_way_reach)

lemma walk_ready: "on_way c \<Longrightarrow> reach (ready H r c)"
  unfolding ready_def
  by (rule walk_store walk_call io_reads reads_api_ops | assumption | simp add: on_way_reach)+

lemma walk_root: "on_way c \<Longrightarrow> reach (rootHandler H r c)"
  unfolding rootHandler_def by (rule walk_store io_reads | assumption | simp add: on_way_reach)+

lemma walk_getRef: "on_way c \<Longrightarrow> reach (getNamedRef H r c)"
  unfolding getNamedRef_def by (rule walk_store io_reads | assumption | simp add: on_way_reach)+

lemma walk_checkRoot: "on_way c \<Longrightarrow> reach (checkRootHandler H r c)"
  unfolding checkRootHandler_def Let_def
  by (rule walk_store io_reads | assumption | simp add: on_way_reach)+

lemma walk_verify: "on_way c \<Longrightarrow> reach (verifyHandler H r c)"
  unfolding verifyHandler_def
  by (rule walk_call reads_api_ops | assumption | simp add: on_way_reach split: prod.split option.split)+

lemma walk_getCatalog: "on_way c \<Longrightarrow> reach (getCatalog H r c)"
  by (cases "apCatalog (cnAPI c)"; simp add: getCatalog_def catalogConfigured_def on_way_reach)
    (rule walk_call reads_api_ops | assumption | simp add: on_way_reach)+

lemma walk_events:
  assumes "on_way c" shows "reach (eventsHandler H r c)"
proof -
  have f: "reach (finishEvents H wp page m ids c)" if "on_way c" for wp page m ids c
    using reach_finish on_way_reach [OF that] .
  have g: "reach (finishEvents H wp page m ids (setPayloadReadAudit o1 o2 o3 c))" if "on_way c" for wp page m ids o1 o2 o3 c
    using f that by simp
  have p: "reach (call H (boundedPayloads H ids root) writeAPIError (\<lambda>payloads. finishEvents H wp page (payloadMap payloads) ids) c)"
    if "on_way c" for ids root wp page c
    by (rule walk_call [OF reads_api_ops(4) that]) (simp_all add: on_way_reach f)
  show ?thesis
  proof (cases "eventsLimit r")
    case None
    then show ?thesis using assms by (simp add: eventsHandler_def on_way_reach)
  next
    case (Some l)
    show ?thesis
      unfolding eventsHandler_def Some option.case Let_def
      by (rule walk_store [OF reads_store(5) assms]) (simp_all add: on_way_reach f g p)
  qed
qed

lemma walk_payloads:
  assumes "on_way c" shows "reach (eventPayloadsHandler H r c)"
proof -
  have m: "reach (writeMeasured H root ids v c)" if "on_way c" for root ids v c
    using reach_measured on_way_reach [OF that] .
  have p: "reach (call H (boundedPayloads H ids root) writeAPIError (\<lambda>payloads. writeMeasured H root2 ids2 (v payloads)) c)"
    if "on_way c" for ids root ids2 root2 v c
    by (rule walk_call [OF reads_api_ops(4) that]) (simp_all add: on_way_reach m)
  show ?thesis
    using assms p by (simp add: eventPayloadsHandler_def Let_def on_way_reach split: sum.split)
qed

text \<open>Handlers that change something.\<close>

lemma walk_authorize:
  assumes "on_way c"
    and nxt: "\<And>c. authorizeAppend (prAllow p) ty cm = Inr ()
      \<Longrightarrow> (case apCatalog a of None \<Rightarrow> True | Some cat \<Rightarrow> catalogAuthorize cat ty cm = Inr ()) \<Longrightarrow> on_way c \<Longrightarrow> reach (nxt c)"
  shows "reach (apiAuthorizeAppend H p ty cm nxt c)"
proof -
  let ?f = "\<lambda>b. io_lift (case apCatalog b of None \<Rightarrow> Inr ((), b)
      | Some cat \<Rightarrow> bindE (catalogAuthorize cat ty cm) (\<lambda>_. Inr ((), b)))"
  have f: "reads_api ?f"
    by (auto simp: reads_api_def io_lift_def at_start_def bindE_def split: option.split sum.split)
  have ok: "case apCatalog a of None \<Rightarrow> True | Some cat \<Rightarrow> catalogAuthorize cat ty cm = Inr ()"
    if "same_config a b" "?f b v = (Inr (x, b'), v')" for b v x b' v'
    using that by (auto simp: io_lift_def bindE_Inr_iff same_config_iff split: option.splits)
  have c: "on_way (setAppendAudit ty cm c)" "apCatalog (cnAPI (setAppendAudit ty cm c)) = apCatalog a"
    using assms(1) by (simp, simp add: on_way_def setAppendAudit_def onW_def same_config_iff)
  show ?thesis
  proof (cases "authorizeAppend (prAllow p) ty cm")
    case (Inl e)
    then show ?thesis using on_way_reach [OF assms(1)] by (simp add: apiAuthorizeAppend_def Let_def)
  next
    case (Inr u)
    show ?thesis
    proof (cases "apCatalog a")
      case None
      then show ?thesis using nxt c Inr by (simp add: apiAuthorizeAppend_def Let_def)
    next
      case (Some cat)
      have "reach (call H ?f (\<lambda>e. writeError 403 (codeString ErrPermission) (JErr e)) (\<lambda>_. nxt) (setAppendAudit ty cm c))"
        by (rule walk_call [OF f c(1)]) (simp add: on_way_reach, rule nxt, use Inr ok in auto)
      then show ?thesis using Inr c Some by (simp add: apiAuthorizeAppend_def Let_def)
    qed
  qed
qed

lemma walk_append:
  assumes "on_way c"
    and change: "\<And>q canonical b v r' v'. may_append H a r (principalFromContext r) q \<Longrightarrow> json_request H q = Some canonical
      \<Longrightarrow> arExpectedRoot q \<noteq> None \<Longrightarrow> same_config a b \<Longrightarrow> at_start w v
      \<Longrightarrow> storeAppend H (principalFromContext r) q (idempotencyKey r) canonical b v = (r', v')
      \<Longrightarrow> R (case r' of Inl _ \<Rightarrow> b | Inr (_, b') \<Rightarrow> b') v'"
  shows "reach (appendEvent H r c)"
proof -
  have w: "reach c" using on_way_reach [OF assms(1)] .
  have cfg: "apMaxBody (cnAPI c) = apMaxBody a" using assms(1) by (simp add: on_way_def same_config_iff)
  show ?thesis
  proof (cases "decodeJSON (dec_append H) (dec_empty H) (apMaxBody a) (rqBody r)")
    case (Inl e)
    then show ?thesis using w by (simp add: appendEvent_def Let_def cfg)
  next
    case (Inr q)
    have tail: "reach (case json_request H q of
                None \<Rightarrow> writeAPIError json_error c
              | Some canonical \<Rightarrow>
                  call H (storeAppend H (principalFromContext r) q (idempotencyKey r) canonical) writeAPIError (\<lambda>(hash, replayed).
                  call H (onStore CurrentRoot) writeAPIError (\<lambda>currentRoot.
                  writeJSON (if replayed then 200 else 201) (JObj
                    [(''hash'', JStr hash), (''replayed'', JBool replayed), (''root'', JStr currentRoot)]))) c)"
      if c: "on_way c" and ok: "authorizeAppend (prAllow (principalFromContext r)) (arType q) (arCommand q) = Inr ()"
        "case apCatalog a of None \<Rightarrow> True | Some cat \<Rightarrow> catalogAuthorize cat (arType q) (arCommand q) = Inr ()"
        "arExpectedRoot q \<noteq> None" for c
    proof (cases "json_request H q")
      case None
      then show ?thesis using on_way_reach [OF c] by simp
    next
      case (Some canonical)
      have m: "may_append H a r (principalFromContext r) q"
        using ok Inr by (simp add: may_append_def bodyOf_def)
      have read: "reach (call H (onStore CurrentRoot) writeAPIError (\<lambda>x. writeJSON st (v x)) c)" if "reach c" for st v c
        by (rule reach_read [OF reads_api_onStore [OF reads_store(1)] that]) simp_all
      show ?thesis unfolding Some option.case
      proof (rule reach_call)
        fix r' w' assume run: "storeAppend H (principalFromContext r) q (idempotencyKey r) canonical (cnAPI c) (cnWorld c) = (r', w')"
        show "R (case r' of Inl _ \<Rightarrow> cnAPI c | Inr (_, b') \<Rightarrow> b') w'"
          by (rule change [OF m Some ok(3) _ _ run]) (use c in \<open>simp_all add: on_way_def reach_def\<close>)
      next
        fix x c assume "reach c"
        then show "reach ((case x of (hash, replayed) \<Rightarrow> call H (onStore CurrentRoot) writeAPIError (\<lambda>currentRoot.
            writeJSON (if replayed then 200 else 201) (JObj
                    [(''hash'', JStr hash), (''replayed'', JBool replayed), (''root'', JStr currentRoot)]))) c)"
          using read by (cases x) simp
      qed simp
    qed
    show ?thesis
      unfolding appendEvent_def Let_def cfg Inr sum.case idempotencyKey_def [symmetric]
      using w assms(1) walk_authorize [OF assms(1) tail] by simp
  qed
qed

lemma walk_putRef:
  assumes "on_way c"
    and change: "\<And>q expected b v r' v'. authorizeRef (prAllow (principalFromContext r)) (rqPathValue r) = Inr ()
      \<Longrightarrow> bodyOf H (dec_ref H) a r = Some q \<Longrightarrow> rfExpectedRoot q = Some expected \<Longrightarrow> same_config a b \<Longrightarrow> at_start w v
      \<Longrightarrow> WriteNamedRefAt (hGo H) (apStore b) (rqPathValue r) (rfRoot q) expected v = (r', v') \<Longrightarrow> R b v'"
  shows "reach (putNamedRef H r c)"
proof -
  have w: "reach c" using on_way_reach [OF assms(1)] .
  define c1 where "c1 = setRefAudit (rqPathValue r) c"
  have c1: "on_way c1" "reach c1" "apMaxBody (cnAPI c1) = apMaxBody a"
    using assms(1) w by (simp_all add: c1_def) (simp add: on_way_def setRefAudit_def onW_def same_config_iff)
  have go: "reach (call H (onStore (\<lambda>s. WriteNamedRefAt (hGo H) s (rqPathValue r) (rfRoot q) expected)) writeAPIError
      (\<lambda>_. writeJSON 200 v) c1)"
    if ok: "authorizeRef (prAllow (principalFromContext r)) (rqPathValue r) = Inr ()"
      "bodyOf H (dec_ref H) a r = Some q" "rfExpectedRoot q = Some expected" for q expected v
  proof (rule reach_call)
    fix r' w' assume run: "onStore (\<lambda>s. WriteNamedRefAt (hGo H) s (rqPathValue r) (rfRoot q) expected) (cnAPI c1) (cnWorld c1) = (r', w')"
    obtain x where x: "WriteNamedRefAt (hGo H) (apStore (cnAPI c1)) (rqPathValue r) (rfRoot q) expected (cnWorld c1) = (x, w')"
      "(case r' of Inl _ \<Rightarrow> cnAPI c1 | Inr (_, b') \<Rightarrow> b') = cnAPI c1"
      using run by (auto simp: onStore_def io_bind_def io_ret_def split: prod.splits sum.splits)
    show "R (case r' of Inl _ \<Rightarrow> cnAPI c1 | Inr (_, b') \<Rightarrow> b') w'"
      unfolding x(2) by (rule change [OF ok _ _ x(1)]) (use c1 in \<open>simp_all add: on_way_def reach_def\<close>)
  qed simp_all
  show ?thesis
    unfolding putNamedRef_def Let_def c1_def [symmetric] c1(3)
    using c1(2) by (auto split: sum.split option.split intro!: go simp: bodyOf_def)
qed

lemma walk_install:
  assumes "on_way c"
    and change: "\<And>q b v r' v'. bodyOf H (dec_entry_body H) a r = Some q \<Longrightarrow> same_config a b \<Longrightarrow> at_start w v
      \<Longrightarrow> installCatalog H q b v = (r', v') \<Longrightarrow> R (case r' of Inl _ \<Rightarrow> b | Inr (_, b') \<Rightarrow> b') v'"
  shows "reach (installCatalogEntry H r c)"
proof -
  have w: "reach c" using on_way_reach [OF assms(1)] .
  have cfg: "apMaxBody (cnAPI c) = apMaxBody a" using assms(1) by (simp add: on_way_def same_config_iff)
  have go: "reach (call H (installCatalog H q) (\<lambda>e. writeError 400 (codeString ErrValidation) (JErr e))
             (\<lambda>(entry, changed) c.
               writeJSON (if changed then 201 else 200)
                 (JObj [(''enforced'', JBool True), (''entry'', entryJSON entry)])
                 (setRequestAudit ''catalog_install'' ''installed'' [] 0 c)) c)"
    if "bodyOf H (dec_entry_body H) a r = Some q" for q
  proof (rule reach_call)
    fix r' w' assume run: "installCatalog H q (cnAPI c) (cnWorld c) = (r', w')"
    show "R (case r' of Inl _ \<Rightarrow> cnAPI c | Inr (_, b') \<Rightarrow> b') w'"
      by (rule change [OF that _ _ run]) (use assms(1) in \<open>simp_all add: on_way_def reach_def\<close>)
  qed (simp_all split: prod.split)
  show ?thesis
    unfolding installCatalogEntry_def catalogConfigured_def cfg
    using w go by (auto simp: bodyOf_def split: sum.splits)
qed

lemma walk_remove:
  assumes "on_way c"
    and change: "\<And>b v r' v'. same_config a b \<Longrightarrow> at_start w v \<Longrightarrow> removeCatalog H (trimSpace (rqPathValue r)) b v = (r', v')
      \<Longrightarrow> R (case r' of Inl _ \<Rightarrow> b | Inr (_, b') \<Rightarrow> b') v'"
  shows "reach (removeCatalogEntry H r c)"
proof -
  have v: "reach (call H viewCatalog writeAPIError (\<lambda>d. writeJSON 200 (f d)) c)" if "reach c" for f c
    by (rule reach_read [OF reads_api_ops(6) that]) simp_all
  have "reach (call H (removeCatalog H (trimSpace (rqPathValue r))) bad
       (\<lambda>_ c. call H viewCatalog writeAPIError (\<lambda>d. writeJSON 200 (f d)) (setRequestAudit o1 o2 o3 o4 c)) c)"
    if "\<And>e c. reach c \<Longrightarrow> reach (bad e c)" for bad f o1 o2 o3 o4
  proof (rule reach_call)
    fix r' w' assume run: "removeCatalog H (trimSpace (rqPathValue r)) (cnAPI c) (cnWorld c) = (r', w')"
    show "R (case r' of Inl _ \<Rightarrow> cnAPI c | Inr (_, b') \<Rightarrow> b') w'"
      by (rule change [OF _ _ run]) (use assms(1) in \<open>simp_all add: on_way_def reach_def\<close>)
  qed (simp_all add: that v)
  then show ?thesis
    unfolding removeCatalogEntry_def catalogConfigured_def Let_def using on_way_reach [OF assms(1)] by simp
qed

lemma walk_snapshot:
  assumes "on_way c"
    and mk: "\<And>b w r' w'. R b w \<Longrightarrow> mkdirAll (toPath (apBackupDir a)) w = (r', w') \<Longrightarrow> R b w'"
    and cr: "\<And>b w r' w'. R b w \<Longrightarrow> CreateSnapshot (hGo H) (hSnap H) (apStore b) (apBackupDir a) w = (r', w') \<Longrightarrow> R b w'"
    and pr: "\<And>b w k r' w'. R b w \<Longrightarrow> pruneSnapshots (apBackupDir a) k w = (r', w') \<Longrightarrow> R b w'"
  shows "reach (snapshotHandler H r c)"
proof -
  have st: "reach (call H (onStore m) bad ok c)"
    if "\<And>b w r' w'. R b w \<Longrightarrow> m (apStore b) w = (r', w') \<Longrightarrow> R b w'" "reach c"
      "\<And>e c. reach c \<Longrightarrow> reach (bad e c)" "\<And>x c. reach c \<Longrightarrow> reach (ok x c)" for m :: "Store \<Rightarrow> 'z io" and bad ok c
  proof (rule reach_call)
    fix r' w' assume run: "onStore m (cnAPI c) (cnWorld c) = (r', w')"
    obtain x where x: "m (apStore (cnAPI c)) (cnWorld c) = (x, w')"
      "(case r' of Inl _ \<Rightarrow> cnAPI c | Inr (_, b') \<Rightarrow> b') = cnAPI c"
      using run by (auto simp: onStore_def io_bind_def io_ret_def split: prod.splits sum.splits)
    show "R (case r' of Inl _ \<Rightarrow> cnAPI c | Inr (_, b') \<Rightarrow> b') w'"
      unfolding x(2) by (rule that(1) [OF _ x(1)]) (use that(2) in \<open>simp add: reach_def\<close>)
  qed (use that in simp_all)
  have rd: "R b w \<Longrightarrow> m w = (r', w') \<Longrightarrow> R b w'" if "reads m" for m :: "'z io" and b w r' w'
    using stable [OF _ reads_run [OF that]] same_config_refl by blast
  have sp: "reads (diskAvailableBytes H p)" for p
    unfolding diskAvailableBytes_def by (rule reads_syscall) (simp split: prod.split)
  have se: "reads (SnapshotSizeEstimate s)" for s
    unfolding SnapshotSizeEstimate_def sizeVisit_def by (intro io_reads)
  have fin: "reach (snapshotCreated info c) \<longleftrightarrow> reach c" "reach (logPruneError info e c) \<longleftrightarrow> reach c" for info e c
    by (simp add: snapshotCreated_def) (simp add: logPruneError_def reach_def)
  have dir: "apBackupDir (cnAPI (setRequestAudit o1 o2 o3 o4 c)) = apBackupDir a" for o1 o2 o3 o4
    using assms(1) by (simp add: on_way_def setRequestAudit_def onW_def same_config_iff)
  show ?thesis
    unfolding snapshotHandler_def Let_def dir
    apply (simp add: on_way_reach [OF assms(1)])
    apply (intro impI)
    apply (rule st [OF mk]; (simp add: on_way_reach [OF assms(1)])?)
    apply (rule st [OF rd [OF se]]; simp?)
    apply (rule st [OF rd [OF sp]]; simp?)
    apply (intro impI)
    apply (rule st [OF cr]; simp?)
    apply (rule st [OF pr]; simp add: fin)
    done
qed

text \<open>The way to the handlers.\<close>

lemma walk_deny: "on_way c \<Longrightarrow> reach (denyUnauthenticated H c)"
  unfolding denyUnauthenticated_def by (rule walk_call [OF reads_api_ops(2)]) (auto dest: on_way_reach)

lemma walk_require:
  assumes "on_way c"
    and "\<And>p c'. callerOf H (cnAPI c) (cnWorld c) r = Some p \<Longrightarrow> roleSatisfies (prRole p) m \<Longrightarrow> on_way c'
      \<Longrightarrow> reach (nxt (r\<lparr>rqPrincipal := Some p\<rparr>) c')"
  shows "reach (require H m nxt r c)"
proof (cases "callerOf H (cnAPI c) (cnWorld c) r")
  case None
  then show ?thesis unfolding require_callerOf using walk_deny [OF assms(1)] by simp
next
  case (Some p)
  show ?thesis
    unfolding require_callerOf Some option.case
    by (rule walk_call [OF reads_api_ops(1)]) (use assms(1) assms(2) [OF Some] in \<open>simp_all add: on_way_reach\<close>)
qed

lemma walk_mutation:
  assumes "on_way c"
    and "\<And>p c'. callerOf H (cnAPI c) (cnWorld c) r = Some p \<Longrightarrow> roleSatisfies (prRole p) m \<Longrightarrow> root_kept a \<Longrightarrow> on_way c'
      \<Longrightarrow> reach (nxt (r\<lparr>rqPrincipal := Some p\<rparr>) c')"
  shows "reach (requireMutation H m nxt r c)"
  unfolding requireMutation_def
proof (rule walk_require [OF assms(1)])
  fix p c' assume p: "callerOf H (cnAPI c) (cnWorld c) r = Some p" "roleSatisfies (prRole p) m" "on_way c'"
  have kept: "root_kept a" if "same_config a b" "minimumRootPresent b v = (Inr (True, b'), v')" for b v b' v'
    using that by (auto simp: minimumRootPresent_def root_kept_def onStore_Inr ContainsRoot_def Let_def same_config_iff io_iffs
        io_ret_def split: if_splits)
  show "reach (call H minimumRootPresent (\<lambda>_. writeRootAbsent)
           (\<lambda>contains c. if \<not> contains then writeRootAbsent c else nxt (r\<lparr>rqPrincipal := Some p\<rparr>) c) c')"
    by (rule walk_call [OF reads_api_ops(3) p(3)])
      (use assms(2) [OF p(1,2)] kept in \<open>auto simp: on_way_reach\<close>)
qed

lemma walk_serve:
  assumes ap: "\<And>p x q canonical b v r' v'. findRoute routes r = Some (EpAppend, x) \<Longrightarrow> callerOf H a w r = Some p
      \<Longrightarrow> roleSatisfies (prRole p) RoleWriter \<Longrightarrow> root_kept a \<Longrightarrow> may_append H a r p q
      \<Longrightarrow> json_request H q = Some canonical \<Longrightarrow> arExpectedRoot q \<noteq> None \<Longrightarrow> same_config a b \<Longrightarrow> at_start w v
      \<Longrightarrow> storeAppend H p q (idempotencyKey r) canonical b v = (r', v') \<Longrightarrow> R (case r' of Inl _ \<Rightarrow> b | Inr (_, b') \<Rightarrow> b') v'"
    and rf: "\<And>p x q expected b v r' v'. findRoute routes r = Some (EpPutRef, x) \<Longrightarrow> callerOf H a w r = Some p
      \<Longrightarrow> roleSatisfies (prRole p) RoleWriter \<Longrightarrow> root_kept a \<Longrightarrow> authorizeRef (prAllow p) x = Inr ()
      \<Longrightarrow> bodyOf H (dec_ref H) a r = Some q \<Longrightarrow> rfExpectedRoot q = Some expected \<Longrightarrow> same_config a b \<Longrightarrow> at_start w v
      \<Longrightarrow> WriteNamedRefAt (hGo H) (apStore b) x (rfRoot q) expected v = (r', v') \<Longrightarrow> R b v'"
    and cat: "\<And>p x q b v r' v'. findRoute routes r = Some (EpInstallEntry, x) \<Longrightarrow> callerOf H a w r = Some p
      \<Longrightarrow> roleSatisfies (prRole p) RoleOperator \<Longrightarrow> bodyOf H (dec_entry_body H) a r = Some q \<Longrightarrow> same_config a b \<Longrightarrow> at_start w v
      \<Longrightarrow> installCatalog H q b v = (r', v') \<Longrightarrow> R (case r' of Inl _ \<Rightarrow> b | Inr (_, b') \<Rightarrow> b') v'"
    and rm: "\<And>p x b v r' v'. findRoute routes r = Some (EpRemoveEntry, x) \<Longrightarrow> callerOf H a w r = Some p
      \<Longrightarrow> roleSatisfies (prRole p) RoleOperator \<Longrightarrow> same_config a b \<Longrightarrow> at_start w v
      \<Longrightarrow> removeCatalog H (trimSpace x) b v = (r', v') \<Longrightarrow> R (case r' of Inl _ \<Rightarrow> b | Inr (_, b') \<Rightarrow> b') v'"
    and sn: "\<And>p x b v r' v'. findRoute routes r = Some (EpSnapshot, x) \<Longrightarrow> callerOf H a w r = Some p
      \<Longrightarrow> roleSatisfies (prRole p) RoleAdmin \<Longrightarrow> R b v
      \<Longrightarrow> mkdirAll (toPath (apBackupDir a)) v = (r', v') \<or>
          (\<exists>i. CreateSnapshot (hGo H) (hSnap H) (apStore b) (apBackupDir a) v = (i, v')) \<or>
          (\<exists>k. pruneSnapshots (apBackupDir a) k v = (r', v')) \<Longrightarrow> R b v'"
  shows "R (cnAPI (serveHTTP H r a w)) (cnWorld (serveHTTP H r a w))"
proof -
  define c where "c = begun a w"
  have c: "cnAPI c = a" "cnWorld c = w" by (simp_all add: c_def)
  have way: "on_way c" by (simp add: on_way_def at_start_def c)
  have same: "callerOf H (cnAPI c) (cnWorld c) (r\<lparr>rqPathValue := x\<rparr>) = callerOf H a w r"
    "may_append H a (r\<lparr>rqPathValue := x, rqPrincipal := Some p\<rparr>) p' q = may_append H a r p' q"
    "idempotencyKey (r\<lparr>rqPathValue := x, rqPrincipal := Some p\<rparr>) = idempotencyKey r"
    "principalFromContext (r\<lparr>rqPathValue := x, rqPrincipal := Some p\<rparr>) = p"
    for x p p' q
    by (simp_all add: c callerOf_def bearer_def headerGet_def may_append_def bodyOf_def idempotencyKey_def principalFromContext_def)
  have body: "bodyOf H dec a (r\<lparr>rqPathValue := x, rqPrincipal := Some p\<rparr>) = bodyOf H dec a r" for dec :: "'z decoder" and x p
    by (simp add: bodyOf_def)
  have ep: "reach (serveEndpoint H e (r\<lparr>rqPathValue := x\<rparr>) c)" if fr: "findRoute routes r = Some (e, x)" for e x
  proof (cases e)
    case EpAppend
    show ?thesis unfolding EpAppend serveEndpoint_def Endpoint.case
      apply (rule walk_mutation [OF way], unfold same)
      apply (rule walk_append, assumption, unfold same)
      by (rule ap [OF fr [unfolded EpAppend]])
  next
    case EpPutRef
    show ?thesis unfolding EpPutRef serveEndpoint_def Endpoint.case
      apply (rule walk_mutation [OF way], unfold same)
      apply (rule walk_putRef, assumption, unfold same body)
      apply simp
      by (rule rf [OF fr [unfolded EpPutRef]])
  next
    case EpInstallEntry
    show ?thesis unfolding EpInstallEntry serveEndpoint_def Endpoint.case
      apply (rule walk_require [OF way], unfold same)
      apply (rule walk_install, assumption, unfold same body)
      by (rule cat [OF fr [unfolded EpInstallEntry]])
  next
    case EpRemoveEntry
    show ?thesis unfolding EpRemoveEntry serveEndpoint_def Endpoint.case
      apply (rule walk_require [OF way], unfold same)
      apply (rule walk_remove, assumption, simp)
      by (rule rm [OF fr [unfolded EpRemoveEntry]])
  next
    case EpSnapshot
    show ?thesis unfolding EpSnapshot serveEndpoint_def Endpoint.case
      apply (rule walk_require [OF way], unfold same)
      apply (rule walk_snapshot, assumption)
      by (rule sn [OF fr [unfolded EpSnapshot]]; blast)+
  qed (simp_all add: serveEndpoint_def walk_live [OF way] walk_ready [OF way] walk_require [OF way] walk_root walk_events
      walk_payloads walk_getRef walk_verify walk_checkRoot walk_getCatalog)
  have "reach (serveMux H r c)"
    unfolding serveMux_def using ep on_way_reach [OF way] by (auto split: option.split)
  then show ?thesis
    by (simp add: serveHTTP_eq Let_def c_def reach_def)
qed

end

end
