(* ===== verification/HttpAuthority.thy ===== *)
theory HttpAuthority
  imports HttpWalk
begin

text \<open>
  Which requests may change the store, the catalog or other files: three interpretations of
  \<open>request_walk\<close> with relations that say that nothing changed.
\<close>

subsection \<open>Following what must not change\<close>

lemma callerOf_solo [simp]: "callerOf (solo H) a w r = callerOf H a w r"
  unfolding callerOf_def solo_fields by (rule refl)

lemma bodyOf_solo [simp]: "bodyOf (solo H) dec a r = bodyOf H dec a r"
  by (simp add: bodyOf_def)

lemma may_append_solo [simp]: "may_append (solo H) a r p q = may_append H a r p q"
  by (simp add: may_append_def)

interpretation untouched_walk: request_walk "solo H" a w "\<lambda>b v. (at_start w v \<and> same_config a b) \<or> G" for H a w G
  by unfold_locales (auto simp: solo_def at_start_def dest: same_config_trans)

interpretation same_store_walk: request_walk "solo H" a w "\<lambda>b v. apStore b = apStore a \<or> G" for H a w G
  by unfold_locales (auto simp: solo_def same_config_iff)

interpretation same_catalog_walk: request_walk "solo H" a w "\<lambda>b v. apCatalog b = apCatalog a \<or> G" for H a w G
  by unfold_locales (auto simp: solo_def same_config_iff)

lemma storeAppend_result:
  assumes "storeAppend H p q k cn b v = (r', v')"
  shows "apCatalog (case r' of Inl _ \<Rightarrow> b | Inr (_, b') \<Rightarrow> b') = apCatalog b"
  using assms by (auto simp: storeAppend_def io_bind_def io_ret_def split: prod.splits sum.splits)

lemma catalog_ops_store:
  "installCatalog H q b v = (r', v') \<Longrightarrow> apStore (case r' of Inl _ \<Rightarrow> b | Inr (_, b') \<Rightarrow> b') = apStore b"
  "removeCatalog H t b v = (u, v') \<Longrightarrow> apStore (case u of Inl _ \<Rightarrow> b | Inr (_, b') \<Rightarrow> b') = apStore b"
  by (auto simp: installCatalog_def removeCatalog_def onCatalog_def io_bind_def io_ret_def io_fail_def
      split: prod.splits sum.splits option.splits)

text \<open>
  The caller of a request may change the store, the catalog or other files.
\<close>

definition append_authority :: "httplib \<Rightarrow> API \<Rightarrow> world \<Rightarrow> Request \<Rightarrow> bool" where
  "append_authority H a w r \<longleftrightarrow> (\<exists>x p q. findRoute routes r = Some (EpAppend, x) \<and> callerOf H a w r = Some p
     \<and> roleSatisfies (prRole p) RoleWriter \<and> root_kept a \<and> may_append H a r p q)"

definition ref_authority :: "httplib \<Rightarrow> API \<Rightarrow> world \<Rightarrow> Request \<Rightarrow> bool" where
  "ref_authority H a w r \<longleftrightarrow> (\<exists>x p. findRoute routes r = Some (EpPutRef, x) \<and> callerOf H a w r = Some p
     \<and> roleSatisfies (prRole p) RoleWriter \<and> root_kept a \<and> authorizeRef (prAllow p) x = Inr ())"

definition catalog_authority :: "httplib \<Rightarrow> API \<Rightarrow> world \<Rightarrow> Request \<Rightarrow> bool" where
  "catalog_authority H a w r \<longleftrightarrow> (\<exists>ep x p. findRoute routes r = Some (ep, x) \<and> ep \<in> {EpInstallEntry, EpRemoveEntry}
     \<and> callerOf H a w r = Some p \<and> roleSatisfies (prRole p) RoleOperator)"

definition snapshot_authority :: "httplib \<Rightarrow> API \<Rightarrow> world \<Rightarrow> Request \<Rightarrow> bool" where
  "snapshot_authority H a w r \<longleftrightarrow> (\<exists>x p. findRoute routes r = Some (EpSnapshot, x) \<and> callerOf H a w r = Some p
     \<and> roleSatisfies (prRole p) RoleAdmin)"

lemma untouched_or_authority:
  fixes H r a w
  defines "c \<equiv> serveHTTP (solo H) r a w"
  shows "(at_start w (cnWorld c) \<and> same_config a (cnAPI c))
     \<or> append_authority H a w r \<or> ref_authority H a w r \<or> catalog_authority H a w r \<or> snapshot_authority H a w r"
  unfolding c_def
  by (rule untouched_walk.walk_serve)
    (auto simp: append_authority_def ref_authority_def catalog_authority_def snapshot_authority_def)

lemma store_or_authority:
  "apStore (cnAPI (serveHTTP (solo H) r a w)) = apStore a \<or> append_authority H a w r"
  by (rule same_store_walk.walk_serve) (auto simp: append_authority_def same_config_iff dest: catalog_ops_store)

lemma catalog_or_authority:
  "apCatalog (cnAPI (serveHTTP (solo H) r a w)) = apCatalog a \<or> catalog_authority H a w r"
  by (rule same_catalog_walk.walk_serve) (auto simp: catalog_authority_def same_config_iff dest: storeAppend_result)

end
