(* ===== verification/HttpRefine.thy ===== *)
theory HttpRefine
  imports HttpAuthority RequestProperties
begin

text \<open>
  Requests and the store underneath: what append is behind a success (\<open>append_behind\<close>), and
  that a request served alone is a run of steps of the store (a fourth interpretation of
  \<open>request_walk\<close>), so that what holds of all runs of the store holds of the server.
\<close>

subsection \<open>The append behind a response\<close>

definition contextOf :: "Principal \<Rightarrow> Context" where
  "contextOf p = \<lparr>ctxActor = prID p, ctxRole = roleString (prRole p)\<rparr>"

definition requestKey :: "httplib \<Rightarrow> Principal \<Rightarrow> Request \<Rightarrow> string" where
  "requestKey H p r = requestIDOf (hGo H) (prID p) (idempotencyKey r)"

lemma storeAppend_cases:
  assumes "storeAppend H p q (idempotencyKey r) cn b v = (r', v')" "arExpectedRoot q = Some er"
  obtains e where "r' = Inl e" "AppendIdempotent (hGo H) (apStore b) (contextOf p) (appendOptionsOf q) er (requestKey H p r)
      (requestHashOf (hGo H) cn) v = (Inl e, v')"
  | h rep s where "r' = Inr ((h, rep), b\<lparr>apStore := s\<rparr>)" "AppendIdempotent (hGo H) (apStore b) (contextOf p) (appendOptionsOf q) er
      (requestKey H p r) (requestHashOf (hGo H) cn) v = (Inr (h, rep, s), v')"
  using assms that unfolding storeAppend_def contextOf_def requestKey_def io_bind_def io_ret_def
  by (auto split: prod.splits sum.splits)

text \<open>A response with one of the two statuses of success.\<close>

definition success :: "conn \<Rightarrow> bool" where
  "success c \<longleftrightarrow> wStatusLine (cnW c) \<in> {Some 200, Some 201}"

definition blank :: "conn \<Rightarrow> bool" where
  "blank c \<longleftrightarrow> wStatusLine (cnW c) = None"

lemma success_writes [simp]:
  "blank c \<Longrightarrow> success (writeJSON st v c) \<longleftrightarrow> st \<in> {200, 201}"
  "blank c \<Longrightarrow> success (writeError st k m c) \<longleftrightarrow> st \<in> {200, 201}"
  by (auto simp: success_def blank_def writeError_def writeJSON_def writing)

lemma statusOf_error [simp]: "statusOf k \<noteq> 200" "statusOf k \<noteq> 201"
  by (simp_all add: statusOf_def split: ErrorCode.split)

lemma blank_steps [simp]:
  "blank (setAppendAudit t k c) \<longleftrightarrow> blank c" "blank (setRequestPrincipal i ro c) \<longleftrightarrow> blank c" "blank (setHeader hk hv c) \<longleftrightarrow> blank c"
  "blank (c\<lparr>cnAPI := a, cnWorld := w, cnCalls := n\<rparr>) \<longleftrightarrow> blank c" "blank (begun a w)"
  "blank (c\<lparr>cnWorld := w, cnCalls := n\<rparr>) \<longleftrightarrow> blank c" "blank (c\<lparr>cnAPI := a\<rparr>) \<longleftrightarrow> blank c"
  by (simp_all add: blank_def setAppendAudit_def setRequestPrincipal_def setHeader_def onW_def)

lemma success_errors [simp]:
  assumes "blank c"
  shows "\<not> success (writeAPIError e c)" "\<not> success (writeDecodeError e c)" "\<not> success (writeMediaTypeError c)"
    "\<not> success (writeRootAbsent c)" "\<not> success (writeRateLimit c)"
  using assms by (auto simp: writeAPIError_def writeDecodeError_def writeMediaTypeError_def writeRootAbsent_def
      writeRateLimit_def split: option.split)

lemma success_call:
  assumes "success (call (solo H) f bad ok c)" "blank c" "\<And>e c. blank c \<Longrightarrow> \<not> success (bad e c)"
  obtains x a' w' where "f (cnAPI c) (cnWorld c) = (Inr (x, a'), w')"
    "call (solo H) f bad ok c = ok x (c\<lparr>cnAPI := a', cnWorld := w', cnCalls := cnCalls c + 1\<rparr>)"
proof -
  obtain r w' where r: "f (cnAPI c) (cnWorld c) = (r, w')" by fastforce
  show thesis
  proof (cases r)
    case (Inl e)
    have b: "\<not> success (c\<lparr>cnWorld := w', cnCalls := n, cnPanic := True\<rparr>)" for n
      using assms(2) by (simp add: success_def blank_def)
    have "\<not> success (bad e (c\<lparr>cnAPI := cnAPI c, cnWorld := w', cnCalls := cnCalls c + 1\<rparr>))" for e
      using assms(2,3) by simp
    then show ?thesis
      using assms(1) r Inl b by (auto simp: call_solo Let_def split: go_error.splits)
  next
    case (Inr p)
    then show ?thesis using that r by (cases p) (simp add: call_solo)
  qed
qed

lemma reads_api_run:
  assumes "reads_api f" "f b v = (Inr (x, b'), v')" shows "at_start v v' \<and> same_config b b'"
  using assms unfolding reads_api_def by (auto dest!: spec [of _ b] spec [of _ v])

lemma success_authorize:
  assumes "success (apiAuthorizeAppend (solo H) p ty cm nxt c)" "blank c"
  obtains c' where "apiAuthorizeAppend (solo H) p ty cm nxt c = nxt c'" "blank c'" "at_start (cnWorld c) (cnWorld c')"
    "same_config (cnAPI c) (cnAPI c')" "authorizeAppend (prAllow p) ty cm = Inr ()"
    "case apCatalog (cnAPI c) of None \<Rightarrow> True | Some cat \<Rightarrow> catalogAuthorize cat ty cm = Inr ()"
proof -
  have sc: "cnAPI (setAppendAudit ty cm c) = cnAPI c" "cnWorld (setAppendAudit ty cm c) = cnWorld c"
    by (simp_all add: setAppendAudit_def onW_def)
  obtain u where u: "authorizeAppend (prAllow p) ty cm = Inr u"
    using assms by (cases "authorizeAppend (prAllow p) ty cm") (simp_all add: apiAuthorizeAppend_def Let_def)
  show thesis
  proof (cases "apCatalog (cnAPI c)")
    case None
    then show ?thesis using that [of "setAppendAudit ty cm c"] u assms(2) sc
      by (simp add: apiAuthorizeAppend_def Let_def at_start_def)
  next
    case (Some cat)
    let ?f = "\<lambda>b. io_lift (case apCatalog b of None \<Rightarrow> Inr ((), b)
        | Some cat \<Rightarrow> bindE (catalogAuthorize cat ty cm) (\<lambda>_. Inr ((), b)))"
    let ?bad = "\<lambda>e. writeError 403 (codeString ErrPermission) (JErr e)"
    have e: "apiAuthorizeAppend (solo H) p ty cm nxt c = call (solo H) ?f ?bad (\<lambda>_. nxt) (setAppendAudit ty cm c)"
      using u Some sc by (simp add: apiAuthorizeAppend_def Let_def)
    have s: "success (call (solo H) ?f ?bad (\<lambda>_. nxt) (setAppendAudit ty cm c))" using assms(1) e by simp
    show ?thesis
    proof (rule success_call [OF s])
      fix x a' w'
      assume r: "?f (cnAPI (setAppendAudit ty cm c)) (cnWorld (setAppendAudit ty cm c)) = (Inr (x, a'), w')"
        "call (solo H) ?f ?bad (\<lambda>_. nxt) (setAppendAudit ty cm c)
          = nxt ((setAppendAudit ty cm c)\<lparr>cnAPI := a', cnWorld := w', cnCalls := cnCalls (setAppendAudit ty cm c) + 1\<rparr>)"
      have ok: "w' = cnWorld c" "a' = cnAPI c" "catalogAuthorize cat ty cm = Inr ()"
        using r(1) Some sc by (auto simp: io_lift_def bindE_Inr_iff)
      show ?thesis
        by (rule that [OF e [unfolded r(2)]]) (use ok u Some assms(2) in \<open>simp_all add: at_start_def blank_def setAppendAudit_def onW_def\<close>)
    qed (use assms(2) in simp_all)
  qed
qed

text \<open>
  What is behind a success of \<^verbatim>\<open>POST /v1/events\<close>: one idempotent append in the name of the
  caller, allowed by its capability and the catalog.
\<close>

definition append_behind :: "httplib \<Rightarrow> API \<Rightarrow> world \<Rightarrow> Request \<Rightarrow> conn \<Rightarrow> Principal \<Rightarrow> appendRequest \<Rightarrow> bytes
    \<Rightarrow> string \<Rightarrow> world \<Rightarrow> world \<Rightarrow> string \<Rightarrow> bool \<Rightarrow> bool" where
  "append_behind H a w r c p q canonical er v v' hash replayed \<longleftrightarrow>
     may_append H a r p q \<and> json_request H q = Some canonical \<and> arExpectedRoot q = Some er \<and> at_start w v
     \<and> AppendIdempotent (hGo H) (apStore a) (contextOf p) (appendOptionsOf q) er (requestKey H p r)
         (requestHashOf (hGo H) canonical) v = (Inr (hash, replayed, apStore (cnAPI c)), v')
     \<and> at_start v' (cnWorld c) \<and> wStatusLine (cnW c) = Some (if replayed then 200 else 201)
     \<and> (\<exists>root. wBody (cnW c) = JSONBody (JObj [(''hash'', JStr hash), (''replayed'', JBool replayed), (''root'', JStr root)]))"

lemma success_append:
  assumes s: "success (appendEvent (solo H) r c)" and b: "blank c"
    and way: "at_start w (cnWorld c)" "same_config a (cnAPI c)"
  shows "\<exists>q canonical er v v' hash replayed. append_behind H a w r (appendEvent (solo H) r c) (principalFromContext r) q canonical er v v' hash replayed"
proof -
  let ?p = "principalFromContext r"
  have cfg: "apMaxBody (cnAPI c) = apMaxBody a" "apCatalog (cnAPI c) = apCatalog a" using way(2) by (simp_all add: same_config_iff)
  obtain q where q: "decodeJSON (dec_append H) (dec_empty H) (apMaxBody a) (rqBody r) = Inr q"
    using s b by (cases "decodeJSON (dec_append H) (dec_empty H) (apMaxBody a) (rqBody r)")
      (auto simp: appendEvent_def Let_def cfg split: if_splits)
  let ?ans = "\<lambda>hash replayed currentRoot. writeJSON (if replayed then 200 else 201) (JObj
                    [(''hash'', JStr hash), (''replayed'', JBool replayed), (''root'', JStr currentRoot)])"
  let ?tail = "\<lambda>canonical. call (solo H) (storeAppend (solo H) ?p q (idempotencyKey r) canonical) writeAPIError (\<lambda>(hash, replayed).
                  call (solo H) (onStore CurrentRoot) writeAPIError (?ans hash replayed))"
  let ?nxt = "\<lambda>c. case json_request H q of None \<Rightarrow> writeAPIError json_error c | Some canonical \<Rightarrow> ?tail canonical c"
  obtain er where er: "arExpectedRoot q = Some er"
    and e: "appendEvent (solo H) r c = apiAuthorizeAppend (solo H) ?p (arType q) (arCommand q) ?nxt c"
    using s b q unfolding appendEvent_def Let_def idempotencyKey_def [symmetric] solo_fields cfg by (auto split: if_splits)
  obtain c' where c': "apiAuthorizeAppend (solo H) ?p (arType q) (arCommand q) ?nxt c = ?nxt c'" "blank c'"
      "at_start (cnWorld c) (cnWorld c')" "same_config (cnAPI c) (cnAPI c')"
    and ok: "authorizeAppend (prAllow ?p) (arType q) (arCommand q) = Inr ()"
      "case apCatalog a of None \<Rightarrow> True | Some cat \<Rightarrow> catalogAuthorize cat (arType q) (arCommand q) = Inr ()"
    using success_authorize [OF s [unfolded e] b] unfolding cfg by blast
  have may: "may_append H a r ?p q" using q ok by (simp add: may_append_def bodyOf_def)
  have st: "apStore (cnAPI c') = apStore a" "at_start w (cnWorld c')"
    using way(2) c'(3,4) at_start_trans [OF way(1)] by (simp_all add: same_config_iff)
  have s': "success (?nxt c')" using s e c'(1) by simp
  obtain canonical where j: "json_request H q = Some canonical" using s' c'(2) by (cases "json_request H q") simp_all
  have eq: "appendEvent (solo H) r c = ?tail canonical c'" using e c'(1) j by simp
  have s2: "success (?tail canonical c')" using s eq by simp
  show ?thesis
  proof (rule success_call [OF s2 c'(2)])
    fix x a1 v'
    assume r1: "storeAppend (solo H) ?p q (idempotencyKey r) canonical (cnAPI c') (cnWorld c') = (Inr (x, a1), v')"
    assume "?tail canonical c' = (case x of (hash, replayed) \<Rightarrow>
        call (solo H) (onStore CurrentRoot) writeAPIError (?ans hash replayed))
        (c'\<lparr>cnAPI := a1, cnWorld := v', cnCalls := cnCalls c' + 1\<rparr>)"
    moreover obtain hash replayed s where x: "x = (hash, replayed)" "a1 = (cnAPI c')\<lparr>apStore := s\<rparr>"
      "AppendIdempotent (hGo H) (apStore a) (contextOf ?p) (appendOptionsOf q) er (requestKey H ?p r)
         (requestHashOf (hGo H) canonical) (cnWorld c') = (Inr (hash, replayed, s), v')"
      by (rule storeAppend_cases [OF r1 er]) (auto simp: st requestKey_def)
    ultimately have t: "?tail canonical c' = call (solo H) (onStore CurrentRoot) writeAPIError (?ans hash replayed)
        (c'\<lparr>cnAPI := a1, cnWorld := v', cnCalls := cnCalls c' + 1\<rparr>)" by simp
    define d where "d = c'\<lparr>cnAPI := a1, cnWorld := v', cnCalls := cnCalls c' + 1\<rparr>"
    have d: "blank d" "cnAPI d = a1" "cnWorld d = v'" using c'(2) by (simp_all add: d_def blank_def)
    have s3: "success (call (solo H) (onStore CurrentRoot) writeAPIError (?ans hash replayed) d)" using s2 t d_def by simp
    show ?thesis
    proof (rule success_call [OF s3 d(1)])
      fix root a2 w2
      assume r2: "onStore CurrentRoot (cnAPI d) (cnWorld d) = (Inr (root, a2), w2)"
        and t2: "call (solo H) (onStore CurrentRoot) writeAPIError (?ans hash replayed) d
          = ?ans hash replayed root (d\<lparr>cnAPI := a2, cnWorld := w2, cnCalls := cnCalls d + 1\<rparr>)"
      have f: "at_start v' w2" "a2 = a1"
        using reads_api_run [OF reads_api_onStore [OF reads_store(1)] r2] r2 d by (simp_all add: onStore_Inr)
      have final: "appendEvent (solo H) r c = ?ans hash replayed root (d\<lparr>cnAPI := a2, cnWorld := w2, cnCalls := cnCalls d + 1\<rparr>)"
        using eq t t2 d_def by simp
      have "append_behind H a w r (appendEvent (solo H) r c) ?p q canonical er (cnWorld c') v' hash replayed"
        unfolding append_behind_def final
        using may j er st(2) x f d(1) by (auto simp: writeJSON_def writing blank_def)
      then show ?thesis by blast
    qed simp_all
  qed simp_all
qed

lemma success_require:
  assumes "success (require (solo H) m nxt r c)" "blank c"
  obtains p c' where "callerOf H (cnAPI c) (cnWorld c) r = Some p" "roleSatisfies (prRole p) m"
    "require (solo H) m nxt r c = nxt (r\<lparr>rqPrincipal := Some p\<rparr>) c'" "blank c'" "at_start (cnWorld c) (cnWorld c')"
    "same_config (cnAPI c) (cnAPI c')"
proof (cases "callerOf H (cnAPI c) (cnWorld c) r")
  case None
  let ?g = "\<lambda>ok c. if \<not> ok then writeRateLimit c
      else writeError 401 (codeString ErrPermission) (JStr ''valid bearer token required'')
              (setHeader ''Www-Authenticate'' ''Bearer realm=\"jaybase\"'' c)"
  have s: "success (call (solo H) (failedAuthAllow ''failed-auth'') writeAPIError ?g (setRequestPrincipal ''unauthenticated'' [] c))"
    using assms(1) unfolding require_callerOf callerOf_solo None option.case denyUnauthenticated_def .
  have False
  proof (rule success_call [OF s])
    fix x a' w'
    let ?c = "setRequestPrincipal ''unauthenticated'' [] c"
    let ?d = "?c\<lparr>cnAPI := a', cnWorld := w', cnCalls := cnCalls ?c + 1\<rparr>"
    assume t: "call (solo H) (failedAuthAllow ''failed-auth'') writeAPIError ?g ?c = ?g x ?d"
    have b: "blank ?d" using assms(2) by simp
    have "\<not> success (?g x d)" if "blank d" for d using that by simp
    then have "\<not> success (?g x ?d)" using b by blast
    then show False using s unfolding t by (rule notE)
  qed (use assms(2) in simp_all)
  then show ?thesis ..
next
  case (Some p)
  define c1 where "c1 = setRequestPrincipal (prID p) (roleString (prRole p)) c"
  have c1: "blank c1" "cnAPI c1 = cnAPI c" "cnWorld c1 = cnWorld c"
    using assms(2) by (simp_all add: c1_def) (simp_all add: setRequestPrincipal_def onW_def)
  let ?g = "\<lambda>allowed c. if \<not> allowed then writeRateLimit c
          else if \<not> roleSatisfies (prRole p) m
          then writeError 403 (codeString ErrPermission)
                 (JStr ''credential does not have permission for this operation'') c
          else nxt (r\<lparr>rqPrincipal := Some p\<rparr>) c"
  have e: "require (solo H) m nxt r c = call (solo H) (requestAllow (prID p)) writeAPIError ?g c1"
    unfolding require_callerOf callerOf_solo Some option.case c1_def ..
  have s: "success (call (solo H) (requestAllow (prID p)) writeAPIError ?g c1)" using assms(1) e by simp
  show ?thesis
  proof (rule success_call [OF s c1(1)])
    fix x a' w' assume r: "requestAllow (prID p) (cnAPI c1) (cnWorld c1) = (Inr (x, a'), w')"
      and t: "call (solo H) (requestAllow (prID p)) writeAPIError ?g c1
        = ?g x (c1\<lparr>cnAPI := a', cnWorld := w', cnCalls := cnCalls c1 + 1\<rparr>)"
    let ?c = "c1\<lparr>cnAPI := a', cnWorld := w', cnCalls := cnCalls c1 + 1\<rparr>"
    have b: "blank ?c" using c1(1) by simp
    have x: x "roleSatisfies (prRole p) m" using s t b by (auto split: if_splits)
    have "require (solo H) m nxt r c = nxt (r\<lparr>rqPrincipal := Some p\<rparr>) ?c" using e t x by simp
    moreover have "at_start (cnWorld c) w'" "same_config (cnAPI c) a'"
      using reads_api_run [OF reads_api_ops(1) r] c1 by simp_all
    ultimately show ?thesis using that [OF Some x(2) _ b] by simp
  qed simp_all
qed

lemma success_mutation:
  assumes "success (requireMutation (solo H) m nxt r c)" "blank c"
  obtains p c' where "callerOf H (cnAPI c) (cnWorld c) r = Some p" "roleSatisfies (prRole p) m"
    "requireMutation (solo H) m nxt r c = nxt (r\<lparr>rqPrincipal := Some p\<rparr>) c'" "blank c'" "at_start (cnWorld c) (cnWorld c')"
    "same_config (cnAPI c) (cnAPI c')"
proof (rule success_require [OF assms(1) [unfolded requireMutation_def] assms(2)])
  fix p c'
  let ?r = "r\<lparr>rqPrincipal := Some p\<rparr>"
  let ?g = "\<lambda>contains c. if \<not> contains then writeRootAbsent c else nxt ?r c"
  assume p: "callerOf H (cnAPI c) (cnWorld c) r = Some p" "roleSatisfies (prRole p) m"
    and e: "require (solo H) m (\<lambda>r. call (solo H) minimumRootPresent (\<lambda>_. writeRootAbsent)
        (\<lambda>contains c. if \<not> contains then writeRootAbsent c else nxt r c)) r c
      = call (solo H) minimumRootPresent (\<lambda>_. writeRootAbsent) ?g c'"
    and c': "blank c'" "at_start (cnWorld c) (cnWorld c')" "same_config (cnAPI c) (cnAPI c')"
  have s: "success (call (solo H) minimumRootPresent (\<lambda>_. writeRootAbsent) ?g c')"
    using assms(1) e by (simp add: requireMutation_def)
  show ?thesis
  proof (rule success_call [OF s c'(1)])
    fix x a2 w2 assume r: "minimumRootPresent (cnAPI c') (cnWorld c') = (Inr (x, a2), w2)"
      and t: "call (solo H) minimumRootPresent (\<lambda>_. writeRootAbsent) ?g c'
        = ?g x (c'\<lparr>cnAPI := a2, cnWorld := w2, cnCalls := cnCalls c' + 1\<rparr>)"
    let ?c = "c'\<lparr>cnAPI := a2, cnWorld := w2, cnCalls := cnCalls c' + 1\<rparr>"
    have b: "blank ?c" using c'(1) by simp
    have x: x using s t b by (auto split: if_splits)
    have "requireMutation (solo H) m nxt r c = nxt ?r ?c" using e t x by (simp add: requireMutation_def)
    then show ?thesis
      using that [OF p _ b] reads_api_run [OF reads_api_ops(3) r] at_start_trans [OF c'(2)] same_config_trans [OF c'(3)] by simp
  qed simp_all
qed

lemma appended_request:
  assumes route: "findRoute routes r = Some (EpAppend, x)" and s: "success (serveHTTP (solo H) r a w)"
  obtains p q canonical er v v' hash replayed where "callerOf H a w r = Some p" "roleSatisfies (prRole p) RoleWriter"
    "append_behind H a w r (serveHTTP (solo H) r a w) p q canonical er v v' hash replayed"
proof -
  let ?r = "r\<lparr>rqPathValue := x\<rparr>" and ?d = "serveMux (solo H) r (begun a w)"
  have mux: "?d = requireMutation (solo H) RoleWriter (appendEvent (solo H)) ?r (begun a w)"
    using route by (simp add: serveMux_def serveEndpoint_def)
  have same: "cnW (serveHTTP (solo H) r a w) = cnW ?d" "cnAPI (serveHTTP (solo H) r a w) = cnAPI ?d"
    "cnWorld (serveHTTP (solo H) r a w) = cnWorld ?d" by (simp_all add: serveHTTP_eq Let_def)
  have sd: "success (requireMutation (solo H) RoleWriter (appendEvent (solo H)) ?r (begun a w))"
    using s mux same(1) by (simp add: success_def)
  show thesis
  proof (rule success_mutation [OF sd])
    fix p c' assume p: "callerOf H (cnAPI (begun a w)) (cnWorld (begun a w)) ?r = Some p" "roleSatisfies (prRole p) RoleWriter"
      and e: "requireMutation (solo H) RoleWriter (appendEvent (solo H)) ?r (begun a w) = appendEvent (solo H) (?r\<lparr>rqPrincipal := Some p\<rparr>) c'"
      and c': "blank c'" "at_start (cnWorld (begun a w)) (cnWorld c')" "same_config (cnAPI (begun a w)) (cnAPI c')"
    let ?rp = "?r\<lparr>rqPrincipal := Some p\<rparr>"
    have sa: "success (appendEvent (solo H) ?rp c')" using sd e by simp
    have w0: "at_start w (cnWorld c')" "same_config a (cnAPI c')" using c'(2,3) by simp_all
    have pf: "principalFromContext ?rp = p" by (simp add: principalFromContext_def)
    have mb: "may_append H a ?rp p q = may_append H a r p q" "requestKey H p ?rp = requestKey H p r" for q
      by (simp_all add: may_append_def bodyOf_def requestKey_def idempotencyKey_def headerGet_def)
    obtain q canonical er v v' hash replayed where
      "append_behind H a w ?rp (appendEvent (solo H) ?rp c') p q canonical er v v' hash replayed"
      using success_append [OF sa c'(1) w0] unfolding pf by blast
    then have "append_behind H a w r (serveHTTP (solo H) r a w) p q canonical er v v' hash replayed"
      by (simp add: append_behind_def mb same mux e)
    moreover have "callerOf H a w r = Some p" using p(1) by (simp add: callerOf_def bearer_def headerGet_def)
    ultimately show thesis using that p(2) by blast
  qed simp
qed

subsection \<open>A request is a run of the store\<close>

lemma steps_read: "store_steps L dir x y \<Longrightarrow> at_start (sworld y) v \<Longrightarrow> store_steps L dir x (y\<lparr>sworld := v\<rparr>)"
  by (rule store_steps.more, assumption, rule store_step.read)

lemma steps_trans: "store_steps L dir y z \<Longrightarrow> store_steps L dir x y \<Longrightarrow> store_steps L dir x z"
  by (induction rule: store_steps.induct) (auto intro: store_steps.more)

definition at_state :: "sys \<Rightarrow> API \<Rightarrow> world \<Rightarrow> bool" where
  "at_state x a w \<longleftrightarrow> smem x = Some (apStore a) \<and> sworld x = w"

interpretation store_walk: request_walk "solo H" a w
    "\<lambda>b v. at_state x a w \<longrightarrow> (\<exists>y. store_steps (hGo H) dir x y \<and> at_state y b v)" for H a w dir x
proof unfold_locales
  fix b v v' b'
  assume R: "at_state x a w \<longrightarrow> (\<exists>y. store_steps (hGo H) dir x y \<and> at_state y b v)"
    and s: "at_start v v'" "same_config b b'"
  show "at_state x a w \<longrightarrow> (\<exists>y. store_steps (hGo H) dir x y \<and> at_state y b' v')"
  proof
    assume "at_state x a w"
    then obtain y where y: "store_steps (hGo H) dir x y" "at_state y b v" using R by blast
    then have "store_steps (hGo H) dir x (y\<lparr>sworld := v'\<rparr>)" "at_state (y\<lparr>sworld := v'\<rparr>) b' v'"
      using steps_read [OF y(1)] s by (simp_all add: at_state_def same_config_iff)
    then show "\<exists>y. store_steps (hGo H) dir x y \<and> at_state y b' v'" by blast
  qed
qed (auto simp: solo_def intro: store_steps.none)

text \<open>
  What a request has to satisfy: texts are UTF-8, the address of the event is not taken by another
  file, and a ref has not the name of a temporary file. Snapshots and changes of the catalog write
  other files and are left out.
\<close>

definition append_args :: "httplib \<Rightarrow> Principal \<Rightarrow> Request \<Rightarrow> appendRequest \<Rightarrow> bytes \<Rightarrow> AppendOptions" where
  "append_args H p r q canonical =
     with_request (appendOptionsOf q) (requestKey H p r) (requestHashOf (hGo H) canonical)"

definition good_request :: "httplib \<Rightarrow> API \<Rightarrow> world \<Rightarrow> Request \<Rightarrow> bool" where
  "good_request H a w r \<longleftrightarrow>
     (\<forall>p q canonical er v. callerOf H a w r = Some p \<and> may_append H a r p q \<and> json_request H q = Some canonical
        \<and> arExpectedRoot q = Some er \<and> at_start w v \<longrightarrow>
          clean_request (contextOf p) (append_args H p r q canonical)
          \<and> fresh_address (hGo H) (apStore a) (contextOf p) (append_args H p r q canonical) (Some er) v)
     \<and> (\<forall>ep i. findRoute routes r = Some (ep, i) \<longrightarrow>
          ep \<notin> {EpSnapshot, EpInstallEntry, EpRemoveEntry} \<and> (ep = EpPutRef \<longrightarrow> plain_name i))"

lemma request_steps:
  assumes good: "good_request H a w r" and x: "at_state x a w"
  shows "\<exists>y. store_steps (hGo H) dir x y \<and> at_state y (cnAPI (serveHTTP (solo H) r a w)) (cnWorld (serveHTTP (solo H) r a w))"
proof -
  have rd: "store_steps (hGo H) dir x (x\<lparr>sworld := v\<rparr>)" "smem (x\<lparr>sworld := v\<rparr>) = Some (apStore b)"
    if "at_start w v" "same_config a b" for v b
    using steps_read [OF store_steps.none] that x by (simp_all add: at_state_def same_config_iff)
  have no: "ep \<notin> {EpSnapshot, EpInstallEntry, EpRemoveEntry}" "ep = EpPutRef \<Longrightarrow> plain_name i"
    if "findRoute routes r = Some (ep, i)" for ep i
    using good that unfolding good_request_def by blast+
  have "at_state x a w \<longrightarrow> (\<exists>y. store_steps (hGo H) dir x y
      \<and> at_state y (cnAPI (serveHTTP (solo H) r a w)) (cnWorld (serveHTTP (solo H) r a w)))"
  proof (rule store_walk.walk_serve; unfold solo_fields callerOf_solo may_append_solo bodyOf_solo)
    fix p i q canonical b v r' v'
    assume h: "callerOf H a w r = Some p" "may_append H a r p q" "json_request H q = Some canonical" "arExpectedRoot q \<noteq> None"
        "same_config a b" "at_start w v" "storeAppend (solo H) p q (idempotencyKey r) canonical b v = (r', v')"
    obtain er where er: "arExpectedRoot q = Some er" using h(4) by auto
    have g: "clean_request (contextOf p) (append_args H p r q canonical)"
        "fresh_address (hGo H) (apStore a) (contextOf p) (append_args H p r q canonical) (Some er) v"
      using good h(1-3,6) er unfolding good_request_def by blast+
    have rk: "requestKey (solo H) p r = requestKey H p r" by (simp add: requestKey_def)
    have ab: "apStore b = apStore a" using h(5) by (simp add: same_config_iff)
    note rd = rd [OF h(6,5)]
    let ?x = "x\<lparr>sworld := v\<rparr>"
    have w: "sworld ?x = v" by simp
    note g = g [unfolded append_args_def]
    show "at_state x a w \<longrightarrow> (\<exists>y. store_steps (hGo H) dir x y \<and> at_state y (case r' of Inl _ \<Rightarrow> b | Inr (_, b') \<Rightarrow> b') v')"
    proof (rule storeAppend_cases [OF h(7) er]; unfold solo_fields rk ab)
      fix e assume e: "r' = Inl e" and run: "AppendIdempotent (hGo H) (apStore a) (contextOf p) (appendOptionsOf q) er (requestKey H p r)
          (requestHashOf (hGo H) canonical) v = (Inl e, v')"
      have "store_step (hGo H) dir ?x (?x\<lparr>sworld := v'\<rparr>)"
        by (rule store_step.idem_err [OF rd(2) [unfolded ab] g(1), where er = er]) (simp_all add: g run)
      then have "store_steps (hGo H) dir x (?x\<lparr>sworld := v'\<rparr>)" by (rule store_steps.more [OF rd(1)])
      moreover have "at_state (?x\<lparr>sworld := v'\<rparr>) b v'" using rd(2) by (simp add: at_state_def)
      ultimately show ?thesis using e by auto
    next
      fix hh rep s assume e: "r' = Inr ((hh, rep), b\<lparr>apStore := s\<rparr>)"
        and run: "AppendIdempotent (hGo H) (apStore a) (contextOf p) (appendOptionsOf q) er (requestKey H p r)
          (requestHashOf (hGo H) canonical) v = (Inr (hh, rep, s), v')"
      let ?y = "?x\<lparr>smem := Some s, sworld := v', acked := (if rep then acked ?x else acked ?x @ [hh])\<rparr>"
      have "store_step (hGo H) dir ?x ?y"
        by (rule store_step.idem_ok [OF rd(2) [unfolded ab] g(1), where er = er]) (simp_all add: g run)
      then have "store_steps (hGo H) dir x ?y" by (rule store_steps.more [OF rd(1)])
      moreover have "at_state ?y (b\<lparr>apStore := s\<rparr>) v'" by (simp add: at_state_def)
      ultimately show ?thesis using e by auto
    qed
  next
    fix p i q expected b v r' v'
    assume h: "findRoute routes r = Some (EpPutRef, i)" "same_config a b" "at_start w v"
      "WriteNamedRefAt (hGo H) (apStore b) i (rfRoot q) expected v = (r', v')"
    let ?x = "x\<lparr>sworld := v\<rparr>"
    have "store_step (hGo H) dir ?x (?x\<lparr>sworld := v'\<rparr>)"
      using h(4) by (intro store_step.write_ref_at [OF rd(2) [OF h(3,2)] no(2) [OF h(1) refl]]) simp
    then have "store_steps (hGo H) dir x (?x\<lparr>sworld := v'\<rparr>)" by (rule store_steps.more [OF rd(1) [OF h(3,2)]])
    moreover have "at_state (?x\<lparr>sworld := v'\<rparr>) b v'" using rd(2) [OF h(3,2)] by (simp add: at_state_def)
    ultimately show "at_state x a w \<longrightarrow> (\<exists>y. store_steps (hGo H) dir x y \<and> at_state y b v')" by blast
  qed (use no(1) in auto)
  then show ?thesis using x by blast
qed

lemma appended_steps:
  assumes good: "good_request H a w r" and x: "at_state x a w" and p: "callerOf H a w r = Some p"
    and ap: "append_behind H a w r c p q canonical er v v' h False"
  shows "store_steps (hGo H) dir x (x\<lparr>smem := Some (apStore (cnAPI c)), sworld := cnWorld c, acked := acked x @ [h]\<rparr>)"
proof -
  let ?x = "x\<lparr>sworld := v\<rparr>"
  let ?y = "?x\<lparr>smem := Some (apStore (cnAPI c)), sworld := v', acked := acked ?x @ [h]\<rparr>"
  have a: "at_start w v" "at_start v' (cnWorld c)" "smem ?x = Some (apStore a)"
    using ap x by (simp_all add: append_behind_def at_state_def)
  have g: "clean_request (contextOf p) (append_args H p r q canonical)"
      "fresh_address (hGo H) (apStore a) (contextOf p) (append_args H p r q canonical) (Some er) v"
    using good p ap unfolding good_request_def append_behind_def by blast+
  note g = g [unfolded append_args_def]
  have run: "AppendIdempotent (hGo H) (apStore a) (contextOf p) (appendOptionsOf q) er (requestKey H p r)
      (requestHashOf (hGo H) canonical) v = (Inr (h, False, apStore (cnAPI c)), v')"
    using ap by (simp only: append_behind_def)
  have "store_steps (hGo H) dir x ?x" using steps_read [OF store_steps.none] a(1) x by (simp add: at_state_def)
  moreover have "store_step (hGo H) dir ?x (?x\<lparr>smem := Some (apStore (cnAPI c)), sworld := v',
      acked := (if False then acked ?x else acked ?x @ [h])\<rparr>)"
    by (rule store_step.idem_ok [OF a(3) g(1), where er = er]) (simp_all add: g(2) run)
  ultimately have "store_steps (hGo H) dir x ?y" using store_steps.more by fastforce
  then have "store_steps (hGo H) dir x (?y\<lparr>sworld := cnWorld c\<rparr>)" by (rule steps_read) (simp add: a(2))
  moreover have "?y\<lparr>sworld := cnWorld c\<rparr> = x\<lparr>smem := Some (apStore (cnAPI c)), sworld := cnWorld c, acked := acked x @ [h]\<rparr>"
    by (cases x) simp
  ultimately show ?thesis by (simp only:)
qed

lemma retry_behind:
  assumes ok: "golib_ok (hGo H)" "dir \<noteq> []" and r: "store_reachable (hGo H) dir x" and x: "at_state x a w"
    and good: "good_request H a w r" "callerOf H a w r = Some p"
    and ap: "append_behind H a w r c p q canonical er v v' h False"
    and steps: "store_steps (hGo H) dir (x\<lparr>smem := Some (apStore (cnAPI c)), sworld := cnWorld c, acked := acked x @ [h]\<rparr>) z"
    and z: "smem z = Some t"
  shows "requestIndex t (trimSpace (requestKey H p r)) = Some \<lparr>rrHash = h, rrRequestHash = trimSpace (requestHashOf (hGo H) canonical)\<rparr>"
proof -
  let ?x = "x\<lparr>sworld := v\<rparr>"
  have a: "at_start w v" "at_start v' (cnWorld c)" "smem ?x = Some (apStore a)"
    using ap x by (simp_all add: append_behind_def at_state_def)
  have g: "clean_request (contextOf p) (append_args H p r q canonical)"
      "fresh_address (hGo H) (apStore a) (contextOf p) (append_args H p r q canonical) (Some er) (sworld ?x)"
    using good ap unfolding good_request_def append_behind_def by auto
  note g = g [unfolded append_args_def]
  have run: "AppendIdempotent (hGo H) (apStore a) (contextOf p) (appendOptionsOf q) er (requestKey H p r)
      (requestHashOf (hGo H) canonical) (sworld ?x) = (Inr (h, False, apStore (cnAPI c)), v')"
    using ap by (simp add: append_behind_def)
  have rx: "store_reachable (hGo H) dir ?x"
    by (rule store_reachable.step [OF r store_step.read]) (use a(1) x in \<open>simp add: at_state_def\<close>)
  let ?y = "?x\<lparr>smem := Some (apStore (cnAPI c)), sworld := v', acked := acked ?x @ [h]\<rparr>"
  have "store_steps (hGo H) dir ?y (?y\<lparr>sworld := cnWorld c\<rparr>)"
    by (rule steps_read [OF store_steps.none]) (simp add: a(2))
  moreover have "?y\<lparr>sworld := cnWorld c\<rparr> = x\<lparr>smem := Some (apStore (cnAPI c)), sworld := cnWorld c, acked := acked x @ [h]\<rparr>"
    by (cases x) simp
  ultimately have "store_steps (hGo H) dir ?y z" using steps_trans [OF steps] by (simp only:)
  then show ?thesis using acknowledged_request [OF ok rx a(3) g run _ z] by blast
qed

text \<open>One request, answered, is a run of the store; an answer with 201 is an acknowledged append.\<close>

lemma request_refines:
  assumes "good_request H a w r" "smem x = Some (apStore a)" "sworld x = w"
  shows "\<exists>y. let c = serveHTTP (solo H) r a w in
     store_steps (hGo H) dir x y \<and> smem y = Some (apStore (cnAPI c)) \<and> sworld y = cnWorld c
     \<and> ((\<exists>i. findRoute routes r = Some (EpAppend, i)) \<and> wStatusLine (cnW c) = Some 201 \<longrightarrow>
         (\<exists>h root. wBody (cnW c) = JSONBody (JObj [(''hash'', JStr h), (''replayed'', JBool False), (''root'', JStr root)])
            \<and> acked y = acked x @ [h]))"
proof -
  define c where "c = serveHTTP (solo H) r a w"
  have x: "at_state x a w" using assms(2,3) by (simp add: at_state_def)
  show ?thesis
  proof (cases "(\<exists>i. findRoute routes r = Some (EpAppend, i)) \<and> wStatusLine (cnW c) = Some 201")
    case True
    then obtain i where i: "findRoute routes r = Some (EpAppend, i)" by blast
    have "success (serveHTTP (solo H) r a w)" using True by (simp add: success_def c_def)
    then obtain p q canonical er v v' h rep where p: "callerOf H a w r = Some p"
      and ap: "append_behind H a w r c p q canonical er v v' h rep" using appended_request [OF i] unfolding c_def by metis
    have "\<not> rep" using ap True by (cases rep) (simp_all add: append_behind_def)
    then have ap: "append_behind H a w r c p q canonical er v v' h False" using ap by simp
    define y where "y = x\<lparr>smem := Some (apStore (cnAPI c)), sworld := cnWorld c, acked := acked x @ [h]\<rparr>"
    have "store_steps (hGo H) dir x y" using appended_steps [OF assms(1) x p ap] by (simp only: y_def)
    moreover have "smem y = Some (apStore (cnAPI c))" "sworld y = cnWorld c" "acked y = acked x @ [h]" by (simp_all add: y_def)
    moreover obtain root where "wBody (cnW c) = JSONBody (JObj [(''hash'', JStr h), (''replayed'', JBool False), (''root'', JStr root)])"
      using ap unfolding append_behind_def by blast
    ultimately show ?thesis unfolding c_def [symmetric] Let_def by blast
  next
    case False
    then show ?thesis using request_steps [OF assms(1) x, of dir] unfolding c_def [symmetric] Let_def at_state_def by blast
  qed
qed

lemma step_acked: "store_step L dir x y \<Longrightarrow> \<exists>hs. acked y = acked x @ hs"
  by (cases rule: store_step.cases) auto

lemma steps_acked: "store_steps L dir x y \<Longrightarrow> subseq (acked x) (acked y)"
proof (induction rule: store_steps.induct)
  case (more x y z)
  obtain hs where "acked z = acked y @ hs" using step_acked [OF more.hyps(2)] by blast
  then show ?case using more.IH by (simp add: subseq_order.trans [OF _ list_emb_prefix])
qed simp

end
