(* ===== verification/HttpProgress.thy ===== *)
theory HttpProgress
  imports HttpRefine
begin

text \<open>
  Requests that meet no obstacle: the gates let them through (\<open>require_open\<close>,
  \<open>mutation_open\<close>), and an append in order is answered with what the store says
  (\<open>request_answer\<close>).
\<close>

subsection \<open>Requests that go through\<close>

lemma call_solo_Inr:
  assumes "f (cnAPI c) (cnWorld c) = (Inr (x, a'), w')"
  shows "call (solo H) f bad ok c = ok x (c\<lparr>cnAPI := a', cnWorld := w', cnCalls := cnCalls c + 1\<rparr>)"
  using assms by (simp add: call_solo)

text \<open>The gates are open: a caller with the role, within its rate, and the minimum root in place.\<close>

definition admitted :: "httplib \<Rightarrow> API \<Rightarrow> world \<Rightarrow> Request \<Rightarrow> Role \<Rightarrow> Principal \<Rightarrow> bool" where
  "admitted H a w r m p \<longleftrightarrow> callerOf H a w r = Some p \<and> roleSatisfies (prRole p) m
     \<and> fst (limiterAllow (apRequestLimiter a) (prID p) (wall w))"

lemma require_open:
  assumes "admitted H (cnAPI c) (cnWorld c) r m p"
  obtains c' where "require (solo H) m nxt r c = nxt (r\<lparr>rqPrincipal := Some p\<rparr>) c'" "cnWorld c' = cnWorld c"
    "same_config (cnAPI c) (cnAPI c')" "wStatusLine (cnW c') = wStatusLine (cnW c)" "cnPanic c' = cnPanic c"
    "rcPrincipalID (cnW c') = prID p" "rcRole (cnW c') = roleString (prRole p)" "wHeader (cnW c') = wHeader (cnW c)"
    "cnLog c' = cnLog c"
proof -
  obtain l where l: "limiterAllow (apRequestLimiter (cnAPI c)) (prID p) (wall (cnWorld c)) = (True, l)"
    using assms unfolding admitted_def by (metis prod.collapse)
  let ?c = "setRequestPrincipal (prID p) (roleString (prRole p)) c"
  have sc: "cnAPI ?c = cnAPI c" "cnWorld ?c = cnWorld c" by (simp_all add: setRequestPrincipal_def onW_def)
  have r: "requestAllow (prID p) (cnAPI ?c) (cnWorld ?c) = (Inr (True, (cnAPI c)\<lparr>apRequestLimiter := l\<rparr>), cnWorld c)"
    using l by (simp add: requestAllow_def sc)
  have e: "require (solo H) m nxt r c = nxt (r\<lparr>rqPrincipal := Some p\<rparr>)
      (?c\<lparr>cnAPI := (cnAPI c)\<lparr>apRequestLimiter := l\<rparr>, cnWorld := cnWorld c, cnCalls := cnCalls ?c + 1\<rparr>)"
    using assms unfolding require_callerOf callerOf_solo admitted_def by (simp add: call_solo_Inr [where f = "requestAllow (prID p)" and c = ?c, OF r])
  show ?thesis
    by (rule that [OF e]) (simp_all add: same_config_iff, simp_all add: setRequestPrincipal_def onW_def)
qed

definition rootThere :: "API \<Rightarrow> world \<Rightarrow> bool" where
  "rootThere a w \<longleftrightarrow> apMinimumRoot a = [] \<or> ContainsRoot (apStore a) (apMinimumRoot a) w = (Inr True, w)"

lemma mutation_open:
  assumes "admitted H (cnAPI c) (cnWorld c) r m p" "rootThere (cnAPI c) (cnWorld c)"
  obtains c' where "requireMutation (solo H) m nxt r c = nxt (r\<lparr>rqPrincipal := Some p\<rparr>) c'" "cnWorld c' = cnWorld c"
    "same_config (cnAPI c) (cnAPI c')" "wStatusLine (cnW c') = wStatusLine (cnW c)" "cnPanic c' = cnPanic c"
proof (rule require_open [OF assms(1)])
  fix c'
  assume e: "require (solo H) m (\<lambda>r. call (solo H) minimumRootPresent (\<lambda>_. writeRootAbsent) (\<lambda>contains c.
       if \<not> contains then writeRootAbsent c else nxt r c)) r c
      = call (solo H) minimumRootPresent (\<lambda>_. writeRootAbsent) (\<lambda>contains c.
       if \<not> contains then writeRootAbsent c else nxt (r\<lparr>rqPrincipal := Some p\<rparr>) c) c'"
    and c': "cnWorld c' = cnWorld c" "same_config (cnAPI c) (cnAPI c')" "wStatusLine (cnW c') = wStatusLine (cnW c)"
      "cnPanic c' = cnPanic c"
  have m: "minimumRootPresent (cnAPI c') (cnWorld c') = (Inr (True, cnAPI c'), cnWorld c)"
    using assms(2) c'(1,2) by (auto simp: minimumRootPresent_def rootThere_def same_config_iff io_ret_def onStore_def io_bind_def)
  show ?thesis
    by (rule that [of "c'\<lparr>cnAPI := cnAPI c', cnWorld := cnWorld c, cnCalls := cnCalls c' + 1\<rparr>"])
      (use e c' in \<open>simp_all add: requireMutation_def call_solo_Inr [where f = minimumRootPresent and c = c', OF m]\<close>)
qed

text \<open>A request to append that is in order.\<close>

definition append_in_order :: "httplib \<Rightarrow> API \<Rightarrow> Request \<Rightarrow> Principal \<Rightarrow> appendRequest \<Rightarrow> bytes \<Rightarrow> string \<Rightarrow> bool" where
  "append_in_order H a r p q canonical er \<longleftrightarrow> hasJSONContentType H r
     \<and> 8 \<le> length (idempotencyKey r) \<and> length (idempotencyKey r) \<le> 200 \<and> may_append H a r p q
     \<and> arPayload q \<noteq> [] \<and> arExpectedRoot q = Some er \<and> json_request H q = Some canonical"

lemma hasJSON_solo [simp]: "hasJSONContentType (solo H) r = hasJSONContentType H r"
  by (simp add: hasJSONContentType_def)

lemma append_answer:
  assumes ord: "append_in_order H a r p q canonical er" and p: "principalFromContext r = p"
    and c: "same_config a (cnAPI c)" "wStatusLine (cnW c) = None" "\<not> cnPanic c"
    and run: "AppendIdempotent (hGo H) (apStore a) (contextOf p) (appendOptionsOf q) er (requestKey H p r)
      (requestHashOf (hGo H) canonical) (cnWorld c) = (Inr (h, replayed, s), w1)"
    and root: "CurrentRoot s w1 = (Inr root, w2)"
  shows "let d = appendEvent (solo H) r c in wStatusLine (cnW d) = Some (if replayed then 200 else 201)
    \<and> wBody (cnW d) = JSONBody (JObj [(''hash'', JStr h), (''replayed'', JBool replayed), (''root'', JStr root)])
    \<and> apStore (cnAPI d) = s \<and> cnWorld d = w2"
proof -
  let ?c = "setAppendAudit (arType q) (arCommand q) c"
  have sc: "cnAPI ?c = cnAPI c" "cnWorld ?c = cnWorld c" "wStatusLine (cnW ?c) = None"
    using c(2) by (simp_all add: setAppendAudit_def onW_def)
  have cfg: "apMaxBody (cnAPI c) = apMaxBody a" "apCatalog (cnAPI c) = apCatalog a" "apStore (cnAPI c) = apStore a"
    using c(1) by (simp_all add: same_config_iff)
  have o: "hasJSONContentType H r" "\<not> length (trimSpace (headerGet r ''Idempotency-Key'')) < 8"
      "\<not> 200 < length (trimSpace (headerGet r ''Idempotency-Key''))"
      "decodeJSON (dec_append H) (dec_empty H) (apMaxBody a) (rqBody r) = Inr q"
      "authorizeAppend (prAllow p) (arType q) (arCommand q) = Inr ()"
      "case apCatalog a of None \<Rightarrow> True | Some cat \<Rightarrow> catalogAuthorize cat (arType q) (arCommand q) = Inr ()"
      "arPayload q \<noteq> []" "arExpectedRoot q = Some er" "json_request H q = Some canonical"
    using ord by (auto simp: append_in_order_def may_append_def bodyOf_def idempotencyKey_def split: sum.splits)
  let ?tail = "call (solo H) (storeAppend (solo H) p q (idempotencyKey r) canonical) writeAPIError (\<lambda>(hash, replayed).
                  call (solo H) (onStore CurrentRoot) writeAPIError (\<lambda>currentRoot.
                  writeJSON (if replayed then 200 else 201) (JObj
                    [(''hash'', JStr hash), (''replayed'', JBool replayed), (''root'', JStr currentRoot)])))"
  have tail: "let d = ?tail b in wStatusLine (cnW d) = Some (if replayed then 200 else 201)
    \<and> wBody (cnW d) = JSONBody (JObj [(''hash'', JStr h), (''replayed'', JBool replayed), (''root'', JStr root)])
    \<and> apStore (cnAPI d) = s \<and> cnWorld d = w2"
    if b: "cnAPI b = cnAPI c" "cnWorld b = cnWorld c" "wStatusLine (cnW b) = None" for b
  proof -
    have run': "AppendIdempotent (hGo H) (apStore a) \<lparr>ctxActor = prID p, ctxRole = roleString (prRole p)\<rparr> (appendOptionsOf q) er
       (requestIDOf (hGo H) (prID p) (idempotencyKey r)) (requestHashOf (hGo H) canonical) (cnWorld c) = (Inr (h, replayed, s), w1)"
      using run by (simp add: contextOf_def requestKey_def)
    have sa: "storeAppend (solo H) p q (idempotencyKey r) canonical (cnAPI b) (cnWorld b)
        = (Inr ((h, replayed), (cnAPI c)\<lparr>apStore := s\<rparr>), w1)"
      using run' by (simp add: storeAppend_def io_bind_def io_ret_def b cfg o(8))
    let ?b = "b\<lparr>cnAPI := (cnAPI c)\<lparr>apStore := s\<rparr>, cnWorld := w1, cnCalls := cnCalls b + 1\<rparr>"
    have cr: "onStore CurrentRoot (cnAPI ?b) (cnWorld ?b) = (Inr (root, (cnAPI c)\<lparr>apStore := s\<rparr>), w2)"
      using root by (simp add: onStore_def io_bind_def io_ret_def)
    show ?thesis
      unfolding call_solo_Inr [where f = "storeAppend (solo H) p q (idempotencyKey r) canonical" and c = b, OF sa] prod.case call_solo_Inr [where f = "onStore CurrentRoot" and c = ?b, OF cr] Let_def
      by (simp add: writeJSON_def writing b)
  qed
  have app: "appendEvent (solo H) r c = apiAuthorizeAppend (solo H) p (arType q) (arCommand q) ?tail c"
    using o by (simp add: appendEvent_def Let_def cfg p idempotencyKey_def)
  show ?thesis
  proof (cases "apCatalog a")
    case None
    then have "appendEvent (solo H) r c = ?tail ?c"
      using o app by (simp add: apiAuthorizeAppend_def Let_def sc cfg)
    then show ?thesis using tail [OF sc(1,2,3)] by simp
  next
    case (Some cat)
    let ?f = "\<lambda>a. io_lift (case apCatalog a of None \<Rightarrow> Inr ((), a)
               | Some cat \<Rightarrow> bindE (catalogAuthorize cat (arType q) (arCommand q)) (\<lambda>_. Inr ((), a)))"
    have f: "?f (cnAPI ?c) (cnWorld ?c) = (Inr ((), cnAPI c), cnWorld c)"
      using Some o(6) by (simp add: sc cfg io_lift_def bindE_def)
    have "appendEvent (solo H) r c
        = ?tail (?c\<lparr>cnAPI := cnAPI c, cnWorld := cnWorld c, cnCalls := cnCalls ?c + 1\<rparr>)"
      using o app Some by (simp add: apiAuthorizeAppend_def Let_def sc cfg call_solo_Inr [where f = ?f and c = ?c, OF f])
    then show ?thesis using tail [of "?c\<lparr>cnAPI := cnAPI c, cnWorld := cnWorld c, cnCalls := cnCalls ?c + 1\<rparr>"] sc by simp
  qed
qed

lemma request_answer:
  assumes route: "findRoute routes r = Some (EpAppend, i)" and adm: "admitted H a w r RoleWriter p" "rootThere a w"
    and ord: "append_in_order H a r p q canonical er"
    and run: "AppendIdempotent (hGo H) (apStore a) (contextOf p) (appendOptionsOf q) er (requestKey H p r)
      (requestHashOf (hGo H) canonical) w = (Inr (h, replayed, s), w1)"
    and root: "CurrentRoot s w1 = (Inr root, w2)"
  shows "let c = serveHTTP (solo H) r a w in wStatusLine (cnW c) = Some (if replayed then 200 else 201)
    \<and> wBody (cnW c) = JSONBody (JObj [(''hash'', JStr h), (''replayed'', JBool replayed), (''root'', JStr root)])
    \<and> apStore (cnAPI c) = s \<and> cnWorld c = w2"
proof -
  let ?r = "r\<lparr>rqPathValue := i\<rparr>" and ?d = "serveMux (solo H) r (begun a w)"
  have mux: "?d = requireMutation (solo H) RoleWriter (appendEvent (solo H)) ?r (begun a w)"
    using route by (simp add: serveMux_def serveEndpoint_def)
  have ad: "admitted H (cnAPI (begun a w)) (cnWorld (begun a w)) ?r RoleWriter p" "rootThere (cnAPI (begun a w)) (cnWorld (begun a w))"
    using adm by (simp_all add: admitted_def callerOf_def bearer_def headerGet_def)
  have "let d = ?d in wStatusLine (cnW d) = Some (if replayed then 200 else 201)
    \<and> wBody (cnW d) = JSONBody (JObj [(''hash'', JStr h), (''replayed'', JBool replayed), (''root'', JStr root)])
    \<and> apStore (cnAPI d) = s \<and> cnWorld d = w2"
  proof (rule mutation_open [OF ad, of "appendEvent (solo H)"])
    fix c' let ?rp = "?r\<lparr>rqPrincipal := Some p\<rparr>"
    assume e: "requireMutation (solo H) RoleWriter (appendEvent (solo H)) ?r (begun a w) = appendEvent (solo H) ?rp c'"
      and c': "cnWorld c' = cnWorld (begun a w)" "same_config (cnAPI (begun a w)) (cnAPI c')"
        "wStatusLine (cnW c') = wStatusLine (cnW (begun a w))" "cnPanic c' = cnPanic (begun a w)"
    have o: "append_in_order H a ?rp p q canonical er" "principalFromContext ?rp = p" "requestKey H p ?rp = requestKey H p r"
      using ord by (simp_all add: append_in_order_def hasJSONContentType_def headerGet_def idempotencyKey_def may_append_def
          bodyOf_def principalFromContext_def requestKey_def)
    show ?thesis
      unfolding mux e
      by (rule append_answer [OF o(1,2), of c' h replayed s w1 root w2]) (use c' run root o(3) in simp_all)
  qed
  then show ?thesis by (simp add: serveHTTP_eq Let_def)
qed

lemma requestHashOf_hash: "requestHashOf L b = hash_bytes L b" "requestIDOf L i k = hash_bytes L (i @ [CHR 0x00] @ k)"
  by (simp_all add: requestHashOf_def requestIDOf_def hash_bytes_def sha_prefix_def)

lemma hash_trim:
  assumes "golib_ok L" shows "trimSpace (hash_bytes L b) = hash_bytes L b" "hash_bytes L b \<noteq> []"
proof -
  have v: "valid_hash (hash_bytes L b)" using assms by (intro valid_hash_hash_bytes) (simp add: golib_ok_def)
  then show n: "hash_bytes L b \<noteq> []" by auto
  show "trimSpace (hash_bytes L b) = hash_bytes L b" using trimSpace_printable [OF n valid_hash_printable [OF v]] .
qed

text \<open>
  Without failures an idempotent append with a new request id, at the current root, succeeds, and
  the new root is its hash.
\<close>

lemma idempotent_succeeds:
  assumes ok: "golib_ok L" "codec_total L" and inv: "store_inv L s w ns (length ns) k" and ff: "faults w = []"
    and d: "store_dirs_made (sdir s) w" and key: "aes_key (skey s)"
    and id: "rid = hash_bytes L x" "rhash = hash_bytes L y" "requestIndex s rid = None"
    and o: "trimSpace (oType opts) \<noteq> []" "json_marshal L (oPayload opts) = Some raw"
    and g: "clean_request ctx (with_request opts rid rhash)" "fresh_address L s ctx (with_request opts rid rhash) (Some (tip ns)) w"
  obtains h s' w' where "AppendIdempotent L s ctx opts (tip ns) rid rhash w = (Inr (h, False, s'), w')"
    "CurrentRoot s' w' = (Inr h, w')"
proof -
  let ?o = "with_request opts rid rhash"
  note t = hash_trim [OF ok(1)]
  have wr: "trimSpace (oType ?o) = trimSpace (oType opts)" "oPayload ?o = oPayload opts" "oRequestID ?o = rid"
    by (simp_all add: with_request_def id t)
  obtain h s' w' where a: "append L s ctx ?o (Some (tip ns)) w = (Inr (h, s'), w')" "faults w' = []"
    using append_succeeds [OF ok(1) inv ff d _ _ _ key ok(2) g(2)] o wr by auto
  have ixf: "index_free s (oRequestID ?o)" using id(3) wr by (simp add: index_free_def)
  obtain n where n: "h = nHash n" "s' = recordNode s n" "store_inv L s' w' (ns @ [n]) (Suc (length ns)) (Suc (length ns))"
    using append_correct [OF ok(1) inv g ixf a(1)] by auto
  have "AppendIdempotent L s ctx opts (tip ns) rid rhash w = (Inr (h, False, s'), w')"
    using a(1) id by (simp add: AppendIdempotent_def Let_def t io_bind_def io_ret_def with_request_def)
  moreover have "CurrentRoot s' w' = (Inr h, w')"
  proof -
    have "disk_inv L (sdir s') w' (ns @ [n]) (Suc (length ns))" using n(3) by (simp add: store_inv_def)
    then have "rootPath (sdir s') \<notin> set (dirs w')" "rootval (fcontent w' (rootPath (sdir s'))) = h"
      using store_inv_root [of L s' w' "ns @ [n]" "Suc (length ns)" "Suc (length ns)"] n by (auto simp: disk_inv_def)
    then show ?thesis using currentRoot_no_fault [OF a(2)] by (simp add: CurrentRoot_def)
  qed
  ultimately show ?thesis by (rule that)
qed

end
