(* ===== verification/HttpDemo.thy ===== *)
theory HttpDemo imports HttpProgress SnapshotProperties ReadProperties
begin

text \<open>A server on the concrete store of DemoStore: decoders for the request bodies, one credential of a
  writer, and its first append. The witnesses of HttpProperties evaluate the handlers on it.\<close>

subsection \<open>The libraries\<close>

text \<open>A decoder over a reader, from one over bytes.\<close>

definition reading :: "'a dec \<Rightarrow> 'a decoder" where
  "reading d rd = (case d (rdData rd) of
       None \<Rightarrow> Inl (if rdTooLarge rd then maxBytesError else GoError ''invalid character'' [])
     | Some (v, rest) \<Rightarrow> Inr (v, rd\<lparr>rdData := rest\<rparr>))"

definition reading_end :: "unit decoder" where
  "reading_end rd = Inl (if rdTooLarge rd then maxBytesError
     else if rdData rd = [] then io_EOF else GoError ''invalid character'' [])"

definition enc_append :: "appendRequest enc" where
  "enc_append = enc_map (\<lambda>q. (arType q, arEntityID q, arCommand q, arPayload q, arExpectedRoot q))
     (enc_pair enc_str (enc_pair enc_str (enc_pair enc_str (enc_pair enc_str (enc_opt enc_str)))))"

definition dec_appendRequest :: "appendRequest dec" where
  "dec_appendRequest = dec_map (\<lambda>(t, e, c, p, x). \<lparr>arType = t, arEntityID = e, arCommand = c, arPayload = p, arExpectedRoot = x\<rparr>)
     (dec_pair dec_str (dec_pair dec_str (dec_pair dec_str (dec_pair dec_str (dec_opt dec_str)))))"

lemma rt_append: "round_trip enc_append dec_appendRequest"
  unfolding enc_append_def dec_appendRequest_def by (rule rt_map) (intro round_trips, simp)

definition enc_batch :: "payloadBatchRequest enc" where
  "enc_batch = enc_map (\<lambda>q. (pbRoot q, pbEventIDs q)) (enc_pair enc_str (enc_list enc_str))"

definition dec_batchRequest :: "payloadBatchRequest dec" where
  "dec_batchRequest = dec_map (\<lambda>(r, es). \<lparr>pbRoot = r, pbEventIDs = es\<rparr>) (dec_pair dec_str (dec_list dec_str))"

lemma rt_batch: "round_trip enc_batch dec_batchRequest"
  unfolding enc_batch_def dec_batchRequest_def by (rule rt_map) (intro round_trips, simp)

definition demoH :: httplib where
  "demoH = \<lparr>hGo = demoL, hAuth = demoA, hCat = demoC, hSnap = demoZ, parseMediaType = Some,
     dec_append = reading dec_appendRequest, dec_batch = reading dec_batchRequest,
     dec_ref = reading (dec_map (\<lambda>(r, e). \<lparr>rfRoot = r, rfExpectedRoot = e\<rparr>) (dec_pair dec_str (dec_opt dec_str))),
     dec_entry_body = reading (dec_map (\<lambda>(t, cs). \<lparr>ceType = t, ceCommands = cs\<rparr>) (dec_pair dec_str (dec_list dec_str))),
     dec_empty = reading_end, json_request = (\<lambda>q. Some (enc_append q)), json_bytes = (\<lambda>v. Some ''{}''),
     statfs = (\<lambda>w p. (1000, 4096)), others = (\<lambda>_ x. x)\<rparr>"

lemma demoH_simps [simp]:
  "hGo demoH = demoL" "hAuth demoH = demoA" "hCat demoH = demoC" "solo demoH = demoH" "others demoH n x = x"
  "json_bytes demoH v = Some ''{}''" "json_request demoH q = Some (enc_append q)"
  "parseMediaType demoH = Some" "dec_append demoH = reading dec_appendRequest" "dec_batch demoH = reading dec_batchRequest"
  "dec_empty demoH = reading_end"
  by (simp_all add: demoH_def solo_def)

lemma decodeJSON_within:
  assumes "round_trip e d" "int (length (e q)) \<le> n" shows "decodeJSON (reading d) reading_end n (e q) = Inr q"
  using round_tripD [OF assms(1), of q "[]"] assms(2)
  by (simp add: decodeJSON_def reading_def reading_end_def maxBytesReader_def io_EOF_def)

lemma demoH_polite: "polite demoH"
  by (simp add: polite_def polite_to_def)

subsection \<open>A server and a client\<close>

definition demo_token :: string where
  "demo_token = replicate 32 (CHR ''b'')"

definition alice :: Principal where
  "alice = \<lparr>prID = ''alice'', prRole = RoleWriter, prAllow = None\<rparr>"

definition demo_api :: "Store \<Rightarrow> bytes \<Rightarrow> API" where
  "demo_api s body = \<lparr>apStore = s, apAuth = [\<lparr>cdPrincipal = alice, cdDigest = demo_token, cdNotAfter = None\<rparr>],
     apBackupDir = [], apMaxBody = int (length body), apSnapshotRetention = 24, apSnapshotMinFreeBytes = 0,
     apMinimumRoot = [], apCatalog = None, apRequestLimiter = newFixedWindowLimiter 600 minute,
     apFailedAuthLimiter = newFixedWindowLimiter 30 minute\<rparr>"

lemma demo_api_simps [simp]:
  "apStore (demo_api s b) = s" "apMaxBody (demo_api s b) = int (length b)" "apCatalog (demo_api s b) = None"
  "apMinimumRoot (demo_api s b) = []"
  by (simp_all add: demo_api_def)

definition demo_request :: "string list \<Rightarrow> bytes \<Rightarrow> Request" where
  "demo_request segments body = \<lparr>rqMethod = ''POST'', rqPath = CHR ''/'' # joinSlash segments, rqSegments = segments, rqQuery = [],
     rqHeader = [(''Authorization'', ''Bearer '' @ demo_token), (''Content-Type'', ''application/json''),
       (''Idempotency-Key'', ''first-key'')],
     rqBody = body, rqPathValue = [], rqPrincipal = None\<rparr>"

lemma demo_bearer: "bearer (demo_request ss body) = Some demo_token"
proof -
  have "cutAt (CHR '' '') (''Bearer '' @ demo_token) = (''Bearer'', demo_token, True)" "equalFold ''Bearer'' ''Bearer''"
    "trimSpace demo_token = demo_token" by code_simp+
  then show ?thesis by (simp add: bearer_def demo_request_def headerGet_def firstValue_def)
qed

lemma demo_caller: "callerOf demoH (demo_api s b) w (demo_request ss body) = Some alice"
proof -
  have "demo_sum demo_token = demo_token" "length demo_token = 32" by code_simp+
  then have "Authenticate demoA [\<lparr>cdPrincipal = alice, cdDigest = demo_token, cdNotAfter = None\<rparr>] t demo_token = (alice, True)" for t
    by (simp add: Authenticate_def demoA_def)
  then show ?thesis by (simp add: callerOf_def demo_bearer demo_api_def)
qed

lemma demo_admitted:
  "roleSatisfies RoleWriter m \<Longrightarrow> admitted demoH (demo_api s b) w (demo_request ss body) m alice"
  using demo_caller [of s b w ss body]
  by (simp add: admitted_def alice_def demo_api_def limiterAllow_def newFixedWindowLimiter_def zeroWindow_def Let_def)

lemma demo_headers: "hasJSONContentType demoH (demo_request ss body)" "idempotencyKey (demo_request ss body) = ''first-key''"
proof -
  have "equalFold ''application/json'' ''application/json''" "trimSpace ''first-key'' = ''first-key''" by code_simp+
  then show "hasJSONContentType demoH (demo_request ss body)" "idempotencyKey (demo_request ss body) = ''first-key''"
    by (simp_all add: hasJSONContentType_def idempotencyKey_def headerGet_def firstValue_def demo_request_def)
qed

lemma demo_routes:
  "findRoute routes (demo_request [''v1'', ''events''] body) = Some (EpAppend, [])"
  "findRoute routes (demo_request [''v1'', ''events'', ''payloads''] body) = Some (EpEventPayloads, [])"
  by (simp_all add: demo_request_def routes_def methodMatches_def)

subsection \<open>The first append\<close>

definition demo_q :: appendRequest where
  "demo_q = \<lparr>arType = ''note.added'', arEntityID = ''e1'', arCommand = ''create'', arPayload = ''{}'', arExpectedRoot = Some []\<rparr>"

definition demo_post :: Request where
  "demo_post = demo_request [''v1'', ''events''] (enc_append demo_q)"

definition demo_api0 :: "Store \<Rightarrow> API" where
  "demo_api0 s = demo_api s (enc_append demo_q)"

lemma demo_api0_store [simp]: "apStore (demo_api0 s) = s"
  by (simp add: demo_api0_def)

lemma demo_may: "may_append demoH (demo_api0 s) demo_post p q \<longleftrightarrow> q = demo_q \<and> authorizeAppend (prAllow p) ''note.added'' ''create'' = Inr ()"
  using decodeJSON_within [OF rt_append, of demo_q, OF order_refl]
  by (auto simp: may_append_def bodyOf_def demo_api0_def demo_post_def demo_request_def demo_q_def)

lemma demo_post_caller: "callerOf demoH (demo_api0 s) w demo_post = Some alice"
  unfolding demo_api0_def demo_post_def by (rule demo_caller)

lemma demo_in_order: "append_in_order demoH (demo_api0 s) demo_post alice demo_q (enc_append demo_q) []"
proof -
  have "authorizeAppend None ''note.added'' ''create'' = Inr ()" by (simp add: authorizeAppend_def)
  then show ?thesis
    using demo_may [of s alice demo_q] demo_headers [of "[''v1'', ''events'']" "enc_append demo_q"]
    by (simp add: append_in_order_def alice_def demo_post_def [symmetric]) (simp add: demo_q_def)
qed

lemma demo_no_nodes: "valid_hash h \<Longrightarrow> map_of (ents demo_w0) (NodePath demo_dir h) = None"
proof -
  assume h: "valid_hash h"
  have e: "lock_alone demo_dir demo_world" by (rule disk_inv_empty(2); simp add: demo_world_def rootPath_def demo_dir_def)
  have o: "openStore demoL ''42'' demo_dir demo_key True demo_world = (Inr demo_s0, demo_w0)"
    using demo_s0_w0(1) by (simp add: demo_open_def OpenStoreWithDataKey_def)
  have ne: "demo_dir \<noteq> []" by (simp add: demo_dir_def)
  have f: "open_frame demo_dir demo_world demo_w0" using opensD [OF opens_openStore [OF ne] e o] .
  have "same_content (NodePath demo_dir h) demo_world demo_w0"
    using f app_path_NodePath [OF h, of demo_dir] by (simp add: open_frame_def NodePath_def lockPath_def keyPath_def)
  then show ?thesis by (simp add: same_content_def fcontent_def demo_world_def)
qed

lemma demo_run_Nil: "fst (demo_run []) = demo_s0" "snd (demo_run []) = demo_w0"
  by (simp_all add: demo_run_def)

lemma demo_good: "good_request demoH (demo_api0 demo_s0) demo_w0 demo_post"
  unfolding good_request_def
proof (intro conjI allI impI; (elim conjE)?)
  fix p q canonical er v
  assume p: "callerOf demoH (demo_api0 demo_s0) demo_w0 demo_post = Some p" and q: "may_append demoH (demo_api0 demo_s0) demo_post p q"
    and v: "at_start demo_w0 v"
  have p: "p = alice" "q = demo_q" using p q demo_post_caller demo_may by simp_all
  have h: "list_all utf8_valid [hash_bytes demoL x, hash_bytes demoL y]" for x y
  proof -
    have "valid_hash (hash_bytes demoL x)" for x using demoL_ok by (intro valid_hash_hash_bytes) (simp add: golib_ok_def)
    then show ?thesis by (simp add: utf8_valid_printable valid_hash_printable)
  qed
  show "clean_request (contextOf p) (append_args demoH p demo_post q canonical)"
  proof -
    have t: "trimSpace ''note.added'' = ''note.added''" "trimSpace ''e1'' = ''e1''" "trimSpace ''create'' = ''create''"
      "roleString RoleWriter = ''writer''" by code_simp+
    have u: "list_all utf8_valid [''note.added'', ''e1'', ''create'', ''alice'', ''writer'']"
      by (simp add: utf8_valid_printable printable_def)
    show ?thesis
      using h u hash_trim [OF demoL_ok]
      by (simp add: clean_request_def append_args_def with_request_def appendOptionsOf_def p demo_q_def alice_def contextOf_def
          requestKey_def requestHashOf_hash t)
  qed
  show "fresh_address (hGo demoH) (apStore (demo_api0 demo_s0)) (contextOf p) (append_args demoH p demo_post q canonical) (Some er) v"
  proof -
    obtain ns where ok: "demo_ok [] ns demo_s0 demo_w0" using demo_start by blast
    then have d: "sdir demo_s0 = demo_dir" "NodePath demo_dir h \<notin> set (dirs demo_w0)" for h by (simp_all add: demo_ok_def)
    have e: "ents v = ents demo_w0" "dirs v = dirs demo_w0" using at_start_views [OF v] by simp_all
    have "NodePath demo_dir (nHash n) \<notin> set (dirs v) \<and> map_of (ents v) (NodePath demo_dir (nHash n)) = None"
      if f: "fst (prepareNode demoL demo_s0 ctx opts er' v) = Inr n" for ctx opts er' n
    proof -
      have "prepareNode demoL demo_s0 ctx opts er' v = (Inr n, snd (prepareNode demoL demo_s0 ctx opts er' v))"
        using f by (metis prod.collapse)
      then show ?thesis
        using prepareNode_Inr [OF demoL_ok] event_of_hash(1) [OF demoL_ok] demo_no_nodes d e by metis
    qed
    then show ?thesis by (auto simp: fresh_address_def d(1) split: sum.split)
  qed
next
  fix ep i assume "findRoute routes demo_post = Some (ep, i)"
  then have "ep = EpAppend" using demo_routes(1) by (simp add: demo_post_def)
  then show "ep \<notin> {EpSnapshot, EpInstallEntry, EpRemoveEntry}" "ep = EpPutRef \<Longrightarrow> plain_name i" by simp_all
qed

lemma demo_disk0:
  "store_reachable demoL demo_dir (demo_sys [])" "smem (demo_sys []) = Some demo_s0" "sworld (demo_sys []) = demo_w0"
  "faults demo_w0 = []" "store_dirs_made demo_dir demo_w0" "aes_key (skey demo_s0)"
  "rootval (fcontent demo_w0 (rootPath demo_dir)) = indexedRoot demo_s0" "indexedRoot demo_s0 = []" "sdir demo_s0 = demo_dir"
  "codec_total demoL" "demo_dir \<noteq> []" "requestIndex demo_s0 rid = None \<or> rid = []"
proof -
  have ok: "demo_ok [] [] demo_s0 demo_w0" by (rule demo_start)
  then have inv: "store_inv demoL demo_s0 demo_w0 [] 0 0" "sdir demo_s0 = demo_dir" by (simp_all add: demo_ok_def)
  show "store_reachable demoL demo_dir (demo_sys [])" by (rule demo_reachable) simp_all
  show "smem (demo_sys []) = Some demo_s0" "sworld (demo_sys []) = demo_w0" by (simp_all add: demo_run_Nil)
  show "faults demo_w0 = []" "store_dirs_made demo_dir demo_w0" "aes_key (skey demo_s0)" "sdir demo_s0 = demo_dir"
    using ok by (simp_all add: demo_ok_def aes_key_def)
  show "codec_total demoL" "demo_dir \<noteq> []" by (simp_all add: codec_total_def demoL_def demo_dir_def)
  have ix: "indexed demo_s0 []" using inv(1) by (simp add: store_inv_def)
  show r: "indexedRoot demo_s0 = []" using indexed_root [OF ix] by (simp add: tip_def)
  show "rootval (fcontent demo_w0 (rootPath demo_dir)) = indexedRoot demo_s0"
    using inv by (simp add: r store_inv_def disk_inv_def tip_def)
  show "requestIndex demo_s0 rid = None \<or> rid = []"
    using index_free_iff [OF ix, of rid] by (auto simp: index_free_def)
qed

text \<open>The first request is accepted, and the same request again is answered as a replay.\<close>

lemma demo_accepted:
  obtains h s' w' where
    "let c = serveHTTP demoH demo_post (demo_api0 demo_s0) demo_w0 in wStatusLine (cnW c) = Some 201
       \<and> wBody (cnW c) = JSONBody (JObj [(''hash'', JStr h), (''replayed'', JBool False), (''root'', JStr h)])
       \<and> apStore (cnAPI c) = s' \<and> cnWorld c = w'"
    "append_behind demoH (demo_api0 demo_s0) demo_w0 demo_post (serveHTTP demoH demo_post (demo_api0 demo_s0) demo_w0)
       alice demo_q (enc_append demo_q) [] demo_w0 w' h False"
    "CurrentRoot s' w' = (Inr h, w')"
proof -
  let ?a = "demo_api0 demo_s0" and ?c = "serveHTTP (solo demoH) demo_post (demo_api0 demo_s0) demo_w0"
  have inv: "store_inv demoL demo_s0 demo_w0 [] (length []) 0" using demo_start by (simp add: demo_ok_def)
  have g: "clean_request (contextOf alice) (append_args demoH alice demo_post demo_q (enc_append demo_q))"
      "fresh_address demoL demo_s0 (contextOf alice) (append_args demoH alice demo_post demo_q (enc_append demo_q)) (Some (tip [])) demo_w0"
    using demo_good demo_post_caller [of demo_s0 demo_w0] demo_in_order [of demo_s0]
    unfolding good_request_def append_in_order_def by (auto simp: at_start_def tip_def)
  note g = g [unfolded append_args_def]
  have rq: "requestKey demoH alice demo_post = hash_bytes demoL (prID alice @ [CHR 0x00] @ idempotencyKey demo_post)"
    "requestHashOf demoL (enc_append demo_q) = hash_bytes demoL (enc_append demo_q)"
    by (simp_all add: requestKey_def requestHashOf_hash)
  have free: "requestIndex demo_s0 (requestKey demoH alice demo_post) = None"
    using demo_disk0(12) hash_trim(2) [OF demoL_ok] by (auto simp: rq)
  have o: "trimSpace (oType (appendOptionsOf demo_q)) \<noteq> []" "json_marshal demoL (oPayload (appendOptionsOf demo_q)) = Some ''{}''"
    using demo_clean(2) by (simp_all add: appendOptionsOf_def json_marshal_def demo_q_def demoL_def)
  obtain h s' w' where run: "AppendIdempotent demoL demo_s0 (contextOf alice) (appendOptionsOf demo_q) (tip []) (requestKey demoH alice demo_post)
      (requestHashOf demoL (enc_append demo_q)) demo_w0 = (Inr (h, False, s'), w')" and root: "CurrentRoot s' w' = (Inr h, w')"
    by (rule idempotent_succeeds [OF demoL_ok demo_disk0(10) inv demo_disk0(4) _ demo_disk0(6) rq free o])
      (use demo_disk0 g in \<open>auto simp: demo_disk0(9)\<close>)
  have rt: "findRoute routes demo_post = Some (EpAppend, [])" using demo_routes(1) by (simp add: demo_post_def)
  have adm: "admitted demoH ?a demo_w0 demo_post RoleWriter alice" "rootThere ?a demo_w0"
    using demo_admitted [of RoleWriter] by (simp_all add: demo_api0_def demo_post_def roleSatisfies_def rootThere_def)
  have ans: "let c = ?c in wStatusLine (cnW c) = Some 201
       \<and> wBody (cnW c) = JSONBody (JObj [(''hash'', JStr h), (''replayed'', JBool False), (''root'', JStr h)])
       \<and> apStore (cnAPI c) = s' \<and> cnWorld c = w'"
    using request_answer [OF rt adm demo_in_order, of h False s' w' h w'] run root by (simp add: tip_def)
  have "append_behind demoH ?a demo_w0 demo_post ?c alice demo_q (enc_append demo_q) [] demo_w0 w' h False"
    using ans run demo_in_order [of demo_s0]
    by (auto simp: append_behind_def Let_def append_in_order_def at_start_def tip_def)
  then show ?thesis using that [of h s' w'] ans root by simp
qed

lemma demo_replayed:
  assumes "c = serveHTTP demoH demo_post (demo_api0 demo_s0) demo_w0" "wStatusLine (cnW c) = Some 201"
    "wBody (cnW c) = JSONBody (JObj [(''hash'', JStr h), (''replayed'', JBool False), (''root'', JStr h)])"
  shows "let c2 = serveHTTP demoH demo_post (demo_api0 (apStore (cnAPI c))) (cnWorld c) in wStatusLine (cnW c2) = Some 200"
proof -
  obtain h' s' w' where d: "let c = serveHTTP demoH demo_post (demo_api0 demo_s0) demo_w0 in wStatusLine (cnW c) = Some 201
       \<and> wBody (cnW c) = JSONBody (JObj [(''hash'', JStr h'), (''replayed'', JBool False), (''root'', JStr h')])
       \<and> apStore (cnAPI c) = s' \<and> cnWorld c = w'"
    "append_behind demoH (demo_api0 demo_s0) demo_w0 demo_post (serveHTTP demoH demo_post (demo_api0 demo_s0) demo_w0)
       alice demo_q (enc_append demo_q) [] demo_w0 w' h' False"
    "CurrentRoot s' w' = (Inr h', w')"
    by (rule demo_accepted)
  have s: "apStore (cnAPI c) = s'" "cnWorld c = w'" "h' = h" using d(1) assms by (simp_all add: Let_def)
  have x: "at_state (demo_sys []) (demo_api0 demo_s0) demo_w0" using demo_disk0(2,3) by (simp add: at_state_def)
  let ?x = "(demo_sys [])\<lparr>smem := Some s', sworld := w', acked := acked (demo_sys []) @ [h]\<rparr>"
  have ok: "golib_ok (hGo demoH)" "store_reachable (hGo demoH) demo_dir (demo_sys [])" using demoL_ok demo_disk0(1) by simp_all
  have st: "store_steps (hGo demoH) demo_dir ((demo_sys [])\<lparr>smem := Some (apStore (cnAPI (serveHTTP demoH demo_post (demo_api0 demo_s0) demo_w0))), 
      sworld := cnWorld (serveHTTP demoH demo_post (demo_api0 demo_s0) demo_w0), acked := acked (demo_sys []) @ [h]\<rparr>) ?x"
    using s assms(1) store_steps.none [of "hGo demoH" demo_dir ?x] by (simp only:)
  have ix: "requestIndex s' (trimSpace (requestKey demoH alice demo_post))
      = Some \<lparr>rrHash = h, rrRequestHash = trimSpace (requestHashOf (hGo demoH) (enc_append demo_q))\<rparr>"
    by (rule retry_behind [OF ok(1) demo_disk0(11) ok(2) x demo_good demo_post_caller d(2)[unfolded s(3)] st]) simp
  have rq: "trimSpace (requestKey demoH alice demo_post) \<noteq> []" "trimSpace (requestHashOf demoL (enc_append demo_q)) \<noteq> []"
    using hash_trim [OF demoL_ok] by (simp_all add: requestKey_def requestHashOf_hash)
  have run: "AppendIdempotent (hGo demoH) (apStore (demo_api0 s')) (contextOf alice) (appendOptionsOf demo_q) [] (requestKey demoH alice demo_post)
      (requestHashOf (hGo demoH) (enc_append demo_q)) w' = (Inr (h, True, s'), w')"
    using ix rq by (simp add: AppendIdempotent_def io_ret_def)
  have rt: "findRoute routes demo_post = Some (EpAppend, [])" using demo_routes(1) by (simp add: demo_post_def)
  have adm: "admitted demoH (demo_api0 s') w' demo_post RoleWriter alice" "rootThere (demo_api0 s') w'"
    using demo_admitted [of RoleWriter] by (simp_all add: demo_api0_def demo_post_def roleSatisfies_def rootThere_def)
  show ?thesis using request_answer [OF rt adm demo_in_order run d(3)] s by (auto simp: Let_def)
qed

subsection \<open>Reading a payload\<close>

lemma validEventID_iff: "validEventID h \<longleftrightarrow> valid_hash h"
  by (auto simp: validEventID_def valid_hash_def validateHash_def sha_prefix_def split: option.splits)

text \<open>A batch of one payload, read by a caller with room for it.\<close>

definition demo_read :: Request where
  "demo_read = demo_request [''v1'', ''events'', ''payloads'']
     (enc_batch \<lparr>pbRoot = demo_hash (CHR ''b''), pbEventIDs = [demo_hash (CHR ''a'')]\<rparr>)"

lemma demo_payload_read:
  "\<exists>mb. discloses (cnW (serveHTTP demoH demo_read ((demo_api (fst (demo_run ''ab'')) [])\<lparr>apMaxBody := mb\<rparr>) (snd (demo_run ''ab''))))"
proof -
  let ?s = "fst (demo_run ''ab'')" and ?w = "snd (demo_run ''ab'')" and ?a = "demo_hash (CHR ''a'')" and ?b = "demo_hash (CHR ''b'')"
  let ?q = "\<lparr>pbRoot = ?b, pbEventIDs = [?a]\<rparr>"
  obtain p where p: "\<forall>mb>int (length p). EventPayloadsBounded demoL ?s [?a] ?b mb (\<lambda>w. w) ?w
      = (Inr [\<lparr>evID = ?a, evPayload = p\<rparr>], ?w)"
    using demo_batch by blast
  define mb where "mb = int (length p) + int (length (enc_batch ?q)) + 3"
  have mb: "int (length p) < mb" "int (length (enc_batch ?q)) \<le> mb" "2 \<le> mb" by (simp_all add: mb_def)
  let ?api = "(demo_api ?s [])\<lparr>apMaxBody := mb\<rparr>"
  have dec: "decodeJSON (reading dec_batchRequest) reading_end mb (enc_batch ?q) = Inr ?q"
    using decodeJSON_within [OF rt_batch mb(2)] .
  have t: "trimSpace (demo_hash x) = demo_hash x" for x
    by (rule trimSpace_printable) (use demo_hash_valid [of x] in \<open>auto simp: valid_hash_printable\<close>)
  have v: "validEventID (demo_hash x)" for x using demo_hash_valid by (simp add: validEventID_iff)
  let ?r = "demo_read\<lparr>rqPathValue := []\<rparr>"
  have ad: "admitted demoH (cnAPI (begun ?api ?w)) (cnWorld (begun ?api ?w)) ?r RoleReader alice"
  proof -
    have "admitted H (a\<lparr>apMaxBody := n\<rparr>) w (r\<lparr>rqPathValue := x\<rparr>) m p \<longleftrightarrow> admitted H a w r m p" for H a n w r x m p
    proof -
      have "apAuth (a\<lparr>apMaxBody := n\<rparr>) = apAuth a" "apRequestLimiter (a\<lparr>apMaxBody := n\<rparr>) = apRequestLimiter a"
        "headerGet (r\<lparr>rqPathValue := x\<rparr>) k = headerGet r k" for k by (simp_all add: headerGet_def)
      then show ?thesis unfolding admitted_def callerOf_def bearer_def by (simp only:)
    qed
    moreover have "roleSatisfies RoleWriter RoleReader" by code_simp
    ultimately show ?thesis using demo_admitted by (simp add: demo_read_def)
  qed
  have mux: "serveMux demoH demo_read (begun ?api ?w) = require (solo demoH) RoleReader (eventPayloadsHandler demoH) ?r (begun ?api ?w)"
    using demo_routes(2) by (simp add: serveMux_def serveEndpoint_def demo_read_def)
  show ?thesis
  proof (rule require_open [OF ad, of "eventPayloadsHandler demoH"])
    fix c'
    let ?rp = "?r\<lparr>rqPrincipal := Some alice\<rparr>"
    assume e: "require (solo demoH) RoleReader (eventPayloadsHandler demoH) ?r (begun ?api ?w) = eventPayloadsHandler demoH ?rp c'"
    and c': "cnWorld c' = cnWorld (begun ?api ?w)" "same_config (cnAPI (begun ?api ?w)) (cnAPI c')"
        "wStatusLine (cnW c') = wStatusLine (cnW (begun ?api ?w))"
      and pn: "cnPanic c' = cnPanic (begun ?api ?w)"
    have c: "cnWorld c' = ?w" "apStore (cnAPI c') = ?s" "apMaxBody (cnAPI c') = mb" "wStatusLine (cnW c') = None" "\<not> cnPanic c'"
      using c' pn by (simp_all add: same_config_iff)
    let ?c = "setPayloadReadAudit ''failed'' ?b [?a] c'"
    have sc: "cnAPI ?c = cnAPI c'" "cnWorld ?c = ?w" "wStatusLine (cnW ?c) = None" "cnPanic ?c = cnPanic c'"
      using c by (simp_all add: setPayloadReadAudit_def onW_def)
    have run: "boundedPayloads (solo demoH) [?a] ?b (cnAPI ?c) (cnWorld ?c) = (Inr ([\<lparr>evID = ?a, evPayload = p\<rparr>], cnAPI c'), ?w)"
      using p mb(1) c sc by (simp add: boundedPayloads_def onStore_def io_bind_def io_ret_def)
    have "discloses (cnW (eventPayloadsHandler (solo demoH) ?rp c'))"
    proof -
      have hd: "hasJSONContentType demoH ?rp" "rqBody ?rp = enc_batch ?q"
        using demo_headers(1) [of "[''v1'', ''events'', ''payloads'']" "enc_batch ?q"]
        by (simp_all add: hasJSONContentType_def headerGet_def demo_read_def demo_request_def)
      have k: "call demoH (boundedPayloads demoH [?a] ?b) bad go ?c
          = go [\<lparr>evID = ?a, evPayload = p\<rparr>] (?c\<lparr>cnAPI := cnAPI c', cnWorld := ?w, cnCalls := cnCalls ?c + 1\<rparr>)" for bad go
        using call_solo_Inr [where H = demoH and f = "boundedPayloads demoH [?a] ?b" and c = ?c, of _ _ _ bad go] run by simp
      have "eventPayloadsHandler demoH ?rp c' = writeMeasured demoH ?b [?a] (JObj [(''root'', JStr ?b),
          (''payloads'', JList (map payloadResponse [\<lparr>evID = ?a, evPayload = p\<rparr>]))])
          (?c\<lparr>cnAPI := cnAPI c', cnWorld := ?w, cnCalls := cnCalls ?c + 1\<rparr>)"
        unfolding eventPayloadsHandler_def using hd dec v c k
        by (simp add: t maxPayloadBatchEvents_def Let_def)
      then show ?thesis using mb(3) c sc
        by (simp add: writeMeasured_def writeRawJSON_def discloses_def writing setPayloadReadAudit_def)
    qed
    then have "discloses (cnW (serveMux demoH demo_read (begun ?api ?w)))" using e mux by simp
    then show ?thesis by (intro exI [of _ mb]) (simp add: serveHTTP_eq Let_def)
  qed
qed

lemma demo_room:
  assumes "demo_ok cs ns s w" "length ns \<le> 1000" shows "store_room s"
proof -
  have i: "indexed s ns" "chain ns" using assms(1) by (simp_all add: demo_ok_def store_inv_def disk_inv_def)
  have "length (history s) = length ns" using indexed_history [OF i(1)] by simp
  then show ?thesis using historyIndex_iff [OF i] assms(2) by (auto simp: store_room_def)
qed

end
