(* ===== verification/HttpProperties.thy ===== *)
theory HttpProperties
  imports HttpDemo
begin

text \<open>The properties of the HTTP interface: every request is answered and leaves one line of log, payloads
  are only given out on the record, who may change what, and what an append over HTTP does to the store.
  The witnesses run the server of HttpDemo.\<close>

section \<open>Answers\<close>



text \<open>
  C35. A response that carries event payloads is one that was accounted for: its caller has authenticated
  and holds the role of a reader, the payloads are those of the events that were asked for, at most
  100, the body is within the configured size, and the log line of the request names the
  caller, the operation, and every event whose payload was given out.
\<close>

theorem payload_reads_on_record:
  assumes "api_ok a" "polite H" "discloses (cnW (serveHTTP H r a w))"
  shows "\<exists>p ids v b ls line. let c = serveHTTP H r a w in
     callerOf H a w r = Some p \<and> roleSatisfies (prRole p) RoleReader
     \<and> wBody (cnW c) = RawBody b \<and> json_bytes H v = Some b \<and> int (length b) \<le> apMaxBody (cnAPI c)
     \<and> set (disclosed v) \<subseteq> set ids \<and> length ids \<le> 100
     \<and> cnLog c = ls @ [line] \<and> {(''principal_id'', AStr (prID p)), (''operation'', AStr ''payload_read''),
         (''outcome'', AStr ''retrieved''), (''selected_event_ids'', AList ids)} \<subseteq> set line"
proof -
  obtain d where d: "d = serveMux H r (begun a w)" by simp
  obtain b D where b: "answered H D b d" "same_headers (begun a w) b"
    "D \<longrightarrow> (\<exists>p. callerOf H a w r = Some p \<and> roleSatisfies (prRole p) RoleReader
        \<and> rcPrincipalID (cnW b) = prID p \<and> rcRole (cnW b) = roleString (prRole p))"
    using serves_request [OF assms(1,2), of w r] d by (auto simp: completes_def)
  have np: "\<not> cnPanic d" using b(1) by (simp add: answered_def)
  define line where "line = logLine r (cnW d) (timeSub (wall (cnWorld d)) (wall w) div 1000000)"
  have s: "serveHTTP H r a w = d\<lparr>cnLog := cnLog d @ [line]\<rparr>"
    using np by (simp add: serveHTTP_eq d [symmetric] line_def Let_def)
  have "discloses (cnW d)" using assms(3) s by simp
  then have D: D "on_record H d" using b(1) by (simp_all add: answered_def)
  then obtain p where p: "callerOf H a w r = Some p" "roleSatisfies (prRole p) RoleReader" "rcPrincipalID (cnW d) = prID p"
    using b(1,3) by (auto simp: answered_def same_caller_def)
  obtain v x where v: "json_bytes H v = Some x" "set (disclosed v) \<subseteq> set (rcSelectedIDs (cnW d))" "wBody (cnW d) = RawBody x"
      "int (length x) \<le> apMaxBody (cnAPI d)"
    and o: "rcOperation (cnW d) = ''payload_read''" "rcOutcome (cnW d) = ''retrieved''" "length (rcSelectedIDs (cnW d)) \<le> 100"
    using D(2) unfolding on_record_def by blast
  have "{(''principal_id'', AStr (prID p)), (''operation'', AStr ''payload_read''),
         (''outcome'', AStr ''retrieved''), (''selected_event_ids'', AList (rcSelectedIDs (cnW d)))} \<subseteq> set line"
    using p(3) o by (simp add: line_def logLine_def)
  then show ?thesis using p v o s unfolding Let_def
    by (intro exI [of _ p] exI [of _ "rcSelectedIDs (cnW d)"] exI [of _ v] exI [of _ x] exI [of _ "cnLog d"] exI [of _ line]) simp
qed

theorem payload_reads_on_record_witness:
  "\<exists>mb p ids v b. let c = serveHTTP demoH demo_read ((demo_api (fst (demo_run ''ab'')) [])\<lparr>apMaxBody := mb\<rparr>) (snd (demo_run ''ab'')) in
     callerOf demoH ((demo_api (fst (demo_run ''ab'')) [])\<lparr>apMaxBody := mb\<rparr>) (snd (demo_run ''ab'')) demo_read = Some p
     \<and> wBody (cnW c) = RawBody b \<and> json_bytes demoH v = Some b \<and> set (disclosed v) \<subseteq> set ids"
proof -
  let ?s = "fst (demo_run ''ab'')" and ?w = "snd (demo_run ''ab'')"
  obtain mb where d: "discloses (cnW (serveHTTP demoH demo_read ((demo_api ?s [])\<lparr>apMaxBody := mb\<rparr>) ?w))"
    using demo_payload_read by blast
  obtain ns where "demo_ok ''ab'' ns ?s ?w" "length ns = 2"
    by (rule demo_facts [of "''ab''"]) (simp_all add: plain_char_def)
  then have "store_room ?s" using demo_room by simp
  then have "api_ok ((demo_api ?s [])\<lparr>apMaxBody := mb\<rparr>)" by (simp add: api_ok_def demo_api_def)
  note served = payload_reads_on_record [OF this demoH_polite d, unfolded Let_def]
  obtain p ids v b where "callerOf demoH ((demo_api ?s [])\<lparr>apMaxBody := mb\<rparr>) ?w demo_read = Some p"
      "wBody (cnW (serveHTTP demoH demo_read ((demo_api ?s [])\<lparr>apMaxBody := mb\<rparr>) ?w)) = RawBody b"
      "json_bytes demoH v = Some b" "set (disclosed v) \<subseteq> set ids"
    using served by (elim exE conjE)
  then show ?thesis unfolding Let_def by (intro exI [of _ mb] exI [of _ p] exI [of _ ids] exI [of _ v] exI [of _ b] conjI)
qed

section \<open>Authority\<close>

text \<open>The least role an endpoint asks for; the two health checks ask for none.\<close>

definition endpointRole :: "Endpoint \<Rightarrow> Role option" where
  "endpointRole ep = (case ep of EpLive \<Rightarrow> None | EpReady \<Rightarrow> None
     | EpRoot \<Rightarrow> Some RoleReader | EpEvents \<Rightarrow> Some RoleReader | EpEventPayloads \<Rightarrow> Some RoleReader | EpGetRef \<Rightarrow> Some RoleReader
     | EpAppend \<Rightarrow> Some RoleWriter | EpPutRef \<Rightarrow> Some RoleWriter
     | EpSnapshot \<Rightarrow> Some RoleAdmin | EpVerify \<Rightarrow> Some RoleAdmin | EpCheckRoot \<Rightarrow> Some RoleAdmin
     | EpGetCatalog \<Rightarrow> Some RoleOperator | EpInstallEntry \<Rightarrow> Some RoleOperator | EpRemoveEntry \<Rightarrow> Some RoleOperator)"

text \<open>A response that is an error with this status, a code, and a further header.\<close>

definition refusal :: "int \<Rightarrow> string \<Rightarrow> (string \<times> string) list \<Rightarrow> conn \<Rightarrow> bool" where
  "refusal st code hs c \<longleftrightarrow> wStatusLine (cnW c) = Some st \<and> (\<exists>m. wBody (cnW c) = JSONBody (JObj [(''error'', appErrorJSON code m)]))
     \<and> list_all (\<lambda>(k, v). map_of (wHeader (cnW c)) k = Some v) hs"

definition tooMany :: "conn \<Rightarrow> bool" where
  "tooMany = refusal 429 ''rate_limited'' [(''Retry-After'', ''60'')]"

lemma require_shape:
  assumes "endpointRole ep = Some m"
  obtains nxt where "serveEndpoint H ep = require H m nxt"
  using assms by (cases ep) (auto simp: endpointRole_def serveEndpoint_def requireMutation_def)

lemma refusal_writeError:
  "wStatusLine (cnW c) = None \<Longrightarrow> refusal st (codeString e) [] (writeError st (codeString e) (JStr m) c)"
  by (auto simp: refusal_def writeError_def writeJSON_def writing)

lemma refusal_header:
  "wStatusLine (cnW c) = None \<Longrightarrow> k \<noteq> ''Content-Type'' \<Longrightarrow>
   refusal st (codeString e) [(k, v)] (writeError st (codeString e) (JStr m) (setHeader k v c))"
  by (auto simp: refusal_def writeError_def writeJSON_def writing update_conv')

lemma refusal_log [simp]: "refusal st code hs (d\<lparr>cnLog := l\<rparr>) = refusal st code hs d"
  by (simp add: refusal_def)

lemma tooMany_writeRateLimit: "wStatusLine (cnW c) = None \<Longrightarrow> tooMany (writeRateLimit c)"
  using refusal_header [where k = "''Retry-After''" and e = ErrRateLimit and c = c]
  by (simp add: tooMany_def writeRateLimit_def codeString_def)

lemma refusal_served: "refusal st code hs (serveHTTP H r a w) = refusal st code hs (serveMux H r (begun a w))"
  by (simp add: serveHTTP_eq Let_def)

lemma call_limiter:
  "call H (failedAuthAllow k) bad ok c = (let f = limiterAllow (apFailedAuthLimiter (cnAPI c)) k (wall (cnWorld c));
     o2 = others H (cnCalls c) ((cnAPI c)\<lparr>apFailedAuthLimiter := snd f\<rparr>, cnWorld c)
     in ok (fst f) (c\<lparr>cnAPI := fst o2, cnWorld := snd o2, cnCalls := cnCalls c + 1\<rparr>))"
  "call H (requestAllow k) bad ok c = (let f = limiterAllow (apRequestLimiter (cnAPI c)) k (wall (cnWorld c));
     o2 = others H (cnCalls c) ((cnAPI c)\<lparr>apRequestLimiter := snd f\<rparr>, cnWorld c)
     in ok (fst f) (c\<lparr>cnAPI := fst o2, cnWorld := snd o2, cnCalls := cnCalls c + 1\<rparr>))"
  by (simp_all add: call_def failedAuthAllow_def requestAllow_def Let_def split: prod.split)

lemma denied:
  assumes "wStatusLine (cnW c) = None"
  shows "if fst (limiterAllow (apFailedAuthLimiter (cnAPI c)) ''failed-auth'' (wall (cnWorld c)))
     then refusal 401 ''permission_denied'' [(''Www-Authenticate'', ''Bearer realm=\"jaybase\"'')] (denyUnauthenticated H c)
     else tooMany (denyUnauthenticated H c)"
proof -
  let ?c = "setRequestPrincipal ''unauthenticated'' [] c"
  have c: "cnAPI ?c = cnAPI c" "cnWorld ?c = cnWorld c" "wStatusLine (cnW ?c) = None"
    using assms by (simp_all add: setRequestPrincipal_def onW_def)
  have k: "''permission_denied'' = codeString ErrPermission" by (simp add: codeString_def)
  show ?thesis unfolding denyUnauthenticated_def call_limiter c Let_def k
    by (simp add: c tooMany_writeRateLimit refusal_header)
qed

text \<open>
  C36. Access is decided before the handler runs. On every endpoint but the two health checks a request
  without valid credentials is refused with 401 and a challenge, or with 429 once the limit of failed
  attempts is reached; a caller over its own limit is refused with 429, and one without the role the
  endpoint asks for with 403.
\<close>

theorem access_decision:
  assumes "findRoute routes r = Some (ep, x)" "endpointRole ep = Some m"
  shows "let c = serveHTTP H r a w in
    (case callerOf H a w r of
       None \<Rightarrow> if fst (limiterAllow (apFailedAuthLimiter a) ''failed-auth'' (wall w))
               then refusal 401 ''permission_denied'' [(''Www-Authenticate'', ''Bearer realm=\"jaybase\"'')] c else tooMany c
     | Some p \<Rightarrow> if \<not> fst (limiterAllow (apRequestLimiter a) (prID p) (wall w)) then tooMany c
               else (\<not> roleSatisfies (prRole p) m) \<longrightarrow> refusal 403 ''permission_denied'' [] c)"
proof -
  obtain nxt where n: "serveEndpoint H ep = require H m nxt" using require_shape [OF assms(2)] .
  define r' where "r' = r\<lparr>rqPathValue := x\<rparr>"
  have co: "callerOf H a w r' = callerOf H a w r" by (simp add: r'_def callerOf_def bearer_def headerGet_def)
  have mux: "serveMux H r (begun a w) = require H m nxt r' (begun a w)"
    using assms(1) n by (simp add: serveMux_def r'_def)
  have k: "''permission_denied'' = codeString ErrPermission" by (simp add: codeString_def)
  show ?thesis
  proof (cases "callerOf H a w r")
    case None
    then have "serveMux H r (begun a w) = denyUnauthenticated H (begun a w)"
      unfolding mux require_callerOf begun_simps co by simp
    then show ?thesis using denied [where c = "begun a w" and H = H, OF begun_simps(3)] None
      unfolding Let_def refusal_served tooMany_def begun_simps by (simp only: option.case simp_thms begun_simps)
  next
    case (Some p)
    let ?c = "setRequestPrincipal (prID p) (roleString (prRole p)) (begun a w)"
    have c: "cnAPI ?c = a" "cnWorld ?c = w" "wStatusLine (cnW ?c) = None"
      by (simp_all add: setRequestPrincipal_def onW_def)
    show ?thesis unfolding Let_def refusal_served tooMany_def mux require_callerOf begun_simps co Some option.case call_limiter c
      by (simp add: c k refusal_writeError tooMany_writeRateLimit [unfolded tooMany_def])
  qed
qed

theorem access_decision_witness:
  "refusal 401 ''permission_denied'' [(''Www-Authenticate'', ''Bearer realm=\"jaybase\"'')]
     (serveHTTP demoH ((demo_request [''v1'', ''admin'', ''verify''] [])\<lparr>rqHeader := []\<rparr>) (demo_api0 demo_s0) demo_w0)
   \<and> refusal 403 ''permission_denied'' [] (serveHTTP demoH (demo_request [''v1'', ''admin'', ''verify''] []) (demo_api0 demo_s0) demo_w0)"
proof -
  let ?r = "demo_request [''v1'', ''admin'', ''verify''] []" and ?a = "demo_api0 demo_s0"
  have rt: "findRoute routes ?r = Some (EpVerify, [])" "findRoute routes (?r\<lparr>rqHeader := []\<rparr>) = Some (EpVerify, [])"
    by (simp_all add: demo_request_def routes_def methodMatches_def)
  have m: "endpointRole EpVerify = Some RoleAdmin" by (simp add: endpointRole_def)
  have "cutAt (CHR '' '') [] = ([], [], False)" by code_simp
  then have n: "callerOf demoH ?a demo_w0 (?r\<lparr>rqHeader := []\<rparr>) = None"
    by (simp add: callerOf_def bearer_def headerGet_def firstValue_def)
  have c: "callerOf demoH ?a demo_w0 ?r = Some alice" unfolding demo_api0_def by (rule demo_caller)
  have f: "fst (limiterAllow (apFailedAuthLimiter ?a) ''failed-auth'' (wall demo_w0))"
     "fst (limiterAllow (apRequestLimiter ?a) (prID alice) (wall demo_w0))"
    by (simp_all add: demo_api0_def demo_api_def limiterAllow_def newFixedWindowLimiter_def zeroWindow_def Let_def)
  have x: "\<not> roleSatisfies (prRole alice) RoleAdmin" unfolding alice_def by code_simp
  show ?thesis
    using access_decision [OF rt(1) m, of demoH ?a demo_w0] access_decision [OF rt(2) m, of demoH ?a demo_w0] n c f x
    by (simp add: Let_def)
qed

text \<open>
  C37. Nothing is changed without authority, when requests do not overlap: after any request the files, the
  store, the credentials and the settings are as before, or the request was one to append by a
  writer whose capability covers the event, one to move a ref by a writer whose capability covers
  the ref, one to change the catalog by an operator, or one for a snapshot by an administrator. The
  store only changes by the first of these and the catalog only by the third.
\<close>

theorem changes_need_authority:
  "let c = serveHTTP (solo H) r a w in
     ((at_start w (cnWorld c) \<and> same_config a (cnAPI c))
        \<or> append_authority H a w r \<or> ref_authority H a w r \<or> catalog_authority H a w r \<or> snapshot_authority H a w r)
     \<and> (apStore (cnAPI c) = apStore a \<or> append_authority H a w r)
     \<and> (apCatalog (cnAPI c) = apCatalog a \<or> catalog_authority H a w r)"
  using untouched_or_authority store_or_authority catalog_or_authority unfolding Let_def by blast

section \<open>Requests and the store\<close>



text \<open>
  C39. An event is appended exactly once however often its request is sent. Once a request has been answered
  with 201 and a hash, any later request of the same principal with the same idempotency key that
  succeeds, after any further operations, crashes and restarts, is answered with 200 and the same
  hash, and it changes neither the store nor a file.
\<close>

theorem http_append_exactly_once:
  assumes "golib_ok (hGo H)" "dir \<noteq> []" "store_reachable (hGo H) dir x" "smem x = Some (apStore a)" "sworld x = w"
    and "good_request H a w r" "findRoute routes r = Some (EpAppend, i)" "callerOf H a w r = Some p"
    and "c = serveHTTP (solo H) r a w" "wStatusLine (cnW c) = Some 201"
    and "wBody (cnW c) = JSONBody (JObj [(''hash'', JStr h), (''replayed'', JBool False), (''root'', JStr root)])"
    and "store_steps (hGo H) dir (x\<lparr>smem := Some (apStore (cnAPI c)), sworld := cnWorld c, acked := acked x @ [h]\<rparr>) z"
    and "smem z = Some (apStore a2)"
    and "findRoute routes r2 = Some (EpAppend, i2)" "callerOf H a2 (sworld z) r2 = Some p2"
    and "prID p2 = prID p" "idempotencyKey r2 = idempotencyKey r"
    and "c2 = serveHTTP (solo H) r2 a2 (sworld z)" "wStatusLine (cnW c2) \<in> {Some 200, Some 201}"
  shows "wStatusLine (cnW c2) = Some 200 \<and> apStore (cnAPI c2) = apStore a2 \<and> at_start (sworld z) (cnWorld c2)
    \<and> (\<exists>root2. wBody (cnW c2) = JSONBody (JObj [(''hash'', JStr h), (''replayed'', JBool True), (''root'', JStr root2)]))"
proof -
  have x: "at_state x a w" using assms(4,5) by (simp add: at_state_def)
  have "success (serveHTTP (solo H) r a w)" using assms(9,10) by (simp add: success_def)
  then obtain q canonical er v v' h' rep where ap: "append_behind H a w r c p q canonical er v v' h' rep"
    using appended_request [OF assms(7)] assms(8,9) by (metis option.inject)
  have "\<not> rep" using ap assms(10) by (cases rep) (simp_all add: append_behind_def)
  moreover have "h' = h" using ap assms(11) by (auto simp: append_behind_def)
  ultimately have ap: "append_behind H a w r c p q canonical er v v' h False" using ap by simp
  have ix: "requestIndex (apStore a2) (trimSpace (requestKey H p r))
      = Some \<lparr>rrHash = h, rrRequestHash = trimSpace (requestHashOf (hGo H) canonical)\<rparr>"
    using retry_behind [OF assms(1-3) x assms(6,8) ap assms(12,13)] .
  have "success (serveHTTP (solo H) r2 a2 (sworld z))" using assms(18,19) by (simp add: success_def)
  then obtain q2 canonical2 er2 v2 v2' h2 rep2 where
    ap2: "append_behind H a2 (sworld z) r2 c2 p2 q2 canonical2 er2 v2 v2' h2 rep2"
    using appended_request [OF assms(14)] assms(15,18) by (metis option.inject)
  have k: "requestKey H p2 r2 = requestKey H p r" using assms(16,17) by (simp add: requestKey_def)
  have run: "AppendIdempotent (hGo H) (apStore a2) (contextOf p2) (appendOptionsOf q2) er2 (requestKey H p r)
      (requestHashOf (hGo H) canonical2) v2 = (Inr (h2, rep2, apStore (cnAPI c2)), v2')"
    using ap2 k by (simp add: append_behind_def)
  have "h2 = h \<and> rep2 \<and> apStore (cnAPI c2) = apStore a2 \<and> v2' = v2"
    using run ix by (cases rule: idempotent_cases) auto
  then show ?thesis using ap2 at_start_trans by (auto simp: append_behind_def)
qed

theorem http_append_exactly_once_witness:
  "\<exists>h root2. let c = serveHTTP demoH demo_post (demo_api0 demo_s0) demo_w0;
       c2 = serveHTTP demoH demo_post (demo_api0 (apStore (cnAPI c))) (cnWorld c) in
     wStatusLine (cnW c) = Some 201 \<and> wStatusLine (cnW c2) = Some 200
     \<and> wBody (cnW c2) = JSONBody (JObj [(''hash'', JStr h), (''replayed'', JBool True), (''root'', JStr root2)])"
proof -
  let ?c = "serveHTTP (solo demoH) demo_post (demo_api0 demo_s0) demo_w0"
  obtain h where h: "wStatusLine (cnW ?c) = Some 201"
      "wBody (cnW ?c) = JSONBody (JObj [(''hash'', JStr h), (''replayed'', JBool False), (''root'', JStr h)])"
    by (rule demo_accepted) (simp add: Let_def)
  have rt: "findRoute routes demo_post = Some (EpAppend, [])" using demo_routes(1) by (simp add: demo_post_def)
  let ?x = "(demo_sys [])\<lparr>smem := Some (apStore (cnAPI ?c)), sworld := cnWorld ?c, acked := acked (demo_sys []) @ [h]\<rparr>"
  have s: "wStatusLine (cnW (serveHTTP (solo demoH) demo_post (demo_api0 (apStore (cnAPI ?c))) (sworld ?x))) \<in> {Some 200, Some 201}"
    using demo_replayed [of ?c h] h by (simp add: Let_def)
  have "golib_ok (hGo demoH)" "store_reachable (hGo demoH) demo_dir (demo_sys [])"
    "smem (demo_sys []) = Some (apStore (demo_api0 demo_s0))" using demoL_ok demo_disk0(1,2) by simp_all
  note * = http_append_exactly_once [OF this(1) demo_disk0(11) this(2,3) demo_disk0(3) demo_good rt demo_post_caller refl h
      store_steps.none _ rt demo_post_caller refl refl refl s]
  show ?thesis using * h by (auto simp: Let_def)
qed

section \<open>Progress\<close>

text \<open>
  C40. A request to append that is in order is accepted, when no call to the disk fails: sent by a writer within
  its limit, with a content type, an idempotency key that has not been used, a body that decodes to
  an event with a type and a payload that is JSON, covered by the caller's capability and the
  catalog, and with the current root as its expected root. It is answered with 201, and the event is the new root.
\<close>

theorem append_request_accepted:
  assumes "golib_ok (hGo H)" "codec_total (hGo H)" "dir \<noteq> []" "store_reachable (hGo H) dir x"
    and "smem x = Some (apStore a)" "sworld x = w"
    and "faults w = []" "store_dirs_made dir w" "aes_key (skey (apStore a))"
    and "rootval (fcontent w (rootPath dir)) = indexedRoot (apStore a)"
    and "good_request H a w r" "findRoute routes r = Some (EpAppend, i)"
    and "admitted H a w r RoleWriter p" "rootThere a w"
    and "append_in_order H a r p q canonical (indexedRoot (apStore a))"
    and "trimSpace (arType q) \<noteq> []" "json_raw (hGo H) (arPayload q) = Some raw"
    and "requestIndex (apStore a) (requestKey H p r) = None"
  shows "\<exists>h. let c = serveHTTP (solo H) r a w in wStatusLine (cnW c) = Some 201
    \<and> wBody (cnW c) = JSONBody (JObj [(''hash'', JStr h), (''replayed'', JBool False), (''root'', JStr h)])"
proof -
  obtain ns m k where i: "store_inv (hGo H) (apStore a) w ns m k" "sdir (apStore a) = dir"
    using reachable_store [OF assms(1,3-5)] assms(6) by blast
  have m: "m = length ns" using store_inv_root [OF i(1)] assms(10) i(2) by simp
  have inv: "store_inv (hGo H) (apStore a) w ns (length ns) k" using i(1) m by simp
  have t: "indexedRoot (apStore a) = tip ns" using inv indexed_root [of "apStore a" ns] by (simp add: store_inv_def)
  have ord: "may_append H a r p q" "json_request H q = Some canonical" "arExpectedRoot q = Some (tip ns)"
    using assms(15) t by (simp_all add: append_in_order_def)
  have g: "clean_request (contextOf p) (append_args H p r q canonical)"
      "fresh_address (hGo H) (apStore a) (contextOf p) (append_args H p r q canonical) (Some (tip ns)) w"
    using assms(11,13) ord unfolding good_request_def admitted_def by (auto simp: at_start_def)
  note g = g [unfolded append_args_def]
  have o: "trimSpace (oType (appendOptionsOf q)) \<noteq> []" "json_marshal (hGo H) (oPayload (appendOptionsOf q)) = Some raw"
    using assms(16,17) by (simp_all add: appendOptionsOf_def json_marshal_def)
  obtain h s' w' where run: "AppendIdempotent (hGo H) (apStore a) (contextOf p) (appendOptionsOf q) (tip ns) (requestKey H p r)
      (requestHashOf (hGo H) canonical) w = (Inr (h, False, s'), w')" and root: "CurrentRoot s' w' = (Inr h, w')"
    by (rule idempotent_succeeds [OF assms(1,2) inv assms(7) _ assms(9) _ _ assms(18) o g])
      (use assms(8) i(2) in \<open>auto simp: requestHashOf_hash requestKey_def\<close>)
  show ?thesis
    using request_answer [OF assms(12-14) assms(15)[unfolded t] run root] by (auto simp: Let_def)
qed

theorem append_request_accepted_witness:
  "\<exists>h. let c = serveHTTP demoH demo_post (demo_api0 demo_s0) demo_w0 in wStatusLine (cnW c) = Some 201
    \<and> wBody (cnW c) = JSONBody (JObj [(''hash'', JStr h), (''replayed'', JBool False), (''root'', JStr h)])"
proof -
  have rt: "findRoute routes demo_post = Some (EpAppend, [])" using demo_routes(1) by (simp add: demo_post_def)
  have adm: "admitted demoH (demo_api0 demo_s0) demo_w0 demo_post RoleWriter alice" "rootThere (demo_api0 demo_s0) demo_w0"
    using demo_admitted [of RoleWriter] by (simp_all add: demo_api0_def demo_post_def roleSatisfies_def rootThere_def)
  have o: "trimSpace (arType demo_q) \<noteq> []" "json_raw (hGo demoH) (arPayload demo_q) = Some ''{}''"
    using demo_clean(2) by (simp_all add: demo_q_def demoL_def)
  have "requestKey demoH alice demo_post = hash_bytes demoL (prID alice @ [CHR 0x00] @ idempotencyKey demo_post)"
    by (simp add: requestKey_def requestHashOf_hash)
  then have free: "requestIndex (apStore (demo_api0 demo_s0)) (requestKey demoH alice demo_post) = None"
    using demo_disk0(12) hash_trim(2) [OF demoL_ok] by auto
  have ord: "append_in_order demoH (demo_api0 demo_s0) demo_post alice demo_q (enc_append demo_q) (indexedRoot (apStore (demo_api0 demo_s0)))"
    using demo_in_order [of demo_s0] demo_disk0(8) by simp
  show ?thesis
    using append_request_accepted [of demoH demo_dir "demo_sys []" "demo_api0 demo_s0" demo_w0, OF _ _ demo_disk0(11) _ _ demo_disk0(3,4,5)
        _ _ demo_good rt adm ord o free]
      demo_disk0 demoL_ok by simp
qed

end
