(* ===== verification/MigrationCorrect.thy ===== *)
theory MigrationCorrect
  imports Confined StoreRun
begin

text \<open>
  What a migration that completes has done: the loop over the history copies event by event, the
  loop over the refs copies every ref, and the new directory holds a chain of its own.
\<close>

subsection \<open>The copy of one event\<close>

definition copy_of :: "golib \<Rightarrow> bytes \<Rightarrow> bytes \<Rightarrow> Node \<Rightarrow> Node \<Rightarrow> bool" where
  "copy_of L oldKey newKey n m \<longleftrightarrow> nType m = trimSpace (nType n) \<and> nEntityID m = trimSpace (nEntityID n)
     \<and> nCommand m = trimSpace (nCommand n) \<and> nActor m = nActor n \<and> nRole m = nRole n
     \<and> nRequestID m = nRequestID n \<and> nRequestHash m = nRequestHash n
     \<and> (\<exists>p raw. nodePayload L oldKey n = Inr p \<and> json_raw L p = Some raw \<and> nodePayload L newKey m = Inr raw)"

definition copied :: "golib \<Rightarrow> Store \<Rightarrow> bytes \<Rightarrow> world \<Rightarrow> string \<Rightarrow> Node \<Rightarrow> bool" where
  "copied L s newKey w h m \<longleftrightarrow> (\<exists>n. node_at L (sdir s) w h n \<and> copy_of L (skey s) newKey n m)"

text \<open>
  Every append of the loop is one the theorems on appending speak of: its text is UTF-8, and the
  address of the new node is free.
\<close>

fun good_copies :: "golib \<Rightarrow> Store \<Rightarrow> string list \<Rightarrow> Store \<Rightarrow> string \<Rightarrow> world \<Rightarrow> bool" where
  "good_copies L s [] t r w \<longleftrightarrow> True"
| "good_copies L s (h # hs) t r w \<longleftrightarrow> (case readNode L (sdir s) h w of (Inl e, w1) \<Rightarrow> True | (Inr node, w1) \<Rightarrow>
     (case nodePayload L (skey s) node of Inl e \<Rightarrow> True | Inr p \<Rightarrow>
        good_append L t (copyContext node) (copyOptions node p) (Some r) w1
        \<and> (case AppendAt L t (copyContext node) (copyOptions node p) r w1 of (Inl e, w2) \<Rightarrow> True
            | (Inr (h', t'), w2) \<Rightarrow> good_copies L s hs t' h' w2)))"

lemma node_from_start:
  assumes "inside d w0 I w" "\<not> within d (NodePath dir h)" "\<exists>n. node_at L dir w0 h n" "node_at L dir w h n"
  shows "node_at L dir w0 h n"
proof -
  have "fcontent w (NodePath dir h) = fcontent w0 (NodePath dir h)"
    using assms(1,2) keeps_fcontent unfolding inside_def by blast
  then show ?thesis using assms(3,4) by (auto simp: node_at_def)
qed

lemma copied_event:
  assumes "event_of L key (copyContext n) (copyOptions n p) root m" "nodePayload L old n = Inr p"
  shows "copy_of L old key n m"
  using event_of_fields [OF assms(1)] event_readable [OF assms(1)] assms(2)
  by (auto simp: copy_of_def copyOptions_def copyContext_def json_marshal_def)

lemma migrateNodes_copies:
  assumes ok: "golib_ok L" and far: "\<And>h. \<not> within D (NodePath (sdir s) h)"
  shows "sys_inv L D \<lparr>smem = Some t, sworld = w, acked = as\<rparr> ns (length ns) \<Longrightarrow> good_copies L s hs t (tip ns) w \<Longrightarrow>
    inside D w0 I w \<Longrightarrow> (\<And>h. h \<in> set hs \<Longrightarrow> \<exists>n. node_at L (sdir s) w0 h n) \<Longrightarrow>
    migrateNodes L s hs t m (tip ns) w = ((Inr (m', r'), t'), w') \<Longrightarrow>
    \<exists>ms. sys_inv L D \<lparr>smem = Some t', sworld = w', acked = as @ map nHash ms\<rparr> (ns @ ms) (length (ns @ ms))
      \<and> r' = tip (ns @ ms) \<and> list_all2 (copied L s (skey t) w0) hs ms \<and> m' = m(hs [\<mapsto>] map nHash ms)
      \<and> skey t' = skey t \<and> inside D w0 I w'"
proof (induction hs arbitrary: t w as ns m)
  case Nil
  then show ?case by (intro exI [of _ "[]"]) auto
next
  case (Cons h hs)
  let ?m = "io_bind (readNode L (sdir s) h) (\<lambda>node. io_bind (io_lift (nodePayload L (skey s) node)) (\<lambda>payload.
      AppendAt L t (copyContext node) (copyOptions node payload) (tip ns)))"
  obtain x w2 where x: "?m w = (x, w2)" by (cases "?m w")
  obtain h' u where y: "x = Inr (h', u)" using Cons.prems(5) x by (cases x) auto
  obtain n w1 p where n: "readNode L (sdir s) h w = (Inr n, w1)" "nodePayload L (skey s) n = Inr p"
    "AppendAt L t (copyContext n) (copyOptions n p) (tip ns) w1 = (Inr (h', u), w2)"
    using x y by (auto simp: io_iffs)
  have g: "good_append L t (copyContext n) (copyOptions n p) (Some (tip ns)) w1" "good_copies L s hs u h' w2"
    using Cons.prems(2) n by simp_all
  note rd = readNode_Inr [OF n(1)]
  let ?x = "\<lparr>smem = Some t, sworld = w1, acked = as\<rparr>"
  have i1: "sys_inv L D ?x ns (length ns)"
    using sys_inv_quiet [OF Cons.prems(1), of w1] rd at_start_quiet by simp
  obtain nm where nm: "sys_inv L D (?x\<lparr>smem := Some u, sworld := w2, acked := acked ?x @ [h']\<rparr>) (ns @ [nm]) (Suc (length ns))"
      "event_of L (skey t) (copyContext n) (copyOptions n p) (tip ns) nm" "h' = nHash nm"
    using sys_inv_append_ok [OF ok i1, of t "copyContext n" "copyOptions n p" "Some (tip ns)" h' u w2] g(1) n(3)
    by (auto simp: AppendAt_def)
  have sd: "sdir t = D" using Cons.prems(1) by (simp add: sys_inv_def)
  have cm: "confined D I ?m" using sd by (intro confined_intros) (simp add: within_def)
  have i2: "inside D w0 I w2" by (rule confinedD [OF cm Cons.prems(3) x])
  have tp: "tip (ns @ [nm]) = h'" using nm(3) by (simp add: tip_def)
  have ix: "sys_inv L D \<lparr>smem = Some u, sworld = w2, acked = as @ [h']\<rparr> (ns @ [nm]) (length (ns @ [nm]))" using nm(1) by simp
  have ru: "migrateNodes L s hs u (m(h \<mapsto> h')) (tip (ns @ [nm])) w2 = ((Inr (m', r'), t'), w')"
    using Cons.prems(5) x y tp by simp
  have gh: "good_copies L s hs u (tip (ns @ [nm])) w2" using g(2) tp by simp
  have na: "\<exists>n. node_at L (sdir s) w0 h n" if "h \<in> set hs" for h using Cons.prems(4) that by simp
  obtain ms where ms: "sys_inv L D \<lparr>smem = Some t', sworld = w', acked = (as @ [h']) @ map nHash ms\<rparr> ((ns @ [nm]) @ ms) (length ((ns @ [nm]) @ ms))"
      "r' = tip ((ns @ [nm]) @ ms)" "list_all2 (copied L s (skey u) w0) hs ms" "m' = (m(h \<mapsto> h'))(hs [\<mapsto>] map nHash ms)"
      "skey t' = skey u" "inside D w0 I w'"
    using Cons.IH [OF ix gh i2 na ru] by blast
  have k: "skey u = skey t" using append_dir [OF n(3)] by simp
  have "node_at L (sdir s) w0 h n"
    using node_from_start [OF Cons.prems(3) far] Cons.prems(4) rd by simp
  then have "copied L s (skey t) w0 h nm" using copied_event [OF nm(2) n(2)] by (auto simp: copied_def)
  then show ?case using ms k nm(3) by (intro exI [of _ "nm # ms"]) simp
qed

subsection \<open>The copy of the refs\<close>

definition ref_copied :: "Store \<Rightarrow> path \<Rightarrow> (string \<rightharpoonup> string) \<Rightarrow> world \<Rightarrow> world \<Rightarrow> string \<Rightarrow> bool" where
  "ref_copied s D m w0 w name \<longleftrightarrow> (\<exists>raw h. fcontent w0 (sdir s @ [''refs'', ''named'', name]) = Some raw
     \<and> m (trimSpace raw) = Some h \<and> durable w (namedPath D (trimSpace name)) (trimSpace h @ newline))"

lemma durable_keeps: "durable w p b \<Longrightarrow> keeps p w w' \<Longrightarrow> durable w' p b"
  by (rule keeps_after_crash)

lemma migrateRefs_copies:
  assumes far: "\<And>n. \<not> within D (sdir s @ [''refs'', ''named'', n])"
  shows "sys_inv L D \<lparr>smem = Some t, sworld = w, acked = as\<rparr> ns k \<Longrightarrow> inside D w0 I w \<Longrightarrow>
    list_all (\<lambda>(name, b). plain_name name) es \<Longrightarrow> migrateRefs L s t m es w = (Inr c, w') \<Longrightarrow>
    sys_inv L D \<lparr>smem = Some t, sworld = w', acked = as\<rparr> ns k \<and> inside D w0 I w' \<and> c = length es
    \<and> (\<forall>(name, b) \<in> set es. b \<and> ref_copied s D m w0 w' name)
    \<and> (\<forall>name v. plain_name name \<longrightarrow> durable w (namedPath D (trimSpace name)) v \<longrightarrow> trimSpace v \<noteq> [] \<longrightarrow>
         durable w' (namedPath D (trimSpace name)) v)"
proof (induction es arbitrary: w c)
  case Nil
  then show ?case by simp
next
  case (Cons e es)
  obtain name b where e: "e = (name, b)" by (cases e)
  have pn: "plain_name name" using Cons.prems(3) e by simp
  obtain raw w1 h w2 c' where b: b and r: "readFile (sdir s @ [''refs'', ''named'', name]) w = (Inr raw, w1)"
    "m (trimSpace raw) = Some h" "WriteNamedRefAt L t name h [] w1 = (Inr (), w2)"
    "migrateRefs L s t m es w2 = (Inr c', w')" "c = Suc c'"
    using Cons.prems(4) by (auto simp: e io_iffs split: if_splits option.splits)
  have a1: "at_start w w1" and rf: "fcontent w (sdir s @ [''refs'', ''named'', name]) = Some raw"
    using readFile_Inr [OF r(1)] by simp_all
  have sd: "sdir t = D" and la: "lock_alone D w" using Cons.prems(1) by (simp_all add: sys_inv_def)
  show ?case
    using r(3)
  proof (cases rule: WriteNamedRefAt_cases)
    case (refused e)
    then show ?thesis by simp
  next
    case (matched v)
    have av: "at_start w v" using at_start_trans [OF a1 matched(1)] .
    have iv: "sys_inv L D \<lparr>smem = Some t, sworld = w2, acked = as\<rparr> ns k"
      using sys_inv_ref [OF Cons.prems(1) _ pn, of t v] av matched(3) by simp
    have lv: "lock_alone (sdir t) v" using lock_alone_quiet [OF at_start_quiet [OF av] la] sd by simp
    note fr = writeNamedRef_frame [OF matched(3) pn lv, unfolded sd]
    have "confined D I (readFile q)" "confined D I (WriteNamedRefAt L t name h [])" for q
      using sd by (auto intro!: confined_intros simp: within_def)
    then have i2: "inside D w0 I w2" using confinedD Cons.prems(2) r(1,3) by metis
    have p2: "list_all (\<lambda>(name, b). plain_name name) es" using Cons.prems(3) by simp
    have fin: "sys_inv L D \<lparr>smem = Some t, sworld = w', acked = as\<rparr> ns k" "inside D w0 I w'" "c' = length es"
      "\<forall>(name, b) \<in> set es. b \<and> ref_copied s D m w0 w' name"
      and keep: "plain_name nm \<Longrightarrow> durable w2 (namedPath D (trimSpace nm)) x \<Longrightarrow> trimSpace x \<noteq> [] \<Longrightarrow>
         durable w' (namedPath D (trimSpace nm)) x" for nm x
      using Cons.IH [OF iv i2 p2 r(4)] by blast+
    have dur: "durable w2 (namedPath D (trimSpace name)) (trimSpace h @ newline)" using fr(4) by blast
    have vh: "valid_hash (trimSpace h)" using fr(4) by (auto simp: node_at_def)
    have hn: "trimSpace (trimSpace h @ newline) \<noteq> []"
      using rootval_newline [OF vh] vh by (cases "trimSpace h = []") (auto simp: rootval_def)
    have kp: "keeps (sdir s @ [''refs'', ''named'', name]) w0 w" using Cons.prems(2) far [of name] by (simp add: inside_def)
    have "fcontent w0 (sdir s @ [''refs'', ''named'', name]) = Some raw" using rf keeps_fcontent [OF kp] by simp
    then have rc: "ref_copied s D m w0 w' name"
      using r(2) keep [OF pn dur hn] by (auto simp: ref_copied_def)
    have old: "durable w' (namedPath D (trimSpace nm)) x"
      if "plain_name nm" "durable w (namedPath D (trimSpace nm)) x" "trimSpace x \<noteq> []" for nm x
    proof (rule keep [OF that(1) _ that(3)])
      have ne: "trimSpace nm \<noteq> trimSpace name"
      proof
        assume "trimSpace nm = trimSpace name"
        then have "fcontent w1 (namedPath D (trimSpace name)) = Some x"
          using that(2) durable_live at_start_fcontent [OF a1] by simp
        then show False using matched(2) that(3) sd by (simp add: refValue_def rootval_def)
      qed
      have "trimSpace nm \<noteq> ''.''" using that(1) by (simp add: plain_name_def)
      then have "namedPath D (trimSpace nm) \<noteq> namedPath D (trimSpace name)" using ne namedPath_inj by blast
      then have "keeps (namedPath D (trimSpace nm)) v w2" using fr(3) plain_name_path [OF that(1)] by blast
      then show "durable w2 (namedPath D (trimSpace nm)) x"
        using durable_keeps [OF durable_keeps [OF that(2) at_start_keeps [OF av]]] by blast
    qed
    show ?thesis using fin b rc r(5) old by (auto simp: e)
  qed
qed


lemma migrateRefs_regular: "migrateRefs L s t m es w = (Inr c, w') \<Longrightarrow> (name, b) \<in> set es \<Longrightarrow> b"
  by (induction es arbitrary: w c) (auto simp: io_iffs split: if_splits option.splits)

subsection \<open>The whole migration\<close>

text \<open>No file is below the directory, and none can come up there in a crash.\<close>

definition unused :: "path \<Rightarrow> world \<Rightarrow> bool" where
  "unused d w \<longleftrightarrow> (\<forall>p. within d p \<longrightarrow> crash_ents w p = {None})"

lemma unused_disk_inv:
  assumes "unused D w" "crash_ents w' = crash_ents w" "map_of (ents w') = map_of (ents w)" "rootPath D \<notin> set (dirs w')"
  shows "disk_inv L D w' [] 0" "lock_alone D w'"
proof -
  have u: "crash_ents w' (D @ q) = {None}" for q using assms(1,2) by (simp add: unused_def)
  have c: "crash_ents w' (rootPath D) = {None}" "crash_ents w' (lockPath D) = {None}"
    using u by (simp_all add: rootPath_def lockPath_def)
  have "map_of (ents w') (rootPath D) \<in> crash_ents w' (rootPath D)" by (simp add: crash_ents_def)
  then have "map_of (ents w') (rootPath D) = None" using c(1) by simp
  then show "disk_inv L D w' [] 0"
    using assms(4) c by (simp add: disk_inv_def unique_requests_def fcontent_def rootval_def after_crash_def)
  show "lock_alone D w'" using c by (simp add: lock_alone_def)
qed

lemma makeDestination_views:
  assumes "makeDestination D w = (Inr (), w')" "D \<noteq> []"
  shows "ents w' = ents w" "dents w' = dents w" "dlog w' = dlog w" "rootPath D \<notin> set (dirs w) \<Longrightarrow> rootPath D \<notin> set (dirs w')"
proof -
  obtain w1 where m: "mkdirAll (butlast D) w = (Inr (), w1)" "osMkdir D w1 = (Inr (), w')"
  proof -
    obtain w1 r w2 where "mkdirAll (butlast D) w = (Inr (), w1)" and r: "io_try (osMkdir D) w1 = (Inr r, w2)"
      "(case r of Inl e \<Rightarrow> if e = OsError EEXIST then io_fail (appErr ErrConflict ''destination already exists'' []) else io_fail e
         | Inr _ \<Rightarrow> io_ret ()) w2 = (Inr (), w')"
      using assms(1) unfolding makeDestination_def io_bind_Inr_iff by auto
    moreover have "\<exists>u. r = Inr u" "w' = w2" using r(2) by (cases r; auto split: if_splits)+
    ultimately show ?thesis using that by (auto simp: io_try_def split: prod.splits)
  qed
  note v = mkdirAll_views [OF m(1)]
  have s: "ents w' = ents w1" "dents w' = dents w1" "dlog w' = dlog w1" "set (dirs w') \<subseteq> insert D (set (dirs w1))"
    using m(2) by (auto simp: osMkdir_def syscall_def setDir_def split: list.splits option.splits if_splits)
  show "ents w' = ents w" "dents w' = dents w" "dlog w' = dlog w" using s v by simp_all
  have "length (take k (butlast D)) < length (rootPath D)" for k by (simp add: rootPath_def)
  then have "rootPath D \<noteq> take k (butlast D)" for k by (metis less_irrefl)
  then have "rootPath D \<notin> {take k (butlast D) | k. True}" by blast
  moreover have "rootPath D \<noteq> D" by (simp add: rootPath_def)
  ultimately show "rootPath D \<notin> set (dirs w) \<Longrightarrow> rootPath D \<notin> set (dirs w')" using s(4) v(5) by blast
qed

lemma opened_key: "OpenStoreWithDataKey L pid d key w = (Inr t, w') \<Longrightarrow> d \<noteq> [] \<Longrightarrow> decodeKey (trimSpace key) = Inr (skey t)"
  by (auto simp: OpenStoreWithDataKey_def openStore_def openLocked_def explicitKey_def io_iffs dest!: rebuilt_dir split: if_splits)

lemma within_disjoint:
  assumes "\<not> within d e" "\<not> within e d" shows "\<not> within d (e @ p)"
proof
  assume "within d (e @ p)"
  then obtain q where q: "e @ p = d @ q" unfolding within_def by (metis append_take_drop_id)
  then obtain us where "d @ us = e \<or> d = e @ us" by (metis append_eq_append_conv2)
  then show False using assms by (auto simp: within_def)
qed

text \<open>The start of a migration: the checks, the empty directory, and the store opened in it.\<close>

definition migrationStart :: "golib \<Rightarrow> string \<Rightarrow> path \<Rightarrow> Store \<Rightarrow> string \<Rightarrow> string \<Rightarrow> Store io" where
  "migrationStart L pid cwd s dest key =
     io_bind (checkMigration cwd s dest) (\<lambda>(D, sr). io_bind (makeDestination D) (\<lambda>_. OpenStoreWithDataKey L pid D key))"

lemma MigrateDataKey_complete:
  assumes "MigrateDataKey L pid cwd s dest key w = ((info, es), w')" "kmHashMap info = Some hm"
  obtains D sr w1 w2 t w3 d w4 c where "checkMigration cwd s dest w = (Inr (D, sr), w1)" "makeDestination D w1 = (Inr (), w2)"
    "OpenStoreWithDataKey L pid D key w2 = (Inr t, w3)" "copyStore L s sr t w3 = ((Inr info, d), w4)"
    "closing d w4 = (c, w')" "es = (case c of Inl e \<Rightarrow> [Wrapped ''close completed destination store %s: %w'' [pathString D] e] | Inr _ \<Rightarrow> [])"
proof -
  let ?pre = "io_bind (checkMigration cwd s dest) (\<lambda>(destinationAbs, sourceRoot).
           io_bind (makeDestination destinationAbs) (\<lambda>_. io_ret (destinationAbs, sourceRoot)))"
  have ab: False if "abandon D o2 e v = ((info, es), w')" for D o2 e v
    using abandon_removes(1) [OF that] assms(2) by (simp add: zeroMigrationInfo_def)
  obtain x w2 where x: "?pre w = (x, w2)" by (cases "?pre w")
  show ?thesis
  proof (cases x)
    case (Inl e)
    then show ?thesis using assms x by (auto simp: MigrateDataKey_def migrateDataKey_def zeroMigrationInfo_def)
  next
    case (Inr y)
    obtain D sr where y: "y = (D, sr)" by (cases y)
    obtain w1 where a: "checkMigration cwd s dest w = (Inr (D, sr), w1)" "makeDestination D w1 = (Inr (), w2)"
      using x Inr y by (auto simp: io_iffs)
    obtain tt w3 where t: "OpenStoreWithDataKey L pid D key w2 = (tt, w3)" by (cases "OpenStoreWithDataKey L pid D key w2")
    show ?thesis
    proof (cases tt)
      case (Inl e)
      then show ?thesis using assms(1) x Inr y t ab by (auto simp: MigrateDataKey_def migrateDataKey_def)
    next
      case t': (Inr t)
      obtain r d w4 where c: "copyStore L s sr t w3 = ((r, d), w4)" by (metis prod.collapse)
      show ?thesis
      proof (cases r)
        case (Inl e)
        then show ?thesis using assms(1) x Inr y t t' c ab by (auto simp: MigrateDataKey_def migrateDataKey_def)
      next
        case i: (Inr i)
        obtain cl w5 where cl: "closing d w4 = (cl, w5)" by (cases "closing d w4")
        have "i = info" "w5 = w'" "es = (case cl of Inl e \<Rightarrow> [Wrapped ''close completed destination store %s: %w'' [pathString D] e] | Inr _ \<Rightarrow> [])"
          using assms(1) x Inr y t t' c i cl by (auto simp: MigrateDataKey_def migrateDataKey_def split: sum.splits)
        then show ?thesis using that [OF a t [unfolded t']] c i cl by blast
      qed
    qed
  qed
qed

end
