(* ===== verification/MigrationDemo.thy ===== *)
theory MigrationDemo imports MigrationCorrect DemoStore
begin

text \<open>
  A migration on the concrete store of DemoStore: the store with one event is copied to
  \<^verbatim>\<open>/copy\<close> under a key of its own. The witnesses of MigrationProperties use this run.
\<close>

subsection \<open>What an append leaves alone\<close>

lemma childNames_mem: "n \<in> set (childNames w p) \<longleftrightarrow> p @ [n] \<in> set (dirs w @ map fst (ents w))"
proof -
  have "(q \<noteq> [] \<and> butlast q = p \<and> last q = n) \<longleftrightarrow> q = p @ [n]" for q
    using append_butlast_last_id [of q] by auto
  moreover have "n \<in> set (childNames w p) \<longleftrightarrow> (\<exists>q \<in> set (dirs w @ map fst (ents w)). q \<noteq> [] \<and> butlast q = p \<and> last q = n)"
    unfolding childNames_def set_sort set_remdups set_map set_filter by blast
  ultimately show ?thesis by metis
qed

lemma prepare_locks: "prepareNode L s ctx opts er w = (r, w') \<Longrightarrow> flocks w' = flocks w"
proof -
  assume r: "prepareNode L s ctx opts er w = (r, w')"
  have c: "flocks v' = flocks v" if "currentRoot (sdir s) v = (x, v')" for x v v'
    using at_start_views(7) [OF reads_run [OF reads_currentRoot that]] .
  have t: "flocks v' = flocks v" if "storeNow s v = (x, v')" for x v v'
    using that by (auto simp: storeNow_def readClock_def io_defs)
  have e: "flocks v' = flocks v" if "encryptPayload L k b v = (x, v')" for x k b v v'
    using that by (cases x) (auto simp: encryptPayload_def io_iffs readRandom_def syscall_def split: if_splits list.splits option.splits)
  show ?thesis
    using r c
    by (cases r) (auto simp: prepareNode_def Let_def io_iffs split: if_splits option.splits dest!: c t e)
qed

lemma append_elsewhere:
  assumes ok: "golib_ok L" and fr: "fresh_address L s ctx opts er w" and run: "append L s ctx opts er w = (Inr (h, s'), w')"
  shows "flocks w' = flocks w" and "butlast q \<notin> {butlast (rootPath (sdir s)), butlast (NodePath (sdir s) h)} \<Longrightarrow> keeps q w w'"
proof -
  obtain n w1 w2 where p: "prepareNode L s ctx opts er w = (Inr n, w1)"
    and b: "publishNode L s n w1 = (Inr (), w2)"
    and r: "atomicWriteFile (rootPath (sdir s)) (nHash n @ newline) 0x180 w2 = (Inr (), w')" and h: "h = nHash n"
    using run by (auto simp: append_def io_iffs)
  have v: "valid_hash (nHash n)" using prepareNode_Inr [OF ok p] event_of_hash(1) [OF ok] by blast
  have ne: "rootPath (sdir s) \<noteq> tmp_of ''.jaybase-write-'' w2 (rootPath (sdir s))"
    using app_path_not_tmp [OF app_path_rootPath, of "sdir s" w2 "butlast (rootPath (sdir s))" "''write-''"] by (simp add: tmp_of_def)
  let ?p = "NodePath (sdir s) (nHash n)"
  obtain st v1 where st: "statFile ?p w1 = (st, v1)" by (cases "statFile ?p w1")
  have v1: "at_start w1 v1" using reads_run [OF reads_basic(5) st] .
  consider "w2 = v1" | c where "atomicCreateFile ?p c 0x180 v1 = (Inr (), w2)"
    using b st by (auto simp: publishNode_def io_defs split: sum.splits if_splits option.splits)
  then have m: "flocks w2 = flocks w1 \<and> (butlast q \<noteq> butlast ?p \<longrightarrow> keeps q w1 w2)"
  proof cases
    case 1
    then show ?thesis using at_start_views(7) [OF v1] at_start_keeps [OF v1] by simp
  next
    case (2 c)
    have "?p \<noteq> tmp_path v1 (butlast ?p) ''.jaybase-node-''" using NodePath_not_tmp [OF v] by blast
    note post = atomicCreateFile_post [OF this 2]
    have "butlast (tmp_path v1 (butlast ?p) ''.jaybase-node-'') = butlast ?p" by (simp add: tmp_path_def butlast_append)
    then have "butlast q \<noteq> butlast ?p \<Longrightarrow> keeps q v1 w2" using post unfolding create_post_def by metis
    moreover have "flocks w2 = flocks v1" using post by (simp add: create_post_def same_env_def)
    ultimately show ?thesis using at_start_views(7) [OF v1] at_start_keeps [OF v1] keeps_trans by metis
  qed
  show "flocks w' = flocks w" using wf.put_env [OF ne r] m prepare_locks [OF p] by (simp add: same_env_def)
  assume q: "butlast q \<notin> {butlast (rootPath (sdir s)), butlast (NodePath (sdir s) h)}"
  have bt: "butlast (tmp_of ''.jaybase-write-'' w2 (rootPath (sdir s))) = butlast (rootPath (sdir s))"
    by (simp add: tmp_of_def tmp_path_def butlast_append)
  have "keeps q w2 w'" using q bt by (intro wf.put_frame [OF ne r]) auto
  moreover have "keeps q w1 w2" using m q h by blast
  ultimately show "keeps q w w'" using quiet_keeps [OF prepareNode_quiet [OF p]] keeps_trans by metis
qed

lemma demo_open_disk: "ents demo_w0 = [(lockPath demo_dir, 1)]" "map_of (flocks demo_w0) p \<noteq> None \<longleftrightarrow> p = lockPath demo_dir"
    "set (dirs demo_w0) \<subseteq> insert [] (store_dirs demo_dir)" "demo_dir @ [''refs'', ''named''] \<in> set (dirs demo_w0)"
proof -
  have n: "demo_key \<noteq> []" by (simp add: demo_key_def)
  have "\<forall>q \<in> store_dirs [''db'']. q \<noteq> [''db'', ''.writer.lock'']" using demo_store_dirs by auto
  then have "\<exists>s w. demo_open = (Inr s, w) \<and> ents w = [(lockPath demo_dir, 1)] \<and> flocks w = [(lockPath demo_dir, 3)]
      \<and> demo_dir @ [''refs'', ''named''] \<in> set (dirs w)"
  by (simp add: demo_open_def OpenStoreWithDataKey_def openStore_def demo_dir_def makeDirs_def
      mkdirAll_def chmodDir_def demo_world_def syscall_def io_defs Let_def acquireStoreLock_def openLockFile_def
      lockPath_def flockEx_def fileTruncate_def fileWrite_def fileSync_def set_inode_def openLocked_def
      explicitKey_def demo_key_decodes n rebuildIndexes_def currentRoot_def readFile_def rootPath_def fcontent_def
      setDir_def nodesFromRoot_def clear_indexes_def checkHead_def NodePath_def upt_rec fresh_ino_def)
  then have d: "ents demo_w0 = [(lockPath demo_dir, 1)]" "flocks demo_w0 = [(lockPath demo_dir, 3)]"
      "demo_dir @ [''refs'', ''named''] \<in> set (dirs demo_w0)"
    unfolding demo_w0_def by (metis snd_conv)+
  show "ents demo_w0 = [(lockPath demo_dir, 1)]" "map_of (flocks demo_w0) p \<noteq> None \<longleftrightarrow> p = lockPath demo_dir"
    "demo_dir @ [''refs'', ''named''] \<in> set (dirs demo_w0)"
    using d by simp_all
  have e: "lock_alone demo_dir demo_world" by (rule disk_inv_empty(2); simp add: demo_world_def rootPath_def demo_dir_def)
  have o: "openStore demoL ''42'' demo_dir demo_key True demo_world = (Inr demo_s0, demo_w0)"
    using demo_s0_w0(1) by (simp add: demo_open_def OpenStoreWithDataKey_def)
  have ne: "demo_dir \<noteq> []" by (simp add: demo_dir_def)
  have "set (dirs demo_w0) \<subseteq> set (dirs demo_world) \<union> store_dirs demo_dir"
    using opensD [OF opens_openStore [OF ne] e o] by (simp add: open_frame_def)
  then show "set (dirs demo_w0) \<subseteq> insert [] (store_dirs demo_dir)" by (simp add: demo_world_def)
qed


text \<open>The store with the event \<open>a\<close>, and a migration of it to \<^verbatim>\<open>/copy\<close>.\<close>

definition demo_sa :: Store where "demo_sa = fst (demo_run ''a'')"

definition demo_wa :: world where "demo_wa = snd (demo_run ''a'')"

definition copy_dir :: path where "copy_dir = [''/'', ''copy'']"

lemma copy_dir_abs: "copy_dir = absOf [''/''] (toPath (trimSpace ''/copy''))"
  by code_simp

lemma demo_a:
  "\<exists>n. demo_ok ''a'' [n] demo_sa demo_wa \<and> nHash n = demo_hash (CHR ''a'')
    \<and> nType n = ''note.added'' \<and> nEntityID n = ''e1'' \<and> nCommand n = ''create'' \<and> nRequestHash n = replicate 31 (CHR ''a'')"
  "dirs demo_wa = dirs demo_w0" "flocks demo_wa = flocks demo_w0"
  "butlast q \<notin> {butlast (rootPath demo_dir), butlast (NodePath demo_dir (demo_hash (CHR ''a'')))} \<Longrightarrow> keeps q demo_w0 demo_wa"
proof -
  have sd: "sdir demo_s0 = demo_dir" using demo_start by (simp add: demo_ok_def)
  obtain n s w where a: "append demoL demo_s0 demo_ctx (demo_opts (CHR ''a'')) None demo_w0 = (Inr (demo_hash (CHR ''a''), s), w)"
     "demo_ok ([] @ [CHR ''a'']) ([] @ [n]) s w" "event_of demoL (skey demo_s0) demo_ctx (demo_opts (CHR ''a'')) (tip []) n"
     "good_append demoL demo_s0 demo_ctx (demo_opts (CHR ''a'')) None demo_w0"
    using demo_append_ok [OF demo_start, of "CHR ''a''" None] by (auto simp: plain_char_def)
  have e: "s = demo_sa" "w = demo_wa"
    using a(1) by (simp_all add: demo_sa_def demo_wa_def demo_run_def demo_append_def)
  have fr: "fresh_address demoL demo_s0 demo_ctx (demo_opts (CHR ''a'')) None demo_w0" using a(4) by (simp add: good_append_def)
  have "trimSpace ''note.added'' = ''note.added''" "trimSpace ''e1'' = ''e1''" "trimSpace ''create'' = ''create''" by code_simp+
  then have "nType n = ''note.added'' \<and> nEntityID n = ''e1'' \<and> nCommand n = ''create'' \<and> nRequestHash n = replicate 31 (CHR ''a'')"
    using event_of_fields [OF a(3)] by (simp add: demo_opts_def)
  moreover have hn: "nHash n = demo_hash (CHR ''a'')"
    by (rule demo_event_hash [OF a(3)]) (simp_all add: demo_opts_def plain_char_def)
  ultimately show "\<exists>n. demo_ok ''a'' [n] demo_sa demo_wa \<and> nHash n = demo_hash (CHR ''a'')
    \<and> nType n = ''note.added'' \<and> nEntityID n = ''e1'' \<and> nCommand n = ''create'' \<and> nRequestHash n = replicate 31 (CHR ''a'')"
    using a(2) e hn by (intro exI [of _ n]) simp
  show "dirs demo_wa = dirs demo_w0" "flocks demo_wa = flocks demo_w0"
    "butlast q \<notin> {butlast (rootPath demo_dir), butlast (NodePath demo_dir (demo_hash (CHR ''a'')))} \<Longrightarrow> keeps q demo_w0 demo_wa"
    using e append_keeps(1) [OF demoL_ok fr a(1)] append_elsewhere [OF demoL_ok fr a(1)] sd by simp_all
qed

lemma unused_copy_dir: "unused copy_dir demo_wa"
proof -
  have c0: "confined demo_dir {} (OpenStoreWithDataKey demoL ''42'' demo_dir demo_key)"
    by (intro confined_intros) (simp_all add: within_def demo_dir_def)
  have w: "demo_open = (Inr demo_s0, demo_w0)" by (rule demo_s0_w0(1))
  have cw: "crash_ents demo_world p = {None}" for p by (auto simp: demo_world_def crash_ents_def)
  then have "inside demo_dir demo_world {} demo_world" by (intro inside_start)
  then have i0: "inside demo_dir demo_world {} demo_w0" using confinedD [OF c0] w by (auto simp: demo_open_def)
  have ne: "butlast q \<noteq> butlast (rootPath demo_dir)" "butlast q \<noteq> butlast (NodePath demo_dir h)" "\<not> within demo_dir q"
    if "within copy_dir q" for q h
  proof -
    have "\<exists>r. q = ''/'' # ''copy'' # r" using that unfolding within_def copy_dir_def by (cases q; cases "tl q") auto
    then show "butlast q \<noteq> butlast (rootPath demo_dir)" "butlast q \<noteq> butlast (NodePath demo_dir h)" "\<not> within demo_dir q"
      by (auto simp: rootPath_def demo_dir_def within_def)
  qed
  have k: "keeps q demo_w0 demo_wa" if "within copy_dir q" for q
    using demo_a(4) ne [OF that] by blast
  have "keeps q demo_world demo_w0" if "within copy_dir q" for q
    using i0 ne(3) [OF that] unfolding inside_def by blast
  then have "keeps q demo_world demo_wa" if "within copy_dir q" for q using k that keeps_trans by blast
  then have u: "crash_ents demo_wa q \<subseteq> {None}" if "within copy_dir q" for q
    using that cw [of q] unfolding keeps_def by metis
  show ?thesis
    unfolding unused_def
  proof (intro allI impI)
    fix p assume p: "within copy_dir p"
    have "map_of (ents demo_wa) p \<in> crash_ents demo_wa p" by (simp add: crash_ents_def)
    then show "crash_ents demo_wa p = {None}" using u [OF p] by auto
  qed
qed


lemma demo_no_refs: "childNames demo_wa (demo_dir @ [''refs'', ''named'']) = []"
  "fcontent demo_wa (demo_dir @ [''refs'', ''named'', x]) = None" "demo_dir @ [''refs'', ''named''] \<in> set (dirs demo_wa)"
  "copy_dir \<notin> set (dirs demo_wa)" "NodePath copy_dir h \<notin> set (dirs demo_wa)" "map_of (ents demo_wa) [] = None"
  "map_of (ents demo_wa) [''/''] = None"
proof -
  note n = demo_a(2,4)
  have k: "map_of (ents demo_wa) q = map_of (ents demo_w0) q" if "butlast q \<in> {demo_dir @ [''refs'', ''named''], []}" for q
    using n(2) [of q] that by (auto simp: keeps_def rootPath_def demo_dir_def)
  show "map_of (ents demo_wa) [] = None" "map_of (ents demo_wa) [''/''] = None"
    by (subst k; simp add: demo_open_disk(1) lockPath_def)+
  have d: "set (dirs demo_wa) \<subseteq> insert [] (store_dirs demo_dir)" using demo_open_disk(3) n(1) by simp
  have ds: "store_dirs demo_dir \<subseteq> {[], [''db''], [''db'', ''objects''], [''db'', ''refs''],
    [''db'', ''keys''], [''db'', ''objects'', ''nodes''], [''db'', ''refs'', ''named'']}"
    using demo_store_dirs unfolding demo_dir_def .
  have e: "map_of (ents demo_wa) (demo_dir @ [''refs'', ''named'', x]) = None" for x
    by (subst k) (simp_all add: demo_open_disk(1) lockPath_def butlast_append)
  then show "fcontent demo_wa (demo_dir @ [''refs'', ''named'', x]) = None" by (simp add: fcontent_def)
  have "demo_dir @ [''refs'', ''named'', x] \<notin> set (dirs demo_wa)" for x using d ds by (auto simp: demo_dir_def)
  then have "x \<notin> set (childNames demo_wa (demo_dir @ [''refs'', ''named'']))" for x
    using childNames_mem [of x demo_wa "demo_dir @ [''refs'', ''named'']"] e [of x] by (simp add: map_of_eq_None_iff)
  then show "childNames demo_wa (demo_dir @ [''refs'', ''named'']) = []" by (meson all_not_in_conv set_empty)
  show "demo_dir @ [''refs'', ''named''] \<in> set (dirs demo_wa)" using demo_open_disk(4) n(1) by simp
  show "copy_dir \<notin> set (dirs demo_wa)" "NodePath copy_dir h \<notin> set (dirs demo_wa)" using d ds by (auto simp: copy_dir_def NodePath_def)
qed

lemma demo_start_copy:
  obtains t w1 b where "checkMigration [''/''] demo_sa ''/copy'' demo_wa = (Inr (copy_dir, demo_hash (CHR ''a'')), demo_wa)"
    "makeDestination copy_dir demo_wa = (Inr (), b)" "OpenStoreWithDataKey demoL ''42'' copy_dir demo_key b = (Inr t, w1)"
    "faults w1 = []" "skey t = replicate 32 (CHR 0xAA)" "store_dirs_made copy_dir w1" "store_inv demoL t w1 [] 0 0" "sdir t = copy_dir"
    "inside copy_dir demo_wa {} w1" "\<forall>h. NodePath copy_dir h \<notin> set (dirs w1)"
    "\<forall>h. valid_hash h \<longrightarrow> map_of (ents w1) (NodePath copy_dir h) = None"
    "set (dirs demo_wa) \<subseteq> set (dirs w1)" "set (dirs w1) \<subseteq> set (dirs demo_wa) \<union> {[], [''/''], copy_dir} \<union> store_dirs copy_dir"
proof -
  obtain n where n: "demo_ok ''a'' [n] demo_sa demo_wa" "nHash n = demo_hash (CHR ''a'')" using demo_a(1) by blast
  have inv: "store_inv demoL demo_sa demo_wa [n] 1 1" "faults demo_wa = []" "sdir demo_sa = demo_dir" using n(1) by (simp_all add: demo_ok_def)
  have ix: "indexed demo_sa [n]" "rootPath demo_dir \<notin> set (dirs demo_wa)" "rootval (fcontent demo_wa (rootPath demo_dir)) = tip [n]"
    using inv by (auto simp: store_inv_def disk_inv_def)
  have none: "map_of (ents demo_wa) p = None" if "within copy_dir p" for p
  proof -
    have "map_of (ents demo_wa) p \<in> crash_ents demo_wa p" by (simp add: crash_ents_def)
    then show ?thesis using unused_copy_dir that by (simp add: unused_def)
  qed
  have st: "statFile copy_dir demo_wa = (Inl (OsError ENOENT), demo_wa)"
    using inv(2) none [of copy_dir] demo_no_refs(4) by (simp add: statFile_def syscall_no_fault within_def)
  have ab: "absOf [''/''] demo_dir = [''/'', ''db'']" "isAbs copy_dir" "\<not> isAbs demo_dir"
    by (simp_all add: absOf_def isAbs_def demo_dir_def resolveDots_def copy_dir_def)
  have tp: "toPath (trimSpace ''/copy'') = copy_dir" "absOf [''/''] copy_dir = copy_dir" by code_simp+
  have ch: "checkMigration [''/''] demo_sa ''/copy'' demo_wa = (Inr (copy_dir, demo_hash (CHR ''a'')), demo_wa)"
    using inv(2) ix st n(2) ab currentRoot_no_fault [OF inv(2) ix(2)] indexed_root [OF ix(1)]
    by (simp add: checkMigration_def io_defs absPath_def inv(3) tp syscall_no_fault isNotExist.simps tip_def) (simp add: copy_dir_def)
  have bl: "butlast copy_dir = [''/'']" by (simp add: copy_dir_def)
  have tk: "map_of (ents demo_wa) (take k [''/'']) = None" for k
    using demo_no_refs(6,7) by (cases k) simp_all
  let ?c = "fold setDir (map (\<lambda>k. take k [''/'']) [0..<Suc (length [''/''])]) demo_wa"
  have c: "mkdirAll [''/''] demo_wa = (Inr (), ?c)" by (rule mkdirAll_no_fault [OF inv(2) tk])
  have c': "same_files demo_wa ?c" by (rule fold_setDir_same)
  have c'': "[''/''] \<in> set (dirs ?c)" "set (dirs ?c) \<subseteq> set (dirs demo_wa) \<union> {[], [''/'']}"
    by (auto simp: fold_setDir setDir_def)
  define b where "b = setDir copy_dir ?c"
  have nc: "copy_dir \<notin> set (dirs ?c)" using c''(2) demo_no_refs(4) by (auto simp: copy_dir_def)
  have mk: "makeDestination copy_dir demo_wa = (Inr (), b)"
    using c c' c''(1) nc inv(2) none [of copy_dir]
    by (simp add: makeDestination_def io_defs bl osMkdir_def syscall_no_fault same_files_def b_def within_def del: upt_Suc)
  have bb: "same_files demo_wa b" "set (dirs b) \<subseteq> set (dirs demo_wa) \<union> {[], [''/''], copy_dir}"
    using c' c''(2) by (auto simp: b_def same_files_def setDir_def)
  have vs: "crash_ents b = crash_ents demo_wa" "ents b = ents demo_wa" "rootPath copy_dir \<notin> set (dirs b)"
      "lockPath copy_dir \<notin> set (dirs b)"
  proof -
    have ne: "copy_dir \<noteq> []" by (simp add: copy_dir_def)
    note v = makeDestination_views [OF mk ne]
    then show "crash_ents b = crash_ents demo_wa" "ents b = ents demo_wa" by (simp_all add: crash_ents_def fun_eq_iff)
    have "set (dirs b) \<subseteq> {[], [''/''], copy_dir} \<union> store_dirs demo_dir" using bb(2) demo_open_disk(3) demo_a(2) by auto
    moreover have "store_dirs demo_dir \<subseteq> {[], [''db''], [''db'', ''objects''], [''db'', ''refs''],
      [''db'', ''keys''], [''db'', ''objects'', ''nodes''], [''db'', ''refs'', ''named'']}"
      using demo_store_dirs unfolding demo_dir_def .
    ultimately show "rootPath copy_dir \<notin> set (dirs b)" "lockPath copy_dir \<notin> set (dirs b)"
      by (auto simp: rootPath_def lockPath_def copy_dir_def)
  qed
  note e = unused_disk_inv [OF unused_copy_dir vs(1) _ vs(3)]
  have di: "disk_inv demoL copy_dir b [] 0" "lock_alone copy_dir b" using e vs(2) by simp_all
  have sdirs: "q \<in> {[], [''/'']} \<or> within copy_dir q" if "q \<in> store_dirs copy_dir" for q
    using that by (auto simp: store_dirs_def copy_dir_def within_def take_Cons' split: if_splits)
  have df: "dirs_free copy_dir b"
    using sdirs none demo_no_refs(6,7) vs(2) unfolding dirs_free_def by (metis empty_iff insert_iff)
  have fl: "map_of (flocks b) (lockPath copy_dir) = None"
    using demo_open_disk(2) [of "lockPath copy_dir"] demo_a(3) bb(1) by (auto simp: same_files_def lockPath_def copy_dir_def demo_dir_def)
  have ne: "copy_dir \<noteq> []" by (simp add: copy_dir_def)
  have fb: "faults b = []" using bb(1) inv(2) by (simp add: same_files_def)
  have rd: "readable demoL (replicate 32 (CHR 0xAA)) []" by (simp add: readable_def)
  obtain t w1 where t: "openStore demoL ''42'' copy_dir demo_key True b = (Inr t, w1)" "faults w1 = []"
    "skey t = replicate 32 (CHR 0xAA)" "store_dirs_made copy_dir w1"
    using openStore_succeeds [OF di ne fb df fl vs(4) demo_key_ok rd] by blast
  have t': "OpenStoreWithDataKey demoL ''42'' copy_dir demo_key b = (Inr t, w1)" using t(1) by (simp add: OpenStoreWithDataKey_def)
  note ov = openStore_inv [OF di ne t(1)]
  have fr: "open_frame copy_dir b w1" using opensD [OF opens_openStore [OF ne] di(2) t(1)] .
  have "inside copy_dir demo_wa {} demo_wa" using inside_start unused_copy_dir by (simp add: unused_def)
  moreover have "confined copy_dir {} (makeDestination copy_dir)" "confined copy_dir {} (OpenStoreWithDataKey demoL ''42'' copy_dir demo_key)"
    using ne by (intro confined_intros; simp add: within_def)+
  ultimately have ins: "inside copy_dir demo_wa {} w1" using mk t' confinedD by metis
  have nd: "NodePath copy_dir h \<notin> set (dirs w1)" for h
  proof -
    have "NodePath copy_dir h \<notin> store_dirs copy_dir"
      by (auto simp: store_dirs_def NodePath_def copy_dir_def take_Cons' split: if_splits)
    then show ?thesis using fr bb(2) demo_no_refs(5) by (auto simp: open_frame_def NodePath_def copy_dir_def)
  qed
  have ndn: "map_of (ents w1) (NodePath copy_dir h) = None" if "valid_hash h" for h
  proof -
    have "same_content (NodePath copy_dir h) b w1"
      using fr app_path_NodePath [OF that, of copy_dir] by (simp add: open_frame_def NodePath_def lockPath_def keyPath_def)
    moreover have "fcontent b (NodePath copy_dir h) = None" "map_of (ents b) (NodePath copy_dir h) = None"
      using none [of "NodePath copy_dir h"] vs(2) by (simp_all add: fcontent_def NodePath_def)
    ultimately show ?thesis by (auto simp: same_content_def fcontent_def split: option.splits)
  qed
  have gr: "set (dirs demo_wa) \<subseteq> set (dirs w1)"
  proof -
    obtain v1 lk v2 k v3 u v4 where r: "makeDirs copy_dir b = (Inr (), v1)" "acquireStoreLock ''42'' copy_dir v1 = (Inr lk, v2)"
      "explicitKey demo_key v2 = (Inr k, v3)" "rebuildIndexes demoL u v3 = (Inr t, v4)" "checkHead demoL t v4 = (Inr (), w1)"
      using t(1) ne by (auto simp: openStore_def openLocked_def io_iffs)
    obtain b1 where "makeDirs copy_dir b = (Inr (), b1)" "same_files b b1" "copy_dir \<in> set (dirs b1)"
      using makeDirs_succeeds [OF fb df] by blast
    then have v1: "same_files b v1" "copy_dir \<in> set (dirs v1)" using r(1) by simp_all
    have "set (dirs v1) \<subseteq> set (dirs b) \<union> store_dirs copy_dir"
      using opensD [OF opens_makeDirs di(2) r(1)] by (simp add: open_frame_def)
    then have l1: "lockPath copy_dir \<notin> set (dirs v1)" using vs(4) lock_not_store_dir by blast
    have "dirs v2 = dirs v1"
      using acquire_succeeds [of v1 copy_dir "''42''"] v1 fb fl l1 r(2) by (auto simp: same_files_def)
    moreover have "dirs v3 = dirs v2" using r(3) by (auto simp: explicitKey_def split: if_splits)
    moreover have "dirs v4 = dirs v3" using at_start_views(5) [OF reads_run [OF reads_rebuildIndexes r(4)]] .
    moreover have "dirs w1 = dirs v4" using at_start_views(5) [OF reads_run [OF reads_checkHead r(5)]] .
    ultimately show ?thesis using v1 bb(1) by (auto simp: same_files_def)
  qed
  show thesis
    by (rule that [OF ch mk t' t(2-4) _ _ ins _ _ gr]) (use nd ndn ov fr bb(2) in \<open>auto simp: open_frame_def\<close>)
qed


lemma demo_migration:
  obtains t w1 es w' where "migrationStart demoL ''42'' [''/''] demo_sa ''/copy'' demo_key demo_wa = (Inr t, w1)"
    "good_copies demoL demo_sa (history demo_sa) t [] w1"
    "MigrateDataKey demoL ''42'' [''/''] demo_sa ''/copy'' demo_key demo_wa
       = ((\<lparr>kmSourceRoot = demo_hash (CHR ''a''), kmDestinationRoot = demo_hash (CHR ''a''), kmNodes = 1, kmNamedRefs = 0,
           kmHashMap = Some [demo_hash (CHR ''a'') \<mapsto> demo_hash (CHR ''a'')]\<rparr>, es), w')"
proof -
  obtain n where n: "demo_ok ''a'' [n] demo_sa demo_wa" "nHash n = demo_hash (CHR ''a'')" "nType n = ''note.added''"
      "nEntityID n = ''e1''" "nCommand n = ''create''" "nRequestHash n = replicate 31 (CHR ''a'')" using demo_a(1) by blast
  then have inv: "store_inv demoL demo_sa demo_wa [n] 1 1" "sdir demo_sa = demo_dir" "clean_node n" "nRequestID n = ''a''"
    unfolding demo_ok_def by simp_all
  have re: "readable demoL (skey demo_sa) [n]" using n(1) unfolding demo_ok_def by blast
  have di: "disk_inv demoL demo_dir demo_wa [n] 1" "indexed demo_sa [n]" using inv(1,2) by (auto simp: store_inv_def)
  have hist: "history demo_sa = [demo_hash (CHR ''a'')]" using indexed_history [OF di(2)] n(2) by simp
  have na: "node_at demoL demo_dir demo_wa (nHash n) n" using disk_inv_facts(3) [OF di(1)] by (simp add: stored_node_at)
  obtain p where p: "nodePayload demoL (skey demo_sa) n = Inr p" using re by (auto simp: readable_iff)
  obtain t w1 b where st: "checkMigration [''/''] demo_sa ''/copy'' demo_wa = (Inr (copy_dir, demo_hash (CHR ''a'')), demo_wa)"
    "makeDestination copy_dir demo_wa = (Inr (), b)" "OpenStoreWithDataKey demoL ''42'' copy_dir demo_key b = (Inr t, w1)"
    "faults w1 = []" "skey t = replicate 32 (CHR 0xAA)" "store_dirs_made copy_dir w1" "store_inv demoL t w1 [] 0 0" "sdir t = copy_dir"
    "inside copy_dir demo_wa {} w1" "\<forall>h. NodePath copy_dir h \<notin> set (dirs w1)"
    "\<forall>h. valid_hash h \<longrightarrow> map_of (ents w1) (NodePath copy_dir h) = None"
    "set (dirs demo_wa) \<subseteq> set (dirs w1)" "set (dirs w1) \<subseteq> set (dirs demo_wa) \<union> {[], [''/''], copy_dir} \<union> store_dirs copy_dir"
    by (rule demo_start_copy)
  have out: "\<not> within copy_dir (demo_dir @ q)" for q by (simp add: within_def copy_dir_def demo_dir_def)
  have rd: "readNode demoL demo_dir (demo_hash (CHR ''a'')) w1 = (Inr n, w1)"
  proof (rule readNode_no_fault [OF st(4)])
    have "keeps (NodePath demo_dir (nHash n)) demo_wa w1" using st(9) out unfolding inside_def NodePath_def by blast
    moreover have "NodePath demo_dir (nHash n) \<notin> set (dirs w1)"
      using na st(13) by (auto simp: node_at_def store_dirs_def NodePath_def copy_dir_def demo_dir_def take_Cons' split: if_splits)
    ultimately show "node_at demoL demo_dir w1 (demo_hash (CHR ''a'')) n" using na n(2) keeps_fcontent by (simp add: node_at_def)
  qed
  let ?ctx = "copyContext n" and ?o = "copyOptions n p"
  have o: "oRequestHash ?o = replicate 31 (CHR ''a'')" "oRequestID ?o = ''a''" using n(6) inv(4) by (simp_all add: copyOptions_def)
  have "trimSpace ''note.added'' = ''note.added''" "trimSpace ''e1'' = ''e1''" "trimSpace ''create'' = ''create''" by code_simp+
  then have cl: "clean_request ?ctx ?o"
    using inv(3) by (simp add: clean_request_def copyContext_def copyOptions_def n inv(4) clean_node_def clean_content_def
        content_of_def nodeContent.truncate_def utf8_valid_printable printable_def list_all_iff)
  have ixt: "indexed t []" using st(7) by (simp add: store_inv_def)
  then have ixf: "index_free t (oRequestID ?o)" using index_free_iff by fastforce
  have fr: "fresh_address demoL t ?ctx ?o (Some []) w1"
  proof -
    have "NodePath copy_dir (nHash m) \<notin> set (dirs w1) \<and> map_of (ents w1) (NodePath copy_dir (nHash m)) = None"
      if f: "fst (prepareNode demoL t ?ctx ?o (Some []) w1) = Inr m" for m
    proof -
      have "prepareNode demoL t ?ctx ?o (Some []) w1 = (Inr m, snd (prepareNode demoL t ?ctx ?o (Some []) w1))"
        using f by (metis prod.collapse)
      then show ?thesis using prepareNode_Inr [OF demoL_ok] event_of_hash(1) [OF demoL_ok] st(10,11) by metis
    qed
    then show ?thesis by (auto simp: fresh_address_def st(8) split: sum.split)
  qed
  have "trimSpace ''note.added'' = ''note.added''" by code_simp
  then have ty: "trimSpace (oType ?o) \<noteq> []" by (simp add: copyOptions_def n)
  have raw: "json_marshal demoL (oPayload ?o) = Some p" by (simp add: copyOptions_def json_marshal_def demoL_def)
  have tot: "codec_total demoL" by (simp add: codec_total_def demoL_def)
  have sm: "store_dirs_made (sdir t) w1" "aes_key (skey t)" using st(5,6,8) by (simp_all add: aes_key_def)
  have iv: "store_inv demoL t w1 [] (length []) 0" using st(7) by simp
  have tp: "Some [] = None \<or> Some [] = Some (tip [])" by (simp add: tip_def)
  obtain h t2 w2 where a: "append demoL t ?ctx ?o (Some []) w1 = (Inr (h, t2), w2)" "faults w2 = []"
    using append_succeeds [OF demoL_ok iv st(4) sm(1) ty tp raw sm(2) tot fr] by blast
  obtain m where m: "event_of demoL (skey t) ?ctx ?o (tip []) m" "h = nHash m"
    using append_correct [OF demoL_ok iv cl fr ixf a(1)] by auto
  have h: "h = demo_hash (CHR ''a'')" using demo_event_hash [OF m(1) o(1)] m(2) by (simp add: plain_char_def)
  have dd: "dirs w2 = dirs w1" by (rule append_keeps(1) [OF demoL_ok fr a(1)])
  have refs: "childNames w2 (demo_dir @ [''refs'', ''named'']) = []" "demo_dir @ [''refs'', ''named''] \<in> set (dirs w2)"
  proof -
    have "x \<notin> set (childNames w2 (demo_dir @ [''refs'', ''named'']))" for x
    proof -
      let ?q = "demo_dir @ [''refs'', ''named'', x]"
      have "x \<notin> set (childNames demo_wa (demo_dir @ [''refs'', ''named'']))" using demo_no_refs(1) by simp
      then have w: "?q \<notin> set (dirs demo_wa)" "map_of (ents demo_wa) ?q = None"
        using childNames_mem [of x demo_wa "demo_dir @ [''refs'', ''named'']"] by (auto simp: map_of_eq_None_iff)
      have "butlast ?q \<notin> {butlast (rootPath (sdir t)), butlast (NodePath (sdir t) h)}"
        by (simp add: st(8) rootPath_def copy_dir_def demo_dir_def)
      then have "keeps ?q w1 w2" using append_elsewhere(2) [OF demoL_ok fr a(1)] by blast
      moreover have "keeps ?q demo_wa w1" using st(9) out unfolding inside_def by blast
      ultimately have "map_of (ents w2) ?q = None" using w(2) by (simp add: keeps_def)
      moreover have "?q \<notin> set (dirs w2)"
        using w(1) st(13) dd by (auto simp: store_dirs_def copy_dir_def demo_dir_def take_Cons' split: if_splits)
      ultimately show ?thesis
        using childNames_mem [of x w2 "demo_dir @ [''refs'', ''named'']"] by (auto simp: map_of_eq_None_iff)
    qed
    then show "childNames w2 (demo_dir @ [''refs'', ''named'']) = []" by (meson all_not_in_conv set_empty)
    show "demo_dir @ [''refs'', ''named''] \<in> set (dirs w2)" using demo_no_refs(3) st(12) dd by auto
  qed
  have rdir: "readDir (demo_dir @ [''refs'', ''named'']) w2 = (Inr [], w2)"
    using a(2) refs by (simp add: readDir_def syscall_no_fault)
  have ms: "migrationStart demoL ''42'' [''/''] demo_sa ''/copy'' demo_key demo_wa = (Inr t, w1)"
    using st(1-3) by (simp add: migrationStart_def io_bind_def)
  have ap: "AppendAt demoL t ?ctx ?o [] w1 = (Inr (h, t2), w2)" using a(1) by (simp add: AppendAt_def)
  have gc: "good_copies demoL demo_sa (history demo_sa) t [] w1"
    using rd p ap cl fr ixf by (simp add: hist inv(2) good_append_def)
  let ?info = "\<lparr>kmSourceRoot = demo_hash (CHR ''a''), kmDestinationRoot = demo_hash (CHR ''a''), kmNodes = 1, kmNamedRefs = 0,
           kmHashMap = Some [demo_hash (CHR ''a'') \<mapsto> demo_hash (CHR ''a'')]\<rparr>"
  have cs: "copyStore demoL demo_sa (demo_hash (CHR ''a'')) t w1 = ((Inr ?info, t2), w2)"
    using rd p ap rdir by (simp add: copyStore_def hist inv(2) io_defs h)
  obtain c w3 where cl: "closing t2 w2 = (c, w3)" by (cases "closing t2 w2")
  show thesis
    by (rule that [OF ms gc, of "case c of Inl e \<Rightarrow> [Wrapped ''close completed destination store %s: %w'' [pathString copy_dir] e] | Inr _ \<Rightarrow> []" w3])
      (use st(1-3) cs cl in \<open>simp add: MigrateDataKey_def migrateDataKey_def io_bind_def split: sum.split\<close>)
qed

end
