(* ===== verification/MigrationProperties.thy ===== *)
theory MigrationProperties imports MigrationDemo
begin

text \<open>
  The properties of a migration to a new data key: the source is left as it is whatever happens,
  an incomplete destination is removed, and a complete one holds the same history.
\<close>

lemma reads_checkMigration: "reads (checkMigration cwd s dest)"
proof -
  have a: "reads (absPath cwd p)" for p
    by (auto simp: absPath_def reads_def syscall_def at_start_def split: list.splits option.splits)
  have i: "reads x \<Longrightarrow> reads y \<Longrightarrow> reads (if b then x else y)" for b and x y :: "(path \<times> string) io" by simp
  have c: "(\<And>e. reads (f e)) \<Longrightarrow> (\<And>u. reads (g u)) \<Longrightarrow> reads (case st of Inl e \<Rightarrow> f e | Inr u \<Rightarrow> g u)"
    for st :: "go_error + unit" and f g :: "_ \<Rightarrow> (path \<times> string) io" by (cases st) simp_all
  show ?thesis unfolding checkMigration_def
    by (intro reads_bind a i c io_reads)
qed

lemma start_ents:
  assumes "io_bind (checkMigration cwd s dest) (\<lambda>(destinationAbs, sourceRoot).
           io_bind (makeDestination destinationAbs) (\<lambda>_. io_ret (destinationAbs, sourceRoot))) w = (x, w2)"
  shows "ents w2 = ents w"
proof -
  have m: "ents v' = ents v" if "makeDestination D v = (r, v')" for D v r v'
  proof -
    obtain a w1 where a: "mkdirAll (butlast D) v = (a, w1)" by (cases "mkdirAll (butlast D) v")
    obtain b w2 where b: "osMkdir D w1 = (b, w2)" by (cases "osMkdir D w1")
    have "ents w1 = ents v" using mkdirAll_views [OF a] by simp
    moreover have "ents w2 = ents w1"
      using b by (auto simp: osMkdir_def syscall_def setDir_def split: list.splits option.splits if_splits)
    moreover have "v' = w1 \<or> v' = w2"
      using that a b by (cases a; cases b) (auto simp: makeDestination_def io_bind_def io_try_def split: if_splits)
    ultimately show ?thesis by auto
  qed
  obtain c w1 where c: "checkMigration cwd s dest w = (c, w1)" by (cases "checkMigration cwd s dest w")
  have e: "ents w1 = ents w" using at_start_views(1) [OF reads_run [OF reads_checkMigration c]] .
  show ?thesis
  proof (cases c)
    case (Inr y)
    obtain D sr where "y = (D, sr)" by (cases y)
    moreover obtain d w3 where d: "makeDestination D w1 = (d, w3)" by (cases "makeDestination D w1")
    ultimately have "w2 = w3" using assms c Inr by (cases d) (auto simp: io_bind_def)
    then show ?thesis using m [OF d] e by simp
  qed (use assms c e in \<open>simp add: io_bind_def\<close>)
qed




lemma closing_quiet: "closing d w = (c, w') \<Longrightarrow> quiet w w'"
proof -
  assume run: "closing d w = (c, w')"
  obtain a w1 where a: "CloseStore d w = (a, w1)" by (cases "CloseStore d w")
  have "quiet w w1" using a quiet_closeStoreLock
    by (cases a) (auto simp: CloseStore_def io_iffs split: option.splits prod.splits)
  moreover have "w' = w1" using run a by (cases a) (auto simp: closing_def io_bind_def)
  ultimately show ?thesis by simp
qed

lemma chain_on_disk_opens:
  assumes "disk_inv L D w ms (length ms)" "lock_alone D w" "D \<noteq> []" "v = w \<or> crash w v"
    and "openStore L pid D key explicit v = (Inr u, v')"
  shows "history u = map nHash ms"
proof -
  have "disk_inv L D v ms (length ms) \<and> lock_alone D v"
  proof (cases "v = w")
    case False
    then have cr: "crash w v" using assms(4) by simp
    obtain j where "length ms \<le> j" "disk_inv L D v (take j ms) j" using disk_inv_crash [OF assms(1) cr] by blast
    then have "disk_inv L D v ms j" by simp
    moreover have "j \<le> length ms" using calculation by (simp add: disk_inv_def)
    ultimately show ?thesis using \<open>length ms \<le> j\<close> lock_alone_crash [OF assms(2) cr] by simp
  qed (use assms in simp)
  then show ?thesis
    using openStore_inv(3) [OF _ _ assms(3,5)] indexed_history by (auto simp: store_inv_def)
qed




end
