(* ===== verification/Cli.thy ===== *)
theory Cli
  imports FileCreate ServerRoutes
begin

text \<open>
  The command line (cmd/jaybase-server/main.go): the commands on tokens, catalog and keys, the
  first secrets, and the start and end of the server. A command gives its error (several, when
  they are joined), and what it prints.
\<close>

subsection \<open>Commands\<close>

datatype cli_output =
    Stdout string \<comment> \<open>a line\<close>
  | Stderr string
  | StderrErrors "go_error list" \<comment> \<open>the line with the error of the command\<close>
  | LogLine "(string \<times> attr) list"

type_synonym 'a cmd = "world \<Rightarrow> ((go_error list + 'a) \<times> cli_output list) \<times> world"

definition cmd_ret :: "'a \<Rightarrow> 'a cmd" where
  "cmd_ret x = (\<lambda>w. ((Inr x, []), w))"

definition cmd_fail :: "go_error \<Rightarrow> 'a cmd" where
  "cmd_fail e = (\<lambda>w. ((Inl [e], []), w))"

definition cmd_do :: "'a io \<Rightarrow> 'a cmd" where
  "cmd_do m = (\<lambda>w. case m w of (Inl e, w') \<Rightarrow> ((Inl [e], []), w') | (Inr x, w') \<Rightarrow> ((Inr x, []), w'))"

definition cmd_print :: "cli_output list \<Rightarrow> unit cmd" where
  "cmd_print os = (\<lambda>w. ((Inr (), os), w))"

definition cmd_bind :: "'a cmd \<Rightarrow> ('a \<Rightarrow> 'b cmd) \<Rightarrow> 'b cmd" where
  "cmd_bind m f = (\<lambda>w. case m w of
       ((Inl es, os), w') \<Rightarrow> ((Inl es, os), w')
     | ((Inr x, os), w') \<Rightarrow> (case f x w' of ((r, os'), w'') \<Rightarrow> ((r, os @ os'), w'')))"

text \<open>\<^verbatim>\<open>if err != nil { return fmt.Errorf("...: %w", err) }\<close>\<close>

definition io_wrap :: "string \<Rightarrow> string list \<Rightarrow> 'a io \<Rightarrow> 'a io" where
  "io_wrap fmt args m = (\<lambda>w. case m w of (Inl e, w') \<Rightarrow> (Inl (Wrapped fmt args e), w') | (Inr x, w') \<Rightarrow> (Inr x, w'))"

text \<open>\<^verbatim>\<open>json.NewEncoder(os.Stdout).Encode\<close>: encoding or writing may fail.\<close>

definition encodeStdout :: "bytes option \<Rightarrow> unit cmd" where
  "encodeStdout encoded = (case encoded of
       None \<Rightarrow> cmd_fail json_error
     | Some b \<Rightarrow> cmd_bind (cmd_do (syscall (io_ret ()))) (\<lambda>_. cmd_print [Stdout b]))"

subsection \<open>The libraries and the surroundings of the process\<close>

record generatedCredential =
  gcID :: string
  gcRole :: string
  gcSHA256 :: string

record httpServer =
  hsAddr :: string
  hsReadHeaderTimeout :: int \<comment> \<open>nanoseconds\<close>
  hsReadTimeout :: int
  hsWriteTimeout :: int
  hsIdleTimeout :: int
  hsMaxHeaderBytes :: int

text \<open>What \<^verbatim>\<open>ListenAndServe\<close> does: the requests it hands to the handler, what the shutdown and it report.\<close>

record listening =
  lsRequests :: "Request list"
  lsShutdownError :: "go_error option"
  lsResult :: go_error

record clilib =
  clHttp :: httplib
  clPid :: string
  clCwd :: path
  clStdin :: bytes
  clStdinTerminal :: bool
  clParseTime :: "string \<Rightarrow> go_error + time"
  clSecrets :: "generatedCredential list \<Rightarrow> bytes option"
  clDocument :: "catalogDocument \<Rightarrow> bytes option"
  clEntry :: "CatalogEntry \<Rightarrow> bytes option"
  clMigration :: "KeyMigrationInfo \<Rightarrow> bytes option"
  clGet :: "string \<Rightarrow> (int \<times> string \<times> bytes) io" \<comment> \<open>status code, status, body\<close>
  clListen :: "httpServer \<Rightarrow> API \<Rightarrow> world \<Rightarrow> listening"

abbreviation clGo :: "clilib \<Rightarrow> golib" where "clGo C \<equiv> hGo (clHttp C)"
abbreviation clAuth :: "clilib \<Rightarrow> authlib" where "clAuth C \<equiv> hAuth (clHttp C)"
abbreviation clCat :: "clilib \<Rightarrow> catlib" where "clCat C \<equiv> hCat (clHttp C)"

subsection \<open>The environment\<close>

definition envOr :: "string \<Rightarrow> string \<Rightarrow> string io" where
  "envOr name fallback = io_bind (getenv name) (\<lambda>raw.
     io_ret (let value = trimSpace raw in if value \<noteq> [] then value else fallback))"

definition envInt :: "string \<Rightarrow> int \<Rightarrow> int io" where
  "envInt name fallback = io_bind (getenv name) (\<lambda>v. let raw = trimSpace v in
     if raw = [] then io_ret fallback
     else case atoi raw of (value, err) \<Rightarrow>
       if err \<or> value < 1 then io_fail (GoError ''%s must be a positive integer'' [name])
       else io_ret value)"

text \<open>\<^verbatim>\<open>strconv.ParseUint(raw, 10, 64)\<close>: digits only, and no value beyond 64 bits.\<close>

definition parseUint64 :: "string \<Rightarrow> 64 word option" where
  "parseUint64 raw = (if raw = [] \<or> \<not> list_all digit09 raw \<or> decValue raw \<ge> 2 ^ 64 then None
     else Some (word_of_int (decValue raw)))"

definition envUint64 :: "string \<Rightarrow> 64 word \<Rightarrow> 64 word io" where
  "envUint64 name fallback = io_bind (getenv name) (\<lambda>v. let raw = trimSpace v in
     if raw = [] then io_ret fallback
     else case parseUint64 raw of
       None \<Rightarrow> io_fail (GoError ''%s must be a non-negative integer'' [name])
     | Some value \<Rightarrow> io_ret value)"

subsection \<open>Tokens\<close>

definition randomToken :: "string io" where
  "randomToken = io_bind (readRandom 32) (\<lambda>raw. io_ret (b64_raw_url_encode raw))"

definition randomDataKey :: "string io" where
  "randomDataKey = io_bind (readRandom 32) (\<lambda>raw. io_ret (b64_encode raw))"

text \<open>\<^verbatim>\<open>ReadString('\n')\<close> of at most 1025 bytes of the standard input.\<close>

definition stdinLine :: "bytes \<Rightarrow> string" where
  "stdinLine input = (let b = take 1025 input in
     if CHR 0x0A \<in> set b then takeWhile (\<lambda>c. c \<noteq> CHR 0x0A) b @ [CHR 0x0A] else b)"

definition hashToken :: "clilib \<Rightarrow> unit cmd" where
  "hashToken C =
     cmd_bind (cmd_do (syscall (io_ret ()))) (\<lambda>_.
     cmd_bind (cmd_print (if clStdinTerminal C then [Stderr ''Token: ''] else [])) (\<lambda>_.
     cmd_bind (cmd_do (syscall (io_ret (stdinLine (clStdin C))))) (\<lambda>line.
     let token = trimSpace line in
     if length token < 32 then cmd_fail (GoError ''token must be at least 32 characters'' [])
     else cmd_print [Stdout (hex_encode (au_sha256 (clAuth C) token))])))"

definition appendOpt :: "string list option \<Rightarrow> string \<Rightarrow> string list option" where
  "appendOpt xs v = Some (case xs of None \<Rightarrow> [v] | Some vs \<Rightarrow> vs @ [v])"

fun flagLoop :: "string list \<Rightarrow> Allow \<Rightarrow> go_error + Allow" where
  "flagLoop [] allow = Inr allow"
| "flagLoop [flag] allow = Inl (GoError ''%s requires a value'' [flag])"
| "flagLoop (flag # value # rest) allow =
     (if flag = ''--allow-type'' then flagLoop rest (allow\<lparr>alTypes := alTypes allow @ [value]\<rparr>)
      else if flag = ''--allow-command'' then flagLoop rest (allow\<lparr>alCommands := appendOpt (alCommands allow) value\<rparr>)
      else if flag = ''--allow-ref'' then flagLoop rest (allow\<lparr>alRefs := appendOpt (alRefs allow) value\<rparr>)
      else Inl (GoError ''unknown argument %q'' [flag]))"

definition parseAllowFlags :: "string list \<Rightarrow> go_error + Allow option" where
  "parseAllowFlags args =
     (if args = [] then Inr None
      else bindE (flagLoop args \<lparr>alTypes = [], alCommands = None, alRefs = None\<rparr>) (\<lambda>allow.
        Inr (if alTypes allow = [] \<and> alCommands allow = None \<and> alRefs allow = None then None else Some allow)))"

definition addToken :: "clilib \<Rightarrow> string list \<Rightarrow> unit cmd" where
  "addToken C argv =
     (let args = drop 2 argv in
      if length args < 3
      then cmd_fail (GoError ''usage: jaybase-server add-token AUTH_FILE ID ROLE [NOT_AFTER_RFC3339] [--allow-type PATTERN]... [--allow-command COMMAND]... [--allow-ref PATTERN]...'' [])
      else let rest = drop 3 args in
        cmd_bind
          (if rest \<noteq> [] \<and> \<not> hasPrefix (hd rest) ''--''
           then (case clParseTime C (hd rest) of
                   Inl e \<Rightarrow> cmd_fail (Wrapped ''NOT_AFTER must be RFC3339: %w'' [] e)
                 | Inr parsed \<Rightarrow> cmd_ret (Some parsed, tl rest))
           else cmd_ret (None, rest)) (\<lambda>(notAfter, rest).
        cmd_bind (cmd_do (io_lift (parseAllowFlags rest))) (\<lambda>allow.
        cmd_bind (cmd_do randomToken) (\<lambda>token.
        cmd_bind (cmd_do (AddToken (clAuth C) (args ! 0) (args ! 1) (args ! 2) token notAfter allow)) (\<lambda>_.
        cmd_print [Stdout (args ! 1 @ ''='' @ token),
          Stderr ''Token added. Store the plaintext in a password manager, then recreate the service to load the updated auth file.''])))))"

definition revokeToken :: "clilib \<Rightarrow> string list \<Rightarrow> unit cmd" where
  "revokeToken C argv =
     (if length argv \<noteq> 4 then cmd_fail (GoError ''usage: jaybase-server revoke-token AUTH_FILE ID'' [])
      else cmd_bind (cmd_do (RevokeToken (clAuth C) (argv ! 2) (argv ! 3))) (\<lambda>_.
        cmd_print [Stderr ''Token revoked. Recreate the service to load the updated auth file.'']))"

subsection \<open>The catalog\<close>

definition catalogCommand :: "clilib \<Rightarrow> string list \<Rightarrow> unit cmd" where
  "catalogCommand C argv =
     (if length argv < 4 then cmd_fail (GoError ''usage: jaybase-server catalog show|install|remove|enforce CATALOG_FILE ...'' [])
      else cmd_bind (cmd_do (LoadCatalog (clCat C) (argv ! 3))) (\<lambda>catalog.
        if argv ! 2 = ''show'' then
          (if length argv \<noteq> 4 then cmd_fail (GoError ''usage: jaybase-server catalog show CATALOG_FILE'' [])
           else encodeStdout (clDocument C (View catalog)))
        else if argv ! 2 = ''install'' then
          (if length argv < 6 then cmd_fail (GoError ''usage: jaybase-server catalog install CATALOG_FILE TYPE COMMAND...'' [])
           else cmd_bind (cmd_do (Install (clCat C) catalog (argv ! 4) (drop 5 argv))) (\<lambda>(entry, _, _).
             cmd_bind (cmd_print [Stderr ''Catalog updated and enforcement is on. Recreate Jaybase if it was already running; the HTTP catalog API applies without a recreate.'']) (\<lambda>_.
             encodeStdout (clEntry C entry))))
        else if argv ! 2 = ''remove'' then
          (if length argv \<noteq> 5 then cmd_fail (GoError ''usage: jaybase-server catalog remove CATALOG_FILE TYPE'' [])
           else cmd_bind (cmd_do (removeCatalogType (clCat C) catalog (argv ! 4))) (\<lambda>_.
             cmd_print [Stderr (''Removed '' @ argv ! 4 @ ''. Enforcement is unchanged. Recreate Jaybase if it was already running.'')]))
        else if argv ! 2 = ''enforce'' then
          (if length argv \<noteq> 5 \<or> argv ! 4 \<noteq> ''true'' \<and> argv ! 4 \<noteq> ''false''
           then cmd_fail (GoError ''usage: jaybase-server catalog enforce CATALOG_FILE true|false'' [])
           else cmd_bind (cmd_do (SetEnforced (clCat C) catalog (argv ! 4 = ''true''))) (\<lambda>_.
             cmd_print [Stderr (''Catalog enforced='' @ argv ! 4 @ ''. Recreate Jaybase if it was already running.'')]))
        else cmd_fail (GoError ''unknown catalog command %q'' [argv ! 2])))"

subsection \<open>Migration and health check\<close>

text \<open>The source store is closed on every way out; the errors of migration and output are joined.\<close>

definition migrateOpen :: "clilib \<Rightarrow> Store \<Rightarrow> string \<Rightarrow> string \<Rightarrow> unit cmd" where
  "migrateOpen C store destination newKey w =
     (case MigrateDataKey (clGo C) (clPid C) (clCwd C) store destination (trimSpace newKey) w of
        ((result, es), w1) \<Rightarrow>
          (case (if es = [] \<or> kmHashMap result \<noteq> None then encodeStdout (clMigration C result) w1 else ((Inr (), []), w1)) of
             ((enc, os), w2) \<Rightarrow>
               (let errs = es @ (case enc of Inl e \<Rightarrow> e | Inr _ \<Rightarrow> [])
                in ((if errs = [] then Inr () else Inl errs, os), snd (closing store w2)))))"

definition migrateKey :: "clilib \<Rightarrow> string list \<Rightarrow> unit cmd" where
  "migrateKey C argv =
     (if length argv \<noteq> 6
      then cmd_fail (GoError ''usage: jaybase-server migrate-key SOURCE_DIR DESTINATION_DIR OLD_KEY_FILE NEW_KEY_FILE'' [])
      else cmd_bind (cmd_do (io_wrap ''read old key file: %w'' [] (readFile (toPath (argv ! 4))))) (\<lambda>oldKey.
        cmd_bind (cmd_do (io_wrap ''read new key file: %w'' [] (readFile (toPath (argv ! 5))))) (\<lambda>newKey.
        cmd_bind (cmd_do (io_wrap ''open source store: %w'' []
            (OpenStoreWithDataKey (clGo C) (clPid C) (toPath (argv ! 2)) (trimSpace oldKey)))) (\<lambda>store.
        migrateOpen C store (argv ! 3) newKey))))"

definition healthcheck :: "clilib \<Rightarrow> string list \<Rightarrow> unit cmd" where
  "healthcheck C argv =
     (let url = (if length argv > 2 then argv ! 2 else ''http://127.0.0.1:8080/health/ready'') in
      cmd_bind (cmd_do (clGet C url)) (\<lambda>(statusCode, status, body).
      if statusCode \<noteq> 200
      then cmd_fail (GoError ''health check returned %s: %s'' [status, trimSpace (take 1024 body)])
      else cmd_ret ()))"

subsection \<open>The first secrets\<close>

definition createSecretFile :: "path \<Rightarrow> bytes \<Rightarrow> unit io" where
  "createSecretFile p contents =
     io_bind (io_wrap ''create %s (refusing to overwrite): %w'' [pathString p] (createExclusive p)) (\<lambda>f.
     io_bind (io_onerr (fileWrite f contents) (fileClose f)) (\<lambda>_.
     io_bind (io_onerr (fileSync f) (fileClose f)) (\<lambda>_.
     fileClose f)))"

fun refuseExisting :: "path list \<Rightarrow> unit io" where
  "refuseExisting [] = io_ret ()"
| "refuseExisting (p # ps) = io_bind (io_try (statFile p)) (\<lambda>r. case r of
       Inr _ \<Rightarrow> io_fail (GoError ''refusing to overwrite existing %s'' [pathString p])
     | Inl e \<Rightarrow> if \<not> isNotExist e then io_fail e else refuseExisting ps)"

definition initialID :: "string \<Rightarrow> string" where
  "initialID role = role @ ''-initial''"

text \<open>One random token per role: the credentials, and the plaintext by id.\<close>

fun generateCredentials :: "authlib \<Rightarrow> string list \<Rightarrow> (generatedCredential list \<times> (string \<times> string) list) io" where
  "generateCredentials A [] = io_ret ([], [])"
| "generateCredentials A (role # roles) =
     io_bind randomToken (\<lambda>token.
     io_bind (generateCredentials A roles) (\<lambda>(credentials, plaintext).
     io_ret (\<lparr>gcID = initialID role, gcRole = role, gcSHA256 = hex_encode (au_sha256 A token)\<rparr> # credentials,
             (initialID role, token) # plaintext)))"

definition initialRoles :: "string list" where
  "initialRoles = [''admin'', ''writer'', ''reader'']"

definition initSecrets :: "clilib \<Rightarrow> string list \<Rightarrow> unit cmd" where
  "initSecrets C argv =
     (let dir = (if length argv > 2 then argv ! 2 else ''secrets''); d = toPath dir in
      cmd_bind (cmd_do (mkdirAll d)) (\<lambda>_.
      cmd_bind (cmd_do (chmodDir d)) (\<lambda>_.
      cmd_bind (cmd_do (refuseExisting [d @ [''data_key''], d @ [''auth.json'']])) (\<lambda>_.
      cmd_bind (cmd_do randomDataKey) (\<lambda>key.
      cmd_bind (cmd_do (createSecretFile (d @ [''data_key'']) (key @ newline))) (\<lambda>_.
      cmd_bind (cmd_do (generateCredentials (clAuth C) initialRoles)) (\<lambda>(credentials, plaintext).
      case clSecrets C credentials of
        None \<Rightarrow> cmd_fail json_error
      | Some authJSON \<Rightarrow>
          cmd_bind (cmd_do (createSecretFile (d @ [''auth.json'']) (authJSON @ newline))) (\<lambda>_.
          cmd_print (Stdout (''Secrets created in '' @ dir @ ''. Store these tokens in a password manager; they are not written to disk:'')
            # map (\<lambda>role. Stdout (initialID role @ ''='' @ the (map_of plaintext (initialID role)))) initialRoles)))))))))"

subsection \<open>Serving\<close>

definition seconds :: "int \<Rightarrow> int" where
  "seconds n = n * 1000000000"

definition errServerClosed :: go_error where
  "errServerClosed = GoError ''http: Server closed'' []"

text \<open>The options, in the order in which the environment is read.\<close>

definition serveOptions :: "clilib \<Rightarrow> Store \<Rightarrow> string \<Rightarrow> Options io" where
  "serveOptions C store authFile =
     io_bind (LoadAuthenticator (clAuth C) authFile) (\<lambda>auth.
     io_bind (getenv ''JAYBASE_CATALOG_FILE'') (\<lambda>catalogFile.
     io_bind (if trimSpace catalogFile \<noteq> []
        then io_bind (LoadCatalog (clCat C) (trimSpace catalogFile)) (\<lambda>catalog. io_ret (Some catalog))
        else io_ret None) (\<lambda>catalog.
     io_bind (envInt ''JAYBASE_SNAPSHOT_RETENTION'' 24) (\<lambda>snapshotRetention.
     io_bind (envUint64 ''JAYBASE_SNAPSHOT_MIN_FREE_BYTES'' (push_bit 20 512)) (\<lambda>snapshotMinFreeBytes.
     io_bind (envInt ''JAYBASE_RATE_LIMIT_PER_MINUTE'' 600) (\<lambda>rateLimit.
     io_bind (envInt ''JAYBASE_FAILED_AUTH_LIMIT_PER_MINUTE'' 30) (\<lambda>failedAuthLimit.
     io_bind (getenv ''JAYBASE_BACKUP_DIR'') (\<lambda>backupDir.
     io_bind (getenv ''JAYBASE_MINIMUM_ROOT'') (\<lambda>minimumRoot.
     io_ret \<lparr>opStore = Some store, opAuth = Some auth, opBackupDir = trimSpace backupDir, opMaxBodyBytes = 0,
       opSnapshotRetention = snapshotRetention, opMinimumRoot = trimSpace minimumRoot,
       opRateLimitPerMinute = rateLimit, opFailedAuthLimitPerMinute = failedAuthLimit,
       opSnapshotMinFreeBytes = snapshotMinFreeBytes, opCatalog = catalog\<rparr>)))))))))"

definition serverAt :: "string \<Rightarrow> httpServer" where
  "serverAt address = \<lparr>hsAddr = address, hsReadHeaderTimeout = seconds 5, hsReadTimeout = seconds 15,
     hsWriteTimeout = seconds 60, hsIdleTimeout = seconds 90, hsMaxHeaderBytes = push_bit 10 16\<rparr>"

text \<open>The requests of the run, one after the other on the shared state.\<close>

fun serveRequests :: "httplib \<Rightarrow> Request list \<Rightarrow> API \<Rightarrow> world \<Rightarrow> conn list \<times> API \<times> world" where
  "serveRequests H [] a w = ([], a, w)"
| "serveRequests H (r # rs) a w =
     (let c = serveHTTP H r a w in
      case serveRequests H rs (cnAPI c) (cnWorld c) of (cs, a', w') \<Rightarrow> (c # cs, a', w'))"

text \<open>The server runs until it is told to stop; then the store is closed.\<close>

definition runServer :: "clilib \<Rightarrow> string \<Rightarrow> string \<Rightarrow> bool \<Rightarrow> API \<Rightarrow> conn list cmd" where
  "runServer C address dataDir backups api w =
     (let l = clListen C (serverAt address) api w in
      case serveRequests (clHttp C) (lsRequests l) api w of (cs, api', w') \<Rightarrow>
        ((if lsResult l \<noteq> errServerClosed then Inl [lsResult l] else Inr cs,
          LogLine [(''msg'', AStr ''jaybase ready''), (''address'', AStr address), (''data_dir'', AStr dataDir),
              (''backups_enabled'', ABool backups)]
            # concat (map (\<lambda>c. map LogLine (cnLog c)) cs)
            @ (case lsShutdownError l of None \<Rightarrow> [] | Some e \<Rightarrow> [LogLine [(''msg'', AStr ''graceful shutdown failed'')]])),
         snd (closing (apStore api') w')))"

definition startServer :: "clilib \<Rightarrow> string \<Rightarrow> string \<Rightarrow> Store \<Rightarrow> conn list cmd" where
  "startServer C dataDir authFile store w =
     (case io_bind (serveOptions C store authFile) (\<lambda>options. io_lift (New options)) w of
        (Inl e, w1) \<Rightarrow> ((Inl [e], []), snd (closing store w1))
      | (Inr api, w1) \<Rightarrow>
          cmd_bind (cmd_do (io_bind (envOr ''JAYBASE_LISTEN_ADDR'' ''127.0.0.1:8080'') (\<lambda>address.
            io_bind (getenv ''JAYBASE_BACKUP_DIR'') (\<lambda>backupDir. io_ret (address, trimSpace backupDir \<noteq> []))))) (\<lambda>(address, backups).
          runServer C address dataDir backups api) w1)"

definition serve :: "clilib \<Rightarrow> conn list cmd" where
  "serve C =
     cmd_bind (cmd_do (envOr ''JAYBASE_DATA_DIR'' ''.jaybase'')) (\<lambda>dataDir.
     cmd_bind (cmd_do (getenv ''JAYBASE_AUTH_FILE'')) (\<lambda>authFile.
     cmd_bind (cmd_do (getenv ''JAYBASE_DATA_KEY_FILE'')) (\<lambda>keyFile.
     if trimSpace authFile = [] then cmd_fail (GoError ''JAYBASE_AUTH_FILE is required'' [])
     else if trimSpace keyFile = []
     then cmd_fail (GoError ''JAYBASE_DATA_KEY_FILE is required; hosted mode never stores its key with the data'' [])
     else cmd_bind (cmd_do (io_wrap ''read JAYBASE_DATA_KEY_FILE: %w'' [] (readFile (toPath (trimSpace keyFile))))) (\<lambda>encodedKey.
       cmd_bind (cmd_do (io_wrap ''open store: %w'' []
         (OpenStoreWithDataKey (clGo C) (clPid C) (toPath dataDir) (trimSpace encodedKey)))) (\<lambda>store.
       startServer C dataDir (trimSpace authFile) store)))))"

subsection \<open>Dispatch\<close>

definition unit_cmd :: "'a cmd \<Rightarrow> unit cmd" where
  "unit_cmd m = cmd_bind m (\<lambda>_. cmd_ret ())"

definition dispatch :: "clilib \<Rightarrow> string list \<Rightarrow> unit cmd" where
  "dispatch C argv =
     (let command = (if length argv > 1 then argv ! 1 else ''serve'') in
      if command = ''serve'' then unit_cmd (serve C)
      else if command = ''healthcheck'' then healthcheck C argv
      else if command = ''hash-token'' then hashToken C
      else if command = ''add-token'' then addToken C argv
      else if command = ''revoke-token'' then revokeToken C argv
      else if command = ''catalog'' then catalogCommand C argv
      else if command = ''migrate-key'' then migrateKey C argv
      else if command = ''init'' then initSecrets C argv
      else cmd_fail (GoError ''unknown command %q (expected serve, healthcheck, hash-token, add-token, revoke-token, catalog, migrate-key, or init)'' [command]))"

text \<open>\<^verbatim>\<open>main\<close>: the exit code, what was printed, and the state the process leaves.\<close>

definition mainProgram :: "clilib \<Rightarrow> string list \<Rightarrow> world \<Rightarrow> (int \<times> cli_output list) \<times> world" where
  "mainProgram C argv w =
     (case dispatch C argv w of
        ((Inr _, os), w') \<Rightarrow> ((0, os), w')
      | ((Inl es, os), w') \<Rightarrow> ((1, os @ [StderrErrors es]), w'))"

end
