(* ===== verification/CliCorrect.thy ===== *)
theory CliCorrect
  imports Cli AuthCorrect
begin

text \<open>
  The commands that make secrets: what a file made exclusively holds, which files a command leaves
  alone, and a run of \<^verbatim>\<open>init\<close> call by call. Commands keep a relation between the worlds before and
  after when each of their calls does (the collection \<open>keeping\<close>).
\<close>

subsection \<open>Creating a file exclusively\<close>

definition unnamed :: "path \<Rightarrow> world \<Rightarrow> bool" where
  "unnamed p w \<longleftrightarrow> map_of (ents w) p = None \<and> p \<notin> set (dirs w)"

lemma hoare_createExclusive:
  "hoare (at_start w0) (createExclusive p)
     (\<lambda>f w. unnamed p w0 \<and> f = (p, fresh_ino w0) \<and> in_temp w0 p (fresh_ino w0) (\<lambda>n. idata n = []) w) (at_start w0)"
proof (rule hoareI)
  fix w f w' assume s: "at_start w0 w" and r: "createExclusive p w = (Inr f, w')"
  have v: "ents w = ents w0" "dirs w = dirs w0" using at_start_views [OF s] by simp_all
  have u: "unnamed p w0"
    using r v by (auto simp: createExclusive_def syscall_def unnamed_def Let_def split: list.splits option.splits if_splits)
  have "createNamed (butlast p) (\<lambda>_. p) w = (Inr f, w')"
    using r by (auto simp: createExclusive_def createNamed_def syscall_def Let_def split: list.splits option.splits if_splits)
  from hoareD [OF hoare_createNamed [where name = "\<lambda>_. p" and t = p, OF refl] s this]
  show "unnamed p w0 \<and> f = (p, fresh_ino w0) \<and> in_temp w0 p (fresh_ino w0) (\<lambda>n. idata n = []) w'" using u by simp
next
  fix w e w' assume s: "at_start w0 w" and r: "createExclusive p w = (Inl e, w')"
  show "at_start w0 w'"
    using r s by (auto simp: createExclusive_def syscall_def at_start_def Let_def split: list.splits option.splits if_splits)
qed

text \<open>Either the file was made, or nothing happened but failed calls.\<close>

definition secret_post :: "world \<Rightarrow> path \<Rightarrow> bytes \<Rightarrow> go_error + unit \<Rightarrow> world \<Rightarrow> bool" where
  "secret_post w0 p b r w \<longleftrightarrow> (case r of
       Inl e \<Rightarrow> at_start w0 w \<or> unnamed p w0 \<and> untouched w0 p w
     | Inr _ \<Rightarrow> unnamed p w0 \<and> untouched w0 p w \<and> fcontent w p = Some b)"

lemma createSecretFile_post: "createSecretFile p b w = (r, w') \<Longrightarrow> secret_post w p b r w'"
proof -
  let ?i = "fresh_ino w"
  let ?E = "\<lambda>v. at_start w v \<or> unnamed p w \<and> untouched w p v"
  have cr: "hoare (at_start w) (io_wrap fmt args (createExclusive p))
     (\<lambda>f v. unnamed p w \<and> f = (p, ?i) \<and> in_temp w p ?i (\<lambda>n. idata n = []) v) (at_start w)" for fmt args
    using hoare_createExclusive [of w p] unfolding hoare_def io_wrap_def
    by (fastforce split: prod.splits sum.splits)
  have cl: "hoare (untouched w p) (fileClose f) (\<lambda>_. untouched w p) (untouched w p)" for f
    by (rule hoare_close_any) simp
  have fill: "hoare (in_temp w p ?i (\<lambda>n. idata n = []))
      (io_bind (io_onerr (fileWrite (p, ?i) b) (fileClose (p, ?i))) (\<lambda>_.
       io_bind (io_onerr (fileSync (p, ?i)) (fileClose (p, ?i))) (\<lambda>_. fileClose (p, ?i))))
      (\<lambda>_. in_temp w p ?i (\<lambda>n. isynced n \<and> idata n = b)) (untouched w p)"
    by (rule hoare_bind hoare_onerr hoare_write hoare_sync cl
        hoare_weaken [OF hoare_close_any [OF phases_fault_free(2)]] | assumption | erule untouched_in_temp)+
  have body: "hoare (\<lambda>v. unnamed p w \<and> f = (p, ?i) \<and> in_temp w p ?i (\<lambda>n. idata n = []) v)
      (io_bind (io_onerr (fileWrite f b) (fileClose f)) (\<lambda>_.
       io_bind (io_onerr (fileSync f) (fileClose f)) (\<lambda>_. fileClose f)))
      (\<lambda>_ v. unnamed p w \<and> in_temp w p ?i (\<lambda>n. isynced n \<and> idata n = b) v) ?E" for f
    using fill unfolding hoare_def by (fastforce split: prod.splits sum.splits)
  have "hoare (at_start w) (createSecretFile p b) (\<lambda>_ v. unnamed p w \<and> in_temp w p ?i (\<lambda>n. isynced n \<and> idata n = b) v) ?E"
    unfolding createSecretFile_def
    by (rule hoare_bind [OF hoare_weaken [OF cr] body]) auto
  from hoareD [OF this at_start_refl] hoareD_err [OF this at_start_refl]
  show "createSecretFile p b w = (r, w') \<Longrightarrow> secret_post w p b r w'"
    by (cases r) (auto simp: secret_post_def intro: untouched_in_temp, auto simp: in_temp_def fcontent_def)
qed

subsection \<open>Commands\<close>

lemma cmd_bind_Inr: "cmd_bind m f w = ((Inr x, os), w') \<longleftrightarrow>
    (\<exists>y os1 w1 os2. m w = ((Inr y, os1), w1) \<and> f y w1 = ((Inr x, os2), w') \<and> os = os1 @ os2)"
  by (auto simp: cmd_bind_def split: prod.splits sum.splits)

lemma cmd_bind_Inl: "cmd_bind m f w = ((Inl es, os), w') \<longleftrightarrow> m w = ((Inl es, os), w') \<or>
    (\<exists>y os1 w1 os2. m w = ((Inr y, os1), w1) \<and> f y w1 = ((Inl es, os2), w') \<and> os = os1 @ os2)"
  by (auto simp: cmd_bind_def split: prod.splits sum.splits)

lemma cmd_do_Inr [simp]: "cmd_do m w = ((Inr x, os), w') \<longleftrightarrow> m w = (Inr x, w') \<and> os = []"
  by (auto simp: cmd_do_def split: prod.splits sum.splits)

lemma cmd_do_Inl [simp]: "cmd_do m w = ((Inl es, os), w') \<longleftrightarrow> (\<exists>e. m w = (Inl e, w') \<and> es = [e]) \<and> os = []"
  by (auto simp: cmd_do_def split: prod.splits sum.splits)

lemma cmd_simps [simp]: "cmd_ret x w = ((Inr x, []), w)" "cmd_fail e w = ((Inl [e], []), w)" "cmd_print os w = ((Inr (), os), w)"
  by (simp_all add: cmd_ret_def cmd_fail_def cmd_print_def)

text \<open>A command as a whole keeps a relation that its calls keep.\<close>

definition cmd_keeps :: "(world \<Rightarrow> world \<Rightarrow> bool) \<Rightarrow> 'a cmd \<Rightarrow> bool" where
  "cmd_keeps R m \<longleftrightarrow> (\<forall>w. R w (snd (m w)))"

definition io_keeps :: "(world \<Rightarrow> world \<Rightarrow> bool) \<Rightarrow> 'a io \<Rightarrow> bool" where
  "io_keeps R m \<longleftrightarrow> (\<forall>w. R w (snd (m w)))"

named_theorems keeping \<open>operations that keep a relation between the worlds before and after\<close>

lemma cmd_keepsD: "cmd_keeps R m \<Longrightarrow> m w = (r, w') \<Longrightarrow> R w w'"
  unfolding cmd_keeps_def by (metis snd_conv)

lemma io_keepsD: "io_keeps R m \<Longrightarrow> m w = (r, w') \<Longrightarrow> R w w'"
  unfolding io_keeps_def by (metis snd_conv)

lemma io_keepsI: "(\<And>w r w'. m w = (r, w') \<Longrightarrow> R w w') \<Longrightarrow> io_keeps R m"
  unfolding io_keeps_def by (metis prod.collapse)

lemma cmd_keeps_do [keeping]: "io_keeps R m \<Longrightarrow> cmd_keeps R (cmd_do m)"
  unfolding cmd_keeps_def io_keeps_def cmd_do_def by (auto split: prod.splits sum.splits) (metis snd_conv)+

lemma keeps_bind [keeping]:
  assumes "transp R"
  shows "cmd_keeps R m \<Longrightarrow> (\<And>x. cmd_keeps R (f x)) \<Longrightarrow> cmd_keeps R (cmd_bind m f)"
    "io_keeps R n \<Longrightarrow> (\<And>x. io_keeps R (g x)) \<Longrightarrow> io_keeps R (io_bind n g)"
proof -
  show "cmd_keeps R (cmd_bind m f)" if m: "cmd_keeps R m" and f: "\<And>x. cmd_keeps R (f x)"
    unfolding cmd_keeps_def
  proof
    fix w
    obtain r os w1 where a: "m w = ((r, os), w1)" by (metis prod.collapse)
    show "R w (snd (cmd_bind m f w))"
    proof (cases r)
      case (Inl e)
      then show ?thesis using a cmd_keepsD [OF m a] by (simp add: cmd_bind_def)
    next
      case (Inr x)
      obtain r2 os2 w2 where b: "f x w1 = ((r2, os2), w2)" by (metis prod.collapse)
      then show ?thesis using a Inr cmd_keepsD [OF m a] cmd_keepsD [OF f b] transpD [OF assms] by (auto simp: cmd_bind_def)
    qed
  qed
  show "io_keeps R (io_bind n g)" if n: "io_keeps R n" and g: "\<And>x. io_keeps R (g x)"
    unfolding io_keeps_def
  proof
    fix w
    obtain r w1 where a: "n w = (r, w1)" by (cases "n w")
    show "R w (snd (io_bind n g w))"
    proof (cases r)
      case (Inl e)
      then show ?thesis using a io_keepsD [OF n a] by (simp add: io_bind_def)
    next
      case (Inr x)
      obtain r2 w2 where b: "g x w1 = (r2, w2)" by (cases "g x w1")
      then show ?thesis using a Inr io_keepsD [OF n a] io_keepsD [OF g b] transpD [OF assms] by (auto simp: io_bind_def)
    qed
  qed
qed

lemma keeps_pure [keeping]:
  assumes "reflp R"
  shows "cmd_keeps R (cmd_ret x)" "cmd_keeps R (cmd_fail e)" "cmd_keeps R (cmd_print os)"
    "io_keeps R (io_ret y)" "io_keeps R (io_fail e)" "io_keeps R (io_lift r)"
  using reflpD [OF assms] by (simp_all add: cmd_keeps_def io_keeps_def)

lemma keeps_reads: "(\<And>w v. at_start w v \<Longrightarrow> R w v) \<Longrightarrow> reads m \<Longrightarrow> io_keeps R m"
  by (rule io_keepsI) (blast dest: reads_run)

subsection \<open>The first secrets\<close>

text \<open>Every name but the two new ones keeps its file, live and after a crash.\<close>

definition spares :: "path set \<Rightarrow> world \<Rightarrow> world \<Rightarrow> bool" where
  "spares P w w' \<longleftrightarrow> (\<forall>q. q \<notin> P \<or> map_of (ents w) q \<noteq> None \<longrightarrow> keeps q w w')"

lemma spares_rel: "reflp (spares P)" "transp (spares P)"
proof -
  show "reflp (spares P)" by (simp add: reflp_def spares_def)
  show "transp (spares P)"
  proof (rule transpI)
    fix a b c assume ab: "spares P a b" and bc: "spares P b c"
    show "spares P a c"
      unfolding spares_def
    proof (intro allI impI)
      fix q assume q: "q \<notin> P \<or> map_of (ents a) q \<noteq> None"
      then have k: "keeps q a b" using ab by (simp add: spares_def)
      then have "map_of (ents b) q = map_of (ents a) q" by (simp add: keeps_def)
      then have "keeps q b c" using bc q by (simp add: spares_def)
      then show "keeps q a c" using k keeps_trans by blast
    qed
  qed
qed

lemma spares_untouched: "unnamed p w \<Longrightarrow> untouched w p w' \<Longrightarrow> p \<in> P \<Longrightarrow> spares P w w'"
  unfolding spares_def untouched_def unnamed_def by metis

lemma reads_refuseExisting: "reads (refuseExisting ps)"
proof (induction ps)
  case (Cons p ps)
  then show ?case by (auto intro!: io_reads split: sum.split)
qed (simp add: reads_def)

lemma spares_calls [keeping]:
  "io_keeps (spares P) (mkdirAll d)" "io_keeps (spares P) (chmodDir d)" "io_keeps (spares P) (readRandom n)"
  "p \<in> P \<Longrightarrow> io_keeps (spares P) (createSecretFile p b)" "io_keeps (spares P) (refuseExisting ps)"
proof -
  have st: "spares P w v" if "at_start w v" for w v using at_start_keeps [OF that] by (simp add: spares_def)
  show "io_keeps (spares P) (mkdirAll d)" by (rule io_keepsI) (auto simp: spares_def dest: mkdirAll_keeps)
  show "io_keeps (spares P) (chmodDir d)"
    by (rule io_keepsI, rule st) (auto simp: chmodDir_def syscall_def at_start_def split: list.splits option.splits if_splits)
  show "io_keeps (spares P) (readRandom n)" by (rule io_keepsI) (auto simp: spares_def dest: quiet_readRandom quiet_keeps)
  show "io_keeps (spares P) (refuseExisting ps)" by (intro keeps_reads st reads_refuseExisting)
  show "io_keeps (spares P) (createSecretFile p b)" if "p \<in> P"
  proof (rule io_keepsI)
    fix w r w' assume "createSecretFile p b w = (r, w')"
    from createSecretFile_post [OF this] show "spares P w w'"
      using that st [of w w'] spares_untouched [of p w w' P] by (auto simp: secret_post_def split: sum.splits)
  qed
qed

lemmas spares_intros = keeping keeps_bind [OF spares_rel(2)] keeps_pure [OF spares_rel(1)]

lemma spares_generate: "io_keeps (spares P) (generateCredentials A roles)"
proof (induction roles)
  case Nil
  then show ?case by (simp add: io_keeps_def spares_def)
next
  case (Cons role roles)
  then show ?case by (auto simp: randomToken_def intro!: spares_intros)
qed

lemma spares_init: "cmd_keeps (spares {toPath dir @ [''data_key''], toPath dir @ [''auth.json'']}) (initSecrets C argv)"
  if "dir = (if length argv > 2 then argv ! 2 else ''secrets'')"
  unfolding initSecrets_def Let_def that [symmetric]
  by (intro spares_intros spares_generate)
    (auto simp: randomDataKey_def intro!: spares_intros spares_generate split: option.split)


text \<open>Where an old secret is, none is made.\<close>

lemma refuseExisting_Inr: "refuseExisting ps w = (Inr u, w') \<Longrightarrow> p \<in> set ps \<Longrightarrow> unnamed p w"
proof (induction ps arbitrary: w)
  case (Cons a ps)
  obtain r w1 where r: "statFile a w = (r, w1)" by (cases "statFile a w")
  have v: "ents w1 = ents w" "dirs w1 = dirs w" using at_start_views [OF reads_run [OF reads_basic(5) r]] by simp_all
  obtain e where e: "r = Inl e" "isNotExist e" "refuseExisting ps w1 = (Inr u, w')"
    using Cons.prems(1) r by (cases r) (auto simp: io_bind_def io_try_def split: if_splits)
  have "unnamed a w"
    using r e(1,2) by (auto simp: statFile_def syscall_def unnamed_def split: list.splits option.splits if_splits)
  moreover have "unnamed p w" if "p \<in> set ps" using Cons.IH [OF e(3) that] v by (simp add: unnamed_def)
  ultimately show ?case using Cons.prems(2) by auto
qed simp

text \<open>A run of \<^verbatim>\<open>init\<close> that succeeds, call by call.\<close>

definition tokenAt :: "world \<Rightarrow> nat \<Rightarrow> string" where
  "tokenAt w i = b64_raw_url_encode (map (entropy w) [drawn w + 32 * i ..< drawn w + 32 * Suc i])"

definition same_random :: "nat \<Rightarrow> world \<Rightarrow> world \<Rightarrow> bool" where
  "same_random n w w' \<longleftrightarrow> entropy w' = entropy w \<and> drawn w' = drawn w + n"

lemma randomToken_Inr: "randomToken w = (Inr t, w') \<Longrightarrow> t = tokenAt w 0 \<and> same_random 32 w w' \<and> quiet w w'"
  by (auto simp: randomToken_def io_iffs readRandom_def syscall_def tokenAt_def same_random_def quiet_def
      split: list.splits option.splits)

lemma randomDataKey_Inr:
  "randomDataKey w = (Inr k, w') \<Longrightarrow> (\<exists>kb. k = b64_encode kb \<and> length kb = 32) \<and> same_random 32 w w' \<and> quiet w w'"
  by (auto simp: randomDataKey_def io_iffs readRandom_def syscall_def same_random_def quiet_def
      split: list.splits option.splits)

lemma tokenAt_shift: "same_random (32 * n) w w' \<Longrightarrow> tokenAt w' i = tokenAt w (n + i)"
  by (simp add: tokenAt_def same_random_def algebra_simps)

lemma same_random_trans: "same_random m w v \<Longrightarrow> same_random n v u \<Longrightarrow> same_random (m + n) w u"
  by (simp add: same_random_def)

definition secretFor :: "authlib \<Rightarrow> string \<Rightarrow> string \<Rightarrow> generatedCredential" where
  "secretFor A role token = \<lparr>gcID = initialID role, gcRole = role, gcSHA256 = hex_encode (au_sha256 A token)\<rparr>"

lemma generateCredentials_Inr:
  "generateCredentials A roles w = (Inr (cs, ps), w') \<Longrightarrow>
     cs = map (\<lambda>(role, t). secretFor A role t) (zip roles (map (tokenAt w) [0..<length roles]))
     \<and> ps = map (\<lambda>(role, t). (initialID role, t)) (zip roles (map (tokenAt w) [0..<length roles]))
     \<and> quiet w w'"
proof (induction roles arbitrary: w cs ps)
  case Nil
  then show ?case by simp
next
  case (Cons role roles)
  obtain t w1 cs' ps' where t: "randomToken w = (Inr t, w1)" "generateCredentials A roles w1 = (Inr (cs', ps'), w')"
    "cs = secretFor A role t # cs'" "ps = (initialID role, t) # ps'"
    using Cons.prems by (auto simp: io_iffs secretFor_def)
  note r = randomToken_Inr [OF t(1)]
  have "tokenAt w1 i = tokenAt w (Suc i)" for i using tokenAt_shift [of 1 w w1 i] r by simp
  then have "map (tokenAt w1) [0..<n] = map (tokenAt w) [1..<Suc n]" for n
    by (simp add: map_Suc_upt [symmetric] del: upt_Suc)
  moreover have "[0..<Suc n] = 0 # [1..<Suc n]" for n by (simp add: upt_rec)
  ultimately show ?case using Cons.IH [OF t(2)] t(3,4) r quiet_trans by auto
qed

lemma initSecrets_Inr:
  assumes "initSecrets C argv w = ((Inr u, os), w')" "dir = (if length argv > 2 then argv ! 2 else ''secrets'')" "d = toPath dir"
  obtains kb authJSON where "length kb = 32" "fcontent w' (d @ [''data_key'']) = Some (b64_encode kb @ newline)"
    "clSecrets C [secretFor (clAuth C) ''admin'' (tokenAt w 1), secretFor (clAuth C) ''writer'' (tokenAt w 2),
       secretFor (clAuth C) ''reader'' (tokenAt w 3)] = Some authJSON"
    "fcontent w' (d @ [''auth.json'']) = Some (authJSON @ newline)" "map_of (ents w) (d @ [''data_key'']) = None"
    "map_of (ents w) (d @ [''auth.json'']) = None"
    "tl os = [Stdout (''admin-initial='' @ tokenAt w 1), Stdout (''writer-initial='' @ tokenAt w 2), Stdout (''reader-initial='' @ tokenAt w 3)]"
proof -
  let ?k = "d @ [''data_key'']" and ?a = "d @ [''auth.json'']"
  obtain w1 w2 w3 key w4 w5 cs ps w6 authJSON where r: "mkdirAll d w = (Inr (), w1)" "chmodDir d w1 = (Inr (), w2)"
    "refuseExisting [?k, ?a] w2 = (Inr (), w3)" "randomDataKey w3 = (Inr key, w4)" "createSecretFile ?k (key @ newline) w4 = (Inr (), w5)"
    "generateCredentials (clAuth C) initialRoles w5 = (Inr (cs, ps), w6)" "clSecrets C cs = Some authJSON"
    "createSecretFile ?a (authJSON @ newline) w6 = (Inr (), w')"
    "tl os = map (\<lambda>role. Stdout (initialID role @ ''='' @ the (map_of ps (initialID role)))) initialRoles"
    using assms by (auto simp: initSecrets_def Let_def cmd_bind_Inr split: option.splits)
  have fold: "entropy (fold setDir qs v) = entropy v \<and> drawn (fold setDir qs v) = drawn v" for qs v
    by (induction qs arbitrary: v) (simp_all add: setDir_def)
  have "same_random 0 w w1"
    using r(1) fold by (auto simp: mkdirAll_def syscall_def same_random_def Let_def simp del: upt_Suc split: list.splits option.splits if_splits)
  moreover have a12: "at_start w1 w2"
    using r(2) by (auto simp: chmodDir_def syscall_def at_start_def split: list.splits option.splits if_splits)
  moreover have a23: "at_start w2 w3" by (rule reads_run [OF reads_refuseExisting r(3)])
  moreover note key = randomDataKey_Inr [OF r(4)]
  moreover note pk = createSecretFile_post [OF r(5)]
  ultimately have "same_random 32 w w5"
    using at_start_views(9,10) [OF a12] at_start_views(9,10) [OF a23]
    by (simp add: same_random_def secret_post_def untouched_def same_env_def)
  then have tk: "tokenAt w5 i = tokenAt w (Suc i)" for i using tokenAt_shift [of 1 w w5 i] by simp
  note g = generateCredentials_Inr [OF r(6)]
  have t: "map (tokenAt w5) [0..<length initialRoles] = [tokenAt w 1, tokenAt w 2, tokenAt w 3]"
    by (simp add: initialRoles_def tk upt_rec numeral_eq_Suc)
  have cs: "cs = [secretFor (clAuth C) ''admin'' (tokenAt w 1), secretFor (clAuth C) ''writer'' (tokenAt w 2),
       secretFor (clAuth C) ''reader'' (tokenAt w 3)]"
    using g t by (simp add: initialRoles_def)
  have tl: "tl os = [Stdout (''admin-initial='' @ tokenAt w 1), Stdout (''writer-initial='' @ tokenAt w 2), Stdout (''reader-initial='' @ tokenAt w 3)]"
    using r(9) g t by (simp add: initialRoles_def initialID_def)
  have e: "ents w2 = ents w" using mkdirAll_views(1) [OF r(1)] at_start_views(1) [OF a12] by simp
  have un: "map_of (ents w) ?k = None" "map_of (ents w) ?a = None"
    using refuseExisting_Inr [OF r(3)] e by (auto simp: unnamed_def)
  note pa = createSecretFile_post [OF r(8)]
  have f5: "fcontent w5 ?k = Some (key @ newline)" using pk by (simp add: secret_post_def)
  have "keeps ?k w5 w6" using g quiet_keeps by blast
  from keeps_fcontent [OF this] have f6: "fcontent w6 ?k = Some (key @ newline)" using f5 by simp
  have "keeps ?k w6 w'"
  proof -
    have "untouched w6 ?a w'" using pa by (simp add: secret_post_def)
    then show ?thesis unfolding untouched_def by simp
  qed
  from keeps_fcontent [OF this] have fk: "fcontent w' ?k = Some (key @ newline)" using f6 by simp
  obtain kb where kb: "key = b64_encode kb" "length kb = 32" using key by blast
  have "clSecrets C [secretFor (clAuth C) ''admin'' (tokenAt w 1), secretFor (clAuth C) ''writer'' (tokenAt w 2),
       secretFor (clAuth C) ''reader'' (tokenAt w 3)] = Some authJSON" using r(7) unfolding cs .
  moreover have "fcontent w' ?a = Some (authJSON @ newline)" using pa by (simp add: secret_post_def)
  ultimately show thesis by (rule that [OF kb(2) fk [unfolded kb(1)] _ _ un tl])
qed

lemma b64_key_round_trip: "length kb = 32 \<Longrightarrow> decodeKey (trimSpace (b64_encode kb @ newline)) = Inr kb"
proof -
  assume l: "length kb = 32"
  have ne: "b64_encode kb \<noteq> []" using l b64_encode_inj [of kb "[]"] by (cases kb rule: b64_encode.cases) auto
  have "trimSpace (b64_encode kb @ newline) = b64_encode kb"
    using trimSpace_newline [OF ne b64_encode_printable] by (simp add: newline_def)
  then show ?thesis by (simp add: decodeKey_def l)
qed

text \<open>The tokens have 43 characters.\<close>

lemma length_b64_unpadded: "length (filter (\<lambda>c. c \<noteq> CHR ''='') (b64_encode bs)) = (length bs * 4 + 2) div 3"
  by (induction bs rule: b64_encode.induct) simp_all

lemma length_raw_url_32: "length b = 32 \<Longrightarrow> length (b64_raw_url_encode b) = 43"
  by (simp add: b64_raw_url_encode_def length_b64_unpadded)

lemma length_tokenAt [simp]: "length (tokenAt w i) = 43"
  unfolding tokenAt_def by (rule length_raw_url_32) simp

subsection \<open>The first credentials\<close>

definition recordOf :: "generatedCredential \<Rightarrow> credentialRecord" where
  "recordOf g = \<lparr>crID = gcID g, crRole = gcRole g, crSHA256 = gcSHA256 g, crNotAfter = None, crAllow = None\<rparr>"

text \<open>What \<^verbatim>\<open>MarshalIndent\<close> writes is what the decoder of the auth file reads.\<close>

definition secrets_ok :: "clilib \<Rightarrow> bool" where
  "secrets_ok C \<longleftrightarrow> (\<forall>cs b. list_all utf8_record (map recordOf cs) \<longrightarrow> clSecrets C cs = Some b \<longrightarrow>
     dec_creds (clAuth C) (b @ newline) = Some (map recordOf cs, True))"

definition initialCredential :: "authlib \<Rightarrow> string \<Rightarrow> Role \<Rightarrow> string \<Rightarrow> credential" where
  "initialCredential A role r t = \<lparr>cdPrincipal = \<lparr>prID = initialID role, prRole = r, prAllow = None\<rparr>,
     cdDigest = au_sha256 A t, cdNotAfter = None\<rparr>"

lemma initial_roles:
  "(role, r) \<in> {(''admin'', RoleAdmin), (''writer'', RoleWriter), (''reader'', RoleReader)} \<Longrightarrow>
   trimSpace (initialID role) = initialID role \<and> validCredentialID (initialID role) \<and> parseRole role = Inr r
   \<and> utf8_valid (initialID role) \<and> utf8_valid role"
  by (elim insertE emptyE; clarsimp; intro conjI; code_simp)

lemma convert_initial:
  assumes "length (au_sha256 A t) = 32" "(role, r) \<in> {(''admin'', RoleAdmin), (''writer'', RoleWriter), (''reader'', RoleReader)}"
  shows "convert (recordOf (secretFor A role t)) = Some (initialCredential A role r t)" "utf8_record (recordOf (secretFor A role t))"
proof -
  note i = initial_roles [OF assms(2)]
  have v: "validateAllow None = Inr None" by (simp add: validateAllow_def)
  show "convert (recordOf (secretFor A role t)) = Some (initialCredential A role r t)"
    using i v assms(1) hex_plain(1) [of "au_sha256 A t"]
    by (simp add: convert_def recordOf_def secretFor_def initialCredential_def)
  show "utf8_record (recordOf (secretFor A role t))"
    using i hex_plain(2) by (simp add: utf8_record_def recordOf_def secretFor_def utf8_allow_def)
qed

lemma init_program:
  assumes "length argv > 1" "argv ! 1 = ''init''" "mainProgram C argv w = ((code, os), w')"
  obtains "initSecrets C argv w = ((Inr (), os), w')" "code = 0"
    | es os' where "initSecrets C argv w = ((Inl es, os'), w')" "code = 1"
proof -
  have "dispatch C argv = initSecrets C argv" using assms(1,2) by (simp add: dispatch_def Let_def)
  then show thesis using assms(3) that by (auto simp: mainProgram_def split: prod.splits sum.splits)
qed

lemma load_initial:
  assumes s: "secrets_ok C" "\<forall>b. length (au_sha256 (clAuth C) b) = 32" and d: "distinct (map (au_sha256 (clAuth C)) [t1, t2, t3])"
    and j: "clSecrets C [secretFor (clAuth C) ''admin'' t1, secretFor (clAuth C) ''writer'' t2, secretFor (clAuth C) ''reader'' t3] = Some b"
    and v: "faults v = []" "toPath p \<notin> set (dirs v)" "fcontent v (toPath p) = Some (b @ newline)"
  shows "LoadAuthenticator (clAuth C) p v = (Inr [initialCredential (clAuth C) ''admin'' RoleAdmin t1,
    initialCredential (clAuth C) ''writer'' RoleWriter t2, initialCredential (clAuth C) ''reader'' RoleReader t3], v)"
proof -
  let ?A = "clAuth C"
  let ?cs = "[secretFor ?A ''admin'' t1, secretFor ?A ''writer'' t2, secretFor ?A ''reader'' t3]"
  have c: "convert (recordOf (secretFor ?A ''admin'' t)) = Some (initialCredential ?A ''admin'' RoleAdmin t)"
     "convert (recordOf (secretFor ?A ''writer'' t)) = Some (initialCredential ?A ''writer'' RoleWriter t)"
     "convert (recordOf (secretFor ?A ''reader'' t)) = Some (initialCredential ?A ''reader'' RoleReader t)"
     "utf8_record (recordOf (secretFor ?A ''admin'' t))" "utf8_record (recordOf (secretFor ?A ''writer'' t))"
     "utf8_record (recordOf (secretFor ?A ''reader'' t))" for t
    using convert_initial [where A = ?A and t = t] s(2) by simp_all
  have l: "loadTokens [] [] (map recordOf ?cs) = Inr [initialCredential ?A ''admin'' RoleAdmin t1,
    initialCredential ?A ''writer'' RoleWriter t2, initialCredential ?A ''reader'' RoleReader t3]"
    unfolding loadTokens_iff using c d by (simp add: initialCredential_def cdID_def initialID_def)
  have "dec_creds ?A (b @ newline) = Some (map recordOf ?cs, True)"
  proof -
    have "list_all utf8_record (map recordOf ?cs)" using c(4-6) by simp
    then show ?thesis using s(1) j unfolding secrets_ok_def by blast
  qed
  then show ?thesis
    using l v readFile_no_fault [OF v(1), of "toPath p"] by (simp add: LoadAuthenticator_def readAuthFile_def io_defs)
qed

subsection \<open>Adding a token\<close>

text \<open>The optional time among the arguments, and the flags after it.\<close>

definition notAfterArg :: "clilib \<Rightarrow> string list \<Rightarrow> go_error + time option \<times> string list" where
  "notAfterArg C rest = (if rest \<noteq> [] \<and> \<not> hasPrefix (hd rest) ''--''
     then bindE (clParseTime C (hd rest)) (\<lambda>t. Inr (Some t, tl rest)) else Inr (None, rest))"

lemma addToken_Inr:
  assumes "addToken C argv w = ((Inr u, os), w')"
  obtains na flags a token w1 where "notAfterArg C (drop 5 argv) = Inr (na, flags)" "parseAllowFlags flags = Inr a"
    "randomToken w = (Inr token, w1)" "AddToken (clAuth C) (argv ! 2) (argv ! 3) (argv ! 4) token na a w1 = (Inr (), w')"
    "hd os = Stdout (argv ! 3 @ ''='' @ token)"
proof -
  have len: "5 \<le> length argv" using assms by (auto simp: addToken_def Let_def split: if_splits)
  let ?rest = "drop 3 (drop 2 argv)"
  define X where "X = (if ?rest \<noteq> [] \<and> \<not> hasPrefix (hd ?rest) ''--''
           then (case clParseTime C (hd ?rest) of
                   Inl e \<Rightarrow> cmd_fail (Wrapped ''NOT_AFTER must be RFC3339: %w'' [] e)
                 | Inr parsed \<Rightarrow> cmd_ret (Some parsed, tl ?rest))
           else cmd_ret (None, ?rest))"
  define F where "F = (\<lambda>(na, rest). cmd_bind (cmd_do (io_lift (parseAllowFlags rest))) (\<lambda>allow.
        cmd_bind (cmd_do randomToken) (\<lambda>token.
        cmd_bind (cmd_do (AddToken (clAuth C) (drop 2 argv ! 0) (drop 2 argv ! 1) (drop 2 argv ! 2) token na allow)) (\<lambda>_.
        cmd_print [Stdout (drop 2 argv ! 1 @ ''='' @ token),
          Stderr ''Token added. Store the plaintext in a password manager, then recreate the service to load the updated auth file.'']))))"
  have nl: "(length (drop 2 argv) < 3) = False" using len by simp
  have "cmd_bind X F w = ((Inr u, os), w')"
    using assms unfolding addToken_def Let_def nl if_False X_def F_def .
  then obtain na flags os1 w0 os2 where n: "X w = ((Inr (na, flags), os1), w0)" and r: "F (na, flags) w0 = ((Inr u, os2), w')"
    and os: "os = os1 @ os2" unfolding cmd_bind_Inr by (metis prod.collapse)
  have n: "notAfterArg C (drop 5 argv) = Inr (na, flags)" "os1 = []" "w0 = w"
    using n len by (auto simp: X_def notAfterArg_def bindE_def split: if_splits sum.splits)
  obtain a token w1 where "parseAllowFlags flags = Inr a" "randomToken w = (Inr token, w1)"
      "AddToken (clAuth C) (argv ! 2) (argv ! 3) (argv ! 4) token na a w1 = (Inr (), w')"
      "hd os2 = Stdout (argv ! 3 @ ''='' @ token)"
    using r len n by (auto simp: F_def cmd_bind_Inr io_iffs)
  then show thesis using that n os by simp
qed

lemma added_token:
  assumes "authlib_ok A" "auth_path_ok p w" "\<forall>allow. validateAllow allow0 = Inr allow \<longrightarrow> utf8_allow allow"
    and "AddToken A p i role token na allow0 w = (Inr (), w')" "restarts w' v"
  shows "\<exists>new r allow. LoadAuthenticator A p v = (Inr new, v) \<and> parseRole role = Inr r \<and> validateAllow allow0 = Inr allow
    \<and> (\<forall>now pr. Authenticate A new now token = (pr, True) \<longleftrightarrow> (\<forall>t. na = Some t \<longrightarrow> now < t)
        \<and> pr = \<lparr>prID = trimSpace i, prRole = r, prAllow = map_option omit_allow allow\<rparr>)"
proof -
  obtain cs r allow where l: "parseRole role = Inr r" "validateAllow allow0 = Inr allow" "32 \<le> length token" "length token \<le> 512"
      "au_sha256 A token \<notin> cdDigest ` set cs" "distinct (map cdDigest cs)"
      "LoadAuthenticator A p v = (Inr (map omit_cred (cs @ [added_cred A i r token na allow])), v)"
    by (rule AddToken_reload [OF assms(1,2) _ assms(4,5)]) (use assms(3) in blast)+
  let ?c = "added_cred A i r token na allow" and ?new = "cs @ [added_cred A i r token na allow]"
  have "distinct (map cdDigest ?new)" using l(5,6) by (auto simp: added_cred_def)
  then have d: "distinct (map cdDigest (map omit_cred ?new))" by (simp only: omit_cred_views)
  have "(\<exists>c \<in> set (map omit_cred ?new). cdDigest c = au_sha256 A token \<and> active_at now c \<and> q = cdPrincipal c)
        \<longleftrightarrow> active_at now ?c \<and> q = cdPrincipal (omit_cred ?c)" for now q
    using l(5) by (auto simp: added_cred_def active_at_def intro: rev_image_eqI)
  then have "Authenticate A (map omit_cred ?new) now token = (pr, True) \<longleftrightarrow> (\<forall>t. na = Some t \<longrightarrow> now < t)
        \<and> pr = \<lparr>prID = trimSpace i, prRole = r, prAllow = map_option omit_allow allow\<rparr>" for now pr
    unfolding Authenticate_iff [OF d] using l(3,4)
    by (auto simp: added_cred_def omit_cred_def active_at_def split: option.splits)
  then show ?thesis using l(1,2,7) by blast
qed

end
