(* ===== verification/ServeCorrect.thy ===== *)
theory ServeCorrect
  imports Cli HttpRefine
begin

text \<open>
  A run of the server is a run of the store: the requests one after the other, the appends that were
  acknowledged, closing, and what opens after a crash.
\<close>

subsection \<open>The requests of a run\<close>

text \<open>Every request of the run satisfies \<open>good_request\<close> in the state it finds.\<close>

fun good_run :: "httplib \<Rightarrow> Request list \<Rightarrow> API \<Rightarrow> world \<Rightarrow> bool" where
  "good_run H [] a w = True"
| "good_run H (r # rs) a w = (good_request H a w r
     \<and> (let c = serveHTTP (solo H) r a w in good_run H rs (cnAPI c) (cnWorld c)))"

text \<open>The hash that the answer to an append reports as new.\<close>

definition acknowledgedHash :: "Request \<Rightarrow> conn \<Rightarrow> string list" where
  "acknowledgedHash r c = (case (findRoute routes r, wStatusLine (cnW c), wBody (cnW c)) of
       (Some (EpAppend, _), Some st, JSONBody (JObj ((_, JStr h) # _))) \<Rightarrow> if st = 201 then [h] else []
     | _ \<Rightarrow> [])"

lemma acknowledgedHash_other:
  "\<not> ((\<exists>i. findRoute routes r = Some (EpAppend, i)) \<and> wStatusLine (cnW c) = Some 201) \<Longrightarrow> acknowledgedHash r c = []"
  by (auto simp: acknowledgedHash_def split: option.split Endpoint.split ResponseBody.split json.split list.split)

lemma served_request:
  assumes good: "good_request H a w r" and x: "at_state x a w" and c: "c = serveHTTP (solo H) r a w"
  shows "\<exists>y. store_steps (hGo H) dir x y \<and> at_state y (cnAPI c) (cnWorld c)
    \<and> subseq (acked x @ acknowledgedHash r c) (acked y)"
proof -
  obtain y where y: "store_steps (hGo H) dir x y" "smem y = Some (apStore (cnAPI c))" "sworld y = cnWorld c"
    and a: "(\<exists>i. findRoute routes r = Some (EpAppend, i)) \<and> wStatusLine (cnW c) = Some 201 \<longrightarrow>
         (\<exists>h root. wBody (cnW c) = JSONBody (JObj [(''hash'', JStr h), (''replayed'', JBool False), (''root'', JStr root)])
            \<and> acked y = acked x @ [h])"
    using request_refines [OF good, of x dir] x unfolding c [symmetric] Let_def at_state_def by blast
  have "subseq (acked x @ acknowledgedHash r c) (acked y)"
  proof (cases "(\<exists>i. findRoute routes r = Some (EpAppend, i)) \<and> wStatusLine (cnW c) = Some 201")
    case True
    then obtain i h root where "findRoute routes r = Some (EpAppend, i)" "wStatusLine (cnW c) = Some 201"
      "wBody (cnW c) = JSONBody (JObj [(''hash'', JStr h), (''replayed'', JBool False), (''root'', JStr root)])"
      "acked y = acked x @ [h]" using a by blast
    then show ?thesis by (simp add: acknowledgedHash_def)
  next
    case False
    then show ?thesis using acknowledgedHash_other [OF False] steps_acked [OF y(1)] by simp
  qed
  then show ?thesis using y by (auto simp: at_state_def)
qed

lemma served_requests:
  "good_run H rs a w \<Longrightarrow> at_state x a w \<Longrightarrow> serveRequests (solo H) rs a w = (cs, a', w') \<Longrightarrow>
   \<exists>y. store_steps (hGo H) dir x y \<and> at_state y a' w'
     \<and> subseq (acked x @ concat (map2 acknowledgedHash rs cs)) (acked y)"
proof (induction rs arbitrary: x a w cs)
  case Nil
  then show ?case by (auto intro: store_steps.none)
next
  case (Cons r rs)
  let ?c = "serveHTTP (solo H) r a w"
  obtain ds where ds: "serveRequests (solo H) rs (cnAPI ?c) (cnWorld ?c) = (ds, a', w')" "cs = ?c # ds"
    using Cons.prems(3) by (auto simp: Let_def split: prod.splits)
  have g: "good_request H a w r" "good_run H rs (cnAPI ?c) (cnWorld ?c)" using Cons.prems(1) by (simp_all add: Let_def)
  obtain y where y: "store_steps (hGo H) dir x y" "at_state y (cnAPI ?c) (cnWorld ?c)"
      "subseq (acked x @ acknowledgedHash r ?c) (acked y)"
    using served_request [OF g(1) Cons.prems(2) refl, of dir] by blast
  obtain z where z: "store_steps (hGo H) dir y z" "at_state z a' w'" "subseq (acked y @ concat (map2 acknowledgedHash rs ds)) (acked z)"
    using Cons.IH [OF g(2) y(2) ds(1)] by blast
  have "subseq ((acked x @ acknowledgedHash r ?c) @ concat (map2 acknowledgedHash rs ds)) (acked y @ concat (map2 acknowledgedHash rs ds))"
    using y(3) by (simp only: subseq_append)
  then have "subseq (acked x @ concat (map2 acknowledgedHash (r # rs) cs)) (acked z)"
    using subseq_order.trans z(3) ds(2) by fastforce
  then show ?case using steps_trans [OF z(1) y(1)] z(2) by blast
qed

lemma closed_run:
  assumes "at_state y a w" shows "store_step L dir y (y\<lparr>smem := None, sworld := snd (closing (apStore a) w)\<rparr>)"
proof -
  obtain r v where r: "CloseStore (apStore a) w = (r, v)" by (cases "CloseStore (apStore a) w")
  have "snd (closing (apStore a) w) = v" using r by (auto simp: closing_def io_bind_def io_lift_def split: sum.splits)
  moreover have "store_step L dir y (y\<lparr>smem := None, sworld := v\<rparr>)"
    by (rule store_step.close) (use assms r in \<open>auto simp: at_state_def\<close>)
  ultimately show ?thesis by simp
qed

text \<open>A state of a store, what has become of it at the end of a run, and what opens after a crash.\<close>

lemma acked_survive:
  assumes ok: "golib_ok L" "dir \<noteq> []" and i: "sys_inv L dir x ns k" and s: "store_steps L dir x y"
    and c: "crash (sworld y) v" and run: "openStore L pid dir key explicit v = (Inr s, v')"
  shows "subseq (acked y) (history s) \<and> (\<forall>h \<in> set (acked y). \<exists>n. node_at L dir v' h n)"
proof -
  obtain ms j where j: "sys_inv L dir y ms j" using sys_inv_steps [OF ok s i] by blast
  obtain j' where "sys_inv L dir (y\<lparr>smem := None, sworld := v\<rparr>) (take j' ms) j'" using sys_inv_crash [OF j c] by blast
  then have d: "disk_inv L dir v (take j' ms) j'" "lock_alone dir v"
    and a: "subseq (acked y) (map nHash (take j' (take j' ms)))"
    by (simp_all add: sys_inv_def)
  note o = openStore_inv [OF d ok(2) run]
  have ix: "history s = map nHash (take j' ms)" using o(3) indexed_history by (auto simp: store_inv_def)
  have "\<exists>n. node_at L dir v' h n" if "h \<in> set (acked y)" for h
  proof -
    have "h \<in> set (map nHash (take j' (take j' ms)))" using list_emb_set [OF a that] by metis
    then obtain n where "n \<in> set (take j' ms)" "h = nHash n" by auto
    then show ?thesis using disk_inv_facts(3) [OF o(2)] stored_node_at by blast
  qed
  then show ?thesis using a ix by simp
qed

end
