(* ===== verification/CliProperties.thy ===== *)
theory CliProperties
  imports CliCorrect ServeCorrect HttpDemo PolicyProperties
begin

text \<open>
  The properties of the commands: a run of the server keeps what it acknowledged, the first secrets
  can be used and overwrite nothing, and the token that is printed is the one that gets in.
\<close>

section \<open>A run of the server\<close>


subsection \<open>A run with one request\<close>

definition demo_cli :: clilib where
  "demo_cli = \<lparr>clHttp = demoH, clPid = ''42'', clCwd = [], clStdin = [], clStdinTerminal = False,
     clParseTime = (\<lambda>s. Inr 9000), clSecrets = (\<lambda>cs. json_creds demoA (map recordOf cs)),
     clDocument = (\<lambda>d. Some (enc_doc d)), clEntry = (\<lambda>e. Some (ceType e)), clMigration = (\<lambda>i. Some []),
     clGet = (\<lambda>url. io_ret (200, ''200 OK'', [])),
     clListen = (\<lambda>s a w. \<lparr>lsRequests = [demo_post], lsShutdownError = None, lsResult = errServerClosed\<rparr>)\<rparr>"


section \<open>The first secrets\<close>

text \<open>
  C20. What \<^verbatim>\<open>jaybase-server init\<close> makes can be used. When it exits with 0, the key file holds a key of 32
  bytes that the store accepts, the auth file loads, and of the three tokens it has printed each gets in as
  the principal of its line, with the role of its line and no capability; no token with another sum gets in.
\<close>

theorem init_secrets_usable:
  assumes "secrets_ok C" "\<forall>b. length (au_sha256 (clAuth C) b) = 32" "1 < length argv" "argv ! 1 = ''init''"
    and "mainProgram C argv w = ((0, os), w')"
    and "d = toPath (if length argv > 2 then argv ! 2 else ''secrets'')" "toPath p = d @ [''auth.json'']"
    and "distinct (map (au_sha256 (clAuth C)) [tokenAt w 1, tokenAt w 2, tokenAt w 3])"
    and "faults v = []" "toPath p \<notin> set (dirs v)" "fcontent v (toPath p) = fcontent w' (toPath p)"
  shows "\<exists>ta tw tr key kb creds. tl os = [Stdout (''admin-initial='' @ ta), Stdout (''writer-initial='' @ tw), Stdout (''reader-initial='' @ tr)]
    \<and> fcontent w' (d @ [''data_key'']) = Some key \<and> decodeKey (trimSpace key) = Inr kb \<and> length kb = 32
    \<and> LoadAuthenticator (clAuth C) p v = (Inr creds, v)
    \<and> (\<forall>now token pr. Authenticate (clAuth C) creds now token = (pr, True) \<longleftrightarrow> 32 \<le> length token \<and> length token \<le> 512
        \<and> (\<exists>(t, i, r) \<in> {(ta, ''admin-initial'', RoleAdmin), (tw, ''writer-initial'', RoleWriter), (tr, ''reader-initial'', RoleReader)}.
             au_sha256 (clAuth C) t = au_sha256 (clAuth C) token \<and> pr = \<lparr>prID = i, prRole = r, prAllow = None\<rparr>))
    \<and> length ta = 43 \<and> length tw = 43 \<and> length tr = 43"
proof -
  let ?A = "clAuth C"
  have r: "initSecrets C argv w = ((Inr (), os), w')" by (rule init_program [OF assms(3-5)]) simp_all
  obtain kb j where k: "length kb = 32" "fcontent w' (d @ [''data_key'']) = Some (b64_encode kb @ newline)"
    and j: "clSecrets C [secretFor ?A ''admin'' (tokenAt w 1), secretFor ?A ''writer'' (tokenAt w 2), secretFor ?A ''reader'' (tokenAt w 3)] = Some j"
    and f: "fcontent w' (d @ [''auth.json'']) = Some (j @ newline)"
    and tl: "tl os = [Stdout (''admin-initial='' @ tokenAt w 1), Stdout (''writer-initial='' @ tokenAt w 2), Stdout (''reader-initial='' @ tokenAt w 3)]"
    by (rule initSecrets_Inr [OF r refl assms(6)])
  let ?cs = "[initialCredential ?A ''admin'' RoleAdmin (tokenAt w 1),
    initialCredential ?A ''writer'' RoleWriter (tokenAt w 2), initialCredential ?A ''reader'' RoleReader (tokenAt w 3)]"
  have fv: "fcontent v (toPath p) = Some (j @ newline)" using assms(7,11) f by simp
  note l = load_initial [OF assms(1,2,8) j assms(9,10) fv]
  have dd: "distinct (map cdDigest ?cs)" using assms(8) by (simp add: initialCredential_def)
  have a: "Authenticate ?A ?cs now token = (pr, True) \<longleftrightarrow> 32 \<le> length token \<and> length token \<le> 512
        \<and> (\<exists>(t, i, r) \<in> {(tokenAt w 1, ''admin-initial'', RoleAdmin), (tokenAt w 2, ''writer-initial'', RoleWriter), (tokenAt w 3, ''reader-initial'', RoleReader)}.
             au_sha256 ?A t = au_sha256 ?A token \<and> pr = \<lparr>prID = i, prRole = r, prAllow = None\<rparr>)" for now token pr
    unfolding Authenticate_iff [OF dd] by (simp add: initialCredential_def active_at_def initialID_def)
  show ?thesis
  proof (intro exI conjI allI)
    show "tl os = [Stdout (''admin-initial='' @ tokenAt w 1), Stdout (''writer-initial='' @ tokenAt w 2), Stdout (''reader-initial='' @ tokenAt w 3)]"
      by (fact tl)
    show "fcontent w' (d @ [''data_key'']) = Some (b64_encode kb @ newline)" by (fact k(2))
    show "decodeKey (trimSpace (b64_encode kb @ newline)) = Inr kb" by (fact b64_key_round_trip [OF k(1)])
    show "length kb = 32" by (fact k(1))
    show "LoadAuthenticator ?A p v = (Inr ?cs, v)" by (fact l)
  qed (rule a length_tokenAt)+
qed

subsection \<open>The secrets of a demonstration\<close>

definition demo_init_world :: world where
  "demo_init_world = demo_world\<lparr>entropy := (\<lambda>n. char_of n)\<rparr>"

lemma demo_cli_simps [simp]: "clHttp demo_cli = demoH" "clSecrets demo_cli cs = json_creds demoA (map recordOf cs)"
  by (simp_all add: demo_cli_def)

lemma demo_secrets_ok: "secrets_ok demo_cli"
proof -
  have "map written (map recordOf cs) = map recordOf cs" for cs by (simp add: written_def recordOf_def)
  then show ?thesis using demoA_ok by (simp add: secrets_ok_def authlib_ok_def newline_def)
qed

lemma demo_init_runs:
  "case initSecrets demo_cli [''jaybase-server'', ''init''] demo_init_world of ((r, os), w') \<Rightarrow>
     r = Inr () \<and> [''secrets'', ''auth.json''] \<notin> set (dirs w')"
  "distinct (map demo_sum [tokenAt demo_init_world 1, tokenAt demo_init_world 2, tokenAt demo_init_world 3])"
  "toPath ''secrets'' = [''secrets'']" "toPath ''secrets/auth.json'' = [''secrets'', ''auth.json'']"
  by code_simp+

theorem init_secrets_usable_witness:
  "\<exists>ta os w' v creds. mainProgram demo_cli [''jaybase-server'', ''init''] demo_init_world = ((0, os), w')
     \<and> hd (tl os) = Stdout (''admin-initial='' @ ta) \<and> LoadAuthenticator demoA ''secrets/auth.json'' v = (Inr creds, v)
     \<and> Authenticate demoA creds 0 ta = (\<lparr>prID = ''admin-initial'', prRole = RoleAdmin, prAllow = None\<rparr>, True)"
proof -
  let ?argv = "[''jaybase-server'', ''init'']"
  obtain os w' where i: "initSecrets demo_cli ?argv demo_init_world = ((Inr (), os), w')" "[''secrets'', ''auth.json''] \<notin> set (dirs w')"
    using demo_init_runs(1) by (auto split: prod.splits)
  have m: "mainProgram demo_cli ?argv demo_init_world = ((0, os), w')" using i(1) by (simp add: mainProgram_def dispatch_def Let_def)
  let ?v = "w'\<lparr>faults := []\<rparr>"
  have s: "\<forall>b. length (au_sha256 (clAuth demo_cli) b) = 32" "distinct (map (au_sha256 (clAuth demo_cli))
      [tokenAt demo_init_world 1, tokenAt demo_init_world 2, tokenAt demo_init_world 3])"
    using demoA_ok demo_init_runs(2) by (simp_all add: authlib_ok_def demoA_def)
  have v: "faults ?v = []" "toPath ''secrets/auth.json'' \<notin> set (dirs ?v)"
      "fcontent ?v (toPath ''secrets/auth.json'') = fcontent w' (toPath ''secrets/auth.json'')"
    using i(2) by (simp_all add: demo_init_runs(4) fcontent_def)
  have d: "[''secrets''] = toPath (if length ?argv > 2 then ?argv ! 2 else ''secrets'')"
      "toPath ''secrets/auth.json'' = [''secrets''] @ [''auth.json'']" by (simp_all add: demo_init_runs(3,4))
  obtain ta creds where t: "hd (tl os) = Stdout (''admin-initial='' @ ta)" "LoadAuthenticator demoA ''secrets/auth.json'' ?v = (Inr creds, ?v)"
      "\<forall>now pr. pr = \<lparr>prID = ''admin-initial'', prRole = RoleAdmin, prAllow = None\<rparr> \<longrightarrow> Authenticate demoA creds now ta = (pr, True)"
    using init_secrets_usable [OF demo_secrets_ok s(1) _ _ m d s(2) v] by fastforce
  then show ?thesis using m by blast
qed

text \<open>
  C21. \<^verbatim>\<open>init\<close> never touches what is there. Whatever fails, every file but the two new ones, and every
  file that was there under one of their names, is as it was, now and after a crash; and where
  one of the two names is taken the command exits with 1.
\<close>

theorem init_never_overwrites:
  assumes "1 < length argv" "argv ! 1 = ''init''" "mainProgram C argv w = ((code, os), w')"
    and "d = toPath (if length argv > 2 then argv ! 2 else ''secrets'')"
  shows "(\<forall>q. q \<notin> {d @ [''data_key''], d @ [''auth.json'']} \<or> map_of (ents w) q \<noteq> None \<longrightarrow> keeps q w w')
    \<and> (map_of (ents w) (d @ [''data_key'']) \<noteq> None \<or> map_of (ents w) (d @ [''auth.json'']) \<noteq> None \<longrightarrow> code = 1)"
proof -
  let ?new = "{d @ [''data_key''], d @ [''auth.json'']}"
  have sp: "spares ?new w w'" if "initSecrets C argv w = ((r, os'), w')" for r os'
    using cmd_keepsD [OF spares_init [OF refl] that] unfolding assms(4) .
  have no: "map_of (ents w) (d @ [''data_key'']) = None" "map_of (ents w) (d @ [''auth.json'']) = None"
    if "initSecrets C argv w = ((Inr (), os), w')"
    by (rule initSecrets_Inr [OF that refl assms(4)], assumption)+
  have "spares ?new w w'" by (rule init_program [OF assms(1-3)]) (rule sp, assumption)+
  moreover have "map_of (ents w) (d @ [''data_key'']) \<noteq> None \<or> map_of (ents w) (d @ [''auth.json'']) \<noteq> None \<longrightarrow> code = 1"
    by (rule init_program [OF assms(1-3)]) (use no in simp_all)
  ultimately show ?thesis unfolding spares_def by (rule conjI)
qed


theorem init_never_overwrites_witness:
  "\<exists>os w'. mainProgram demo_cli [''jaybase-server'', ''init''] (demo_init_world\<lparr>ents := [([''secrets'', ''data_key''], 1)]\<rparr>) = ((1, os), w')
     \<and> keeps [''secrets'', ''data_key''] (demo_init_world\<lparr>ents := [([''secrets'', ''data_key''], 1)]\<rparr>) w'"
proof -
  let ?argv = "[''jaybase-server'', ''init'']" and ?w = "demo_init_world\<lparr>ents := [([''secrets'', ''data_key''], 1)]\<rparr>"
  obtain code os w' where m: "mainProgram demo_cli ?argv ?w = ((code, os), w')" by (metis prod.collapse)
  have d: "[''secrets''] = toPath (if length ?argv > 2 then ?argv ! 2 else ''secrets'')" by (simp add: demo_init_runs(3))
  have "code = 1" "keeps [''secrets'', ''data_key''] ?w w'"
    using init_never_overwrites [OF _ _ m d] by simp_all
  then show ?thesis using m by blast
qed

section \<open>Adding a token\<close>

text \<open>
  The token that \<^verbatim>\<open>add-token\<close> prints is the one that gets in. When the command exits with 0, its line
  names the credential and a random token of 43 characters; after a restart or a crash the auth file
  loads, and this token gets in until the time given, if one is given, with the role and the capability of the
  flags.
\<close>

theorem add_token_command:
  assumes "authlib_ok (clAuth C)" "1 < length argv" "argv ! 1 = ''add-token''" "mainProgram C argv w = ((0, os), w')"
    and "auth_path_ok (argv ! 2) w" "\<forall>na flags a allow. notAfterArg C (drop 5 argv) = Inr (na, flags) \<and> parseAllowFlags flags = Inr a
        \<and> validateAllow a = Inr allow \<longrightarrow> utf8_allow allow"
    and "restarts w' v"
  shows "\<exists>token na flags a allow r new. hd os = Stdout (argv ! 3 @ ''='' @ token) \<and> length token = 43
    \<and> notAfterArg C (drop 5 argv) = Inr (na, flags) \<and> parseAllowFlags flags = Inr a \<and> validateAllow a = Inr allow
    \<and> parseRole (argv ! 4) = Inr r \<and> LoadAuthenticator (clAuth C) (argv ! 2) v = (Inr new, v)
    \<and> (\<forall>now pr. Authenticate (clAuth C) new now token = (pr, True) \<longleftrightarrow> (\<forall>t. na = Some t \<longrightarrow> now < t)
          \<and> pr = \<lparr>prID = trimSpace (argv ! 3), prRole = r, prAllow = map_option omit_allow allow\<rparr>)"
proof -
  have "dispatch C argv = addToken C argv" using assms(2,3) by (simp add: dispatch_def Let_def)
  then have "addToken C argv w = ((Inr (), os), w')"
    using assms(4) by (auto simp: mainProgram_def split: prod.splits sum.splits)
  then obtain na flags a token w1 where n: "notAfterArg C (drop 5 argv) = Inr (na, flags)" "parseAllowFlags flags = Inr a"
    and t: "randomToken w = (Inr token, w1)" and ad: "AddToken (clAuth C) (argv ! 2) (argv ! 3) (argv ! 4) token na a w1 = (Inr (), w')"
    and os: "hd os = Stdout (argv ! 3 @ ''='' @ token)"
    by (rule addToken_Inr)
  note r = randomToken_Inr [OF t]
  have "auth_path_ok (argv ! 2) w1" using assms(5) r by (auto simp: auth_path_ok_def quiet_def)
  moreover have "\<forall>allow. validateAllow a = Inr allow \<longrightarrow> utf8_allow allow" using assms(6) n by blast
  ultimately have "\<exists>new r allow. LoadAuthenticator (clAuth C) (argv ! 2) v = (Inr new, v) \<and> parseRole (argv ! 4) = Inr r
    \<and> validateAllow a = Inr allow \<and> (\<forall>now pr. Authenticate (clAuth C) new now token = (pr, True) \<longleftrightarrow> (\<forall>t. na = Some t \<longrightarrow> now < t)
        \<and> pr = \<lparr>prID = trimSpace (argv ! 3), prRole = r, prAllow = map_option omit_allow allow\<rparr>)"
    by (intro added_token [OF assms(1) _ _ ad assms(7)])
  then
  obtain new role allow where a: "LoadAuthenticator (clAuth C) (argv ! 2) v = (Inr new, v) \<and> parseRole (argv ! 4) = Inr role
    \<and> validateAllow a = Inr allow \<and> (\<forall>now pr. Authenticate (clAuth C) new now token = (pr, True) \<longleftrightarrow> (\<forall>t. na = Some t \<longrightarrow> now < t)
        \<and> pr = \<lparr>prID = trimSpace (argv ! 3), prRole = role, prAllow = map_option omit_allow allow\<rparr>)" by (elim exE)
  have len: "length token = 43" using r by simp
  show ?thesis
    by (rule exI [of _ token], rule exI [of _ na], rule exI [of _ flags], rule exI [of _ a], rule exI [of _ allow],
        rule exI [of _ role], rule exI [of _ new]) (insert a n os len, elim conjE, intro conjI, assumption+)
qed

lemma demo_add_runs:
  "case addToken demo_cli [''jaybase-server'', ''add-token'', ''auth.json'', ''bob'', ''reader''] demo_auth_world of ((r, os), w') \<Rightarrow>
     r = Inr () \<and> faults w' = []"
  by code_simp

theorem add_token_command_witness:
  "\<exists>token os w' new. mainProgram demo_cli [''jaybase-server'', ''add-token'', ''auth.json'', ''bob'', ''reader''] demo_auth_world = ((0, os), w')
     \<and> hd os = Stdout (''bob='' @ token) \<and> LoadAuthenticator demoA ''auth.json'' w' = (Inr new, w')
     \<and> Authenticate demoA new 0 token = (\<lparr>prID = ''bob'', prRole = RoleReader, prAllow = None\<rparr>, True)"
proof -
  let ?argv = "[''jaybase-server'', ''add-token'', ''auth.json'', ''bob'', ''reader'']"
  obtain os w' where i: "addToken demo_cli ?argv demo_auth_world = ((Inr (), os), w')" "faults w' = []"
    using demo_add_runs by (auto split: prod.splits)
  have m: "mainProgram demo_cli ?argv demo_auth_world = ((0, os), w')" using i(1) by (simp add: mainProgram_def dispatch_def Let_def)
  have k: "restarts w' w'" using i(2) by (simp add: restarts_def)
  have c: "trimSpace ''bob'' = ''bob''" "parseRole ''reader'' = Inr RoleReader" by code_simp+
  have na: "notAfterArg demo_cli (drop 5 ?argv) = Inr (None, [])" "parseAllowFlags [] = Inr None" "validateAllow None = Inr None"
    by (simp_all add: notAfterArg_def parseAllowFlags_def validateAllow_def)
  have u: "\<forall>na flags a allow. notAfterArg demo_cli (drop 5 ?argv) = Inr (na, flags) \<and> parseAllowFlags flags = Inr a
        \<and> validateAllow a = Inr allow \<longrightarrow> utf8_allow allow" using na by (auto simp: utf8_allow_def)
  have p: "authlib_ok (clAuth demo_cli)" "auth_path_ok (?argv ! 2) demo_auth_world"
      "1 < length ?argv" "?argv ! 1 = ''add-token''" using demoA_ok demo_auth(3) by simp_all
  obtain token na flags a allow r new where h: "hd os = Stdout (?argv ! 3 @ ''='' @ token)"
      "notAfterArg demo_cli (drop 5 ?argv) = Inr (na, flags)" "parseAllowFlags flags = Inr a" "validateAllow a = Inr allow"
      "parseRole (?argv ! 4) = Inr r" "LoadAuthenticator (clAuth demo_cli) (?argv ! 2) w' = (Inr new, w')"
      "\<forall>now pr. Authenticate (clAuth demo_cli) new now token = (pr, True) \<longleftrightarrow> (\<forall>t. na = Some t \<longrightarrow> now < t)
          \<and> pr = \<lparr>prID = trimSpace (?argv ! 3), prRole = r, prAllow = map_option omit_allow allow\<rparr>"
    using add_token_command [OF p(1,3,4) m p(2) u k] by (elim exE conjE)
  have "na = None" "allow = None" "r = RoleReader" using h(2-5) na c by auto
  then have "Authenticate demoA new 0 token = (\<lparr>prID = ''bob'', prRole = RoleReader, prAllow = None\<rparr>, True)"
    using h(7) c by simp
  then show ?thesis using m h(1,6) by (intro exI [of _ token] exI [of _ os] exI [of _ w'] exI [of _ new]) simp
qed

end
